(* ===== verification/Prelude.thy ===== *)
theory Prelude
  imports Main "HOL-Library.Word"
begin

unbundle bit_operations_syntax

text \<open>
  Shared ground of the development: the machine types of the Go code, errors as values,
  loops that stop at the first error, fixed-width byte encodings and the overflow guards
  on \<open>uint64\<close>.
\<close>

section \<open>Machine types\<close>

type_synonym u8 = "8 word"
type_synonym u32 = "32 word"
type_synonym u64 = "64 word"
type_synonym bytes = "u8 list"

text \<open>
  A Go array \<open>[32]byte\<close> that is only compared, copied and hashed is a 256-bit word, read
  big-endian; \<open>[20]byte\<close> is a 160-bit word. \<open>bytes.Compare\<close> on such arrays is the order of
  the words.
\<close>

type_synonym hash = "256 word"
type_synonym address = "160 word"

named_theorems err_simps \<open>rules that take apart a chain of checks that succeeded\<close>
named_theorems u64_simps \<open>overflow guards and arithmetic on uint64 in terms of nat\<close>
named_theorems enc_length \<open>lengths of fixed-width encodings\<close>

section \<open>Errors as values\<close>

text \<open>
  A Go function with result \<open>error\<close> is a function into \<open>'e option\<close> (\<open>None\<close> is \<open>nil\<close>);
  one with result \<open>(T, error)\<close> is a function into \<open>'e + 'T\<close>.
\<close>

definition bindE :: "'e + 'a \<Rightarrow> ('a \<Rightarrow> 'e + 'b) \<Rightarrow> 'e + 'b" where
  "bindE m f = (case m of Inl e \<Rightarrow> Inl e | Inr x \<Rightarrow> f x)"

definition check :: "'e option \<Rightarrow> 'e + 'b \<Rightarrow> 'e + 'b" where
  "check c k = (case c of Some e \<Rightarrow> Inl e | None \<Rightarrow> k)"

definition and_then :: "'e option \<Rightarrow> 'e option \<Rightarrow> 'e option" where
  "and_then c d = (case c of Some e \<Rightarrow> Some e | None \<Rightarrow> d)"

lemma bindE_simps [simp]: "bindE (Inl e) f = Inl e" "bindE (Inr x) f = f x"
  by (simp_all add: bindE_def)

lemma bindE_Inr [err_simps]: "bindE m f = Inr y \<longleftrightarrow> (\<exists>x. m = Inr x \<and> f x = Inr y)"
  by (cases m) auto

lemma check_simps [simp]: "check None k = k" "check (Some e) k = Inl e"
  by (simp_all add: check_def)

lemma check_Inr [err_simps]: "check c k = Inr y \<longleftrightarrow> c = None \<and> k = Inr y"
  by (cases c) auto

lemma and_then_simps [simp]: "and_then None d = d" "and_then (Some e) d = Some e"
  by (simp_all add: and_then_def)

lemma and_then_None [err_simps]: "and_then c d = None \<longleftrightarrow> c = None \<and> d = None"
  by (cases c) auto

lemma and_then_ex_Some [simp]:
  "(\<exists>y. and_then c d = Some y) \<longleftrightarrow> (\<exists>y. c = Some y) \<or> (\<exists>y. d = Some y)"
  by (cases c) auto

lemma if_Some_None [err_simps]: "(if b then Some e else c) = None \<longleftrightarrow> \<not> b \<and> c = None"
  by simp

lemma if_Inl_Inr [err_simps]: "(if b then Inl e else m) = Inr y \<longleftrightarrow> \<not> b \<and> m = Inr y"
  by simp

text \<open>A loop that returns the first error of its body.\<close>

fun first_error :: "('a \<Rightarrow> 'e option) \<Rightarrow> 'a list \<Rightarrow> 'e option" where
  "first_error f [] = None"
| "first_error f (x # xs) = and_then (f x) (first_error f xs)"

lemma first_error_None [err_simps]: "first_error f xs = None \<longleftrightarrow> (\<forall>x \<in> set xs. f x = None)"
  by (induction xs) (auto simp: and_then_None)

lemma first_error_append: "first_error f (xs @ ys) = and_then (first_error f xs) (first_error f ys)"
  by (induction xs) (auto simp: and_then_def split: option.splits)

text \<open>A loop that threads a state and returns the first error of its body.\<close>

fun foldE :: "('s \<Rightarrow> 'a \<Rightarrow> 'e + 's) \<Rightarrow> 's \<Rightarrow> 'a list \<Rightarrow> 'e + 's" where
  "foldE f s [] = Inr s"
| "foldE f s (x # xs) = bindE (f s x) (\<lambda>s'. foldE f s' xs)"

lemma foldE_invariant:
  assumes "foldE f s xs = Inr s'" and "P s"
    and "\<And>t x t'. x \<in> set xs \<Longrightarrow> P t \<Longrightarrow> f t x = Inr t' \<Longrightarrow> P t'"
  shows "P s'"
  using assms
proof (induction xs arbitrary: s)
  case Nil
  then show ?case by simp
next
  case (Cons x xs)
  then obtain t where t: "f s x = Inr t" "foldE f t xs = Inr s'"
    by (auto simp: bindE_Inr)
  have "P t" using Cons.prems(2,3) t(1) by auto
  with t(2) Cons.prems(3) Cons.IH show ?case by (meson list.set_intros(2))
qed

lemma foldE_append: "foldE f s (xs @ ys) = bindE (foldE f s xs) (\<lambda>t. foldE f t ys)"
  by (induction xs arbitrary: s) (auto simp: bindE_def split: sum.splits)

section \<open>uint64 arithmetic\<close>

abbreviation max_u64 :: u64 where
  "max_u64 \<equiv> - 1"

lemma unat_max_u64 [u64_simps]: "unat max_u64 = 2 ^ 64 - 1"
  by (simp add: unsigned_minus_1_eq_mask mask_eq_exp_minus_1)

lemma unat_u64_less: "unat (x :: u64) < 2 ^ 64"
  using unsigned_less [of x, where 'a = nat] by simp

text \<open>The guard \<open>a > math.MaxUint64 - b\<close> that precedes the sums of the code.\<close>

lemma add_guard [u64_simps]: "(a :: u64) > max_u64 - b \<longleftrightarrow> unat a + unat b \<ge> 2 ^ 64"
proof -
  have b: "b \<le> max_u64" by simp
  have "unat (max_u64 - b) = 2 ^ 64 - 1 - unat b"
    using unat_sub [OF b] by (simp add: unsigned_minus_1_eq_mask mask_eq_exp_minus_1)
  moreover have "unat b < 2 ^ 64" by (rule unat_u64_less)
  ultimately show ?thesis
    unfolding word_less_nat_alt by linarith
qed

lemma unat_add_u64 [u64_simps]: "unat a + unat b < 2 ^ 64 \<Longrightarrow> unat (a + b :: u64) = unat a + unat b"
  by (subst unat_word_ariths) simp

lemma unat_sub_u64 [u64_simps]: "(b :: u64) \<le> a \<Longrightarrow> unat (a - b) = unat a - unat b"
  by (rule unat_sub)

text \<open>Sum of a list of \<open>uint64\<close>, exact.\<close>

definition sum_u64 :: "('a \<Rightarrow> u64) \<Rightarrow> 'a list \<Rightarrow> nat" where
  "sum_u64 f xs = sum_list (map (\<lambda>x. unat (f x)) xs)"

lemma sum_u64_simps [simp]: "sum_u64 f [] = 0" "sum_u64 f (x # xs) = unat (f x) + sum_u64 f xs"
  by (simp_all add: sum_u64_def)

lemma sum_u64_append [simp]: "sum_u64 f (xs @ ys) = sum_u64 f xs + sum_u64 f ys"
  by (simp add: sum_u64_def)

section \<open>Fixed-width encodings\<close>

text \<open>
  \<open>binary.LittleEndian\<close> and \<open>binary.BigEndian\<close>: \<open>le_bytes n w\<close> are the low \<open>n\<close> bytes of
  \<open>w\<close>, least significant first.
\<close>

definition le_bytes :: "nat \<Rightarrow> 'a::len word \<Rightarrow> bytes" where
  "le_bytes n w = map (\<lambda>i. ucast (drop_bit (8 * i) w)) [0..<n]"

definition be_bytes :: "nat \<Rightarrow> 'a::len word \<Rightarrow> bytes" where
  "be_bytes n w = rev (le_bytes n w)"

fun le_word :: "bytes \<Rightarrow> 'a::len word" where
  "le_word [] = 0"
| "le_word (b # bs) = ucast b OR push_bit 8 (le_word bs)"

definition be_word :: "bytes \<Rightarrow> 'a::len word" where
  "be_word bs = le_word (rev bs)"

lemma length_le_bytes [simp, enc_length]: "length (le_bytes n w) = n"
  by (simp add: le_bytes_def)

lemma length_be_bytes [simp, enc_length]: "length (be_bytes n w) = n"
  by (simp add: be_bytes_def)

lemma bit_le_word:
  "bit (le_word bs :: 'a::len word) k \<longleftrightarrow>
     k < LENGTH('a) \<and> k div 8 < length bs \<and> bit (bs ! (k div 8)) (k mod 8)"
proof (induction bs arbitrary: k)
  case Nil
  then show ?case by simp
next
  case (Cons b bs)
  show ?case
  proof (cases "k < 8")
    case True
    then show ?thesis
      by (auto simp: bit_simps)
  next
    case False
    then have k: "k div 8 = Suc ((k - 8) div 8)" "k mod 8 = (k - 8) mod 8"
      by (simp_all add: div_if mod_if)
    have "\<not> bit (ucast b :: 'a word) k"
      using False by (auto simp: bit_simps dest: bit_imp_le_length)
    then show ?thesis
      using False Cons.IH [of "k - 8"] k
      by (auto simp: bit_simps)
  qed
qed

lemma le_word_le_bytes:
  assumes "LENGTH('a::len) \<le> 8 * n"
  shows "le_word (le_bytes n w) = (w :: 'a word)"
proof (rule bit_word_eqI)
  fix k assume k: "k < LENGTH('a)"
  then have "k div 8 < n" using assms by linarith
  moreover have "8 * (k div 8) + k mod 8 = k" by simp
  ultimately show "bit (le_word (le_bytes n w) :: 'a word) k = bit w k"
    using k by (auto simp: bit_le_word le_bytes_def bit_simps)
qed

lemma be_word_be_bytes:
  assumes "LENGTH('a::len) \<le> 8 * n"
  shows "be_word (be_bytes n w) = (w :: 'a word)"
  using le_word_le_bytes [OF assms] by (simp add: be_word_def be_bytes_def)

lemma le_bytes_le_word:
  assumes "length bs = n" and "8 * n \<le> LENGTH('a::len)"
  shows "le_bytes n (le_word bs :: 'a word) = bs"
proof (rule nth_equalityI)
  show "length (le_bytes n (le_word bs :: 'a word)) = length bs"
    using assms by simp
next
  fix i assume "i < length (le_bytes n (le_word bs :: 'a word))"
  then have i: "i < n" by simp
  show "le_bytes n (le_word bs :: 'a word) ! i = bs ! i"
  proof (rule bit_word_eqI)
    fix k assume k: "k < LENGTH(8)"
    have "8 * i + k < LENGTH('a)" using i k assms(2) by simp
    moreover have "(8 * i + k) div 8 = i" "(8 * i + k) mod 8 = k" using k by simp_all
    ultimately show "bit (le_bytes n (le_word bs :: 'a word) ! i) k = bit (bs ! i) k"
      using i k assms(1) by (simp add: le_bytes_def bit_simps bit_le_word)
  qed
qed

lemma be_bytes_be_word:
  assumes "length bs = n" and "8 * n \<le> LENGTH('a::len)"
  shows "be_bytes n (be_word bs :: 'a word) = bs"
  using le_bytes_le_word [of "rev bs" n, where 'a = 'a] assms
  by (simp add: be_word_def be_bytes_def)

lemma le_bytes_inject:
  "LENGTH('a::len) \<le> 8 * n \<Longrightarrow> le_bytes n (v :: 'a word) = le_bytes n w \<longleftrightarrow> v = w"
  by (metis le_word_le_bytes)

lemma be_bytes_inject:
  "LENGTH('a::len) \<le> 8 * n \<Longrightarrow> be_bytes n (v :: 'a word) = be_bytes n w \<longleftrightarrow> v = w"
  by (metis be_word_be_bytes)

text \<open>Evaluating encodings of concrete words.\<close>

lemma le_word_zeros [simp]: "le_word (replicate n 0) = 0"
  by (induction n) simp_all

lemmas byte_eval = le_bytes_def be_bytes_def be_word_def upt_rec

text \<open>The two array types of the code.\<close>

abbreviation hash_bytes :: "hash \<Rightarrow> bytes" where
  "hash_bytes h \<equiv> be_bytes 32 h"

abbreviation addr_bytes :: "address \<Rightarrow> bytes" where
  "addr_bytes a \<equiv> be_bytes 20 a"

lemma hash_bytes_inject [simp]: "hash_bytes h = hash_bytes h' \<longleftrightarrow> h = h'"
  by (rule be_bytes_inject) simp

lemma addr_bytes_inject [simp]: "addr_bytes a = addr_bytes a' \<longleftrightarrow> a = a'"
  by (rule be_bytes_inject) simp

lemma be_word_hash_bytes [simp]: "be_word (hash_bytes h) = h"
  by (rule be_word_be_bytes) simp

lemma be_word_addr_bytes [simp]: "be_word (addr_bytes a) = a"
  by (rule be_word_be_bytes) simp

lemma le_bytes_u32_inject [simp]: "le_bytes 4 (a :: u32) = le_bytes 4 b \<longleftrightarrow> a = b"
  by (rule le_bytes_inject) simp

lemma le_bytes_u64_inject [simp]: "le_bytes 8 (a :: u64) = le_bytes 8 b \<longleftrightarrow> a = b"
  by (rule le_bytes_inject) simp

lemma be_bytes_u32_inject [simp]: "be_bytes 4 (a :: u32) = be_bytes 4 b \<longleftrightarrow> a = b"
  by (rule be_bytes_inject) simp

lemma be_bytes_u64_inject [simp]: "be_bytes 8 (a :: u64) = be_bytes 8 b \<longleftrightarrow> a = b"
  by (rule be_bytes_inject) simp

lemma be_word_u32 [simp]: "be_word (be_bytes 4 w) = (w :: u32)"
  by (rule be_word_be_bytes) simp

lemma be_word_u64 [simp]: "be_word (be_bytes 8 w) = (w :: u64)"
  by (rule be_word_be_bytes) simp

text \<open>Two concatenations whose first parts have the same length.\<close>

lemma append_fixed: "length xs = length ys \<Longrightarrow> xs @ us = ys @ vs \<longleftrightarrow> xs = ys \<and> us = vs"
  by simp

end
