(* ===== verification/Types.thy ===== *)
theory Types
  imports Prelude "HOL-Library.Char_ord" "HOL-Library.Product_Lexorder"
begin

text \<open>
  The primitive types of \<open>pkg/types\<close>: hashes, addresses, outpoints, locking scripts and
  token data, with the hexadecimal codec they print and parse with.
\<close>

section \<open>Hexadecimal strings\<close>

text \<open>\<open>encoding/hex\<close>: lower-case digits when printing, both cases when reading.\<close>

definition hex_digit :: "u8 \<Rightarrow> char" where
  "hex_digit n = (''0123456789abcdef'' ! unat n)"

definition hex_value :: "char \<Rightarrow> u8 option" where
  "hex_value c =
     (if CHR ''0'' \<le> c \<and> c \<le> CHR ''9'' then Some (of_char c - 48)
      else if CHR ''a'' \<le> c \<and> c \<le> CHR ''f'' then Some (of_char c - 87)
      else if CHR ''A'' \<le> c \<and> c \<le> CHR ''F'' then Some (of_char c - 55)
      else None)"

definition hex_encode :: "bytes \<Rightarrow> string" where
  "hex_encode bs = concat (map (\<lambda>b. [hex_digit (drop_bit 4 b), hex_digit (b AND 15)]) bs)"

fun hex_decode :: "string \<Rightarrow> bytes option" where
  "hex_decode [] = Some []"
| "hex_decode [c] = None"
| "hex_decode (c # d # cs) =
     (case (hex_value c, hex_value d) of
        (Some h, Some l) \<Rightarrow> map_option ((#) (push_bit 4 h OR l)) (hex_decode cs)
      | _ \<Rightarrow> None)"

lemma nibble_cases:
  assumes "unat (n :: u8) < 16"
  obtains "n = 0" | "n = 1" | "n = 2" | "n = 3" | "n = 4" | "n = 5" | "n = 6" | "n = 7"
    | "n = 8" | "n = 9" | "n = 10" | "n = 11" | "n = 12" | "n = 13" | "n = 14" | "n = 15"
proof -
  define k where "k = unat n"
  have n: "n = of_nat k" by (simp add: k_def)
  have "k < 16" using assms by (simp add: k_def)
  then have "k = 0 \<or> k = 1 \<or> k = 2 \<or> k = 3 \<or> k = 4 \<or> k = 5 \<or> k = 6 \<or> k = 7 \<or> k = 8 \<or>
    k = 9 \<or> k = 10 \<or> k = 11 \<or> k = 12 \<or> k = 13 \<or> k = 14 \<or> k = 15"
    by presburger
  with n that show thesis by auto
qed

lemma hex_value_digit: "unat n < 16 \<Longrightarrow> hex_value (hex_digit n) = Some n"
  by (erule nibble_cases) (simp_all add: hex_value_def hex_digit_def less_eq_char_def)

lemma low_nibble: "b AND 15 = take_bit 4 (b :: u8)"
  by (simp add: take_bit_eq_mask mask_eq_exp_minus_1)

lemma nibble_bounds: "unat (drop_bit 4 b) < 16" "unat (b AND 15) < 16" for b :: u8
proof -
  have "unat b < 256" using unsigned_less [of b, where 'a = nat] by simp
  then show "unat (drop_bit 4 b) < 16"
    by (subst unsigned_drop_bit_eq) (simp add: drop_bit_eq_div take_bit_eq_mod less_mult_imp_div_less)
  show "unat (b AND 15) < 16"
    unfolding low_nibble by (subst unsigned_take_bit_eq) (simp_all add: take_bit_eq_mod)
qed

lemma nibble_join: "push_bit 4 (drop_bit 4 b) OR (b AND 15) = (b :: u8)"
  unfolding low_nibble
proof (rule bit_word_eqI)
  fix k assume "k < LENGTH(8)"
  then show "bit (push_bit 4 (drop_bit 4 b) OR take_bit 4 b) k = bit b k"
    by (auto simp: bit_simps)
qed

lemma hex_roundtrip: "hex_decode (hex_encode bs) = Some bs"
  by (induction bs) (simp_all add: hex_encode_def hex_value_digit nibble_bounds nibble_join)

lemma length_hex_encode [simp]: "length (hex_encode bs) = 2 * length bs"
  by (induction bs) (simp_all add: hex_encode_def)

lemma hex_decode_length: "hex_decode s = Some bs \<Longrightarrow> length s = 2 * length bs"
  by (induction s arbitrary: bs rule: hex_decode.induct)
     (auto split: option.splits)

section \<open>Hashes and addresses\<close>

datatype parse_error = EmptyString | InvalidHex | InvalidLength | InvalidBech32

definition is_zero_hash :: "hash \<Rightarrow> bool" where
  "is_zero_hash h \<longleftrightarrow> h = 0"

definition hash_string :: "hash \<Rightarrow> string" where
  "hash_string h = hex_encode (hash_bytes h)"

definition HexToHash :: "string \<Rightarrow> parse_error + hash" where
  "HexToHash s =
     (case hex_decode s of
        None \<Rightarrow> Inl InvalidHex
      | Some b \<Rightarrow> if length b \<noteq> 32 then Inl InvalidLength else Inr (be_word b))"

definition hash_of_json_string :: "string \<Rightarrow> parse_error + hash" where
  "hash_of_json_string s = (if s = [] then Inr 0 else HexToHash s)"

definition address_hex :: "address \<Rightarrow> string" where
  "address_hex a = hex_encode (addr_bytes a)"

definition HexToAddress :: "string \<Rightarrow> parse_error + address" where
  "HexToAddress s =
     (case hex_decode s of
        None \<Rightarrow> Inl InvalidHex
      | Some b \<Rightarrow> if length b \<noteq> 20 then Inl InvalidLength else Inr (be_word b))"

definition isHex40 :: "string \<Rightarrow> bool" where
  "isHex40 s \<longleftrightarrow> length s = 40 \<and>
     (\<forall>c \<in> set s. (CHR ''0'' \<le> c \<and> c \<le> CHR ''9'') \<or> (CHR ''a'' \<le> c \<and> c \<le> CHR ''f'') \<or>
        (CHR ''A'' \<le> c \<and> c \<le> CHR ''F''))"

lemma HexToHash_hash_string: "HexToHash (hash_string h) = Inr h"
  by (simp add: HexToHash_def hash_string_def hex_roundtrip)

lemma HexToAddress_hex: "HexToAddress (address_hex a) = Inr a"
  by (simp add: HexToAddress_def address_hex_def hex_roundtrip)

lemma HexToHash_length: "HexToHash s = Inr h \<Longrightarrow> length s = 64"
  by (auto simp: HexToHash_def dest: hex_decode_length split: option.splits if_splits)

section \<open>Outpoints\<close>

datatype outpoint = Outpoint (op_txid: hash) (op_index: u32)

definition zero_outpoint :: outpoint where
  "zero_outpoint = Outpoint 0 0"

definition is_zero_outpoint :: "outpoint \<Rightarrow> bool" where
  "is_zero_outpoint o' \<longleftrightarrow> is_zero_hash (op_txid o') \<and> op_index o' = 0"

lemma is_zero_outpoint_iff [simp]: "is_zero_outpoint o' \<longleftrightarrow> o' = zero_outpoint"
  by (cases o') (simp add: is_zero_outpoint_def zero_outpoint_def is_zero_hash_def)

text \<open>Outpoints are ordered as their storage keys are: by transaction id, then by index.\<close>

instantiation outpoint :: linorder
begin

definition less_eq_outpoint :: "outpoint \<Rightarrow> outpoint \<Rightarrow> bool" where
  "less_eq_outpoint a b \<longleftrightarrow> (op_txid a, op_index a) \<le> (op_txid b, op_index b)"

definition less_outpoint :: "outpoint \<Rightarrow> outpoint \<Rightarrow> bool" where
  "less_outpoint a b \<longleftrightarrow> (op_txid a, op_index a) < (op_txid b, op_index b)"

instance
  by standard
    (auto simp: less_eq_outpoint_def less_outpoint_def outpoint.expand)

end

section \<open>Scripts and token data\<close>

text \<open>\<open>ScriptType\<close> is a \<open>uint8\<close>; values without a name can occur and are rejected by the code.\<close>

type_synonym script_type = u8

abbreviation ScriptTypeP2PKH :: script_type where "ScriptTypeP2PKH \<equiv> 0x01"
abbreviation ScriptTypeP2SH :: script_type where "ScriptTypeP2SH \<equiv> 0x02"
abbreviation ScriptTypeMint :: script_type where "ScriptTypeMint \<equiv> 0x10"
abbreviation ScriptTypeBurn :: script_type where "ScriptTypeBurn \<equiv> 0x11"
abbreviation ScriptTypeAnchor :: script_type where "ScriptTypeAnchor \<equiv> 0x20"
abbreviation ScriptTypeRegister :: script_type where "ScriptTypeRegister \<equiv> 0x21"
abbreviation ScriptTypeBridge :: script_type where "ScriptTypeBridge \<equiv> 0x30"
abbreviation ScriptTypeStake :: script_type where "ScriptTypeStake \<equiv> 0x40"

definition script_type_string :: "script_type \<Rightarrow> string" where
  "script_type_string st =
     (if st = ScriptTypeP2PKH then ''P2PKH''
      else if st = ScriptTypeP2SH then ''P2SH''
      else if st = ScriptTypeMint then ''Mint''
      else if st = ScriptTypeBurn then ''Burn''
      else if st = ScriptTypeAnchor then ''Anchor''
      else if st = ScriptTypeRegister then ''Register''
      else if st = ScriptTypeBridge then ''Bridge''
      else if st = ScriptTypeStake then ''Stake''
      else ''Unknown'')"

record script =
  sc_type :: script_type
  sc_data :: bytes

record token_data =
  td_id :: hash
  td_amount :: u64

abbreviation (input) address_size :: nat where "address_size \<equiv> 20"
abbreviation (input) hash_size :: nat where "hash_size \<equiv> 32"

text \<open>The first 20 bytes of a longer byte string, as an address.\<close>

definition take_address :: "bytes \<Rightarrow> address" where
  "take_address bs = be_word (take 20 bs)"

lemma take_address_addr_bytes [simp]: "take_address (addr_bytes a @ bs) = a"
  by (simp add: take_address_def)

lemma addr_bytes_take_address: "20 \<le> length bs \<Longrightarrow> addr_bytes (take_address bs) = take 20 bs"
  by (simp add: take_address_def be_bytes_be_word)

section \<open>Go string literals as bytes\<close>

definition ascii :: "string \<Rightarrow> bytes" where
  "ascii s = map of_char s"

lemma ascii_append: "ascii (s @ t) = ascii s @ ascii t"
  by (simp add: ascii_def)

lemma of_char_u8_inject: "(of_char c :: u8) = of_char d \<longleftrightarrow> c = d"
proof -
  have "unat (of_char c :: u8) = of_char c" for c
    using unat_of_nat [of "of_char c", where 'a = 8] nat_of_char_less_256 [of c]
    unfolding of_nat_of_char by simp
  then show ?thesis by (metis char_of_char)
qed

lemma ascii_inject [simp]: "ascii s = ascii t \<longleftrightarrow> s = t"
  unfolding ascii_def by (rule inj_map_eq_map) (simp add: inj_def of_char_u8_inject)

lemma length_ascii [simp]: "length (ascii s) = length s"
  by (simp add: ascii_def)

end
