(* ===== verification/Crypto.thy ===== *)
theory Crypto
  imports Types
begin

text \<open>
  \<open>pkg/crypto\<close>. The hash function (BLAKE3) and the secp256k1/Schnorr operations are third
  party: they are the fields of a \<open>crypto\<close> record that every definition using them takes as
  an argument. Nothing is assumed about them here.
\<close>

record crypto =
  blake3_sum256 :: "bytes \<Rightarrow> hash"
  parse_pubkey :: "bytes \<Rightarrow> bytes option"        \<comment> \<open>secp256k1.ParsePubKey\<close>
  parse_signature :: "bytes \<Rightarrow> bytes option"     \<comment> \<open>schnorr.ParseSignature\<close>
  schnorr_verify :: "bytes \<Rightarrow> bytes \<Rightarrow> bytes \<Rightarrow> bool" \<comment> \<open>sig.Verify(hash, pubKey)\<close>
  schnorr_sign :: "bytes \<Rightarrow> bytes \<Rightarrow> bytes option" \<comment> \<open>schnorr.Sign(key, hash)\<close>
  derive_pubkey :: "bytes \<Rightarrow> bytes"              \<comment> \<open>PubKey().SerializeCompressed()\<close>

definition Hash :: "crypto \<Rightarrow> bytes \<Rightarrow> hash" where
  "Hash C data = blake3_sum256 C data"

definition DoubleHash :: "crypto \<Rightarrow> bytes \<Rightarrow> hash" where
  "DoubleHash C data = Hash C (hash_bytes (Hash C data))"

definition AddressFromPubKey :: "crypto \<Rightarrow> bytes \<Rightarrow> address" where
  "AddressFromPubKey C pubKey = take_address (hash_bytes (Hash C pubKey))"

definition HashConcat :: "crypto \<Rightarrow> hash \<Rightarrow> hash \<Rightarrow> hash" where
  "HashConcat C a b = Hash C (hash_bytes a @ hash_bytes b)"

definition VerifySignature :: "crypto \<Rightarrow> bytes \<Rightarrow> bytes \<Rightarrow> bytes \<Rightarrow> bool" where
  "VerifySignature C hash signature publicKey =
     (case parse_pubkey C publicKey of
        None \<Rightarrow> False
      | Some pubKey \<Rightarrow>
          (case parse_signature C signature of
             None \<Rightarrow> False
           | Some sig \<Rightarrow> schnorr_verify C sig hash pubKey))"

datatype key_error = BadKeyLength | BadHashLength | SignFailed

text \<open>A private key is its 32-byte scalar.\<close>

definition PrivateKeyFromBytes :: "bytes \<Rightarrow> key_error + bytes" where
  "PrivateKeyFromBytes b = (if length b \<noteq> 32 then Inl BadKeyLength else Inr b)"

definition SignHash :: "crypto \<Rightarrow> bytes \<Rightarrow> bytes \<Rightarrow> key_error + bytes" where
  "SignHash C key hash =
     (if length hash \<noteq> 32 then Inl BadHashLength
      else case schnorr_sign C key hash of None \<Rightarrow> Inl SignFailed | Some sig \<Rightarrow> Inr sig)"

definition PublicKey :: "crypto \<Rightarrow> bytes \<Rightarrow> bytes" where
  "PublicKey C key = derive_pubkey C key"

lemma SignHash_hash: "SignHash C k (hash_bytes h) =
    (case schnorr_sign C k (hash_bytes h) of None \<Rightarrow> Inl SignFailed | Some sig \<Rightarrow> Inr sig)"
  by (simp add: SignHash_def)

text \<open>
  A concrete instance for evaluating the model: the hash packs the first 32 bytes of its
  input, every key and every signature parses, and a signature verifies when it is the key.
\<close>

definition toy_crypto :: crypto where
  "toy_crypto = \<lparr>blake3_sum256 = (\<lambda>bs. le_word bs), parse_pubkey = Some, parse_signature = Some,
     schnorr_verify = (\<lambda>sig h pub. sig = pub), schnorr_sign = (\<lambda>k h. Some k), derive_pubkey = (\<lambda>k. k)\<rparr>"

end
