(* ===== verification/Bech32.thy ===== *)
theory Bech32
  imports Types
begin

text \<open>
  The bech32 address codec of \<open>pkg/types/bech32.go\<close> and the address parser of
  \<open>pkg/types/address.go\<close>. Strings are ASCII here: the Go code ranges over runes and
  lower-cases Unicode, which coincides on ASCII input.
\<close>

section \<open>Regrouping bits\<close>

datatype bech32_error =
    EmptyHRP | InvalidHRPCharacter | EmptyBech32 | MixedCase | MissingSeparator | TooShort
  | InvalidCharacter | InvalidChecksum | InvalidDataByte | NonZeroPadding

text \<open>The inner loop of \<open>convertBits\<close>: emit groups while enough bits are pending.\<close>

function drain :: "u32 \<Rightarrow> nat \<Rightarrow> nat \<Rightarrow> bytes \<Rightarrow> nat \<times> bytes" where
  "drain acc bits toBits ret =
     (if 0 < toBits \<and> toBits \<le> bits
      then drain acc (bits - toBits) toBits
             (ret @ [ucast (drop_bit (bits - toBits) acc AND mask toBits)])
      else (bits, ret))"
  by pat_completeness auto
termination
  by (relation "measure (\<lambda>(acc, bits, toBits, ret). bits)") auto

declare drain.simps [simp del]

definition conv_step ::
  "nat \<Rightarrow> nat \<Rightarrow> u32 \<times> nat \<times> bytes \<Rightarrow> u8 \<Rightarrow> bech32_error + u32 \<times> nat \<times> bytes" where
  "conv_step fromBits toBits = (\<lambda>(acc, bits, ret) b.
     if drop_bit fromBits (ucast b :: u32) \<noteq> 0 then Inl InvalidDataByte
     else let acc' = push_bit fromBits acc OR ucast b;
              (bits', ret') = drain acc' (bits + fromBits) toBits ret
          in Inr (acc', bits', ret'))"

definition convertBits :: "bytes \<Rightarrow> nat \<Rightarrow> nat \<Rightarrow> bool \<Rightarrow> bech32_error + bytes" where
  "convertBits data fromBits toBits pad =
     bindE (foldE (conv_step fromBits toBits) (0, 0, []) data) (\<lambda>(acc, bits, ret).
       if pad then
         Inr (if bits > 0 then ret @ [ucast (push_bit (toBits - bits) acc AND mask toBits)] else ret)
       else if bits \<ge> fromBits then Inl NonZeroPadding
       else if push_bit (toBits - bits) acc AND mask toBits \<noteq> 0 then Inl NonZeroPadding
       else Inr ret)"

text \<open>
  The bit string a list of groups stands for, most significant bit first. \<open>convertBits\<close>
  only regroups it.
\<close>

definition bits_of :: "nat \<Rightarrow> 'a::len word \<Rightarrow> bool list" where
  "bits_of n w = map (bit w) (rev [0..<n])"

definition stream :: "nat \<Rightarrow> bytes \<Rightarrow> bool list" where
  "stream n bs = concat (map (bits_of n) bs)"

lemma length_bits_of [simp]: "length (bits_of n w) = n"
  by (simp add: bits_of_def)

lemma stream_simps [simp]:
  "stream n [] = []" "stream n (b # bs) = bits_of n b @ stream n bs"
  "stream n (xs @ ys) = stream n xs @ stream n ys"
  by (simp_all add: stream_def)

lemma length_stream [simp]: "length (stream n bs) = n * length bs"
  by (induction bs) simp_all

lemma bits_of_split: "bits_of (m + n) w = bits_of m (drop_bit n w) @ bits_of n w"
proof -
  have "rev [0..<m + n] = map (\<lambda>i. i + n) (rev [0..<m]) @ rev [0..<n]"
  proof -
    have "[0..<m + n] = [0..<n] @ map (\<lambda>i. i + n) [0..<m]"
      by (metis add.commute add_0 map_add_upt upt_add_eq_append zero_le)
    then show ?thesis by (simp add: rev_map)
  qed
  then show ?thesis
    by (simp add: bits_of_def bit_simps add.commute comp_def)
qed

lemma bits_of_cong: "(\<And>k. k < n \<Longrightarrow> bit v k = bit w k) \<Longrightarrow> bits_of n v = bits_of n w"
  by (simp add: bits_of_def)

lemma bits_of_eq_iff: "bits_of n v = bits_of n w \<longleftrightarrow> (\<forall>k < n. bit v k = bit w k)"
  by (auto simp: bits_of_def)

lemma bits_of_group: "n \<le> 8 \<Longrightarrow> bits_of n (ucast (w AND mask n) :: u8) = bits_of n (w :: u32)"
  by (rule bits_of_cong) (auto simp: bit_simps)

lemma bits_of_push:
  assumes "drop_bit n (ucast b :: u32) = 0" and "m + n \<le> 32"
  shows "bits_of (m + n) (push_bit n acc OR ucast b :: u32) = bits_of m acc @ bits_of n (b :: u8)"
proof -
  have small: "\<not> bit b k" if "n \<le> k" for k
  proof
    assume b: "bit b k"
    then have "k < 8" using bit_imp_le_length by fastforce
    with b that have "bit (drop_bit n (ucast b :: u32)) (k - n)"
      by (simp add: bit_simps)
    with assms(1) show False by simp
  qed
  have "bits_of m (drop_bit n (push_bit n acc OR ucast b)) = bits_of m acc"
    using small assms(2) by (intro bits_of_cong) (auto simp: bit_simps)
  moreover have "bits_of n (push_bit n acc OR ucast b :: u32) = bits_of n b"
    using assms(2) by (intro bits_of_cong) (auto simp: bit_simps)
  ultimately show ?thesis by (simp add: bits_of_split)
qed

lemma drain_stream:
  assumes "drain acc bits n ret = (bits', ret')" and "0 < n" "n \<le> 8"
  shows "stream n ret' @ bits_of bits' acc = stream n ret @ bits_of bits acc \<and> bits' < n"
  using assms
proof (induction acc bits n ret rule: drain.induct)
  case (1 acc bits n ret)
  show ?case
  proof (cases "n \<le> bits")
    case True
    let ?g = "ucast (drop_bit (bits - n) acc AND mask n) :: u8"
    have "stream n ret' @ bits_of bits' acc = stream n (ret @ [?g]) @ bits_of (bits - n) acc
        \<and> bits' < n"
      using True 1 by (auto simp: drain.simps [of acc bits])
    moreover have "bits_of bits acc = bits_of n ?g @ bits_of (bits - n) acc"
      using bits_of_split [of n "bits - n" acc] True \<open>n \<le> 8\<close> by (simp add: bits_of_group)
    ultimately show ?thesis by simp
  next
    case False
    then show ?thesis using 1 by (simp add: drain.simps [of acc bits])
  qed
qed

definition small_groups :: "nat \<Rightarrow> bytes \<Rightarrow> bool" where
  "small_groups n bs \<longleftrightarrow> (\<forall>b \<in> set bs. drop_bit n b = 0)"

lemma drop_bit_ucast: "drop_bit n (ucast b :: u32) = 0 \<longleftrightarrow> drop_bit n (b :: u8) = 0"
proof -
  have "drop_bit n (ucast b :: u32) = ucast (drop_bit n b)"
    by (rule bit_word_eqI) (auto simp: bit_simps dest: bit_imp_le_length)
  moreover have "(ucast x :: u32) = 0 \<longleftrightarrow> x = 0" for x :: u8
  proof -
    have "unat x < 256" using unsigned_less [of x, where 'a = nat] by simp
    then have "unat (ucast x :: u32) = unat x"
      by (simp add: unsigned_ucast_eq take_bit_nat_eq_self)
    then show ?thesis by (metis unsigned_0 unsigned_word_eqI)
  qed
  ultimately show ?thesis by simp
qed

lemma conv_fold:
  assumes "small_groups m data" and "bits < n" and "0 < n" "n \<le> 8" "0 < m" "m \<le> 8"
  shows "\<exists>acc' bits' ret'. foldE (conv_step m n) (acc, bits, ret) data = Inr (acc', bits', ret')
    \<and> stream n ret' @ bits_of bits' acc' = stream n ret @ bits_of bits acc @ stream m data
    \<and> bits' < n"
  using assms(1,2)
proof (induction data arbitrary: acc bits ret)
  case Nil
  then show ?case by simp
next
  case (Cons b data)
  let ?acc = "push_bit m acc OR ucast b :: u32"
  obtain bits1 ret1 where d: "drain ?acc (bits + m) n ret = (bits1, ret1)" by fastforce
  have b: "drop_bit m (ucast b :: u32) = 0"
    using Cons.prems by (simp add: small_groups_def drop_bit_ucast)
  have step: "conv_step m n (acc, bits, ret) b = Inr (?acc, bits1, ret1)"
    using b d by (simp add: conv_step_def)
  have "bits_of (bits + m) ?acc = bits_of bits acc @ bits_of m b"
    using b Cons.prems(2) assms by (intro bits_of_push) auto
  with drain_stream [OF d] assms(3,4)
  have s: "stream n ret1 @ bits_of bits1 ?acc = stream n ret @ bits_of bits acc @ bits_of m b"
    and "bits1 < n" by simp_all
  have "small_groups m data" using Cons.prems by (simp add: small_groups_def)
  from Cons.IH [OF this \<open>bits1 < n\<close>, of ?acc ret1] s step show ?case
    by (auto simp flip: append_assoc)
qed

section \<open>The checksum\<close>

definition bech32_gen :: "u32 list" where
  "bech32_gen = [0x3b6a57b2, 0x26508e6d, 0x1ea119fa, 0x3d4233dd, 0x2a1462b3]"

definition polymod_step :: "u32 \<Rightarrow> u8 \<Rightarrow> u32" where
  "polymod_step chk v =
     (let top = drop_bit 25 chk;
          chk' = push_bit 5 (chk AND 0x1ffffff) XOR ucast v
      in fold (\<lambda>i c. if drop_bit i top AND 1 = 1 then c XOR bech32_gen ! i else c) [0..<5] chk')"

definition bech32Polymod :: "bytes \<Rightarrow> u32" where
  "bech32Polymod values = foldl polymod_step 1 values"

definition bech32HRPExpand :: "string \<Rightarrow> bytes" where
  "bech32HRPExpand hrp =
     map (\<lambda>c. drop_bit 5 (of_char c)) hrp @ [0] @ map (\<lambda>c. of_char c AND 31) hrp"

definition bech32CreateChecksum :: "string \<Rightarrow> bytes \<Rightarrow> bytes" where
  "bech32CreateChecksum hrp data =
     (let polymod = bech32Polymod (bech32HRPExpand hrp @ data @ replicate 6 0) XOR 1
      in map (\<lambda>i. ucast (drop_bit (5 * (5 - i)) polymod AND 31)) [0..<6])"

definition bech32VerifyChecksum :: "string \<Rightarrow> bytes \<Rightarrow> bool" where
  "bech32VerifyChecksum hrp data \<longleftrightarrow> bech32Polymod (bech32HRPExpand hrp @ data) = 1"

text \<open>One step without its input is linear over exclusive or.\<close>

definition gate :: "bool \<Rightarrow> u32 \<Rightarrow> u32" where
  "gate b g = (if b then g else 0)"

definition poly_shift :: "u32 \<Rightarrow> u32" where
  "poly_shift c = push_bit 5 (take_bit 25 c) XOR gate (bit c 25) 0x3b6a57b2
     XOR gate (bit c 26) 0x26508e6d XOR gate (bit c 27) 0x1ea119fa
     XOR gate (bit c 28) 0x3d4233dd XOR gate (bit c 29) 0x2a1462b3"

lemma low_bit_test: "drop_bit i w AND 1 = 1 \<longleftrightarrow> bit (w :: u32) i"
proof -
  have "drop_bit i w AND 1 = of_bool (odd (drop_bit i w))"
    by (simp add: and_one_eq mod2_eq_if)
  then show ?thesis by (simp add: bit_iff_odd_drop_bit)
qed

lemma if_xor_gate: "(if b then c XOR g else c) = c XOR gate b g"
  by (simp add: gate_def)

lemma polymod_step_shift: "polymod_step c v = poly_shift c XOR ucast v"
proof -
  have m: "c AND 0x1ffffff = take_bit 25 c"
    by (simp add: take_bit_eq_mask mask_eq_exp_minus_1)
  have f: "[0..<5] = [0, 1, 2, 3, 4 :: nat]" by (simp add: upt_rec)
  show ?thesis
    unfolding polymod_step_def Let_def m f
    by (simp only: fold_simps low_bit_test if_xor_gate)
       (simp add: poly_shift_def bech32_gen_def bit_drop_bit_eq ac_simps)
qed

lemma gate_xor: "gate (a \<noteq> b) g = gate a g XOR gate b g"
  by (simp add: gate_def)

lemma poly_shift_xor: "poly_shift (a XOR b) = poly_shift a XOR poly_shift b"
  unfolding poly_shift_def bit_xor_iff gate_xor take_bit_xor push_bit_xor
  by (simp only: ac_simps)

lemma poly_shift_small: "take_bit 25 c = c \<Longrightarrow> poly_shift c = push_bit 5 c"
proof -
  assume c: "take_bit 25 c = c"
  have "\<not> bit c k" if "25 \<le> k" for k
    using that by (subst c [symmetric]) (simp add: bit_take_bit_iff)
  then show ?thesis by (simp add: poly_shift_def gate_def c)
qed

lemma poly_shift_bound: "take_bit 30 (poly_shift c) = poly_shift c"
proof -
  have "take_bit 30 (push_bit 5 (take_bit 25 c)) = push_bit 5 (take_bit 25 c)"
    by (rule bit_word_eqI) (auto simp: bit_simps)
  moreover have "take_bit 30 (gate b g) = gate b g" if "take_bit 30 g = g" for b g
    using that by (simp add: gate_def)
  ultimately show ?thesis
    by (simp add: poly_shift_def take_bit_xor)
qed

lemma foldl_polymod:
  "foldl polymod_step (a XOR c) (map (\<lambda>p. fst p XOR snd p) (zip xs ys)) =
     foldl polymod_step a xs XOR foldl polymod_step c ys"
  if "length xs = length ys"
  using that
proof (induction xs ys arbitrary: a c rule: list_induct2)
  case Nil
  then show ?case by simp
next
  case (Cons x xs y ys)
  have "polymod_step (a XOR c) (x XOR y) = polymod_step a x XOR polymod_step c y"
    unfolding polymod_step_shift poly_shift_xor unsigned_xor_eq by (simp only: ac_simps)
  then show ?case using Cons.IH by simp
qed

text \<open>
  Feeding the six groups of a 30-bit number into a zero register rebuilds the number: the
  register is a plain shift register as long as nothing reaches bit 25.
\<close>

lemma polymod_digits:
  assumes "take_bit 30 p = (p :: u32)"
  shows "foldl polymod_step 0 (map (\<lambda>i. ucast (drop_bit (5 * (5 - i)) p AND 31)) [0..<6]) = p"
proof -
  have high: "k < 30" if "bit p k" for k
    using that by (subst (asm) assms [symmetric]) (simp add: bit_take_bit_iff)
  have low: "drop_bit k p AND 31 = take_bit 5 (drop_bit k p)" for k
    by (simp add: take_bit_eq_mask mask_eq_exp_minus_1)
  have cast: "ucast (ucast (take_bit 5 w) :: u8) = (take_bit 5 w :: u32)" for w :: u32
    by (rule bit_word_eqI) (auto simp: bit_simps)
  have f: "[0..<6] = [0, 1, 2, 3, 4, 5 :: nat]" by (simp add: upt_rec)
  have step: "polymod_step (drop_bit (n + 5) p) (ucast (take_bit 5 (drop_bit n p))) = drop_bit n p"
    if n: "n \<in> {0, 5, 10, 15, 20}" for n
  proof -
    have "take_bit 25 (drop_bit (n + 5) p) = drop_bit (n + 5) p"
      by (rule bit_word_eqI) (auto simp: bit_simps dest: high)
    then have "polymod_step (drop_bit (n + 5) p) (ucast (take_bit 5 (drop_bit n p)))
        = push_bit 5 (drop_bit (n + 5) p) XOR take_bit 5 (drop_bit n p)"
      by (simp add: polymod_step_shift poly_shift_small cast)
    also have "\<dots> = drop_bit n p"
      by (rule bit_word_eqI) (auto simp: bit_simps)
    finally show ?thesis .
  qed
  have first: "polymod_step 0 (ucast (take_bit 5 (drop_bit 25 p))) = drop_bit 25 p"
  proof -
    have "take_bit 5 (drop_bit 25 p) = drop_bit 25 p"
      by (rule bit_word_eqI) (auto simp: bit_simps dest: high)
    with cast [of "drop_bit 25 p"] show ?thesis
      by (simp add: polymod_step_shift poly_shift_small)
  qed
  show ?thesis
    unfolding low f using first step [of 20] step [of 15] step [of 10] step [of 5] step [of 0]
    by simp
qed

theorem checksum_verifies:
  "bech32VerifyChecksum hrp (data @ bech32CreateChecksum hrp data)"
proof -
  let ?vs = "bech32HRPExpand hrp @ data"
  let ?s = "foldl polymod_step 1 ?vs"
  let ?q = "foldl polymod_step ?s (replicate 6 0)"
  let ?p = "?q XOR 1"
  define ds where "ds = (map (\<lambda>i. ucast (drop_bit (5 * (5 - i)) ?p AND 31)) [0..<6] :: bytes)"
  have len: "length ds = 6" by (simp add: ds_def)
  have q: "?q = poly_shift (foldl polymod_step ?s (replicate 5 0))"
  proof -
    have "replicate 6 (0 :: u8) = replicate 5 0 @ [0]" by (simp add: replicate_app_Cons_same
        flip: replicate_Suc)
    then show ?thesis by (simp add: polymod_step_shift)
  qed
  have "take_bit 30 ?p = ?p"
    unfolding q by (simp add: take_bit_xor poly_shift_bound)
  then have ds: "foldl polymod_step 0 ds = ?p"
    unfolding ds_def by (rule polymod_digits)
  have z: "map (\<lambda>p. fst p XOR snd p) (zip (replicate 6 0) ds) = ds"
    using len by (simp add: zip_replicate1 comp_def)
  have "foldl polymod_step ?s ds
      = foldl polymod_step (?s XOR 0) (map (\<lambda>p. fst p XOR snd p) (zip (replicate 6 0) ds))"
    unfolding z by simp
  also have "\<dots> = ?q XOR foldl polymod_step 0 ds"
    by (rule foldl_polymod) (simp add: len)
  also have "\<dots> = 1" unfolding ds by (simp flip: xor.assoc)
  finally have "foldl polymod_step ?s ds = 1" .
  moreover have "bech32CreateChecksum hrp data = ds"
    by (simp only: bech32CreateChecksum_def bech32Polymod_def Let_def ds_def
        append_assoc [symmetric] foldl_append)
  ultimately show ?thesis
    by (simp add: bech32VerifyChecksum_def bech32Polymod_def)
qed

section \<open>Encoding and decoding\<close>

definition bech32Charset :: string where
  "bech32Charset = ''qpzry9x8gf2tvdw0s3jn54khce6mua7l''"

definition charset_char :: "u8 \<Rightarrow> char" where
  "charset_char b = bech32Charset ! unat b"

definition bech32CharsetRev :: "char \<Rightarrow> u8 option" where
  "bech32CharsetRev c = map_of (zip bech32Charset (map word_of_nat [0..<32])) c"

definition Bech32Encode :: "string \<Rightarrow> bytes \<Rightarrow> bech32_error + string" where
  "Bech32Encode hrp data =
     (if hrp = [] then Inl EmptyHRP
      else if \<exists>c \<in> set hrp. of_char c < (33 :: nat) \<or> of_char c > (126 :: nat)
      then Inl InvalidHRPCharacter
      else bindE (convertBits data 8 5 True) (\<lambda>conv.
        Inr (hrp @ ''1'' @ map charset_char conv @
             map charset_char (bech32CreateChecksum hrp conv))))"

definition is_upper :: "char \<Rightarrow> bool" where
  "is_upper c \<longleftrightarrow> CHR ''A'' \<le> c \<and> c \<le> CHR ''Z''"

definition is_lower :: "char \<Rightarrow> bool" where
  "is_lower c \<longleftrightarrow> CHR ''a'' \<le> c \<and> c \<le> CHR ''z''"

definition to_lower :: "char \<Rightarrow> char" where
  "to_lower c = (if is_upper c then char_of (of_char c + 32 :: nat) else c)"

text \<open>\<open>strings.LastIndex\<close>: -1 when the character does not occur.\<close>

definition last_index :: "string \<Rightarrow> char \<Rightarrow> int" where
  "last_index s c =
     (if c \<in> set s then int (length s) - 1 - int (length (takeWhile (\<lambda>x. x \<noteq> c) (rev s))) else - 1)"

fun decode_chars :: "string \<Rightarrow> bech32_error + bytes" where
  "decode_chars [] = Inr []"
| "decode_chars (c # cs) =
     (case bech32CharsetRev c of
        None \<Rightarrow> Inl InvalidCharacter
      | Some v \<Rightarrow> bindE (decode_chars cs) (\<lambda>vs. Inr (v # vs)))"

definition Bech32Decode :: "string \<Rightarrow> bech32_error + string \<times> bytes" where
  "Bech32Decode str =
     (if str = [] then Inl EmptyBech32
      else if (\<exists>c \<in> set str. is_upper c) \<and> (\<exists>c \<in> set str. is_lower c) then Inl MixedCase
      else
        let s = map to_lower str;
            sepIdx = last_index s (CHR ''1'')
        in if sepIdx < 1 then Inl MissingSeparator
           else if sepIdx + 7 > int (length s) then Inl TooShort
           else
             let hrp = take (nat sepIdx) s;
                 dataStr = drop (nat sepIdx + 1) s
             in bindE (decode_chars dataStr) (\<lambda>data5.
                  if \<not> bech32VerifyChecksum hrp data5 then Inl InvalidChecksum
                  else bindE (convertBits (take (length data5 - 6) data5) 5 8 False) (\<lambda>data8.
                    Inr (hrp, data8))))"

text \<open>Every 5-bit group has a character of its own, and none of them is the separator or upper case.\<close>

lemma group_cases:
  assumes "unat (b :: u8) < 32"
  shows "b \<in> set (map word_of_nat [0..<32])"
proof -
  have "b = word_of_nat (unat b)" by simp
  with assms show ?thesis by (metis atLeastLessThan_iff imageI le0 set_map set_upt)
qed

lemma charset_table:
  "\<forall>b \<in> set (map word_of_nat [0..<32]).
     bech32CharsetRev (charset_char b) = Some b \<and> charset_char b \<noteq> CHR ''1'' \<and>
     charset_char b \<noteq> CHR '':'' \<and> \<not> is_upper (charset_char b)"
  by code_simp

lemmas charset_group = charset_table [rule_format, OF group_cases]

lemma decode_chars_map: "(\<forall>b \<in> set bs. unat b < 32) \<Longrightarrow> decode_chars (map charset_char bs) = Inr bs"
  by (induction bs) (simp_all add: charset_group)

lemma to_lower_id: "\<not> is_upper c \<Longrightarrow> to_lower c = c"
  by (simp add: to_lower_def)

lemma last_index_sep:
  "CHR ''1'' \<notin> set ys \<Longrightarrow> last_index (xs @ CHR ''1'' # ys) (CHR ''1'') = int (length xs)"
proof -
  assume "CHR ''1'' \<notin> set ys"
  then have "takeWhile (\<lambda>x. x \<noteq> CHR ''1'') (rev ys @ CHR ''1'' # rev xs) = rev ys"
    by (subst takeWhile_append2) auto
  then show ?thesis by (simp add: last_index_def)
qed

lemma drop_bit_bound: "drop_bit 5 b = 0 \<longleftrightarrow> unat (b :: u8) < 32"
proof -
  have "unat b < 256" using unsigned_less [of b, where 'a = nat] by simp
  then have "unat (drop_bit 5 b) = unat b div 32"
    by (subst unsigned_drop_bit_eq) (simp add: drop_bit_eq_div take_bit_eq_mod)
  then show ?thesis by (metis div_eq_0_iff unsigned_0 unsigned_word_eqI zero_neq_numeral)
qed

lemma small_groups_5: "small_groups 5 bs \<longleftrightarrow> (\<forall>b \<in> set bs. unat b < 32)"
  by (simp add: small_groups_def drop_bit_bound)

lemma small_groups_8: "small_groups 8 bs"
  by (auto simp: small_groups_def intro!: bit_word_eqI simp: bit_simps dest: bit_imp_le_length)

text \<open>Groups that regrouping emits fit their width.\<close>

lemma group_small: "unat (ucast (w AND mask 5 :: u32) :: u8) < 32"
proof -
  have "drop_bit 5 (ucast (w AND mask 5) :: u8) = 0"
    by (rule bit_word_eqI) (auto simp: bit_simps)
  then show ?thesis by (simp add: drop_bit_bound)
qed

lemma group_small_31: "unat (ucast (w AND 31 :: u32) :: u8) < 32"
proof -
  have "(31 :: u32) = mask 5" by (simp add: mask_eq_exp_minus_1)
  then show ?thesis by (metis group_small)
qed

lemma checksum_small: "\<forall>b \<in> set (bech32CreateChecksum hrp data). unat b < 32"
  unfolding bech32CreateChecksum_def Let_def set_map using group_small_31 by fast

lemma drain_small:
  "drain acc bits 5 ret = (bits', ret') \<Longrightarrow> \<forall>b \<in> set ret. unat b < 32 \<Longrightarrow> \<forall>b \<in> set ret'. unat b < 32"
proof (induction acc bits "5 :: nat" ret rule: drain.induct)
  case (1 acc bits ret)
  then show ?case
    by (auto simp: drain.simps [of acc bits] group_small split: if_splits)
qed

lemma conv_fold_small:
  assumes "foldE (conv_step m 5) (acc, bits, ret) data = Inr (acc', bits', ret')"
    and "\<forall>b \<in> set ret. unat b < 32"
  shows "\<forall>b \<in> set ret'. unat b < 32"
proof -
  have "case (acc', bits', ret') of (acc, bits, ret) \<Rightarrow> \<forall>b \<in> set ret. unat b < 32"
    using assms(1)
  proof (rule foldE_invariant)
    fix t x t'
    assume "case t of (acc, bits, ret) \<Rightarrow> \<forall>b \<in> set ret. unat b < 32"
      and "conv_step m 5 t x = Inr t'"
    then show "case t' of (acc, bits, ret) \<Rightarrow> \<forall>b \<in> set ret. unat b < 32"
      by (auto simp: conv_step_def Let_def split: if_splits prod.splits dest: drain_small)
  qed (use assms(2) in simp)
  then show ?thesis by simp
qed

lemma stream_inject:
  "length xs = length ys \<Longrightarrow> stream 8 xs @ us = stream 8 ys @ vs \<Longrightarrow> xs = ys \<and> us = vs"
proof (induction xs ys rule: list_induct2)
  case Nil
  then show ?case by simp
next
  case (Cons x xs y ys)
  then have "bits_of 8 x = bits_of 8 y" by simp
  then have "x = y" by (intro bit_word_eqI) (simp add: bits_of_eq_iff)
  with Cons show ?case by simp
qed

lemma bits_of_zero: "bits_of n (0 :: 'a::len word) = replicate n False"
  by (simp add: bits_of_def list_eq_iff_nth_eq)

lemma padded_group:
  assumes "bits < 5"
  shows "bits_of 5 (ucast (push_bit (5 - bits) acc AND mask 5 :: u32) :: u8)
    = bits_of bits acc @ replicate (5 - bits) False"
proof -
  have "bits_of 5 (ucast (push_bit (5 - bits) acc AND mask 5 :: u32) :: u8)
      = bits_of (bits + (5 - bits)) (push_bit (5 - bits) acc :: u32)"
    using assms by (simp add: bits_of_group)
  also have "\<dots> = bits_of bits (drop_bit (5 - bits) (push_bit (5 - bits) acc :: u32))
      @ bits_of (5 - bits) (push_bit (5 - bits) acc :: u32)"
    by (rule bits_of_split)
  also have "bits_of bits (drop_bit (5 - bits) (push_bit (5 - bits) acc :: u32)) = bits_of bits acc"
    using assms by (intro bits_of_cong) (auto simp: bit_simps)
  also have "bits_of (5 - bits) (push_bit (5 - bits) acc :: u32) = bits_of (5 - bits) (0 :: u32)"
    by (intro bits_of_cong) (auto simp: bit_simps)
  also have "\<dots> = replicate (5 - bits) False" by (rule bits_of_zero)
  finally show ?thesis .
qed

lemma convertBits_8_5:
  obtains conv n where "convertBits data 8 5 True = Inr conv" and "n < 5"
    and "stream 5 conv = stream 8 data @ replicate n False" and "\<forall>b \<in> set conv. unat b < 32"
proof -
  obtain acc bits ret where
    f: "foldE (conv_step 8 5) (0, 0, []) data = Inr (acc, bits, ret)"
    and st: "stream 5 ret @ bits_of bits acc = stream 8 data" and b: "bits < 5"
    using conv_fold [of 8 data 0 5 0 "[]"] small_groups_8 by (auto simp: bits_of_def)
  have sm: "\<forall>b \<in> set ret. unat b < 32" using conv_fold_small [OF f] by simp
  show thesis
  proof (cases "bits > 0")
    case True
    let ?g = "ucast (push_bit (5 - bits) acc AND mask 5) :: u8"
    have "stream 5 (ret @ [?g]) = stream 8 data @ replicate (5 - bits) False"
      using st padded_group [OF b, of acc] by (simp flip: append_assoc)
    then show thesis
      using that [of "ret @ [?g]" "5 - bits"] True b f sm
      by (simp add: convertBits_def group_small)
  next
    case False
    then show thesis
      using that [of ret 0] f st sm by (simp add: convertBits_def bits_of_def)
  qed
qed

lemma convertBits_5_8:
  assumes st: "stream 5 conv = stream 8 data @ replicate n False" and n: "n < 5"
    and sm: "\<forall>b \<in> set conv. unat b < 32"
  shows "convertBits conv 5 8 False = Inr data"
proof -
  obtain acc bits ret where
    f: "foldE (conv_step 5 8) (0, 0, []) conv = Inr (acc, bits, ret)"
    and s8: "stream 8 ret @ bits_of bits acc = stream 8 data @ replicate n False" and b: "bits < 8"
    using conv_fold [of 5 conv 0 8 0 "[]"] sm st by (auto simp: bits_of_def small_groups_5)
  have "8 * length ret + bits = 8 * length data + n"
    using arg_cong [OF s8, of length] by simp
  then have len: "length ret = length data" and bn: "bits = n" using b n by presburger+
  from stream_inject [OF len s8] have ret: "ret = data"
    and z: "bits_of bits acc = replicate n False" by simp_all
  have "\<not> bit acc k" if "k < bits" for k
    using z bits_of_zero [of bits, where 'a = 32] that bn
    by (metis bits_of_eq_iff bit_0_eq bot_apply bot_bool_def)
  then have "push_bit (8 - bits) acc AND mask 8 = 0"
    by (intro bit_word_eqI) (auto simp: bit_simps)
  then show ?thesis using f ret bn n by (simp add: convertBits_def)
qed

text \<open>The shape of an encoded string, and that decoding undoes encoding.\<close>

lemma bech32_core:
  assumes "hrp \<noteq> []" and "\<forall>c \<in> set hrp. 33 \<le> (of_char c :: nat) \<and> (of_char c :: nat) \<le> 126"
    and "\<forall>c \<in> set hrp. \<not> is_upper c"
  obtains payload where "Bech32Encode hrp data = Inr (hrp @ CHR ''1'' # payload)"
    and "Bech32Decode (hrp @ CHR ''1'' # payload) = Inr (hrp, data)"
    and "CHR '':'' \<notin> set payload"
    and "8 * length data \<le> 5 * (length payload - 6)" "5 * (length payload - 6) < 8 * length data + 5"
proof -
  obtain conv n where c: "convertBits data 8 5 True = Inr conv" and n: "n < 5"
    and st: "stream 5 conv = stream 8 data @ replicate n False" and sm: "\<forall>b \<in> set conv. unat b < 32"
    by (rule convertBits_8_5)
  define ck where "ck = bech32CreateChecksum hrp conv"
  define all5 where "all5 = conv @ ck"
  have ck: "length ck = 6" "\<forall>b \<in> set ck. unat b < 32"
    unfolding ck_def using checksum_small by (simp_all add: bech32CreateChecksum_def Let_def)
  have sm5: "\<forall>b \<in> set all5. unat b < 32" using sm ck by (auto simp: all5_def)
  define s where "s = hrp @ CHR ''1'' # map charset_char all5"
  have enc: "Bech32Encode hrp data = Inr s"
    using assms(1,2) c
    by (auto simp: Bech32Encode_def s_def all5_def ck_def not_less)
  have up: "\<not> is_upper c" if "c \<in> set s" for c
    using that assms(3) sm5 charset_group by (auto simp: s_def is_upper_def)
  then have low: "map to_lower s = s" by (simp add: to_lower_id map_idI)
  have "CHR ''1'' \<notin> set (map charset_char all5)" using sm5 charset_group by fastforce
  then have li: "last_index s (CHR ''1'') = int (length hrp)"
    unfolding s_def by (rule last_index_sep)
  have parts: "take (length hrp) s = hrp" "drop (length hrp + 1) s = map charset_char all5"
    by (simp_all add: s_def)
  have len: "length s = length hrp + 1 + length all5" "6 \<le> length all5" "s \<noteq> []"
    using ck(1) by (simp_all add: s_def all5_def)
  have ver: "bech32VerifyChecksum hrp all5" unfolding all5_def ck_def by (rule checksum_verifies)
  have cv: "take (length all5 - 6) all5 = conv" using ck by (simp add: all5_def)
  have c1: "\<not> ((\<exists>c \<in> set s. is_upper c) \<and> (\<exists>c \<in> set s. is_lower c))" using up by blast
  have c2: "\<not> int (length hrp) < 1" using assms(1) by (cases hrp) simp_all
  have c3: "\<not> int (length hrp) + 7 > int (length s)" using len by simp
  have "Bech32Decode s = Inr (hrp, data)"
    unfolding Bech32Decode_def Let_def low li
    using len(3) c1 c2 c3 ver cv convertBits_5_8 [OF st n sm] decode_chars_map [OF sm5] parts
    by simp
  moreover have "CHR '':'' \<notin> set (map charset_char all5)" using sm5 charset_group by fastforce
  moreover have "5 * length conv = 8 * length data + n" using arg_cong [OF st, of length] by simp
  ultimately show thesis
    using that [of "map charset_char all5"] enc n ck(1) by (simp add: s_def all5_def)
qed

text \<open>
  \<open>Bech32Decode\<close> inverts \<open>Bech32Encode\<close>: for every human-readable part of permitted
  characters without upper case, and every byte string, encoding succeeds and decoding the
  result gives back both parts; in particular the checksum it writes is accepted.
\<close>

theorem bech32_roundtrip:
  assumes "hrp \<noteq> []" and "\<forall>c \<in> set hrp. 33 \<le> (of_char c :: nat) \<and> (of_char c :: nat) \<le> 126"
    and "\<forall>c \<in> set hrp. \<not> is_upper c"
  shows "\<exists>s. Bech32Encode hrp data = Inr s \<and> Bech32Decode s = Inr (hrp, data)"
  using bech32_core [OF assms] by metis

theorem bech32_roundtrip_witness:
  "\<exists>s. Bech32Encode ''kgx'' [7, 255] = Inr s \<and> Bech32Decode s = Inr (''kgx'', [7, 255])"
  by (rule bech32_roundtrip) (simp_all add: is_upper_def less_eq_char_def)

section \<open>Addresses as strings\<close>

definition MainnetHRP :: string where "MainnetHRP = ''kgx''"
definition TestnetHRP :: string where "TestnetHRP = ''tkgx''"

definition address_string :: "string \<Rightarrow> address \<Rightarrow> string" where
  "address_string activeHRP a =
     (case Bech32Encode activeHRP (addr_bytes a) of
        Inl e \<Rightarrow> activeHRP @ '':'' @ hex_encode (addr_bytes a)
      | Inr s \<Rightarrow> s)"

definition has_prefix :: "string \<Rightarrow> string \<Rightarrow> bool" where
  "has_prefix s p \<longleftrightarrow> take (length p) s = p"

definition ParseAddress :: "string \<Rightarrow> parse_error + address" where
  "ParseAddress s =
     (if s = [] then Inl EmptyString
      else if CHR ''1'' \<in> set s \<and> CHR '':'' \<notin> set s \<and> \<not> isHex40 s then
        (case Bech32Decode s of
           Inl e \<Rightarrow> Inl InvalidBech32
         | Inr (hrp, data) \<Rightarrow>
             if length data \<noteq> 20 then Inl InvalidLength else Inr (be_word data))
      else
        let hexStr = (if has_prefix s ''kgx:'' then drop 4 s
                      else if has_prefix s ''tkgx:'' then drop 5 s else s)
        in HexToAddress hexStr)"

lemma address_string_parse:
  assumes "length hrp \<ge> 2" and "\<forall>c \<in> set hrp. 33 \<le> (of_char c :: nat) \<and> (of_char c :: nat) \<le> 126"
    and "\<forall>c \<in> set hrp. \<not> is_upper c \<and> c \<noteq> CHR '':''"
  shows "ParseAddress (address_string hrp a) = Inr a"
proof -
  have ne: "hrp \<noteq> []" using assms(1) by auto
  have up: "\<forall>c \<in> set hrp. \<not> is_upper c" using assms(3) by blast
  obtain payload where e: "Bech32Encode hrp (addr_bytes a) = Inr (hrp @ CHR ''1'' # payload)"
    and d: "Bech32Decode (hrp @ CHR ''1'' # payload) = Inr (hrp, addr_bytes a)"
    and c: "CHR '':'' \<notin> set payload" and l: "8 * length (addr_bytes a) \<le> 5 * (length payload - 6)"
    and "5 * (length payload - 6) < 8 * length (addr_bytes a) + 5"
    by (rule bech32_core [OF ne assms(2) up])
  have "length hrp + length payload \<noteq> 39" using assms(1) l by simp
  then have "\<not> isHex40 (hrp @ CHR ''1'' # payload)" by (simp add: isHex40_def)
  moreover have "CHR '':'' \<notin> set (hrp @ CHR ''1'' # payload)" using assms(3) c by auto
  ultimately show ?thesis
    using e d by (simp add: address_string_def ParseAddress_def)
qed

text \<open>
  C14: An address printed by \<open>Address.String\<close> is read back by \<open>ParseAddress\<close>. The parser
  accepts every network prefix, not only \<open>kgx\<close> and \<open>tkgx\<close> as its comment says: the
  statement holds for any lower-case prefix of at least two characters.
\<close>

theorem address_roundtrip:
  assumes "length hrp \<ge> 2" and "\<forall>c \<in> set hrp. 33 \<le> (of_char c :: nat) \<and> (of_char c :: nat) \<le> 126"
    and "\<forall>c \<in> set hrp. \<not> is_upper c \<and> c \<noteq> CHR '':''"
  shows "ParseAddress (address_string hrp a) = Inr a"
  using assms by (rule address_string_parse)

theorem address_roundtrip_witness:
  "ParseAddress (address_string MainnetHRP 77) = Inr 77 \<and> ParseAddress (address_string TestnetHRP 77) = Inr 77
   \<and> ParseAddress (address_string ''bc'' 77) = Inr 77"
  using address_roundtrip [of MainnetHRP 77] address_roundtrip [of TestnetHRP 77]
    address_roundtrip [of "''bc''" 77]
  by (simp add: is_upper_def less_eq_char_def MainnetHRP_def TestnetHRP_def)

end
