(* ===== verification/Config.thy ===== *)
theory Config
  imports Bech32
begin

text \<open>
  Protocol rules (\<open>config/genesis.go\<close>): limits, economic parameters, the subsidy schedule
  and the validation of a genesis configuration. Go \<open>int\<close> fields are \<open>int\<close>; their values
  are small, so their width plays no role except where it is written out.
\<close>

section \<open>Constants\<close>

definition Coin :: nat where "Coin = 10 ^ 12"
definition CoinbaseMaturity :: u64 where "CoinbaseMaturity = 20"
definition UnstakeCooldown :: u64 where "UnstakeCooldown = 20"
definition TokenCreationFee :: u64 where "TokenCreationFee = 50 * 1000000000000"
definition MaxTokenAmount :: u64 where "MaxTokenAmount = 18446744073709551"
definition MaxBlockSize :: nat where "MaxBlockSize = 2000000"
definition MaxBlockTxs :: nat where "MaxBlockTxs = 500"
definition MaxTxInputs :: nat where "MaxTxInputs = 2500"
definition MaxTxOutputs :: nat where "MaxTxOutputs = 2500"
definition MaxScriptData :: nat where "MaxScriptData = 65536"

lemmas limits_def = MaxBlockSize_def MaxBlockTxs_def MaxTxInputs_def MaxTxOutputs_def MaxScriptData_def

lemma MaxTokenAmount_eq: "MaxTokenAmount = max_u64 div 1000"
  by (simp add: MaxTokenAmount_def)

section \<open>Rules\<close>

datatype consensus_type = ConsensusPoA | ConsensusPoW | UnknownConsensus string

record consensus_rules =
  cr_type :: consensus_type
  cr_block_time :: int
  cr_validators :: "string list"
  cr_initial_difficulty :: u64
  cr_difficulty_adjust :: int
  cr_block_reward :: u64
  cr_max_supply :: u64
  cr_halving_interval :: u64
  cr_min_fee_rate :: u64
  cr_validator_stake :: u64

record subchain_rules =
  sr_enabled :: bool
  sr_max_depth :: int
  sr_max_per_parent :: int
  sr_anchor_interval :: int
  sr_require_anchors :: bool
  sr_anchor_timeout :: int
  sr_min_deposit :: u64
  sr_allow_pow :: bool
  sr_default_consensus :: consensus_type

record token_rules =
  tr_max_tokens_per_utxo :: int
  tr_allow_minting :: bool

record protocol_config =
  pc_consensus :: consensus_rules
  pc_subchain :: subchain_rules
  pc_token :: token_rules

record genesis =
  gen_chain_id :: string
  gen_chain_name :: string
  gen_symbol :: string
  gen_timestamp :: u64
  gen_extra_data :: string
  gen_alloc :: "(string \<times> u64) list"   \<comment> \<open>the Go map, in some iteration order\<close>
  gen_protocol :: protocol_config

definition fork_is_active :: "u64 \<Rightarrow> u64 \<Rightarrow> bool" where
  "fork_is_active forkHeight currentHeight \<longleftrightarrow> forkHeight > 0 \<and> currentHeight \<ge> forkHeight"

text \<open>\<open>BlockSubsidy\<close> reads two fields of the rules only; it is called with just these two.\<close>

definition BlockSubsidy :: "u64 \<Rightarrow> u64 \<Rightarrow> u64 \<Rightarrow> u64" where
  "BlockSubsidy blockReward halvingInterval height =
     (if height = 0 \<or> blockReward = 0 then 0
      else if halvingInterval = 0 then blockReward
      else let halvings = (height - 1) div halvingInterval
           in if halvings \<ge> 64 then 0 else drop_bit (unat halvings) blockReward)"

lemma unat_drop_bit: "unat (drop_bit n (w :: u64)) = unat w div 2 ^ n"
  using unat_u64_less [of w]
  by (subst unsigned_drop_bit_eq) (simp add: drop_bit_eq_div take_bit_eq_mod)

text \<open>The schedule in terms of natural numbers.\<close>

lemma unat_BlockSubsidy:
  "unat (BlockSubsidy r i h) =
     (if h = 0 then 0 else if i = 0 then unat r else unat r div 2 ^ ((unat h - 1) div unat i))"
proof (cases "h = 0 \<or> r = 0 \<or> i = 0")
  case True
  then show ?thesis by (auto simp: BlockSubsidy_def)
next
  case False
  let ?n = "(unat h - 1) div unat i"
  have "unat (h - 1) = unat h - 1"
    using False by (metis unat_minus_one)
  then have n: "unat ((h - 1) div i) = ?n" by (simp add: unat_div)
  show ?thesis
  proof (cases "?n < 64")
    case True
    then have "\<not> (h - 1) div i \<ge> 64" using n by (simp add: word_le_nat_alt)
    then show ?thesis using False n by (simp add: BlockSubsidy_def unat_drop_bit Let_def)
  next
    case False
    then have "(2 :: nat) ^ 64 \<le> 2 ^ ?n" by (intro power_increasing) simp_all
    with unat_u64_less [of r] have "unat r < 2 ^ ?n" by linarith
    moreover have "(h - 1) div i \<ge> 64" using False n by (simp add: word_le_nat_alt)
    ultimately show ?thesis
      using \<open>\<not> (h = 0 \<or> r = 0 \<or> i = 0)\<close> by (simp add: BlockSubsidy_def)
  qed
qed

lemma BlockSubsidy_le_reward: "BlockSubsidy r i h \<le> r"
  by (simp add: word_le_nat_alt unat_BlockSubsidy div_le_dividend)

lemma halving_series: "(\<Sum>k<m. r div 2 ^ k) + 2 * (r div 2 ^ m) \<le> 2 * (r :: nat)"
proof (induction m)
  case 0
  then show ?case by simp
next
  case (Suc m)
  have "r div 2 ^ Suc m = r div 2 ^ m div 2"
    by (metis div_mult2_eq mult.commute power_Suc)
  then have "2 * (r div 2 ^ Suc m) \<le> r div 2 ^ m" by simp
  then show ?case using Suc by simp
qed

lemma sum_periods:
  fixes f :: "nat \<Rightarrow> nat"
  assumes "0 < i"
  shows "(\<Sum>j < m * i. f (j div i)) = i * (\<Sum>k < m. f k)"
proof -
  have "(\<Sum>j \<in> {k * i..<k * i + i}. f (j div i)) = i * f k" for k
  proof -
    have "j div i = k" if "j \<in> {k * i..<k * i + i}" for j
      using that assms by (intro div_nat_eqI) (auto simp: mult.commute)
    then show ?thesis by simp
  qed
  then have "(\<Sum>j < m * i. f (j div i)) = (\<Sum>k < m. i * f k)"
    by (subst sum.nat_group [symmetric]) simp
  then show ?thesis by (simp add: sum_distrib_left)
qed

lemma emission_bound:
  assumes "0 < i"
  shows "(\<Sum>j < n. r div 2 ^ (j div i)) \<le> 2 * r * (i :: nat)"
proof -
  have "n \<le> n * i" using assms by (cases i) simp_all
  then have "(\<Sum>j < n. r div 2 ^ (j div i)) \<le> (\<Sum>j < n * i. r div 2 ^ (j div i))"
    by (intro sum_mono2) auto
  also have "\<dots> = i * (\<Sum>k < n. r div 2 ^ k)" by (rule sum_periods [OF assms])
  also have "\<dots> \<le> i * (2 * r)" using halving_series [of r n] by simp
  finally show ?thesis by (simp add: ac_simps)
qed

text \<open>
  C15: With halving enabled, all block subsidies of a chain together stay below twice the
  reward of the first period, however long the chain grows: the schedule alone bounds the
  emission.
\<close>

theorem subsidy_emission_bound:
  assumes "i \<noteq> 0" and "n < 2 ^ 64"
  shows "(\<Sum>h \<in> {1..n}. unat (BlockSubsidy r i (word_of_nat h))) \<le> 2 * unat r * unat i"
proof -
  have i: "0 < unat i" using assms(1) by (simp add: unat_gt_0)
  have "unat (BlockSubsidy r i (word_of_nat h)) = unat r div 2 ^ ((h - 1) div unat i)"
    if "h \<in> {1..n}" for h
  proof -
    have "unat (word_of_nat h :: u64) = h"
      using that assms(2) by (simp add: unat_of_nat)
    moreover from this have "(word_of_nat h :: u64) \<noteq> 0" using that by auto
    ultimately show ?thesis using assms(1) by (simp add: unat_BlockSubsidy)
  qed
  then have "(\<Sum>h \<in> {1..n}. unat (BlockSubsidy r i (word_of_nat h)))
      = (\<Sum>h \<in> {1..n}. unat r div 2 ^ ((h - 1) div unat i))" by simp
  also have "\<dots> = (\<Sum>j < n. unat r div 2 ^ (j div unat i))"
    by (rule sum.reindex_bij_witness [of _ Suc "\<lambda>h. h - 1"]) auto
  also have "\<dots> \<le> 2 * unat r * unat i" by (rule emission_bound [OF i])
  finally show ?thesis .
qed

theorem subsidy_emission_bound_witness:
  "(\<Sum>h \<in> {1..12}. unat (BlockSubsidy 20 5 (word_of_nat h))) \<le> 2 * unat (20 :: u64) * unat (5 :: u64)"
  by (rule subsidy_emission_bound) simp_all

section \<open>Validation of a genesis configuration\<close>

datatype genesis_error =
    MissingChainID | MissingInitialDifficulty | UnknownConsensusType | BadBlockTime
  | BadBlockReward | BadAllocAddress | AllocOverflow | AllocExceedsMaxSupply
  | BadMaxDepth | BadMaxPerParent | BadAnchorInterval

fun alloc_total :: "u64 \<Rightarrow> (string \<times> u64) list \<Rightarrow> genesis_error + u64" where
  "alloc_total t [] = Inr t"
| "alloc_total t ((addr, v) # xs) =
     (case ParseAddress addr of
        Inl e \<Rightarrow> Inl BadAllocAddress
      | Inr a \<Rightarrow> if t > max_u64 - v then Inl AllocOverflow else alloc_total (t + v) xs)"

definition check_consensus_type :: "consensus_rules \<Rightarrow> genesis_error option" where
  "check_consensus_type c =
     (case cr_type c of
        ConsensusPoA \<Rightarrow> None
      | ConsensusPoW \<Rightarrow> if cr_initial_difficulty c = 0 then Some MissingInitialDifficulty else None
      | UnknownConsensus _ \<Rightarrow> Some UnknownConsensusType)"

definition check_subchain_rules :: "subchain_rules \<Rightarrow> genesis_error option" where
  "check_subchain_rules r =
     (if \<not> sr_enabled r then None
      else if sr_max_depth r < 1 \<or> sr_max_depth r > 10 then Some BadMaxDepth
      else if sr_max_per_parent r < 1 then Some BadMaxPerParent
      else if sr_anchor_interval r < 1 then Some BadAnchorInterval
      else None)"

definition Genesis_Validate :: "genesis \<Rightarrow> genesis_error option" where
  "Genesis_Validate g =
     (let c = pc_consensus (gen_protocol g) in
      if gen_chain_id g = [] then Some MissingChainID
      else and_then (check_consensus_type c)
       (if cr_block_time c \<le> 0 then Some BadBlockTime
        else if cr_block_reward c = 0 then Some BadBlockReward
        else case alloc_total 0 (gen_alloc g) of
               Inl e \<Rightarrow> Some e
             | Inr t \<Rightarrow>
                 if cr_max_supply c > 0 \<and> t > cr_max_supply c then Some AllocExceedsMaxSupply
                 else check_subchain_rules (pc_subchain (gen_protocol g))))"

lemma alloc_total_exact:
  "alloc_total t xs = Inr s \<Longrightarrow> unat s = unat t + sum_u64 snd xs"
  by (induction t xs rule: alloc_total.induct) (auto simp: u64_simps split: sum.splits if_splits)

lemma alloc_total_parses:
  "alloc_total t xs = Inr s \<Longrightarrow> \<forall>(a, v) \<in> set xs. \<exists>x. ParseAddress a = Inr x"
  by (induction t xs rule: alloc_total.induct) (auto split: sum.splits if_splits)

text \<open>
  A genesis configuration that passes \<open>Validate\<close> allocates, computed without wrap-around,
  at most the configured maximum supply (when there is one), only to addresses that parse,
  and with a positive block time and reward.
\<close>

theorem genesis_validate_sound:
  assumes "Genesis_Validate g = None"
  shows "sum_u64 snd (gen_alloc g) < 2 ^ 64 \<and>
    (cr_max_supply (pc_consensus (gen_protocol g)) \<noteq> 0 \<longrightarrow>
       sum_u64 snd (gen_alloc g) \<le> unat (cr_max_supply (pc_consensus (gen_protocol g)))) \<and>
    (\<forall>(a, v) \<in> set (gen_alloc g). \<exists>x. ParseAddress a = Inr x) \<and>
    cr_block_time (pc_consensus (gen_protocol g)) > 0 \<and>
    cr_block_reward (pc_consensus (gen_protocol g)) \<noteq> 0"
proof -
  let ?c = "pc_consensus (gen_protocol g)"
  from assms obtain t where t: "alloc_total 0 (gen_alloc g) = Inr t"
    and le: "\<not> (cr_max_supply ?c > 0 \<and> t > cr_max_supply ?c)"
    and bt: "cr_block_time ?c > 0" "cr_block_reward ?c \<noteq> 0"
    by (auto simp: Genesis_Validate_def Let_def and_then_None split: if_splits sum.splits)
  from alloc_total_exact [OF t] have s: "unat t = sum_u64 snd (gen_alloc g)" by simp
  moreover have "cr_max_supply ?c \<noteq> 0 \<longrightarrow> t \<le> cr_max_supply ?c"
    using le by (auto simp: word_gt_0)
  ultimately show ?thesis
    using bt unat_u64_less [of t] alloc_total_parses [OF t] by (auto simp: word_le_nat_alt)
qed

text \<open>A genesis configuration in the shape of \<open>TestnetGenesis\<close>, with one raw-hex allocation.\<close>

definition demo_consensus_rules :: consensus_rules where
  "demo_consensus_rules = \<lparr>cr_type = ConsensusPoA, cr_block_time = 3, cr_validators = [],
     cr_initial_difficulty = 0, cr_difficulty_adjust = 0, cr_block_reward = 20,
     cr_max_supply = 1000, cr_halving_interval = 0, cr_min_fee_rate = 10, cr_validator_stake = 5\<rparr>"

definition demo_genesis :: genesis where
  "demo_genesis = \<lparr>gen_chain_id = ''demo'', gen_chain_name = ''Demo'', gen_symbol = ''KGX'',
     gen_timestamp = 1770734103, gen_extra_data = [],
     gen_alloc = [(''00000000000000000000000000000000000000aa'', 900)],
     gen_protocol = \<lparr>pc_consensus = demo_consensus_rules,
       pc_subchain = \<lparr>sr_enabled = True, sr_max_depth = 1, sr_max_per_parent = 10,
         sr_anchor_interval = 10, sr_require_anchors = True, sr_anchor_timeout = 100,
         sr_min_deposit = 1, sr_allow_pow = True, sr_default_consensus = ConsensusPoA\<rparr>,
       pc_token = \<lparr>tr_max_tokens_per_utxo = 1, tr_allow_minting = True\<rparr>\<rparr>\<rparr>"

lemma demo_genesis_valid: "Genesis_Validate demo_genesis = None"
  by code_simp

theorem genesis_validate_sound_witness:
  "sum_u64 snd (gen_alloc demo_genesis) \<le> 1000"
  using genesis_validate_sound [OF demo_genesis_valid]
  by (simp add: demo_genesis_def demo_consensus_rules_def)

end
