(* ===== verification/Tx.thy ===== *)
theory Tx
  imports Crypto Config "HOL-Library.AList"
begin

text \<open>
  Transactions (\<open>pkg/tx\<close>): the data, the canonical bytes that are hashed and signed, the
  structural and UTXO-aware validation, fees, and the builder with its two ways of signing.
\<close>

section \<open>Data\<close>

record input =
  in_prevout :: outpoint
  in_sig :: bytes
  in_pubkey :: bytes

record txout =
  out_value :: u64
  out_script :: script
  out_token :: "token_data option"

record transaction =
  tx_version :: u32
  tx_inputs :: "input list"
  tx_outputs :: "txout list"
  tx_locktime :: u64

abbreviation is_coinbase_input :: "input \<Rightarrow> bool" where
  "is_coinbase_input i \<equiv> is_zero_outpoint (in_prevout i)"

section \<open>Canonical bytes and transaction id\<close>

definition input_bytes :: "input \<Rightarrow> bytes" where
  "input_bytes i =
     hash_bytes (op_txid (in_prevout i)) @ le_bytes 4 (op_index (in_prevout i)) @
     (if is_coinbase_input i \<and> length (in_sig i) > 0
      then le_bytes 4 (word_of_nat (length (in_sig i)) :: u32) @ in_sig i else [])"

definition output_bytes :: "txout \<Rightarrow> bytes" where
  "output_bytes out =
     le_bytes 8 (out_value out) @ [sc_type (out_script out)] @
     le_bytes 4 (word_of_nat (length (sc_data (out_script out))) :: u32) @ sc_data (out_script out) @
     (case out_token out of
        None \<Rightarrow> []
      | Some t \<Rightarrow> hash_bytes (td_id t) @ le_bytes 8 (td_amount t))"

definition SigningBytes :: "transaction \<Rightarrow> bytes" where
  "SigningBytes t =
     le_bytes 4 (tx_version t) @
     le_bytes 4 (word_of_nat (length (tx_inputs t)) :: u32) @ concat (map input_bytes (tx_inputs t)) @
     le_bytes 4 (word_of_nat (length (tx_outputs t)) :: u32) @ concat (map output_bytes (tx_outputs t)) @
     le_bytes 8 (tx_locktime t)"

definition TxHash :: "crypto \<Rightarrow> transaction \<Rightarrow> hash" where
  "TxHash C t = Hash C (SigningBytes t)"

section \<open>Structural validation\<close>

datatype tx_error =
    ErrNoInputs | ErrNoOutputs | ErrDuplicateInput | ErrOutputOverflow | ErrNegativeOutput
  | ErrInvalidScript | ErrMintMissingToken | ErrMintNonZeroValue | ErrMissingPubKey
  | ErrMissingSig | ErrInvalidSig | ErrTooManyInputs | ErrTooManyOutputs | ErrScriptDataTooLarge
  | ErrInputNotFound | ErrInputSpent | ErrInsufficientFee | ErrInputOverflow | ErrScriptMismatch
  | ErrUnsupportedScript | ErrUnspendableOutput | ErrProvider

text \<open>The running sum of output values, with its overflow check.\<close>

fun sum_outputs :: "u64 \<Rightarrow> txout list \<Rightarrow> tx_error + u64" where
  "sum_outputs t [] = Inr t"
| "sum_outputs t (out # outs) =
     (if t > max_u64 - out_value out then Inl ErrOutputOverflow
      else sum_outputs (t + out_value out) outs)"

definition TotalOutputValue :: "transaction \<Rightarrow> tx_error + u64" where
  "TotalOutputValue t = sum_outputs 0 (tx_outputs t)"

fun check_duplicate_inputs :: "outpoint list \<Rightarrow> input list \<Rightarrow> tx_error option" where
  "check_duplicate_inputs seen [] = None"
| "check_duplicate_inputs seen (i # is) =
     (if in_prevout i \<in> set seen then Some ErrDuplicateInput
      else check_duplicate_inputs (in_prevout i # seen) is)"

definition check_input_auth :: "input \<Rightarrow> tx_error option" where
  "check_input_auth i =
     (if is_coinbase_input i then None
      else if in_pubkey i = [] then Some ErrMissingPubKey
      else if in_sig i = [] then Some ErrMissingSig
      else None)"

definition validateOutputScript :: "txout \<Rightarrow> tx_error option" where
  "validateOutputScript out =
     (let ty = sc_type (out_script out) in
      if ty = ScriptTypeP2PKH \<or> ty = ScriptTypeBurn \<or> ty = ScriptTypeAnchor \<or> ty = ScriptTypeRegister
      then None
      else if ty = ScriptTypeMint then
        (if out_token out = None then Some ErrMintMissingToken
         else if out_value out \<noteq> 0 then Some ErrMintNonZeroValue
         else if length (sc_data (out_script out)) < 20 then Some ErrInvalidScript
         else None)
      else if ty = ScriptTypeStake then
        (if length (sc_data (out_script out)) \<noteq> 33 then Some ErrInvalidScript else None)
      else Some ErrInvalidScript)"

fun validate_outputs :: "u64 \<Rightarrow> txout list \<Rightarrow> tx_error option" where
  "validate_outputs t [] = None"
| "validate_outputs t (out # outs) =
     (if out_value out = 0 \<and> out_token out = None then Some ErrNegativeOutput
      else and_then (validateOutputScript out)
       (if length (sc_data (out_script out)) > MaxScriptData then Some ErrScriptDataTooLarge
        else if t > max_u64 - out_value out then Some ErrOutputOverflow
        else validate_outputs (t + out_value out) outs))"

definition Validate :: "transaction \<Rightarrow> tx_error option" where
  "Validate t =
     (if tx_inputs t = [] then Some ErrNoInputs
      else if tx_outputs t = [] then Some ErrNoOutputs
      else if length (tx_inputs t) > MaxTxInputs then Some ErrTooManyInputs
      else if length (tx_outputs t) > MaxTxOutputs then Some ErrTooManyOutputs
      else and_then (check_duplicate_inputs [] (tx_inputs t))
          (and_then (first_error check_input_auth (tx_inputs t))
                    (validate_outputs 0 (tx_outputs t))))"

definition VerifySignatures :: "crypto \<Rightarrow> transaction \<Rightarrow> tx_error option" where
  "VerifySignatures C t =
     (let hash = TxHash C t in
      first_error (\<lambda>i. if is_coinbase_input i then None
                       else if \<not> VerifySignature C (hash_bytes hash) (in_sig i) (in_pubkey i)
                       then Some ErrInvalidSig else None) (tx_inputs t))"

section \<open>Validation against the UTXO set\<close>

record utxo_provider =
  GetUTXO :: "outpoint \<Rightarrow> (u64 \<times> script) option"
  HasUTXO :: "outpoint \<Rightarrow> bool"

definition verifyP2PKH :: "crypto \<Rightarrow> bytes \<Rightarrow> bytes \<Rightarrow> tx_error option" where
  "verifyP2PKH C pubKey scriptData =
     (if length scriptData \<noteq> 20 then Some ErrScriptMismatch
      else if pubKey = [] then Some ErrMissingPubKey
      else let hash = Hash C pubKey;
               expected = take_address scriptData;
               derived = take_address (hash_bytes hash)
           in if expected \<noteq> derived then Some ErrScriptMismatch else None)"

definition verifyAddressLock :: "crypto \<Rightarrow> bytes \<Rightarrow> bytes \<Rightarrow> tx_error option" where
  "verifyAddressLock C pubKey scriptData =
     (if length scriptData < 20 then Some ErrScriptMismatch
      else verifyP2PKH C pubKey (take 20 scriptData))"

definition check_unlock :: "crypto \<Rightarrow> input \<Rightarrow> script \<Rightarrow> tx_error option" where
  "check_unlock C i s =
     (if sc_type s = ScriptTypeRegister \<or> sc_type s = ScriptTypeAnchor \<or> sc_type s = ScriptTypeBurn
      then Some ErrUnspendableOutput
      else if sc_type s = ScriptTypeP2PKH then verifyP2PKH C (in_pubkey i) (sc_data s)
      else if sc_type s = ScriptTypeMint then verifyAddressLock C (in_pubkey i) (sc_data s)
      else if sc_type s = ScriptTypeStake then
        (if length (sc_data s) \<noteq> 33 then Some ErrScriptMismatch
         else if in_pubkey i \<noteq> sc_data s then Some ErrScriptMismatch
         else None)
      else Some ErrUnsupportedScript)"

fun check_inputs :: "crypto \<Rightarrow> utxo_provider \<Rightarrow> u64 \<Rightarrow> input list \<Rightarrow> tx_error + u64" where
  "check_inputs C P t [] = Inr t"
| "check_inputs C P t (i # is) =
     (if is_coinbase_input i then check_inputs C P t is
      else if \<not> HasUTXO P (in_prevout i) then Inl ErrInputNotFound
      else case GetUTXO P (in_prevout i) of
             None \<Rightarrow> Inl ErrProvider
           | Some (value, scr) \<Rightarrow>
               check (check_unlock C i scr)
                 (if t > max_u64 - value then Inl ErrInputOverflow
                  else check_inputs C P (t + value) is))"

definition ValidateWithUTXOs :: "crypto \<Rightarrow> utxo_provider \<Rightarrow> transaction \<Rightarrow> tx_error + u64" where
  "ValidateWithUTXOs C P t =
     check (Validate t)
      (bindE (check_inputs C P 0 (tx_inputs t)) (\<lambda>totalInput.
        check (VerifySignatures C t)
         (bindE (TotalOutputValue t) (\<lambda>totalOutput.
            if totalInput < totalOutput then Inl ErrInsufficientFee
            else Inr (totalInput - totalOutput)))))"

section \<open>Fees\<close>

definition EstimateTxFee :: "nat \<Rightarrow> nat \<Rightarrow> u64 \<Rightarrow> nat \<Rightarrow> u64" where
  "EstimateTxFee numInputs numOutputs feeRate extra =
     (let overhead = 4 + 4 + 4 + 8;
          perInput = 32 + 4;
          perOutput = 8 + 1 + 4 + 20;
          size = overhead + perInput * numInputs + (perOutput + extra) * numOutputs
      in word_of_nat size * feeRate)"

definition RequiredFee :: "transaction \<Rightarrow> u64 \<Rightarrow> u64" where
  "RequiredFee t feeRate = word_of_nat (length (SigningBytes t)) * feeRate"

section \<open>The builder\<close>

definition NewBuilder :: transaction where
  "NewBuilder = \<lparr>tx_version = 1, tx_inputs = [], tx_outputs = [], tx_locktime = 0\<rparr>"

definition AddInput :: "outpoint \<Rightarrow> transaction \<Rightarrow> transaction" where
  "AddInput prevOut b =
     b\<lparr>tx_inputs := tx_inputs b @ [\<lparr>in_prevout = prevOut, in_sig = [], in_pubkey = []\<rparr>]\<rparr>"

definition AddOutput :: "u64 \<Rightarrow> script \<Rightarrow> transaction \<Rightarrow> transaction" where
  "AddOutput value scr b =
     b\<lparr>tx_outputs := tx_outputs b @ [\<lparr>out_value = value, out_script = scr, out_token = None\<rparr>]\<rparr>"

definition AddTokenOutput :: "u64 \<Rightarrow> script \<Rightarrow> token_data \<Rightarrow> transaction \<Rightarrow> transaction" where
  "AddTokenOutput value scr tok b =
     b\<lparr>tx_outputs := tx_outputs b @ [\<lparr>out_value = value, out_script = scr, out_token = Some tok\<rparr>]\<rparr>"

definition SetLockTime :: "u64 \<Rightarrow> transaction \<Rightarrow> transaction" where
  "SetLockTime lockTime b = b\<lparr>tx_locktime := lockTime\<rparr>"

definition Sign :: "crypto \<Rightarrow> bytes \<Rightarrow> transaction \<Rightarrow> key_error + transaction" where
  "Sign C key b =
     bindE (SignHash C key (hash_bytes (TxHash C b))) (\<lambda>sig.
       Inr (b\<lparr>tx_inputs := map (\<lambda>i. i\<lparr>in_sig := sig, in_pubkey := PublicKey C key\<rparr>) (tx_inputs b)\<rparr>))"

datatype sign_error = NoAddressMapping | NoSigner | SignInput key_error

text \<open>
  \<open>SignMulti\<close> signs in place and returns at the first error, so the result is the inputs as
  far as they were rewritten, with the error. Signatures are cached per address.
\<close>

fun sign_inputs ::
  "crypto \<Rightarrow> bytes \<Rightarrow> (address \<rightharpoonup> bytes) \<Rightarrow> (outpoint \<rightharpoonup> address) \<Rightarrow>
   (address \<times> bytes \<times> bytes) list \<Rightarrow> input list \<Rightarrow> input list \<times> sign_error option" where
  "sign_inputs C h signers owner cache [] = ([], None)"
| "sign_inputs C h signers owner cache (i # is) =
     (if is_coinbase_input i then
        (let (is', e) = sign_inputs C h signers owner cache is in (i # is', e))
      else case owner (in_prevout i) of
        None \<Rightarrow> (i # is, Some NoAddressMapping)
      | Some addr \<Rightarrow>
         (case signers addr of
            None \<Rightarrow> (i # is, Some NoSigner)
          | Some key \<Rightarrow>
             (case map_of cache addr of
                Some (sig, pub) \<Rightarrow>
                  (let (is', e) = sign_inputs C h signers owner cache is
                   in (i\<lparr>in_sig := sig, in_pubkey := pub\<rparr> # is', e))
              | None \<Rightarrow>
                 (case SignHash C key h of
                    Inl e \<Rightarrow> (i # is, Some (SignInput e))
                  | Inr sig \<Rightarrow>
                      (let pub = PublicKey C key;
                           (is', e) = sign_inputs C h signers owner ((addr, sig, pub) # cache) is
                       in (i\<lparr>in_sig := sig, in_pubkey := pub\<rparr> # is', e))))))"

definition SignMulti ::
  "crypto \<Rightarrow> (address \<rightharpoonup> bytes) \<Rightarrow> (outpoint \<rightharpoonup> address) \<Rightarrow> transaction \<Rightarrow>
   transaction \<times> sign_error option" where
  "SignMulti C signers owner b =
     (let (is', e) = sign_inputs C (hash_bytes (TxHash C b)) signers owner [] (tx_inputs b)
      in (b\<lparr>tx_inputs := is'\<rparr>, e))"

section \<open>What the checks establish\<close>

definition output_ok :: "txout \<Rightarrow> bool" where
  "output_ok out \<longleftrightarrow> \<not> (out_value out = 0 \<and> out_token out = None) \<and>
     validateOutputScript out = None \<and> length (sc_data (out_script out)) \<le> MaxScriptData"

lemma sum_outputs_exact:
  "sum_outputs t outs = Inr s \<Longrightarrow> unat s = unat t + sum_u64 out_value outs"
  by (induction t outs rule: sum_outputs.induct) (auto simp: u64_simps split: if_splits)

lemma sum_outputs_defined:
  "unat t + sum_u64 out_value outs < 2 ^ 64 \<Longrightarrow> \<exists>s. sum_outputs t outs = Inr s"
proof (induction t outs rule: sum_outputs.induct)
  case (1 t)
  then show ?case by simp
next
  case (2 t out outs)
  then have "\<not> t > max_u64 - out_value out" by (simp add: u64_simps)
  moreover have "unat (t + out_value out) + sum_u64 out_value outs < 2 ^ 64"
    using 2 by (simp add: u64_simps)
  ultimately show ?case using 2 by simp
qed

lemma sum_outputs_error: "sum_outputs t outs = Inl e \<Longrightarrow> e = ErrOutputOverflow"
  by (induction t outs rule: sum_outputs.induct) (auto split: if_splits)

lemma check_duplicate_inputs_None:
  "check_duplicate_inputs seen is = None \<longleftrightarrow>
     distinct (map in_prevout is) \<and> set seen \<inter> in_prevout ` set is = {}"
  by (induction seen "is" rule: check_duplicate_inputs.induct) auto

lemma validate_outputs_None:
  "validate_outputs t outs = None \<longleftrightarrow>
     (\<forall>out \<in> set outs. output_ok out) \<and> unat t + sum_u64 out_value outs < 2 ^ 64"
proof (induction t outs rule: validate_outputs.induct)
  case (1 t)
  then show ?case using unat_u64_less by simp
next
  case (2 t out outs)
  show ?case
  proof (cases "t > max_u64 - out_value out")
    case True
    then have "\<not> unat t + sum_u64 out_value (out # outs) < 2 ^ 64" by (simp add: u64_simps)
    with True show ?thesis by (auto simp: and_then_None)
  next
    case False
    then have "unat (t + out_value out) = unat t + unat (out_value out)" by (simp add: u64_simps)
    with False 2 show ?thesis by (auto simp: and_then_None output_ok_def add.assoc)
  qed
qed

lemma Validate_None:
  "Validate t = None \<longleftrightarrow>
     tx_inputs t \<noteq> [] \<and> tx_outputs t \<noteq> [] \<and>
     length (tx_inputs t) \<le> 2500 \<and> length (tx_outputs t) \<le> 2500 \<and>
     distinct (map in_prevout (tx_inputs t)) \<and>
     (\<forall>i \<in> set (tx_inputs t). in_prevout i \<noteq> zero_outpoint \<longrightarrow> in_pubkey i \<noteq> [] \<and> in_sig i \<noteq> []) \<and>
     (\<forall>out \<in> set (tx_outputs t). output_ok out) \<and>
     sum_u64 out_value (tx_outputs t) < 2 ^ 64"
  by (auto simp: Validate_def err_simps check_duplicate_inputs_None check_input_auth_def
      validate_outputs_None limits_def not_less)

lemma Validate_distinct: "Validate t = None \<Longrightarrow> distinct (map in_prevout (tx_inputs t))"
  by (simp add: Validate_def err_simps check_duplicate_inputs_None)

lemma Validate_outputs: "Validate t = None \<Longrightarrow> out \<in> set (tx_outputs t) \<Longrightarrow> output_ok out"
  by (simp add: Validate_def err_simps validate_outputs_None)

text \<open>Value an input brings in, as the provider reports it.\<close>

definition input_value :: "utxo_provider \<Rightarrow> input \<Rightarrow> u64" where
  "input_value P i =
     (if is_coinbase_input i then 0
      else case GetUTXO P (in_prevout i) of None \<Rightarrow> 0 | Some (v, s) \<Rightarrow> v)"

definition spendable :: "crypto \<Rightarrow> utxo_provider \<Rightarrow> input \<Rightarrow> bool" where
  "spendable C P i \<longleftrightarrow> HasUTXO P (in_prevout i) \<and>
     (\<exists>v s. GetUTXO P (in_prevout i) = Some (v, s) \<and> check_unlock C i s = None)"

lemma check_inputs_exact:
  "check_inputs C P t is = Inr s \<Longrightarrow>
     unat s = unat t + sum_u64 (input_value P) is \<and>
     (\<forall>i \<in> set is. in_prevout i \<noteq> zero_outpoint \<longrightarrow> spendable C P i)"
proof (induction C P t "is" rule: check_inputs.induct)
  case (1 C P t)
  then show ?case by simp
next
  case (2 C P t i "is")
  show ?case
  proof (cases "is_coinbase_input i")
    case True
    then show ?thesis using 2 by (auto simp: input_value_def)
  next
    case False
    with "2.prems" obtain v s' where g: "GetUTXO P (in_prevout i) = Some (v, s')"
      and h: "HasUTXO P (in_prevout i)" and u: "check_unlock C i s' = None"
      and o: "\<not> t > max_u64 - v" and r: "check_inputs C P (t + v) is = Inr s"
      by (auto simp: check_Inr split: if_splits option.splits)
    have "unat (t + v) = unat t + unat v" using o by (simp add: u64_simps)
    moreover have "input_value P i = v" using False g by (simp add: input_value_def)
    moreover have "spendable C P i" using g h u by (auto simp: spendable_def)
    ultimately show ?thesis
      using "2.IH"(2) [OF False _ g refl o r] False h by (auto simp: add.assoc)
  qed
qed

lemma accepted_transaction:
  assumes "ValidateWithUTXOs C P t = Inr fee"
  shows "sum_u64 (input_value P) (tx_inputs t) = sum_u64 out_value (tx_outputs t) + unat fee"
    and "sum_u64 (input_value P) (tx_inputs t) < 2 ^ 64"
    and "\<And>i. i \<in> set (tx_inputs t) \<Longrightarrow> in_prevout i \<noteq> zero_outpoint \<Longrightarrow> spendable C P i"
proof -
  from assms obtain tin tout where i: "check_inputs C P 0 (tx_inputs t) = Inr tin"
    and out: "sum_outputs 0 (tx_outputs t) = Inr tout" and le: "\<not> tin < tout" and f: "fee = tin - tout"
    by (auto simp: ValidateWithUTXOs_def TotalOutputValue_def err_simps)
  have "unat fee = unat tin - unat tout" using le f by (simp add: u64_simps)
  moreover have "unat tout \<le> unat tin" using le by (simp add: word_less_nat_alt)
  ultimately show "sum_u64 (input_value P) (tx_inputs t) = sum_u64 out_value (tx_outputs t) + unat fee"
    using check_inputs_exact [OF i] sum_outputs_exact [OF out] by simp
  show "sum_u64 (input_value P) (tx_inputs t) < 2 ^ 64"
    using check_inputs_exact [OF i] unat_u64_less [of tin] by simp
  show "in_prevout i \<noteq> zero_outpoint \<Longrightarrow> spendable C P i" if "i \<in> set (tx_inputs t)" for i
    using check_inputs_exact [OF \<open>check_inputs C P 0 (tx_inputs t) = Inr tin\<close>] that by blast
qed

lemma ValidateWithUTXOs_Validate: "ValidateWithUTXOs C P t = Inr fee \<Longrightarrow> Validate t = None"
  by (auto simp: ValidateWithUTXOs_def err_simps)

text \<open>
  C4: A transaction accepted against a UTXO set creates no coins: the values it spends equal
  the values it creates plus the fee that is returned, all computed without wrap-around; and
  every output it spends exists, is unlocked by the script rules and is covered by a valid
  signature over the transaction id.
\<close>

theorem ValidateWithUTXOs_sound:
  assumes "ValidateWithUTXOs C P t = Inr fee"
  shows "sum_u64 (input_value P) (tx_inputs t) = sum_u64 out_value (tx_outputs t) + unat fee \<and>
    distinct (map in_prevout (tx_inputs t)) \<and>
    (\<forall>i \<in> set (tx_inputs t). in_prevout i \<noteq> zero_outpoint \<longrightarrow> spendable C P i \<and>
       VerifySignature C (hash_bytes (TxHash C t)) (in_sig i) (in_pubkey i))"
proof -
  from assms have v: "Validate t = None" and sg: "VerifySignatures C t = None"
    by (auto simp: ValidateWithUTXOs_def err_simps)
  then show ?thesis
    using accepted_transaction [OF assms] Validate_distinct [OF v]
    by (auto simp: VerifySignatures_def Let_def first_error_None split: if_splits)
qed

text \<open>What unlocks what: the pay-to-key and mint locks open only to the hashed key.\<close>

lemma check_unlock_cases:
  assumes "check_unlock C i s = None"
  shows "(sc_type s = ScriptTypeP2PKH \<and> length (sc_data s) = 20 \<and> in_pubkey i \<noteq> []
            \<and> AddressFromPubKey C (in_pubkey i) = take_address (sc_data s))
       \<or> (sc_type s = ScriptTypeMint \<and> length (sc_data s) \<ge> 20 \<and> in_pubkey i \<noteq> []
            \<and> AddressFromPubKey C (in_pubkey i) = take_address (sc_data s))
       \<or> (sc_type s = ScriptTypeStake \<and> in_pubkey i = sc_data s \<and> length (sc_data s) = 33)"
  using assms
  by (auto simp: check_unlock_def verifyP2PKH_def verifyAddressLock_def AddressFromPubKey_def
      take_address_def split: if_splits)

section \<open>The canonical bytes\<close>

lemma length_output_bytes [enc_length]:
  "length (output_bytes out) = 13 + length (sc_data (out_script out)) +
     (if out_token out = None then 0 else 40)"
  by (auto simp: output_bytes_def enc_length split: option.splits)

lemma length_input_bytes [enc_length]:
  "length (input_bytes i) = 36 + (if is_coinbase_input i \<and> in_sig i \<noteq> [] then 4 + length (in_sig i) else 0)"
  by (simp add: input_bytes_def enc_length)

lemma word_of_nat_u32_inject:
  "m < 2 ^ 32 \<Longrightarrow> n < 2 ^ 32 \<Longrightarrow> (word_of_nat m :: u32) = word_of_nat n \<longleftrightarrow> m = n"
  by (auto simp: unat_of_nat dest!: arg_cong [of _ _ unat])

text \<open>An output can be read off the front of a byte string once it is known whether it carries a token.\<close>

lemma output_bytes_prefix:
  assumes e: "output_bytes o1 @ us = output_bytes o2 @ vs"
    and tok: "out_token o1 = None \<longleftrightarrow> out_token o2 = None"
    and len: "length (sc_data (out_script o1)) < 2 ^ 32" "length (sc_data (out_script o2)) < 2 ^ 32"
  shows "o1 = o2 \<and> us = vs"
proof -
  let ?rest = "\<lambda>out. (case out_token out of None \<Rightarrow> [] | Some t \<Rightarrow> hash_bytes (td_id t) @ le_bytes 8 (td_amount t))"
  let ?l = "\<lambda>out. length (sc_data (out_script out))"
  have "le_bytes 8 (out_value o1) @ [sc_type (out_script o1)] @ le_bytes 4 (word_of_nat (?l o1) :: u32)
      @ sc_data (out_script o1) @ ?rest o1 @ us
    = le_bytes 8 (out_value o2) @ [sc_type (out_script o2)] @ le_bytes 4 (word_of_nat (?l o2) :: u32)
      @ sc_data (out_script o2) @ ?rest o2 @ vs"
    using e by (simp add: output_bytes_def)
  then have v: "out_value o1 = out_value o2" "sc_type (out_script o1) = sc_type (out_script o2)"
    and l: "?l o1 = ?l o2"
    and d: "sc_data (out_script o1) @ ?rest o1 @ us = sc_data (out_script o2) @ ?rest o2 @ vs"
    using len by (simp_all add: append_fixed word_of_nat_u32_inject)
  from d l have sd: "sc_data (out_script o1) = sc_data (out_script o2)" and r: "?rest o1 @ us = ?rest o2 @ vs"
    by simp_all
  show ?thesis
  proof (cases "out_token o1")
    case None
    then show ?thesis using tok v sd r by (cases o1; cases o2) (auto intro: script.equality)
  next
    case (Some t1)
    then obtain t2 where t2: "out_token o2 = Some t2" using tok by auto
    with r Some have "td_id t1 = td_id t2" "td_amount t1 = td_amount t2" "us = vs"
      by (simp_all add: append_fixed)
    then show ?thesis using Some t2 v sd
      by (cases o1; cases o2) (auto intro: script.equality token_data.equality)
  qed
qed

lemma outputs_prefix:
  assumes "concat (map output_bytes os1) @ us = concat (map output_bytes os2) @ vs"
    and "map (\<lambda>out. out_token out = None) os1 = map (\<lambda>out. out_token out = None) os2"
    and "\<forall>out \<in> set os1 \<union> set os2. length (sc_data (out_script out)) < 2 ^ 32"
  shows "os1 = os2 \<and> us = vs"
  using assms
proof (induction os1 arbitrary: os2)
  case Nil
  then show ?case by simp
next
  case (Cons o1 os1)
  from Cons.prems(2) obtain o2 os2' where os2: "os2 = o2 # os2'" by auto
  have "output_bytes o1 @ (concat (map output_bytes os1) @ us)
      = output_bytes o2 @ (concat (map output_bytes os2') @ vs)"
    using Cons.prems(1) os2 by simp
  from output_bytes_prefix [OF this] Cons.prems(2,3) os2
  have "o1 = o2" "concat (map output_bytes os1) @ us = concat (map output_bytes os2') @ vs" by auto
  then show ?case using Cons.IH [of os2'] Cons.prems os2 by auto
qed

lemma inputs_prefix:
  assumes "concat (map input_bytes is1) @ us = concat (map input_bytes is2) @ vs"
    and "length is1 = length is2"
    and "\<forall>i \<in> set is1 \<union> set is2. in_prevout i \<noteq> zero_outpoint"
  shows "map in_prevout is1 = map in_prevout is2 \<and> us = vs"
  using assms(2,1,3)
proof (induction is1 is2 rule: list_induct2)
  case Nil
  then show ?case by simp
next
  case (Cons i1 is1 i2 is2)
  have b: "input_bytes i = hash_bytes (op_txid (in_prevout i)) @ le_bytes 4 (op_index (in_prevout i))"
    if "in_prevout i \<noteq> zero_outpoint" for i
    using that by (simp add: input_bytes_def)
  from Cons.prems have "op_txid (in_prevout i1) = op_txid (in_prevout i2)"
    "op_index (in_prevout i1) = op_index (in_prevout i2)"
    "concat (map input_bytes is1) @ us = concat (map input_bytes is2) @ vs"
    by (simp_all add: b append_fixed)
  then show ?case using Cons by (auto intro: outpoint.expand)
qed

text \<open>
  C13: The signed bytes determine the transaction: two transactions without coinbase inputs
  that attach tokens at the same output positions, with list and data lengths below 2^32, have
  equal signing bytes only if version, spent outpoints, outputs and lock time are all equal.
\<close>

theorem SigningBytes_injective:
  assumes "SigningBytes t = SigningBytes t'"
    and "map (\<lambda>out. out_token out = None) (tx_outputs t) = map (\<lambda>out. out_token out = None) (tx_outputs t')"
    and "\<forall>i \<in> set (tx_inputs t) \<union> set (tx_inputs t'). in_prevout i \<noteq> zero_outpoint"
    and "length (tx_inputs t) < 2 ^ 32" "length (tx_inputs t') < 2 ^ 32"
    and "\<forall>out \<in> set (tx_outputs t) \<union> set (tx_outputs t'). length (sc_data (out_script out)) < 2 ^ 32"
  shows "tx_version t = tx_version t' \<and> map in_prevout (tx_inputs t) = map in_prevout (tx_inputs t') \<and>
    tx_outputs t = tx_outputs t' \<and> tx_locktime t = tx_locktime t'"
proof -
  let ?o = "\<lambda>t. concat (map output_bytes (tx_outputs t)) @ le_bytes 8 (tx_locktime t)"
  let ?n = "\<lambda>t. le_bytes 4 (word_of_nat (length (tx_outputs t)) :: u32)"
  let ?i = "\<lambda>t. concat (map input_bytes (tx_inputs t)) @ ?n t @ ?o t"
  have "le_bytes 4 (tx_version t) @ le_bytes 4 (word_of_nat (length (tx_inputs t)) :: u32) @ ?i t
      = le_bytes 4 (tx_version t') @ le_bytes 4 (word_of_nat (length (tx_inputs t')) :: u32) @ ?i t'"
    using assms(1) by (simp add: SigningBytes_def)
  then have ver: "tx_version t = tx_version t'" and len: "length (tx_inputs t) = length (tx_inputs t')"
    and rest: "?i t = ?i t'"
    using assms(4,5) by (simp_all add: append_fixed word_of_nat_u32_inject)
  from inputs_prefix [OF rest len assms(3)]
  have ins: "map in_prevout (tx_inputs t) = map in_prevout (tx_inputs t')" and "?n t @ ?o t = ?n t' @ ?o t'"
    by simp_all
  then have "?o t = ?o t'" by (simp add: append_fixed)
  from outputs_prefix [OF this assms(2,6)]
  have "tx_outputs t = tx_outputs t'" "tx_locktime t = tx_locktime t'" by simp_all
  with ver ins show ?thesis by simp
qed

text \<open>
  A sample spend: one input with a key that hashes to the zero address, one output.
\<close>

definition demo_script :: script where
  "demo_script = \<lparr>sc_type = ScriptTypeP2PKH, sc_data = replicate 20 0\<rparr>"

definition demo_input :: input where
  "demo_input = \<lparr>in_prevout = Outpoint 7 0, in_sig = [5], in_pubkey = [5]\<rparr>"

definition demo_tx :: transaction where
  "demo_tx = \<lparr>tx_version = 1, tx_inputs = [demo_input],
     tx_outputs = [\<lparr>out_value = 90, out_script = demo_script, out_token = None\<rparr>], tx_locktime = 0\<rparr>"

definition demo_provider :: utxo_provider where
  "demo_provider = \<lparr>GetUTXO = (\<lambda>x. if x = Outpoint 7 0 then Some (100, demo_script) else None),
     HasUTXO = (\<lambda>x. x = Outpoint 7 0)\<rparr>"

lemmas demo_tx_defs = demo_tx_def demo_input_def demo_script_def zero_outpoint_def

lemma demo_key_address: "verifyP2PKH toy_crypto [5] (replicate 20 0) = None"
  by (simp add: verifyP2PKH_def Hash_def toy_crypto_def take_address_def byte_eval
      le_word_zeros)

text \<open>
  \<open>Validate\<close> accepts exactly the transactions with at least one and at most 2500 inputs
  and outputs, pairwise distinct previous outpoints, key and signature on every input but the
  coinbase marker, well-formed outputs, and output values whose true sum fits a \<open>uint64\<close>.
\<close>

theorem Validate_iff:
  "Validate t = None \<longleftrightarrow>
     tx_inputs t \<noteq> [] \<and> tx_outputs t \<noteq> [] \<and>
     length (tx_inputs t) \<le> 2500 \<and> length (tx_outputs t) \<le> 2500 \<and>
     distinct (map in_prevout (tx_inputs t)) \<and>
     (\<forall>i \<in> set (tx_inputs t). in_prevout i \<noteq> zero_outpoint \<longrightarrow> in_pubkey i \<noteq> [] \<and> in_sig i \<noteq> []) \<and>
     (\<forall>out \<in> set (tx_outputs t). output_ok out) \<and>
     sum_u64 out_value (tx_outputs t) < 2 ^ 64"
  by (rule Validate_None)

theorem Validate_iff_witness: "Validate demo_tx = None \<and> Validate (demo_tx\<lparr>tx_outputs := []\<rparr>) \<noteq> None"
  using Validate_iff [of demo_tx] Validate_iff [of "demo_tx\<lparr>tx_outputs := []\<rparr>"]
  by (simp add: demo_tx_defs output_ok_def validateOutputScript_def MaxScriptData_def)

lemma demo_tx_structure: "Validate demo_tx = None"
  by (simp add: demo_tx_defs Validate_None output_ok_def validateOutputScript_def MaxScriptData_def)

lemma demo_tx_signed: "VerifySignatures toy_crypto demo_tx = None"
  by (simp add: VerifySignatures_def demo_tx_defs VerifySignature_def toy_crypto_def)

lemma demo_tx_valid: "ValidateWithUTXOs toy_crypto demo_provider demo_tx = Inr 10"
  using demo_key_address
  by (simp add: ValidateWithUTXOs_def demo_tx_structure demo_tx_signed)
     (simp add: demo_tx_defs demo_provider_def check_unlock_def TotalOutputValue_def check_def)

theorem ValidateWithUTXOs_sound_witness:
  "sum_u64 (input_value demo_provider) (tx_inputs demo_tx) =
     sum_u64 out_value (tx_outputs demo_tx) + unat (10 :: u64)"
  using ValidateWithUTXOs_sound [OF demo_tx_valid] by simp

theorem SigningBytes_injective_witness:
  "tx_outputs demo_tx = tx_outputs (demo_tx\<lparr>tx_inputs := [demo_input\<lparr>in_sig := [9]\<rparr>]\<rparr>)"
  using SigningBytes_injective [of demo_tx "demo_tx\<lparr>tx_inputs := [demo_input\<lparr>in_sig := [9]\<rparr>]\<rparr>"]
  by (simp add: demo_tx_def demo_input_def demo_script_def SigningBytes_def input_bytes_def
      zero_outpoint_def)

text \<open>Two transactions that differ only in where a token is attached.\<close>

definition ambiguous_id :: hash where
  "ambiguous_id = be_word (le_bytes 8 (3 :: u64) @ [ScriptTypeP2PKH] @ le_bytes 4 (60 :: u32) @ replicate 19 7)"

definition ambiguous_with_token :: transaction where
  "ambiguous_with_token = demo_tx\<lparr>tx_outputs :=
     [\<lparr>out_value = 1, out_script = demo_script, out_token = Some \<lparr>td_id = ambiguous_id, td_amount = 4\<rparr>\<rparr>,
      \<lparr>out_value = 2, out_script = demo_script, out_token = None\<rparr>]\<rparr>"

definition ambiguous_without_token :: transaction where
  "ambiguous_without_token = demo_tx\<lparr>tx_outputs :=
     [\<lparr>out_value = 1, out_script = demo_script, out_token = None\<rparr>,
      \<lparr>out_value = 3,
        out_script = \<lparr>sc_type = ScriptTypeP2PKH,
          sc_data = replicate 19 7 @ le_bytes 8 (4 :: u64) @
            output_bytes \<lparr>out_value = 2, out_script = demo_script, out_token = None\<rparr>\<rparr>,
        out_token = None\<rparr>]\<rparr>"

text \<open>
  C16: Without the side condition on token positions the signed bytes are ambiguous. The two
  transactions below both pass \<open>Validate\<close>, create different outputs (the first attaches a
  token, the second does not), and have the same signing bytes, hence the same id and the same
  valid signatures: \<open>SigningBytes\<close> writes no marker that says whether token data follows.
\<close>

theorem SigningBytes_token_ambiguity:
  "SigningBytes ambiguous_with_token = SigningBytes ambiguous_without_token \<and>
   Validate ambiguous_with_token = None \<and> Validate ambiguous_without_token = None \<and>
   map out_token (tx_outputs ambiguous_with_token) \<noteq> map out_token (tx_outputs ambiguous_without_token)"
proof (intro conjI)
  show "SigningBytes ambiguous_with_token = SigningBytes ambiguous_without_token"
  proof -
    let ?b = "le_bytes 8 (3 :: u64) @ [ScriptTypeP2PKH] @ le_bytes 4 (60 :: u32) @ replicate 19 7"
    have "hash_bytes ambiguous_id = ?b"
      unfolding ambiguous_id_def by (rule be_bytes_be_word) simp_all
    then show ?thesis
      by (simp add: SigningBytes_def ambiguous_with_token_def ambiguous_without_token_def
          output_bytes_def demo_script_def)
  qed
qed (simp_all add: ambiguous_with_token_def ambiguous_without_token_def Validate_None demo_tx_defs
      output_ok_def validateOutputScript_def MaxScriptData_def output_bytes_def)

section \<open>Signing\<close>

text \<open>Neither signature nor public key of an ordinary input enters the signed bytes.\<close>

lemma input_bytes_cong:
  "in_prevout i = in_prevout j \<Longrightarrow> in_prevout i \<noteq> zero_outpoint \<Longrightarrow> input_bytes i = input_bytes j"
  by (simp add: input_bytes_def)

lemma SigningBytes_cong:
  assumes "map input_bytes is' = map input_bytes (tx_inputs t)"
  shows "SigningBytes (t\<lparr>tx_inputs := is'\<rparr>) = SigningBytes t"
  using assms map_eq_imp_length_eq [OF assms] by (simp add: SigningBytes_def)

text \<open>
  Signing with the builder does not change the id that is signed, and the signed
  transaction verifies, whenever the Schnorr library accepts its own signatures and there is
  no coinbase input (whose signature field is part of the id).
\<close>

theorem Sign_verifies:
  assumes "Sign C key b = Inr t"
    and "\<forall>i \<in> set (tx_inputs b). in_prevout i \<noteq> zero_outpoint"
    and "\<forall>h sig. SignHash C key h = Inr sig \<longrightarrow> VerifySignature C h sig (PublicKey C key)"
  shows "TxHash C t = TxHash C b \<and> VerifySignatures C t = None"
proof -
  from assms(1) obtain sig where s: "SignHash C key (hash_bytes (TxHash C b)) = Inr sig"
    and t: "t = b\<lparr>tx_inputs := map (\<lambda>i. i\<lparr>in_sig := sig, in_pubkey := PublicKey C key\<rparr>) (tx_inputs b)\<rparr>"
    by (auto simp: Sign_def bindE_Inr)
  have h: "TxHash C t = TxHash C b"
    unfolding t TxHash_def using assms(2)
    by (subst SigningBytes_cong) (auto intro!: input_bytes_cong)
  moreover have "VerifySignature C (hash_bytes (TxHash C b)) sig (PublicKey C key)"
    using assms(3) s by blast
  ultimately show ?thesis
    using t by (auto simp: VerifySignatures_def Let_def first_error_None)
qed

theorem Sign_verifies_witness:
  "\<exists>t. Sign toy_crypto [5] demo_tx = Inr t \<and> VerifySignatures toy_crypto t = None"
proof -
  have s: "Sign toy_crypto [5] demo_tx = Inr demo_tx"
    by (simp add: Sign_def SignHash_def toy_crypto_def PublicKey_def demo_tx_defs)
  have "VerifySignatures toy_crypto demo_tx = None"
    using Sign_verifies [OF s]
    by (auto simp: demo_tx_def demo_input_def zero_outpoint_def SignHash_def VerifySignature_def
        toy_crypto_def PublicKey_def split: if_splits)
  with s show ?thesis by blast
qed

text \<open>The cache of \<open>SignMulti\<close> holds what signing would return.\<close>

definition cache_ok :: "crypto \<Rightarrow> bytes \<Rightarrow> (address \<rightharpoonup> bytes) \<Rightarrow> (address \<times> bytes \<times> bytes) list \<Rightarrow> bool" where
  "cache_ok C h signers cache \<longleftrightarrow>
     (\<forall>addr sig pub. map_of cache addr = Some (sig, pub) \<longrightarrow>
        (\<exists>key. signers addr = Some key \<and> SignHash C key h = Inr sig \<and> pub = PublicKey C key))"

text \<open>Signing one input on its own, as the specification of the loop.\<close>

definition sign_one ::
  "crypto \<Rightarrow> bytes \<Rightarrow> (address \<rightharpoonup> bytes) \<Rightarrow> (outpoint \<rightharpoonup> address) \<Rightarrow> input \<Rightarrow> sign_error + input" where
  "sign_one C h signers owner i =
     (if is_coinbase_input i then Inr i
      else case owner (in_prevout i) of
        None \<Rightarrow> Inl NoAddressMapping
      | Some addr \<Rightarrow>
         (case signers addr of
            None \<Rightarrow> Inl NoSigner
          | Some key \<Rightarrow>
             (case SignHash C key h of
                Inl e \<Rightarrow> Inl (SignInput e)
              | Inr sig \<Rightarrow> Inr (i\<lparr>in_sig := sig, in_pubkey := PublicKey C key\<rparr>))))"

fun sign_each ::
  "crypto \<Rightarrow> bytes \<Rightarrow> (address \<rightharpoonup> bytes) \<Rightarrow> (outpoint \<rightharpoonup> address) \<Rightarrow> input list \<Rightarrow>
   input list \<times> sign_error option" where
  "sign_each C h signers owner [] = ([], None)"
| "sign_each C h signers owner (i # is) =
     (case sign_one C h signers owner i of
        Inl e \<Rightarrow> (i # is, Some e)
      | Inr i' \<Rightarrow> (let (is', e) = sign_each C h signers owner is in (i' # is', e)))"

lemma sign_inputs_cached:
  "cache_ok C h signers cache \<Longrightarrow>
     sign_inputs C h signers owner cache is = sign_each C h signers owner is"
proof (induction C h signers owner cache "is" rule: sign_inputs.induct)
  case (1 C h signers owner cache)
  then show ?case by simp
next
  case (2 C h signers owner cache i "is")
  show ?case
  proof (cases "is_coinbase_input i \<or> owner (in_prevout i) = None")
    case True
    then show ?thesis using 2 by (auto simp: sign_one_def split: prod.splits)
  next
    case False
    then obtain addr where nz: "\<not> is_coinbase_input i" and o: "owner (in_prevout i) = Some addr" by auto
    show ?thesis
    proof (cases "signers addr")
      case None
      then show ?thesis using nz o by (simp add: sign_one_def)
    next
      case (Some key)
      show ?thesis
      proof (cases "map_of cache addr")
        case None
        show ?thesis
        proof (cases "SignHash C key h")
          case (Inl e)
          then show ?thesis using nz o Some None by (simp add: sign_one_def)
        next
          case (Inr sig)
          have "cache_ok C h signers ((addr, sig, PublicKey C key) # cache)"
            using "2.prems" Some Inr by (auto simp: cache_ok_def split: if_splits)
          then show ?thesis
            using "2.IH"(2) [OF nz o Some None Inr refl] nz o Some None Inr
            by (simp add: sign_one_def Let_def split: prod.splits)
        qed
      next
        case cached: (Some sp)
        obtain sig pub where sp: "sp = (sig, pub)" by fastforce
        with "2.prems" cached Some have "SignHash C key h = Inr sig" "pub = PublicKey C key"
          unfolding cache_ok_def by fastforce+
        then show ?thesis
          using "2.IH"(3) [OF nz o Some cached sp [symmetric] "2.prems"] nz o Some cached sp
          by (simp add: sign_one_def split: prod.splits)
      qed
    qed
  qed
qed

text \<open>
  The signature cache of \<open>SignMulti\<close> is only an optimisation: the rewritten inputs and
  the error are those of signing every input separately with the key of its owner.
\<close>

theorem SignMulti_uncached:
  "SignMulti C signers owner b =
     (let (is', e) = sign_each C (hash_bytes (TxHash C b)) signers owner (tx_inputs b)
      in (b\<lparr>tx_inputs := is'\<rparr>, e))"
  by (simp add: SignMulti_def sign_inputs_cached cache_ok_def)

section \<open>Fee estimation\<close>

lemma sum_const_length: "(\<forall>x \<in> set xs. length (f x) = k) \<Longrightarrow> length (concat (map f xs)) = k * length xs"
  by (induction xs) auto

text \<open>
  \<open>EstimateTxFee\<close> predicts \<open>RequiredFee\<close> exactly for the transactions it is made for:
  no coinbase input, and outputs that all exceed a 20-byte pay-to-key output by \<open>extra\<close> bytes
  (0 for plain payments, 13 for stakes, 40 for token transfers).
\<close>

theorem EstimateTxFee_exact:
  assumes "\<forall>i \<in> set (tx_inputs t). in_prevout i \<noteq> zero_outpoint"
    and "\<forall>out \<in> set (tx_outputs t).
      length (sc_data (out_script out)) + (if out_token out = None then 0 else 40) = 20 + extra"
  shows "EstimateTxFee (length (tx_inputs t)) (length (tx_outputs t)) rate extra = RequiredFee t rate"
proof -
  have "length (concat (map input_bytes (tx_inputs t))) = 36 * length (tx_inputs t)"
    using assms(1) by (intro sum_const_length) (simp add: length_input_bytes)
  moreover have "length (concat (map output_bytes (tx_outputs t))) = (33 + extra) * length (tx_outputs t)"
    using assms(2) by (intro sum_const_length) (simp add: length_output_bytes)
  ultimately have "length (SigningBytes t)
      = 20 + 36 * length (tx_inputs t) + (33 + extra) * length (tx_outputs t)"
    by (simp add: SigningBytes_def)
  then show ?thesis by (simp only: EstimateTxFee_def RequiredFee_def Let_def) simp
qed

theorem EstimateTxFee_exact_witness: "EstimateTxFee 1 1 10 0 = RequiredFee demo_tx 10"
  using EstimateTxFee_exact [of demo_tx 0 10]
  by (simp add: demo_tx_def demo_input_def demo_script_def zero_outpoint_def)

end
