(* ===== verification/Block.thy ===== *)
theory Block
  imports Tx
begin

text \<open>
  Blocks (\<open>pkg/block\<close>): header bytes and hash, the Merkle root, and structural validation.
\<close>

section \<open>Headers\<close>

record header =
  h_version :: u32
  h_prev :: hash
  h_merkle :: hash
  h_timestamp :: u64
  h_height :: u64
  h_difficulty :: u64
  h_nonce :: u64
  h_sig :: bytes

definition HeaderSigningBytes :: "header \<Rightarrow> bytes" where
  "HeaderSigningBytes h =
     le_bytes 4 (h_version h) @ hash_bytes (h_prev h) @ hash_bytes (h_merkle h) @
     le_bytes 8 (h_timestamp h) @ le_bytes 8 (h_height h) @
     le_bytes 8 (h_difficulty h) @ le_bytes 8 (h_nonce h)"

definition HeaderHash :: "crypto \<Rightarrow> header \<Rightarrow> hash" where
  "HeaderHash C h = Hash C (HeaderSigningBytes h)"

lemma length_HeaderSigningBytes [enc_length]: "length (HeaderSigningBytes h) = 100"
  by (simp add: HeaderSigningBytes_def)

text \<open>
  The 100 bytes that are hashed, mined and signed determine every header field except the
  validator signature.
\<close>

theorem HeaderSigningBytes_inject:
  "HeaderSigningBytes h = HeaderSigningBytes h' \<longleftrightarrow> h\<lparr>h_sig := []\<rparr> = h'\<lparr>h_sig := []\<rparr>"
  by (cases h; cases h') (auto simp: HeaderSigningBytes_def append_fixed)

section \<open>Blocks\<close>

record block =
  b_header :: "header option"
  b_txs :: "transaction list"

definition BlockHash :: "crypto \<Rightarrow> block \<Rightarrow> hash" where
  "BlockHash C b = (case b_header b of None \<Rightarrow> 0 | Some h \<Rightarrow> HeaderHash C h)"

section \<open>Merkle root\<close>

fun pair_up :: "crypto \<Rightarrow> hash list \<Rightarrow> hash list" where
  "pair_up C (a # b # xs) = HashConcat C a b # pair_up C xs"
| "pair_up C xs = []"

definition pad_level :: "hash list \<Rightarrow> hash list" where
  "pad_level level = (if length level mod 2 \<noteq> 0 then level @ [last level] else level)"

lemma length_pair_up [simp]: "length (pair_up C xs) = length xs div 2"
  by (induction C xs rule: pair_up.induct) simp_all

lemma length_pad_level: "length (pad_level xs) = 2 * ((length xs + 1) div 2)"
  by (simp add: pad_level_def) presburger

function merkle_loop :: "crypto \<Rightarrow> hash list \<Rightarrow> hash list" where
  "merkle_loop C level =
     (if length level > 1 then merkle_loop C (pair_up C (pad_level level)) else level)"
  by pat_completeness auto
termination
  by (relation "measure (\<lambda>(C, level). length level)") (auto simp: length_pad_level)

declare merkle_loop.simps [simp del]

definition ComputeMerkleRoot :: "crypto \<Rightarrow> hash list \<Rightarrow> hash" where
  "ComputeMerkleRoot C txHashes =
     (case txHashes of
        [] \<Rightarrow> 0
      | [h] \<Rightarrow> h
      | _ \<Rightarrow> (case merkle_loop C txHashes of [] \<Rightarrow> 0 | h # _ \<Rightarrow> h))"

lemma merkle_loop_length: "level \<noteq> [] \<Longrightarrow> length (merkle_loop C level) = 1"
proof (induction C level rule: merkle_loop.induct)
  case (1 C level)
  show ?case
  proof (cases "length level > 1")
    case True
    then have "pair_up C (pad_level level) \<noteq> []"
      by (simp add: length_pad_level flip: length_0_conv)
    with True 1 show ?thesis by (simp add: merkle_loop.simps [of C level])
  next
    case False
    with 1 show ?thesis by (cases level) (simp_all add: merkle_loop.simps [of C])
  qed
qed

lemma ComputeMerkleRoot_loop:
  assumes "level \<noteq> []"
  shows "merkle_loop C level = [ComputeMerkleRoot C level]"
proof -
  obtain h where h: "merkle_loop C level = [h]"
    using merkle_loop_length [OF assms, of C] by (auto simp: length_Suc_conv)
  show ?thesis
  proof (cases "length level > 1")
    case True
    then obtain a b xs where "level = a # b # xs" by (cases level; cases "tl level") auto
    then show ?thesis using h by (simp add: ComputeMerkleRoot_def)
  next
    case False
    then obtain a where "level = [a]" using assms by (cases level) auto
    then show ?thesis by (simp add: ComputeMerkleRoot_def merkle_loop.simps [of C "[a]"])
  qed
qed

text \<open>One level up, the root is the root of the padded and paired level.\<close>

lemma ComputeMerkleRoot_step:
  assumes "length level > 1"
  shows "ComputeMerkleRoot C level = ComputeMerkleRoot C (pair_up C (pad_level level))"
proof -
  have "pair_up C (pad_level level) \<noteq> []" "level \<noteq> []"
    using assms by (auto simp: length_pad_level simp flip: length_0_conv)
  then show ?thesis
    using ComputeMerkleRoot_loop [of level C] ComputeMerkleRoot_loop [of "pair_up C (pad_level level)" C]
      assms by (simp add: merkle_loop.simps [of C level])
qed

text \<open>The pairs of hashes that are concatenated and hashed on the way to the root.\<close>

fun level_pairs :: "hash list \<Rightarrow> (hash \<times> hash) list" where
  "level_pairs (a # b # xs) = (a, b) # level_pairs xs"
| "level_pairs xs = []"

function merkle_pairs :: "crypto \<Rightarrow> hash list \<Rightarrow> (hash \<times> hash) list" where
  "merkle_pairs C level =
     (if length level > 1
      then level_pairs (pad_level level) @ merkle_pairs C (pair_up C (pad_level level)) else [])"
  by pat_completeness auto
termination
  by (relation "measure (\<lambda>(C, level). length level)") (auto simp: length_pad_level)

declare merkle_pairs.simps [simp del]

definition pair_collision :: "crypto \<Rightarrow> (hash \<times> hash) set \<Rightarrow> (hash \<times> hash) set \<Rightarrow> bool" where
  "pair_collision C A B \<longleftrightarrow>
     (\<exists>p \<in> A. \<exists>q \<in> B. p \<noteq> q \<and> HashConcat C (fst p) (snd p) = HashConcat C (fst q) (snd q))"

lemma pair_collision_mono: "pair_collision C A B \<Longrightarrow> A \<subseteq> A' \<Longrightarrow> B \<subseteq> B' \<Longrightarrow> pair_collision C A' B'"
  by (fastforce simp: pair_collision_def)

definition merkle_collision :: "crypto \<Rightarrow> hash list \<Rightarrow> hash list \<Rightarrow> bool" where
  "merkle_collision C xs ys \<longleftrightarrow>
     pair_collision C (set (merkle_pairs C xs)) (set (merkle_pairs C ys))"

lemma pair_up_eq:
  assumes "length xs = length ys" and "pair_up C xs = pair_up C ys" and "even (length xs)"
  shows "xs = ys \<or> pair_collision C (set (level_pairs xs)) (set (level_pairs ys))"
  using assms
proof (induction C xs arbitrary: ys rule: pair_up.induct)
  case (1 C a b xs)
  then obtain c d ys' where ys: "ys = c # d # ys'" by (metis Suc_length_conv)
  with 1 have "xs = ys' \<or> pair_collision C (set (level_pairs xs)) (set (level_pairs ys'))"
    and eq: "HashConcat C a b = HashConcat C c d" by auto
  then show ?case
  proof (elim disjE)
    assume "pair_collision C (set (level_pairs xs)) (set (level_pairs ys'))"
    then have "pair_collision C (set (level_pairs (a # b # xs))) (set (level_pairs ys))"
      by (rule pair_collision_mono) (auto simp: ys)
    then show ?thesis by blast
  next
    assume "xs = ys'"
    then show ?thesis using eq by (auto simp: ys pair_collision_def)
  qed
qed (auto simp: length_Suc_conv)

lemma pad_level_eq: "length xs = length ys \<Longrightarrow> pad_level xs = pad_level ys \<longleftrightarrow> xs = ys"
  by (auto simp: pad_level_def)

text \<open>
  C6: The Merkle root commits to the list of hashes: two lists of the same length with the same
  root are equal, or the computation of the two roots has hashed two different pairs to the
  same value, a collision of BLAKE3 that the theorem points at.
\<close>

theorem ComputeMerkleRoot_binding:
  assumes "length xs = length ys" and "ComputeMerkleRoot C xs = ComputeMerkleRoot C ys"
  shows "xs = ys \<or> merkle_collision C xs ys"
  using assms
proof (induction C xs arbitrary: ys rule: merkle_loop.induct)
  case (1 C xs)
  show ?case
  proof (cases "length xs > 1")
    case False
    then show ?thesis
      using "1.prems" by (cases xs; cases ys) (auto simp: ComputeMerkleRoot_def)
  next
    case True
    let ?xs = "pad_level xs" and ?ys = "pad_level ys"
    have "ComputeMerkleRoot C (pair_up C ?xs) = ComputeMerkleRoot C (pair_up C ?ys)"
      using True "1.prems" ComputeMerkleRoot_step by metis
    with "1.IH" [OF True, of "pair_up C ?ys"] "1.prems"
    have "pair_up C ?xs = pair_up C ?ys \<or> merkle_collision C (pair_up C ?xs) (pair_up C ?ys)"
      by (simp add: length_pad_level)
    moreover have "set (merkle_pairs C xs) = set (level_pairs ?xs) \<union> set (merkle_pairs C (pair_up C ?xs))"
      "set (merkle_pairs C ys) = set (level_pairs ?ys) \<union> set (merkle_pairs C (pair_up C ?ys))"
      using True "1.prems" by (simp_all add: merkle_pairs.simps [of C xs] merkle_pairs.simps [of C ys])
    moreover have "?xs = ?ys \<longleftrightarrow> xs = ys" using "1.prems" by (simp add: pad_level_eq)
    ultimately show ?thesis
      using pair_up_eq [of ?xs ?ys C] "1.prems" pair_collision_mono [of C _ _ "set (merkle_pairs C xs)" "set (merkle_pairs C ys)"]
      unfolding merkle_collision_def by (simp add: length_pad_level) blast
  qed
qed

theorem ComputeMerkleRoot_binding_witness:
  "merkle_collision (toy_crypto\<lparr>blake3_sum256 := (\<lambda>_. 5)\<rparr>) [1, 2, 3] [3, 1, 2]"
  using ComputeMerkleRoot_binding [of "[1, 2, 3]" "[3, 1, 2]" "toy_crypto\<lparr>blake3_sum256 := (\<lambda>_. 5)\<rparr>"]
  by (simp add: ComputeMerkleRoot_def merkle_loop.simps [of _ "_ # _ # _"] merkle_loop.simps [of _ "[_]"]
      pad_level_def HashConcat_def Hash_def)

text \<open>
  The root alone does not fix the number of hashes: an odd level is padded with its last
  element, so repeating that element by hand gives the same root.
\<close>

lemma ComputeMerkleRoot_duplicate:
  assumes "odd (length xs)" and "length xs > 1"
  shows "ComputeMerkleRoot C (xs @ [last xs]) = ComputeMerkleRoot C xs"
proof -
  have "length xs mod 2 = 1" using assms(1) by presburger
  then have "pad_level (xs @ [last xs]) = pad_level xs" by (simp add: pad_level_def mod_Suc)
  then show ?thesis using ComputeMerkleRoot_step assms
    by (metis length_append_singleton less_SucI)
qed

section \<open>Validation\<close>

datatype block_error =
    ErrNilHeader | ErrNoTransactions | ErrBadMerkleRoot | ErrBadVersion | ErrZeroTimestamp
  | ErrBadTxOrder | ErrNoCoinbase | ErrTooManyTxs | ErrBlockTooLarge | ErrDuplicateBlockInput
  | ErrMultipleCoinbase | BlockTx tx_error

definition CurrentVersion :: u32 where "CurrentVersion = 1"
definition MaxVersion :: u32 where "MaxVersion = 1"

definition isCoinbase :: "transaction \<Rightarrow> bool" where
  "isCoinbase t \<longleftrightarrow> (case tx_inputs t of [i] \<Rightarrow> is_coinbase_input i | _ \<Rightarrow> False)"

definition block_size :: "header \<Rightarrow> transaction list \<Rightarrow> nat" where
  "block_size h txs = length (HeaderSigningBytes h) + sum_list (map (\<lambda>t. length (SigningBytes t)) txs)"

text \<open>Loop over the sorted part: \<open>i\<close> runs from 2 and compares neighbours.\<close>

definition check_tx_order :: "hash list \<Rightarrow> block_error option" where
  "check_tx_order hs =
     first_error (\<lambda>i. if hs ! (i - 1) \<ge> hs ! i then Some ErrBadTxOrder else None) [2..<length hs]"

definition check_single_coinbase :: "transaction list \<Rightarrow> block_error option" where
  "check_single_coinbase txs =
     first_error (\<lambda>t. first_error (\<lambda>i. if is_coinbase_input i then Some ErrMultipleCoinbase else None)
       (tx_inputs t)) txs"

text \<open>The map \<open>allInputs\<close> over the inputs of all transactions in order.\<close>

fun check_block_inputs :: "outpoint list \<Rightarrow> input list \<Rightarrow> block_error option" where
  "check_block_inputs seen [] = None"
| "check_block_inputs seen (i # is) =
     (if is_coinbase_input i then check_block_inputs seen is
      else if in_prevout i \<in> set seen then Some ErrDuplicateBlockInput
      else check_block_inputs (in_prevout i # seen) is)"

definition validate_tx_in_block :: "transaction \<Rightarrow> block_error option" where
  "validate_tx_in_block t = map_option BlockTx (Validate t)"

definition Block_Validate :: "crypto \<Rightarrow> block \<Rightarrow> block_error option" where
  "Block_Validate C b =
     (case b_header b of
        None \<Rightarrow> Some ErrNilHeader
      | Some h \<Rightarrow>
          if h_version h < 1 \<or> h_version h > MaxVersion then Some ErrBadVersion
          else if h_timestamp h = 0 then Some ErrZeroTimestamp
          else case b_txs b of
            [] \<Rightarrow> Some ErrNoTransactions
          | cb # rest \<Rightarrow>
              if length (b_txs b) > MaxBlockTxs then Some ErrTooManyTxs
              else if block_size h (b_txs b) > MaxBlockSize then Some ErrBlockTooLarge
              else if \<not> isCoinbase cb then Some ErrNoCoinbase
              else and_then (check_single_coinbase rest)
               (let txHashes = map (TxHash C) (b_txs b) in
                if h_merkle h \<noteq> ComputeMerkleRoot C txHashes then Some ErrBadMerkleRoot
                else and_then (check_tx_order txHashes)
                     (and_then (first_error validate_tx_in_block (b_txs b))
                               (check_block_inputs [] (concat (map tx_inputs (b_txs b)))))))"

text \<open>Non-coinbase inputs of a list of transactions, in order.\<close>

definition spent_outpoints :: "transaction list \<Rightarrow> outpoint list" where
  "spent_outpoints txs =
     filter (\<lambda>x. x \<noteq> zero_outpoint) (map in_prevout (concat (map tx_inputs txs)))"

lemma spent_outpoints_simps [simp]:
  "spent_outpoints [] = []"
  "spent_outpoints (t # ts) = filter (\<lambda>x. x \<noteq> zero_outpoint) (map in_prevout (tx_inputs t)) @ spent_outpoints ts"
  by (simp_all add: spent_outpoints_def)

lemma check_block_inputs_None:
  "check_block_inputs seen is = None \<longleftrightarrow>
     distinct (filter (\<lambda>x. x \<noteq> zero_outpoint) (map in_prevout is)) \<and>
     set seen \<inter> set (filter (\<lambda>x. x \<noteq> zero_outpoint) (map in_prevout is)) = {}"
  by (induction seen "is" rule: check_block_inputs.induct) (auto split: if_splits)

lemma isCoinbase_iff: "isCoinbase t \<longleftrightarrow> (\<exists>i. tx_inputs t = [i] \<and> in_prevout i = zero_outpoint)"
  by (auto simp: isCoinbase_def split: list.splits)

lemma check_tx_order_None:
  "check_tx_order hs = None \<longleftrightarrow> sorted_wrt (<) (tl hs)"
proof -
  have "check_tx_order hs = None \<longleftrightarrow> (\<forall>i. 2 \<le> i \<and> i < length hs \<longrightarrow> hs ! (i - 1) < hs ! i)"
    by (auto simp: check_tx_order_def first_error_None not_le split: if_splits)
  also have "\<dots> \<longleftrightarrow> (\<forall>i. Suc i < length (tl hs) \<longrightarrow> tl hs ! i < tl hs ! Suc i)"
  proof (intro iffI allI impI)
    fix i assume *: "\<forall>i. 2 \<le> i \<and> i < length hs \<longrightarrow> hs ! (i - 1) < hs ! i" and i: "Suc i < length (tl hs)"
    then have "hs ! (Suc (Suc i) - 1) < hs ! Suc (Suc i)" using spec [OF *, of "Suc (Suc i)"] by simp
    then show "tl hs ! i < tl hs ! Suc i" using i by (simp add: nth_tl)
  next
    fix i assume *: "\<forall>i. Suc i < length (tl hs) \<longrightarrow> tl hs ! i < tl hs ! Suc i"
      and i: "2 \<le> i \<and> i < length hs"
    define k where "k = i - 2"
    then have k: "i = Suc (Suc k)" using i by linarith
    have "tl hs ! k < tl hs ! Suc k" using spec [OF *, of k] i k by simp
    then show "hs ! (i - 1) < hs ! i" using i k by (simp add: nth_tl)
  qed
  also have "\<dots> \<longleftrightarrow> sorted_wrt (<) (tl hs)"
    by (rule sorted_wrt_iff_nth_Suc_transp [symmetric]) (auto intro: transpI)
  finally show ?thesis .
qed

text \<open>
  C5: A block that passes \<open>Validate\<close> has a coinbase as its first transaction and nowhere else,
  its remaining transactions strictly ordered by id (hence distinct), a header that commits to
  exactly these ids, only valid transactions, and no outpoint spent twice.
\<close>

theorem Block_Validate_sound:
  assumes "Block_Validate C b = None"
  shows "\<exists>h cb rest. b_header b = Some h \<and> b_txs b = cb # rest \<and> isCoinbase cb \<and>
    (\<forall>t \<in> set rest. \<forall>i \<in> set (tx_inputs t). in_prevout i \<noteq> zero_outpoint) \<and>
    h_merkle h = ComputeMerkleRoot C (map (TxHash C) (b_txs b)) \<and>
    sorted_wrt (<) (map (TxHash C) rest) \<and>
    (\<forall>t \<in> set (b_txs b). Validate t = None) \<and>
    distinct (spent_outpoints (b_txs b)) \<and>
    length (b_txs b) \<le> 500 \<and> block_size h (b_txs b) \<le> 2000000 \<and> h_version h = 1 \<and> h_timestamp h \<noteq> 0"
proof -
  from assms obtain h where h: "b_header b = Some h" by (auto simp: Block_Validate_def split: option.splits)
  from assms h obtain cb rest where tx: "b_txs b = cb # rest"
    by (auto simp: Block_Validate_def split: list.splits if_splits)
  note v = assms [unfolded Block_Validate_def h tx, simplified, unfolded Let_def, simplified err_simps]
  have "isCoinbase cb" "check_single_coinbase rest = None"
    and m: "h_merkle h = ComputeMerkleRoot C (map (TxHash C) (b_txs b))"
    and o: "check_tx_order (map (TxHash C) (b_txs b)) = None"
    and t: "first_error validate_tx_in_block (b_txs b) = None"
    and i: "check_block_inputs [] (concat (map tx_inputs (b_txs b))) = None"
    and l: "length (b_txs b) \<le> MaxBlockTxs" "block_size h (b_txs b) \<le> MaxBlockSize"
    and ver: "\<not> h_version h < 1" "\<not> h_version h > MaxVersion" and ts: "h_timestamp h \<noteq> 0"
    using v by (auto simp: tx not_less err_simps)
  moreover have "h_version h = 1" using ver by (auto simp: MaxVersion_def not_less word_le_nat_alt word_less_nat_alt word_unat_eq_iff)
  moreover have "\<forall>t \<in> set rest. \<forall>i \<in> set (tx_inputs t). in_prevout i \<noteq> zero_outpoint"
    using \<open>check_single_coinbase rest = None\<close>
    by (auto simp: check_single_coinbase_def first_error_None split: if_splits)
  moreover have "sorted_wrt (<) (map (TxHash C) rest)" using o by (simp add: tx check_tx_order_None)
  moreover have "\<forall>t \<in> set (b_txs b). Validate t = None"
    using t by (simp add: first_error_None validate_tx_in_block_def)
  moreover have "distinct (spent_outpoints (b_txs b))"
    using i by (simp add: check_block_inputs_None spent_outpoints_def)
  ultimately show ?thesis
    using h tx by (simp add: limits_def)
qed

text \<open>A block with a coinbase only.\<close>

definition demo_coinbase :: transaction where
  "demo_coinbase = \<lparr>tx_version = 1,
     tx_inputs = [\<lparr>in_prevout = zero_outpoint, in_sig = [1, 0, 0, 0, 0, 0, 0, 0], in_pubkey = []\<rparr>],
     tx_outputs = [\<lparr>out_value = 20, out_script = demo_script, out_token = None\<rparr>], tx_locktime = 0\<rparr>"

definition demo_block :: "crypto \<Rightarrow> block" where
  "demo_block C = \<lparr>b_header = Some \<lparr>h_version = 1, h_prev = 3, h_merkle = TxHash C demo_coinbase,
     h_timestamp = 9, h_height = 1, h_difficulty = 0, h_nonce = 0, h_sig = []\<rparr>,
     b_txs = [demo_coinbase]\<rparr>"

lemma demo_coinbase_valid: "Validate demo_coinbase = None"
  by (simp add: demo_coinbase_def demo_script_def Validate_None output_ok_def validateOutputScript_def MaxScriptData_def)

lemma coinbase_block_valid:
  "t \<noteq> 0 \<Longrightarrow> Block_Validate C \<lparr>b_header = Some \<lparr>h_version = 1, h_prev = p, h_merkle = TxHash C demo_coinbase, h_timestamp = t,
      h_height = n, h_difficulty = d, h_nonce = k, h_sig = []\<rparr>, b_txs = [demo_coinbase]\<rparr> = None"
  by (simp add: Block_Validate_def CurrentVersion_def MaxVersion_def limits_def
      validate_tx_in_block_def demo_coinbase_valid check_single_coinbase_def ComputeMerkleRoot_def
      check_tx_order_def block_size_def)
     (simp add: demo_coinbase_def isCoinbase_def SigningBytes_def input_bytes_def output_bytes_def
      enc_length demo_script_def)

lemma demo_block_valid: "Block_Validate C (demo_block C) = None"
  by (simp add: demo_block_def coinbase_block_valid)

theorem Block_Validate_sound_witness:
  "isCoinbase demo_coinbase \<and> distinct (spent_outpoints (b_txs (demo_block toy_crypto)))"
  using Block_Validate_sound [OF demo_block_valid [of toy_crypto]] by (auto simp: demo_block_def)

end
