(* ===== verification/PoW.thy ===== *)
theory PoW
  imports Block
begin

text \<open>
  Proof of work (\<open>internal/consensus/pow.go\<close>): the target, sealing by nonce search in one or
  several goroutines, and the difficulty adjustment. Go's \<open>int\<close> and \<open>int64\<close> are \<open>int\<close> values
  in the 64-bit range, with the wrap-around of products written out.
\<close>

section \<open>The engine\<close>

datatype pow_error =
    ErrInsufficientWork | ErrZeroDifficulty | ErrBadDifficulty | PowNilBlock | PowCancelled
  | PowNonceExhausted | PowDivisionPanic

record pow =
  pow_initial :: u64
  pow_adjust :: int
  pow_block_time :: int
  pow_difficulty_fn :: "(u64 \<Rightarrow> u64) option"
  pow_threads :: int

definition int64 :: "int \<Rightarrow> int" where
  "int64 x = sint (word_of_int x :: u64)"

definition NewPoW :: "u64 \<Rightarrow> int \<Rightarrow> int \<Rightarrow> pow_error + pow" where
  "NewPoW difficulty adjustInterval targetBlockTime =
     (if difficulty = 0 then Inl ErrZeroDifficulty
      else Inr \<lparr>pow_initial = difficulty, pow_adjust = adjustInterval, pow_block_time = targetBlockTime,
                pow_difficulty_fn = None, pow_threads = 0\<rparr>)"

definition ShouldAdjust :: "pow \<Rightarrow> u64 \<Rightarrow> bool" where
  "ShouldAdjust p height \<longleftrightarrow>
     height > 0 \<and> pow_adjust p > 0 \<and> height mod word_of_int (pow_adjust p) = 0"

text \<open>The target is a \<open>big.Int\<close>; the hash is compared as a big-endian number.\<close>

definition maxUint256 :: nat where "maxUint256 = 2 ^ 256 - 1"

definition pow_target :: "u64 \<Rightarrow> nat" where
  "pow_target difficulty = maxUint256 div unat difficulty"

definition PoW_VerifyHeader :: "crypto \<Rightarrow> header \<Rightarrow> pow_error option" where
  "PoW_VerifyHeader C h =
     (if h_difficulty h = 0 then Some ErrZeroDifficulty
      else if unat (Hash C (HeaderSigningBytes h)) > pow_target (h_difficulty h) then Some ErrInsufficientWork
      else None)"

definition PoW_Prepare :: "pow \<Rightarrow> header \<Rightarrow> header" where
  "PoW_Prepare p h =
     (case pow_difficulty_fn p of
        Some f \<Rightarrow> h\<lparr>h_difficulty := f (h_height h)\<rparr>
      | None \<Rightarrow> h\<lparr>h_difficulty := pow_initial p\<rparr>)"

section \<open>Sealing\<close>

definition signingPrefix :: "header \<Rightarrow> bytes" where
  "signingPrefix h =
     le_bytes 4 (h_version h) @ hash_bytes (h_prev h) @ hash_bytes (h_merkle h) @
     le_bytes 8 (h_timestamp h) @ le_bytes 8 (h_height h) @ le_bytes 8 (h_difficulty h)"

definition meets :: "crypto \<Rightarrow> bytes \<Rightarrow> nat \<Rightarrow> u64 \<Rightarrow> bool" where
  "meets C pre t nonce \<longleftrightarrow> unat (Hash C (pre @ le_bytes 8 nonce)) \<le> t"

lemma unat_Suc_u64: "nonce \<noteq> max_u64 \<Longrightarrow> unat (nonce + 1 :: u64) = Suc (unat nonce)"
  by (metis add.commute add_diff_cancel_right' diff_0 eq_diff_eq unatSuc)

text \<open>
  The search loop. \<open>done nonce\<close> says whether the context is cancelled when the check at
  \<open>nonce\<close> is made, once in 65536 iterations.
\<close>

function seal_loop :: "crypto \<Rightarrow> bytes \<Rightarrow> nat \<Rightarrow> (u64 \<Rightarrow> bool) \<Rightarrow> u64 \<Rightarrow> pow_error + u64" where
  "seal_loop C pre t done nonce =
     (if nonce AND 0xFFFF = 0 \<and> done nonce then Inl PowCancelled
      else if meets C pre t nonce then Inr nonce
      else if nonce = max_u64 then Inl PowNonceExhausted
      else seal_loop C pre t done (nonce + 1))"
  by pat_completeness auto
termination
proof (relation "measure (\<lambda>(C, pre, t, dn, nonce). 2 ^ 64 - unat nonce)")
  fix C pre t dn and nonce :: u64
  assume "\<not> nonce = max_u64"
  then show "((C, pre, t, dn, nonce + 1), (C, pre, t, dn, nonce))
      \<in> measure (\<lambda>(C, pre, t, dn, nonce). 2 ^ 64 - unat nonce)"
    using unat_u64_less [of nonce] by (simp add: unat_Suc_u64)
qed simp

declare seal_loop.simps [simp del]

definition sealSingle :: "crypto \<Rightarrow> (u64 \<Rightarrow> bool) \<Rightarrow> header \<Rightarrow> pow_error + header" where
  "sealSingle C done h =
     bindE (seal_loop C (signingPrefix h) (pow_target (h_difficulty h)) done 0) (\<lambda>nonce.
       Inr (h\<lparr>h_nonce := nonce\<rparr>))"

text \<open>
  One goroutine of the parallel search: \<open>None\<close> is a silent return on cancellation. (The stride
  is the number of threads, at least 2; the test for 0 only makes the recursion total.)
\<close>

function worker_loop ::
  "crypto \<Rightarrow> bytes \<Rightarrow> nat \<Rightarrow> (u64 \<Rightarrow> bool) \<Rightarrow> u64 \<Rightarrow> u64 \<Rightarrow> (pow_error + u64) option" where
  "worker_loop C pre t done stride nonce =
     (if (nonce div stride) AND 0xFFFF = 0 \<and> nonce > 0 \<and> done nonce then None
      else if meets C pre t nonce then Some (Inr nonce)
      else if nonce > max_u64 - stride \<or> stride = 0 then Some (Inl PowNonceExhausted)
      else worker_loop C pre t done stride (nonce + stride))"
  by pat_completeness auto
termination
proof (relation "measure (\<lambda>(C, pre, t, dn, stride, nonce). 2 ^ 64 - unat nonce)")
  fix C pre t dn and stride nonce :: u64
  assume "\<not> (nonce > max_u64 - stride \<or> stride = 0)"
  then have "unat nonce + unat stride < 2 ^ 64" "0 < unat stride"
    by (simp_all add: add_guard not_le unat_gt_0)
  then show "((C, pre, t, dn, stride, nonce + stride), (C, pre, t, dn, stride, nonce))
      \<in> measure (\<lambda>(C, pre, t, dn, stride, nonce). 2 ^ 64 - unat nonce)"
    by (simp add: unat_add_u64)
qed simp

declare worker_loop.simps [simp del]

text \<open>
  The outcomes that the select at the end of \<open>sealParallel\<close> can see: the message of some
  goroutine, whatever the others and the cancellation do meanwhile, a closed channel, or the
  cancelled context.
\<close>

inductive sealParallel_outcome :: "crypto \<Rightarrow> nat \<Rightarrow> header \<Rightarrow> pow_error + header \<Rightarrow> bool"
  for C threads h where
  message_found: "i < threads \<Longrightarrow>
     worker_loop C (signingPrefix h) (pow_target (h_difficulty h)) dn (word_of_nat threads) (word_of_nat i) = Some (Inr nonce) \<Longrightarrow>
     sealParallel_outcome C threads h (Inr (h\<lparr>h_nonce := nonce\<rparr>))"
| message_error: "i < threads \<Longrightarrow>
     worker_loop C (signingPrefix h) (pow_target (h_difficulty h)) dn (word_of_nat threads) (word_of_nat i) = Some (Inl e) \<Longrightarrow>
     sealParallel_outcome C threads h (Inl e)"
| closed: "sealParallel_outcome C threads h (Inl PowNonceExhausted)"
| cancelled: "sealParallel_outcome C threads h (Inl PowCancelled)"

text \<open>\<open>SealWithCancel\<close> on one thread; the block is changed in its nonce only.\<close>

definition SealWithCancel :: "crypto \<Rightarrow> (u64 \<Rightarrow> bool) \<Rightarrow> block \<Rightarrow> pow_error + block" where
  "SealWithCancel C done b =
     (case b_header b of
        None \<Rightarrow> Inl PowNilBlock
      | Some h \<Rightarrow>
          if h_difficulty h = 0 then Inl ErrZeroDifficulty
          else bindE (sealSingle C done h) (\<lambda>h'. Inr (b\<lparr>b_header := Some h'\<rparr>)))"

section \<open>Difficulty adjustment\<close>

text \<open>
  \<open>None\<close> is the panic of a division by zero, which needs a time span of at least \<open>2 ^ 61\<close>
  seconds. \<open>big.Int.Div\<close> is Euclidean, as \<open>div\<close> is for a positive divisor; for a negative
  one the quotient is not positive and the result is 1 in either case.
\<close>

definition CalcNextDifficulty :: "u64 \<Rightarrow> int \<Rightarrow> int \<Rightarrow> u64 option" where
  "CalcNextDifficulty currentDiff actualTimeSpan expectedTimeSpan =
     (let act = (if actualTimeSpan \<le> 0 then 1 else actualTimeSpan);
          expd = (if expectedTimeSpan \<le> 0 then 1 else expectedTimeSpan);
          minSpan = (if expd div 4 = 0 then 1 else expd div 4);
          maxSpan = int64 (expd * 4);
          act1 = (if act < minSpan then minSpan else act);
          act2 = (if act1 > maxSpan then maxSpan else act1)
      in if act2 = 0 then None
         else let r = uint currentDiff * expd div act2
              in if r \<le> 0 \<or> r \<ge> 2 ^ 64 then Some 1 else Some (word_of_int r))"

definition ExpectedDifficulty :: "pow \<Rightarrow> u64 \<Rightarrow> u64 \<Rightarrow> (u64 \<Rightarrow> u64 option) \<Rightarrow> u64 option" where
  "ExpectedDifficulty p height prevDifficulty getTimestamp =
     (if height \<le> 1 \<or> prevDifficulty = 0 then Some (pow_initial p)
      else if \<not> ShouldAdjust p height then Some prevDifficulty
      else case getTimestamp (height - word_of_int (pow_adjust p)) of
        None \<Rightarrow> Some prevDifficulty
      | Some startTS \<Rightarrow>
         (case getTimestamp (height - 1) of
            None \<Rightarrow> Some prevDifficulty
          | Some endTS \<Rightarrow>
              CalcNextDifficulty prevDifficulty (sint (endTS - startTS))
                (int64 (pow_adjust p * pow_block_time p))))"

definition VerifyDifficulty :: "pow \<Rightarrow> header \<Rightarrow> u64 \<Rightarrow> (u64 \<Rightarrow> u64 option) \<Rightarrow> pow_error option" where
  "VerifyDifficulty p h prevDifficulty getTimestamp =
     (case ExpectedDifficulty p (h_height h) prevDifficulty getTimestamp of
        None \<Rightarrow> Some PowDivisionPanic
      | Some expected \<Rightarrow> if h_difficulty h \<noteq> expected then Some ErrBadDifficulty else None)"

section \<open>What sealing establishes\<close>

lemma signingPrefix_nonce:
  "signingPrefix h @ le_bytes 8 nonce = HeaderSigningBytes (h\<lparr>h_nonce := nonce\<rparr>)"
  by (simp add: signingPrefix_def HeaderSigningBytes_def)

lemma meets_VerifyHeader:
  assumes "h_difficulty h \<noteq> 0"
  shows "meets C (signingPrefix h) (pow_target (h_difficulty h)) nonce \<longleftrightarrow>
    PoW_VerifyHeader C (h\<lparr>h_nonce := nonce\<rparr>) = None"
  using assms by (simp add: meets_def PoW_VerifyHeader_def signingPrefix_nonce not_less)

lemma seal_loop_Inr:
  "seal_loop C pre t dn n = Inr m \<Longrightarrow> meets C pre t m \<and> n \<le> m \<and> (\<forall>k. n \<le> k \<and> k < m \<longrightarrow> \<not> meets C pre t k)"
proof (induction C pre t dn n rule: seal_loop.induct)
  case (1 C pre t dn n)
  show ?case
  proof (cases "meets C pre t n")
    case True
    with "1.prems" have "m = n" by (subst (asm) seal_loop.simps) (simp split: if_splits)
    then show ?thesis using True by (auto dest: leD)
  next
    case False
    with "1.prems" have c: "\<not> (n AND 0xFFFF = 0 \<and> dn n)" "n \<noteq> max_u64" "seal_loop C pre t dn (n + 1) = Inr m"
      by (subst (asm) seal_loop.simps; simp split: if_splits)+
    note IH = "1.IH" [OF c(1) False c(2,3)]
    have s: "unat (n + 1) = Suc (unat n)" using c(2) by (rule unat_Suc_u64)
    have "n \<le> m" using IH s by (simp add: word_le_nat_alt)
    moreover have "n + 1 \<le> k" if "n \<le> k" "k \<noteq> n" for k
      using that s by (simp add: word_le_nat_alt word_unat_eq_iff)
    ultimately show ?thesis using IH False by blast
  qed
qed

lemma seal_loop_exhausted:
  "seal_loop C pre t dn n = Inl PowNonceExhausted \<Longrightarrow> \<forall>k. n \<le> k \<longrightarrow> \<not> meets C pre t k"
proof (induction C pre t dn n rule: seal_loop.induct)
  case (1 C pre t dn n)
  from "1.prems" have c: "\<not> (n AND 0xFFFF = 0 \<and> dn n)" "\<not> meets C pre t n"
    "n = max_u64 \<or> seal_loop C pre t dn (n + 1) = Inl PowNonceExhausted"
    by (subst (asm) seal_loop.simps; simp split: if_splits)+
  show ?case
  proof (cases "n = max_u64")
    case True
    then show ?thesis using c(2) by (metis word_order.extremum antisym)
  next
    case False
    have s: "unat (n + 1) = Suc (unat n)" using False by (rule unat_Suc_u64)
    have "n + 1 \<le> k" if "n \<le> k" "k \<noteq> n" for k
      using that s by (simp add: word_le_nat_alt word_unat_eq_iff)
    then show ?thesis using "1.IH" [OF c(1,2) False] c False by blast
  qed
qed

lemma seal_loop_errors:
  "seal_loop C pre t dn n = Inl e \<Longrightarrow> e = PowNonceExhausted \<or> e = PowCancelled \<and> (\<exists>k. dn k)"
proof (induction C pre t dn n rule: seal_loop.induct)
  case (1 C pre t dn n)
  from "1.prems" show ?case
    using "1.IH" by (subst (asm) seal_loop.simps) (auto split: if_splits)
qed

lemma worker_loop_found:
  "worker_loop C pre t dn s n = Some (Inr m) \<Longrightarrow> meets C pre t m"
proof (induction C pre t dn s n rule: worker_loop.induct)
  case (1 C pre t dn s n)
  from "1.prems" show ?case
    using "1.IH" by (subst (asm) worker_loop.simps) (auto split: if_splits)
qed

text \<open>
  C22: Mining is correct and complete. When \<open>sealSingle\<close> returns a header it differs from the
  input in the nonce only, passes \<open>VerifyHeader\<close>, and the nonce is the least that does; when it
  fails without having been cancelled, no nonce at all would pass. It always returns.
\<close>

theorem sealSingle_correct:
  assumes "h_difficulty h \<noteq> 0"
  shows "(\<forall>h'. sealSingle C dn h = Inr h' \<longrightarrow>
      h' = h\<lparr>h_nonce := h_nonce h'\<rparr> \<and> PoW_VerifyHeader C h' = None \<and>
      (\<forall>n < h_nonce h'. PoW_VerifyHeader C (h\<lparr>h_nonce := n\<rparr>) \<noteq> None)) \<and>
    (\<forall>e. sealSingle C dn h = Inl e \<longrightarrow> (\<forall>n. \<not> dn n) \<longrightarrow>
      e = PowNonceExhausted \<and> (\<forall>n. PoW_VerifyHeader C (h\<lparr>h_nonce := n\<rparr>) \<noteq> None))"
proof -
  note m = meets_VerifyHeader [OF assms, of C]
  let ?r = "seal_loop C (signingPrefix h) (pow_target (h_difficulty h)) dn 0"
  show ?thesis
  proof (cases ?r)
    case (Inr n)
    with seal_loop_Inr [OF Inr] show ?thesis by (simp add: sealSingle_def m)
  next
    case (Inl e)
    have "e = PowNonceExhausted" if "\<forall>n. \<not> dn n" using seal_loop_errors [OF Inl] that by blast
    moreover have "\<forall>n. PoW_VerifyHeader C (h\<lparr>h_nonce := n\<rparr>) \<noteq> None" if "e = PowNonceExhausted"
      using seal_loop_exhausted [of C "signingPrefix h" _ dn 0] Inl that m by simp
    ultimately show ?thesis using Inl by (simp add: sealSingle_def)
  qed
qed

text \<open>
  Whatever the interleaving of the goroutines, a header that the parallel search returns
  passes \<open>VerifyHeader\<close> and differs in the nonce only.
\<close>

theorem sealParallel_sound:
  assumes "h_difficulty h \<noteq> 0" and "sealParallel_outcome C threads h (Inr h')"
  shows "PoW_VerifyHeader C h' = None \<and> h' = h\<lparr>h_nonce := h_nonce h'\<rparr>"
  using assms(2)
proof cases
  case (message_found i dn nonce)
  then show ?thesis
    using worker_loop_found meets_VerifyHeader [OF assms(1)] by fastforce
qed

definition demo_header :: header where
  "demo_header = \<lparr>h_version = 1, h_prev = 0, h_merkle = 0, h_timestamp = 1, h_height = 1,
     h_difficulty = 1, h_nonce = 0, h_sig = []\<rparr>"

lemma demo_header_meets: "meets C (signingPrefix demo_header) (pow_target 1) n"
  using unsigned_less [of "Hash C (signingPrefix demo_header @ le_bytes 8 n)", where 'a = nat]
  by (simp add: meets_def pow_target_def maxUint256_def)

theorem sealSingle_correct_witness:
  "PoW_VerifyHeader toy_crypto (demo_header\<lparr>h_nonce := 0\<rparr>) = None"
proof -
  have "sealSingle toy_crypto (\<lambda>_. False) demo_header = Inr (demo_header\<lparr>h_nonce := 0\<rparr>)"
    by (subst sealSingle_def, subst seal_loop.simps)
       (simp add: demo_header_meets [unfolded demo_header_def] demo_header_def)
  then show ?thesis
    using sealSingle_correct [of demo_header toy_crypto "\<lambda>_. False"] by (simp add: demo_header_def)
qed

theorem sealParallel_sound_witness:
  "PoW_VerifyHeader toy_crypto (demo_header\<lparr>h_nonce := 1\<rparr>) = None"
proof -
  have "sealParallel_outcome toy_crypto 2 demo_header (Inr (demo_header\<lparr>h_nonce := 1\<rparr>))"
    by (rule message_found [of 1 _ _ _ "\<lambda>_. False"], simp, subst worker_loop.simps)
       (simp add: demo_header_meets [unfolded demo_header_def] demo_header_def)
  then show ?thesis
    using sealParallel_sound [of demo_header toy_crypto 2] by (simp add: demo_header_def)
qed

section \<open>What the adjustment guarantees\<close>

lemma int64_id: "- (2 ^ 63) \<le> x \<Longrightarrow> x < 2 ^ 63 \<Longrightarrow> int64 x = x"
  by (simp add: int64_def sint_sbintrunc' signed_take_bit_int_eq_self)

text \<open>The clamped time span.\<close>

definition clamp_span :: "int \<Rightarrow> int \<Rightarrow> int" where
  "clamp_span a e = min (4 * e) (max (e div 4) (max 1 a))"

lemma CalcNextDifficulty_eq:
  assumes "4 \<le> e" and "e < 2 ^ 61"
  shows "CalcNextDifficulty cur a e =
    (let r = uint cur * e div clamp_span a e in
     if r \<le> 0 \<or> r \<ge> 2 ^ 64 then Some 1 else Some (word_of_int r))"
proof -
  have i: "int64 (e * 4) = 4 * e" using assms by (subst int64_id) simp_all
  have e: "(if e \<le> 0 then 1 else e) = e" "(if e div 4 = 0 then 1 else e div 4) = e div 4"
    using assms by auto
  have a: "(if a \<le> 0 then 1 else a) = max 1 a" by auto
  define m where "m = max 1 a"
  have c: "(if (if m < e div 4 then e div 4 else m) > 4 * e then 4 * e else if m < e div 4 then e div 4 else m)
      = clamp_span a e"
    unfolding clamp_span_def m_def [symmetric] by (simp only: max_def min_def not_le not_less) auto
  have nz: "clamp_span a e \<noteq> 0" using assms by (simp add: clamp_span_def min_def max_def)
  show ?thesis
    unfolding CalcNextDifficulty_def Let_def e a i m_def [symmetric] c using nz by simp
qed

text \<open>
  The adjustment is bounded and monotone: when the expected time span is a positive
  multiple of 4 and nothing leaves the 64-bit range, the new difficulty lies between a quarter
  and four times the old one, is never 0, and a period that took longer never gives a higher
  difficulty than one that took less time.
\<close>

theorem CalcNextDifficulty_bounds:
  assumes "4 dvd e" and "0 < e" and "e < 2 ^ 61" and "4 * uint cur < 2 ^ 64"
  shows "\<exists>r. CalcNextDifficulty cur a e = Some r \<and> r \<noteq> 0 \<and> uint cur div 4 \<le> uint r \<and>
    uint r \<le> max 1 (4 * uint cur) \<and>
    (\<forall>b s. a \<le> b \<longrightarrow> CalcNextDifficulty cur b e = Some s \<longrightarrow> s \<le> r)"
proof -
  from assms(1,2) obtain q where q: "e = 4 * q" "0 < q" by (auto elim!: dvdE)
  define g where "g x = uint cur * e div clamp_span x e" for x
  define f where "f x = max 1 (g x)" for x
  have sp: "q \<le> clamp_span x e" "clamp_span x e \<le> 4 * e" "0 < clamp_span x e" for x
    using q by (auto simp: clamp_span_def)
  have pos: "0 \<le> uint cur * e" using assms(2) by simp
  have up: "g x \<le> 4 * uint cur" for x
  proof -
    have "uint cur * e div clamp_span x e \<le> uint cur * e div q"
      using sp(1) [of x] q(2) pos by (intro zdiv_mono2) auto
    also have "\<dots> = 4 * uint cur" using q by simp
    finally show ?thesis by (simp add: g_def)
  qed
  have lo: "uint cur div 4 \<le> g x" for x
  proof -
    have "uint cur * e div (4 * e) = uint cur div 4"
      using assms(2) by (metis div_mult_mult2 less_irrefl)
    moreover have "uint cur * e div (4 * e) \<le> uint cur * e div clamp_span x e"
      using sp [of x] pos by (intro zdiv_mono2) auto
    ultimately show ?thesis by (simp add: g_def)
  qed
  have mono: "g b \<le> g x" if "x \<le> b" for x b
  proof -
    have "clamp_span x e \<le> clamp_span b e" using that by (auto simp: clamp_span_def)
    then show ?thesis unfolding g_def using sp [of x] pos by (intro zdiv_mono2) auto
  qed
  have nn: "0 \<le> g x" for x using lo [of x] by (meson order_trans pos_imp_zdiv_nonneg_iff uint_ge_0 zero_less_numeral)
  have fb: "0 \<le> f x" "f x < 2 ^ 64" for x using up [of x] assms(4) by (auto simp: f_def)
  have c: "CalcNextDifficulty cur x e = Some (word_of_int (f x))" for x
  proof -
    have "4 \<le> e" using q by linarith
    have "g x < 2 ^ 64" using up [of x] assms(4) by linarith
    with nn [of x] show ?thesis
      unfolding CalcNextDifficulty_eq [OF \<open>4 \<le> e\<close> assms(3)] g_def [symmetric]
      by (cases "g x \<le> 0") (auto simp: f_def max_def Let_def)
  qed
  have u: "uint (word_of_int (f x) :: u64) = f x" for x
    using fb [of x] by (simp add: uint_word_of_int_eq take_bit_int_eq_self)
  show ?thesis
  proof (intro exI conjI allI impI)
    show "CalcNextDifficulty cur a e = Some (word_of_int (f a))" by (rule c)
    show "(word_of_int (f a) :: u64) \<noteq> 0"
      using u [of a] by (auto simp: f_def)
    show "uint cur div 4 \<le> uint (word_of_int (f a) :: u64)" unfolding u using lo [of a] by (simp add: f_def)
    show "uint (word_of_int (f a) :: u64) \<le> max 1 (4 * uint cur)" unfolding u using up [of a] by (simp add: f_def)
    show "s \<le> word_of_int (f a)" if "a \<le> b" "CalcNextDifficulty cur b e = Some s" for b s
      using that mono [of a b] c [of b] u by (auto simp: word_le_def f_def)
  qed
qed

theorem CalcNextDifficulty_bounds_witness:
  "\<exists>r. CalcNextDifficulty 1000 5 40 = Some r \<and> 250 \<le> uint r \<and> uint r \<le> 4000"
  using CalcNextDifficulty_bounds [of 40 1000 5] by auto

text \<open>
  Outside these bounds the comment on the clamp does not hold: an expected time span that
  is not a multiple of 4 allows a step of more than four times, and a result above the 64-bit
  range becomes the minimum difficulty 1 instead of being clamped.
\<close>

theorem CalcNextDifficulty_not_clamped:
  "CalcNextDifficulty 1000 1 7 = Some 7000 \<and> CalcNextDifficulty (2 ^ 63) 1 4 = Some 1"
  by (simp add: CalcNextDifficulty_eq clamp_span_def)

text \<open>The minimum and the value at the boundaries that \<open>ExpectedDifficulty\<close> passes on.\<close>

lemma VerifyDifficulty_None:
  "VerifyDifficulty p h d ts = None \<longleftrightarrow> ExpectedDifficulty p (h_height h) d ts = Some (h_difficulty h)"
  by (auto simp: VerifyDifficulty_def split: option.splits)

end
