(* ===== verification/Storage.thy ===== *)
theory Storage
  imports Prelude "HOL-Library.DAList" "HOL-Library.Sublist"
begin

text \<open>
  Key-value storage (\<open>internal/storage\<close>). The Go interface \<open>DB\<close> is a record of operations on
  a state, \<open>MemoryDB\<close> and \<open>PrefixDB\<close> are its two implementations in the repository, and the
  locale \<open>kv_store\<close> states what clients rely on. \<open>MemoryDB\<close> returns no error but ``key not
  found'', and \<open>PrefixDB\<close> passes on the errors of what it wraps, so writes are total here.
  A value is of any type \<open>'v\<close>: the stores keep JSON documents and raw bytes.
\<close>

section \<open>The interface\<close>

text \<open>
  \<open>kv_items s p\<close> is the sequence of calls that \<open>ForEach(p, fn)\<close> makes in the absence of an
  error from \<open>fn\<close>. \<open>kv_commit\<close> is present when the database implements \<open>Batcher\<close>; a
  buffered write without value is a delete.
\<close>

type_synonym 'v batch = "(bytes \<times> 'v option) list"

record ('s, 'v) kvdb =
  kv_get :: "'s \<Rightarrow> bytes \<Rightarrow> 'v option"
  kv_put :: "bytes \<Rightarrow> 'v \<Rightarrow> 's \<Rightarrow> 's"
  kv_delete :: "bytes \<Rightarrow> 's \<Rightarrow> 's"
  kv_has :: "'s \<Rightarrow> bytes \<Rightarrow> bool"
  kv_items :: "'s \<Rightarrow> bytes \<Rightarrow> (bytes \<times> 'v) list"
  kv_commit :: "('v batch \<Rightarrow> 's \<Rightarrow> 's) option"

definition batch_put :: "bytes \<Rightarrow> 'v \<Rightarrow> 'v batch \<Rightarrow> 'v batch" where
  "batch_put k v ops = ops @ [(k, Some v)]"

definition batch_delete :: "bytes \<Rightarrow> 'v batch \<Rightarrow> 'v batch" where
  "batch_delete k ops = ops @ [(k, None)]"

section \<open>MemoryDB\<close>

type_synonym 'v memory_db = "(bytes, 'v) alist"

definition memory_get :: "'v memory_db \<Rightarrow> bytes \<Rightarrow> 'v option" where
  "memory_get m k = DAList.lookup m k"

definition memory_put :: "bytes \<Rightarrow> 'v \<Rightarrow> 'v memory_db \<Rightarrow> 'v memory_db" where
  "memory_put k v m = DAList.update k v m"

definition memory_delete :: "bytes \<Rightarrow> 'v memory_db \<Rightarrow> 'v memory_db" where
  "memory_delete k m = DAList.delete k m"

definition memory_has :: "'v memory_db \<Rightarrow> bytes \<Rightarrow> bool" where
  "memory_has m k \<longleftrightarrow> DAList.lookup m k \<noteq> None"

definition memory_items :: "'v memory_db \<Rightarrow> bytes \<Rightarrow> (bytes \<times> 'v) list" where
  "memory_items m p = filter (\<lambda>(k, v). prefix p k) (DAList.impl_of m)"

fun memory_commit :: "'v batch \<Rightarrow> 'v memory_db \<Rightarrow> 'v memory_db" where
  "memory_commit [] m = m"
| "memory_commit ((k, None) # ops) m = memory_commit ops (memory_delete k m)"
| "memory_commit ((k, Some v) # ops) m = memory_commit ops (memory_put k v m)"

definition MemoryDB :: "('v memory_db, 'v) kvdb" where
  "MemoryDB = \<lparr>kv_get = memory_get, kv_put = memory_put, kv_delete = memory_delete,
     kv_has = memory_has, kv_items = memory_items, kv_commit = Some memory_commit\<rparr>"

section \<open>PrefixDB\<close>

definition prefixed :: "bytes \<Rightarrow> bytes \<Rightarrow> bytes" where
  "prefixed p key = p @ key"

text \<open>The fallback batch of a database that is no \<open>Batcher\<close>: one write after the other.\<close>

fun fallback_commit :: "('s, 'v) kvdb \<Rightarrow> bytes \<Rightarrow> 'v batch \<Rightarrow> 's \<Rightarrow> 's" where
  "fallback_commit D p [] s = s"
| "fallback_commit D p ((k, None) # ops) s = fallback_commit D p ops (kv_delete D (prefixed p k) s)"
| "fallback_commit D p ((k, Some v) # ops) s = fallback_commit D p ops (kv_put D (prefixed p k) v s)"

definition prefix_commit :: "('s, 'v) kvdb \<Rightarrow> bytes \<Rightarrow> 'v batch \<Rightarrow> 's \<Rightarrow> 's" where
  "prefix_commit D p ops s =
     (case kv_commit D of
        Some commit \<Rightarrow> commit (map (\<lambda>(k, v). (prefixed p k, v)) ops) s
      | None \<Rightarrow> fallback_commit D p ops s)"

definition PrefixDB :: "('s, 'v) kvdb \<Rightarrow> bytes \<Rightarrow> ('s, 'v) kvdb" where
  "PrefixDB D p =
     \<lparr>kv_get = (\<lambda>s k. kv_get D s (prefixed p k)),
      kv_put = (\<lambda>k. kv_put D (prefixed p k)),
      kv_delete = (\<lambda>k. kv_delete D (prefixed p k)),
      kv_has = (\<lambda>s k. kv_has D s (prefixed p k)),
      kv_items = (\<lambda>s q. map (\<lambda>(k, v). (drop (length p) k, v)) (kv_items D s (prefixed p q))),
      kv_commit = Some (prefix_commit D p)\<rparr>"

definition PrefixDB_DeleteAll :: "('s, 'v) kvdb \<Rightarrow> bytes \<Rightarrow> 's \<Rightarrow> 's" where
  "PrefixDB_DeleteAll D p s = fold (kv_delete D) (map fst (kv_items D s p)) s"

section \<open>What clients rely on\<close>

text \<open>Buffered writes applied in order to a finite map.\<close>

fun apply_ops :: "'v batch \<Rightarrow> (bytes \<rightharpoonup> 'v) \<Rightarrow> (bytes \<rightharpoonup> 'v)" where
  "apply_ops [] m = m"
| "apply_ops ((k, v) # ops) m = apply_ops ops (m(k := v))"

locale kv_store =
  fixes D :: "('s, 'v) kvdb" and view :: "'s \<Rightarrow> bytes \<rightharpoonup> 'v"
  assumes get: "kv_get D s k = view s k"
    and put: "view (kv_put D k v s) = (view s)(k \<mapsto> v)"
    and delete: "view (kv_delete D k s) = (view s)(k := None)"
    and has: "kv_has D s k \<longleftrightarrow> view s k \<noteq> None"
    and items_distinct: "distinct (map fst (kv_items D s p))"
    and items: "set (kv_items D s p) = {(k, v). view s k = Some v \<and> prefix p k}"
    and commit: "kv_commit D = Some c \<Longrightarrow> view (c ops s) = apply_ops ops (view s)"
begin

lemma finite_view: "finite (dom (view s))"
proof -
  have "dom (view s) = fst ` set (kv_items D s [])" by (force simp: items)
  then show ?thesis by simp
qed

lemma get_put: "kv_get D (kv_put D k v s) k' = (if k' = k then Some v else kv_get D s k')"
  by (simp add: get put)

lemma get_delete: "kv_get D (kv_delete D k s) k' = (if k' = k then None else kv_get D s k')"
  by (simp add: get delete)

lemma view_delete_all: "view (fold (kv_delete D) ks s) = (\<lambda>k. if k \<in> set ks then None else view s k)"
  by (induction ks arbitrary: s) (auto simp: delete)

lemma view_DeleteAll:
  "view (PrefixDB_DeleteAll D p s) = (\<lambda>k. if prefix p k then None else view s k)"
proof -
  have "set (map fst (kv_items D s p)) = {k. prefix p k \<and> view s k \<noteq> None}"
    by (force simp: items)
  then show ?thesis
    by (auto simp: PrefixDB_DeleteAll_def view_delete_all)
qed

lemma view_fallback_commit:
  "view (fallback_commit D p ops s) = apply_ops (map (\<lambda>(k, v). (p @ k, v)) ops) (view s)"
proof (induction ops arbitrary: s)
  case Nil
  then show ?case by simp
next
  case (Cons o' ops)
  obtain k v where "o' = (k, v)" by (cases o')
  then show ?case using Cons by (cases v) (simp_all add: put delete prefixed_def del: fun_upd_apply)
qed

lemma view_prefix_commit:
  "view (prefix_commit D p ops s) = apply_ops (map (\<lambda>(k, v). (p @ k, v)) ops) (view s)"
  by (cases "kv_commit D") (simp_all add: prefix_commit_def view_fallback_commit commit prefixed_def)

lemma apply_ops_prefixed:
  "(\<lambda>k. apply_ops (map (\<lambda>(k, v). (p @ k, v)) ops) m (p @ k)) = apply_ops ops (\<lambda>k. m (p @ k))"
proof (induction ops arbitrary: m)
  case Nil
  then show ?case by simp
next
  case (Cons o' ops)
  obtain k v where o': "o' = (k, v)" by (cases o')
  have "(\<lambda>x. (m(p @ k := v)) (p @ x)) = (\<lambda>x. m (p @ x))(k := v)" by auto
  then show ?case using Cons [of "m(p @ k := v)"] o' by (simp del: fun_upd_apply)
qed

lemma apply_ops_other: "k \<notin> fst ` set ops \<Longrightarrow> apply_ops ops m k = m k"
  by (induction ops m rule: apply_ops.induct) auto

text \<open>Two name spaces, neither a prefix of the other, share no key.\<close>

lemma prefix_disjoint: "\<not> prefix p q \<Longrightarrow> \<not> prefix q p \<Longrightarrow> \<not> prefix p (q @ k)"
  by (meson prefixI prefix_same_cases)

lemma other_space:
  assumes "\<not> prefix p q" and "\<not> prefix q p"
  shows "view (kv_put (PrefixDB D p) k' v s) (q @ k) = view s (q @ k)"
    and "view (kv_delete (PrefixDB D p) k' s) (q @ k) = view s (q @ k)"
    and "view (prefix_commit D p ops s) (q @ k) = view s (q @ k)"
    and "view (PrefixDB_DeleteAll D p s) (q @ k) = view s (q @ k)"
proof -
  have ne: "q @ k \<noteq> p @ k'" for k' using prefix_disjoint [OF assms, of k] by (metis prefixI)
  then show "view (kv_put (PrefixDB D p) k' v s) (q @ k) = view s (q @ k)"
    and "view (kv_delete (PrefixDB D p) k' s) (q @ k) = view s (q @ k)"
    by (simp_all add: PrefixDB_def prefixed_def put delete)
  show "view (prefix_commit D p ops s) (q @ k) = view s (q @ k)"
    unfolding view_prefix_commit by (rule apply_ops_other) (auto simp: ne)
  show "view (PrefixDB_DeleteAll D p s) (q @ k) = view s (q @ k)"
    using prefix_disjoint [OF assms, of k] by (simp add: view_DeleteAll)
qed

lemma own_space_deleted: "view (PrefixDB_DeleteAll D p s) (p @ k) = None"
  by (simp add: view_DeleteAll)

text \<open>A \<open>PrefixDB\<close> over a store is a store on the keys below the prefix.\<close>

lemma prefix_store: "kv_store (PrefixDB D p) (\<lambda>s k. view s (p @ k))"
proof
  show "distinct (map fst (kv_items (PrefixDB D p) s q))" for s q
  proof -
    have "inj_on (drop (length p)) (set (map fst (kv_items D s (p @ q))))"
      by (rule inj_onI) (auto simp: items prefix_def)
    moreover have "distinct (map fst (kv_items D s (p @ q)))" by (rule items_distinct)
    ultimately have "distinct (map (drop (length p)) (map fst (kv_items D s (p @ q))))"
      by (simp only: distinct_map)
    then show ?thesis by (simp add: PrefixDB_def prefixed_def comp_def case_prod_beta)
  qed
  show "set (kv_items (PrefixDB D p) s q) = {(k, v). view s (p @ k) = Some v \<and> prefix q k}" for s q
    by (force simp: PrefixDB_def prefixed_def items prefix_def image_iff)
  show "(\<lambda>k. view (c ops s) (p @ k)) = apply_ops ops (\<lambda>k. view s (p @ k))"
    if "kv_commit (PrefixDB D p) = Some c" for c ops s
    using that by (auto simp: PrefixDB_def view_prefix_commit simp flip: apply_ops_prefixed)
qed (auto simp: PrefixDB_def prefixed_def get put delete has)

end

section \<open>The two implementations keep the contract\<close>

lemma lookup_update_fun: "DAList.lookup (DAList.update k v m) = (DAList.lookup m)(k \<mapsto> v)"
  by (simp add: fun_eq_iff lookup_update)

lemma lookup_commit:
  "DAList.lookup (memory_commit ops m) = apply_ops ops (DAList.lookup m)"
  by (induction ops m rule: memory_commit.induct)
     (simp_all add: memory_put_def memory_delete_def lookup_update_fun del: fun_upd_apply)

lemma impl_of_lookup: "(k, v) \<in> set (DAList.impl_of m) \<longleftrightarrow> DAList.lookup m k = Some v"
  by (simp add: DAList.lookup.rep_eq)

interpretation mem: kv_store MemoryDB DAList.lookup
proof
  show "distinct (map fst (kv_items MemoryDB s p))" for s :: "'v memory_db" and p
    using DAList.impl_of_distinct [of s]
    by (auto simp: MemoryDB_def memory_items_def distinct_map_filter)
  show "set (kv_items MemoryDB s p) = {(k, v). DAList.lookup s k = Some v \<and> prefix p k}"
    for s :: "'v memory_db" and p
    by (auto simp: MemoryDB_def memory_items_def impl_of_lookup)
qed (auto simp: MemoryDB_def memory_get_def memory_put_def memory_delete_def memory_has_def lookup_commit lookup_update_fun)

interpretation pfx: kv_store "PrefixDB MemoryDB p" "\<lambda>s k. DAList.lookup s (p @ k)" for p
  by (rule mem.prefix_store)

text \<open>
  Sub-chains that share one database are isolated: with two prefixes neither of which
  extends the other, no write, delete, batch commit or \<open>DeleteAll\<close> through the one is visible
  through the other, and \<open>DeleteAll\<close> leaves nothing behind under its own prefix.
\<close>

theorem prefix_isolation:
  assumes "\<not> prefix p q" and "\<not> prefix q p"
  shows "kv_get (PrefixDB MemoryDB q) (kv_put (PrefixDB MemoryDB p) k' v s) k = kv_get (PrefixDB MemoryDB q) s k \<and>
    kv_get (PrefixDB MemoryDB q) (kv_delete (PrefixDB MemoryDB p) k' s) k = kv_get (PrefixDB MemoryDB q) s k \<and>
    kv_get (PrefixDB MemoryDB q) (prefix_commit MemoryDB p ops s) k = kv_get (PrefixDB MemoryDB q) s k \<and>
    kv_get (PrefixDB MemoryDB q) (PrefixDB_DeleteAll MemoryDB p s) k = kv_get (PrefixDB MemoryDB q) s k \<and>
    kv_get (PrefixDB MemoryDB p) (PrefixDB_DeleteAll MemoryDB p s) k = None"
  unfolding pfx.get by (simp add: mem.other_space [OF assms] mem.own_space_deleted)

theorem prefix_isolation_witness:
  "kv_get (PrefixDB MemoryDB [2]) (PrefixDB_DeleteAll MemoryDB [1]
     (kv_put (PrefixDB MemoryDB [2]) [7] (5 :: nat) DAList.empty)) [7] = Some 5"
  using prefix_isolation [of "[1]" "[2]" _ _ "kv_put (PrefixDB MemoryDB [2]) [7] (5 :: nat) DAList.empty" "[7]"]
  by (simp add: pfx.get_put)

text \<open>
  A batch committed through a \<open>PrefixDB\<close> has the same effect as its writes issued one by
  one through it, whether the inner database supports batches or the fallback is used.
\<close>

theorem batch_is_sequence:
  "kv_get (PrefixDB MemoryDB p) (prefix_commit MemoryDB p ops s) k =
     kv_get (PrefixDB MemoryDB p) (fallback_commit MemoryDB p ops s) k \<and>
   kv_get (PrefixDB MemoryDB p) (prefix_commit MemoryDB p (batch_put k' v ops) s) k =
     kv_get (PrefixDB MemoryDB p) (kv_put (PrefixDB MemoryDB p) k' v (prefix_commit MemoryDB p ops s)) k \<and>
   kv_get (PrefixDB MemoryDB p) (prefix_commit MemoryDB p (batch_delete k' ops) s) k =
     kv_get (PrefixDB MemoryDB p) (kv_delete (PrefixDB MemoryDB p) k' (prefix_commit MemoryDB p ops s)) k"
proof -
  have "apply_ops (ops @ [(k, v)]) m = (apply_ops ops m)(k := v)" for k :: bytes and v :: "'a option" and m ops
    by (induction ops m rule: apply_ops.induct) (simp_all del: fun_upd_apply)
  then show ?thesis
    unfolding pfx.get_put pfx.get_delete unfolding pfx.get
    by (simp add: mem.view_prefix_commit mem.view_fallback_commit batch_put_def batch_delete_def)
qed

end
