(* ===== verification/Utxo.thy ===== *)
theory Utxo
  imports Block Storage "HOL-Library.Multiset"
begin

text \<open>
  The UTXO set (\<open>internal/utxo\<close>): the interface \<open>Set\<close>, the \<open>Store\<close> that implements it on a
  key-value database with an address index and a stake index, and the commitment to the set.
\<close>

section \<open>Documents\<close>

record utxo =
  u_outpoint :: outpoint
  u_value :: u64
  u_script :: script
  u_token :: "token_data option"
  u_height :: u64
  u_coinbase :: bool
  u_locked_until :: u64

record undo_data =
  undo_spent :: "utxo list"
  undo_created :: "outpoint list"
  undo_txhashes :: "hash list"
  undo_reward :: u64

record metadata =
  md_name :: bytes
  md_symbol :: bytes
  md_decimals :: u8
  md_creator :: address

text \<open>
  The documents of other packages that share a database: the entry of the sub-chain registry
  with the parameters of its registration, and the records about peers.
\<close>

record registration_data =
  rd_name :: string
  rd_symbol :: string
  rd_consensus :: consensus_type
  rd_block_time :: int
  rd_block_reward :: u64
  rd_max_supply :: u64
  rd_min_fee_rate :: u64
  rd_validators :: "string list"
  rd_initial_difficulty :: u64
  rd_difficulty_adjust :: int
  rd_validator_stake :: u64

record sub_chain =
  su_id :: hash
  su_parent :: hash
  su_name :: string
  su_symbol :: string
  su_created_at :: u64
  su_registration_tx :: hash
  su_output_index :: u32
  su_registration :: registration_data

record ban_record =
  br_id :: string
  br_reason :: string
  br_score :: int
  br_banned_at :: int
  br_expires_at :: int

record peer_record =
  pr_id :: string
  pr_addrs :: "string list"
  pr_last_seen :: int
  pr_source :: string

text \<open>
  What a database value holds: raw bytes, or the JSON document of a Go value, which the model
  identifies with the value. Reading a document as another type is an error.
\<close>

datatype dbval =
    VBytes (val_bytes: bytes) | DUtxo utxo | DBlock block | DUndo undo_data | DMeta metadata
  | DSubChain sub_chain | DBan ban_record | DPeer peer_record

section \<open>The interface\<close>

text \<open>
  \<open>utxo.Set\<close>, and the two further methods that the chain asks for by type assertion:
  \<open>ClearAll\<close>, and iteration over the set (\<open>None\<close> is a document that cannot be read).
\<close>

record 's utxo_set_ops =
  us_get :: "'s \<Rightarrow> outpoint \<Rightarrow> utxo option"
  us_put :: "utxo \<Rightarrow> 's \<Rightarrow> 's"
  us_delete :: "outpoint \<Rightarrow> 's \<Rightarrow> 's"
  us_has :: "'s \<Rightarrow> outpoint \<Rightarrow> bool"
  us_items :: "'s \<Rightarrow> utxo option list"
  us_clear :: "'s \<Rightarrow> 's"

section \<open>Keys\<close>

definition prefixUTXO :: bytes where "prefixUTXO = [117, 47]"   \<comment> \<open>\<open>u/\<close>\<close>
definition prefixAddr :: bytes where "prefixAddr = [97, 47]"    \<comment> \<open>\<open>a/\<close>\<close>
definition prefixStake :: bytes where "prefixStake = [107, 47]" \<comment> \<open>\<open>k/\<close>\<close>

definition compressedPubKeySize :: nat where "compressedPubKeySize = 33"

definition outpoint_bytes :: "outpoint \<Rightarrow> bytes" where
  "outpoint_bytes x = hash_bytes (op_txid x) @ be_bytes 4 (op_index x)"

definition utxoKey :: "outpoint \<Rightarrow> bytes" where
  "utxoKey x = prefixUTXO @ outpoint_bytes x"

definition addrKey :: "address \<Rightarrow> outpoint \<Rightarrow> bytes" where
  "addrKey a x = prefixAddr @ addr_bytes a @ outpoint_bytes x"

definition stakeKey :: "bytes \<Rightarrow> outpoint \<Rightarrow> bytes" where
  "stakeKey pubKey x =
     prefixStake @ take compressedPubKeySize (pubKey @ replicate compressedPubKeySize 0) @ outpoint_bytes x"

text \<open>Reading an outpoint back from the end of an index key.\<close>

definition parse_outpoint :: "bytes \<Rightarrow> outpoint" where
  "parse_outpoint bs = Outpoint (be_word (take 32 bs)) (be_word (take 4 (drop 32 bs)))"

lemma length_outpoint_bytes [enc_length]: "length (outpoint_bytes x) = 36"
  by (simp add: outpoint_bytes_def)

lemma parse_outpoint_bytes [simp]: "parse_outpoint (outpoint_bytes x) = x"
  by (cases x) (simp add: parse_outpoint_def outpoint_bytes_def)

lemma outpoint_bytes_inject [simp]: "outpoint_bytes x = outpoint_bytes y \<longleftrightarrow> x = y"
  by (metis parse_outpoint_bytes)

lemma utxoKey_inject [simp]: "utxoKey x = utxoKey y \<longleftrightarrow> x = y"
  by (simp add: utxoKey_def)

lemma addrKey_inject [simp]: "addrKey a x = addrKey b y \<longleftrightarrow> a = b \<and> x = y"
  by (auto simp: addrKey_def append_fixed)

lemma stakeKey_inject:
  "length p = 33 \<Longrightarrow> length q = 33 \<Longrightarrow> stakeKey p x = stakeKey q y \<longleftrightarrow> p = q \<and> x = y"
  by (auto simp: stakeKey_def compressedPubKeySize_def)

lemma key_kinds [simp]:
  "utxoKey x \<noteq> addrKey a y" "utxoKey x \<noteq> stakeKey p y" "addrKey a x \<noteq> stakeKey p y"
  "addrKey a y \<noteq> utxoKey x" "stakeKey p y \<noteq> utxoKey x" "stakeKey p y \<noteq> addrKey a x"
  by (simp_all add: utxoKey_def addrKey_def stakeKey_def prefixUTXO_def prefixAddr_def prefixStake_def)

section \<open>The store\<close>

definition scriptAddress :: "script \<Rightarrow> address option" where
  "scriptAddress s =
     (if (sc_type s = ScriptTypeP2PKH \<or> sc_type s = ScriptTypeMint) \<and> length (sc_data s) \<ge> 20
      then Some (take_address (sc_data s)) else None)"

definition is_stake_script :: "script \<Rightarrow> bool" where
  "is_stake_script s \<longleftrightarrow> sc_type s = ScriptTypeStake \<and> length (sc_data s) = compressedPubKeySize"

definition Store_Get :: "('s, dbval) kvdb \<Rightarrow> 's \<Rightarrow> outpoint \<Rightarrow> utxo option" where
  "Store_Get D s x = (case kv_get D s (utxoKey x) of Some (DUtxo u) \<Rightarrow> Some u | _ \<Rightarrow> None)"

definition Store_Put :: "('s, dbval) kvdb \<Rightarrow> utxo \<Rightarrow> 's \<Rightarrow> 's" where
  "Store_Put D u s =
     (let s1 = kv_put D (utxoKey (u_outpoint u)) (DUtxo u) s;
          s2 = (case scriptAddress (u_script u) of
                  Some addr \<Rightarrow> kv_put D (addrKey addr (u_outpoint u)) (VBytes []) s1
                | None \<Rightarrow> s1)
      in if is_stake_script (u_script u)
         then kv_put D (stakeKey (sc_data (u_script u)) (u_outpoint u)) (VBytes []) s2 else s2)"

definition Store_Delete :: "('s, dbval) kvdb \<Rightarrow> outpoint \<Rightarrow> 's \<Rightarrow> 's" where
  "Store_Delete D x s =
     kv_delete D (utxoKey x)
      (case Store_Get D s x of
         None \<Rightarrow> s
       | Some u \<Rightarrow>
           (let s1 = (case scriptAddress (u_script u) of
                        Some addr \<Rightarrow> kv_delete D (addrKey addr (u_outpoint u)) s
                      | None \<Rightarrow> s)
            in if is_stake_script (u_script u)
               then kv_delete D (stakeKey (sc_data (u_script u)) (u_outpoint u)) s1 else s1))"

definition Store_Has :: "('s, dbval) kvdb \<Rightarrow> 's \<Rightarrow> outpoint \<Rightarrow> bool" where
  "Store_Has D s x = kv_has D s (utxoKey x)"

definition Store_items :: "('s, dbval) kvdb \<Rightarrow> 's \<Rightarrow> utxo option list" where
  "Store_items D s =
     map (\<lambda>(k, v). case v of DUtxo u \<Rightarrow> Some u | _ \<Rightarrow> None) (kv_items D s prefixUTXO)"

datatype 'e iter_error = Unmarshal | Callback 'e

text \<open>A loop over the set with a callback that may stop it; an unreadable document stops it too.\<close>

definition Store_ForEach ::
  "('s, dbval) kvdb \<Rightarrow> ('a \<Rightarrow> utxo \<Rightarrow> 'e + 'a) \<Rightarrow> 'a \<Rightarrow> 's \<Rightarrow> 'e iter_error + 'a" where
  "Store_ForEach D f acc s =
     foldE (\<lambda>acc d. case d of
              None \<Rightarrow> Inl Unmarshal
            | Some u \<Rightarrow> (case f acc u of Inl e \<Rightarrow> Inl (Callback e) | Inr acc' \<Rightarrow> Inr acc'))
       acc (Store_items D s)"

definition index_scan :: "('s, dbval) kvdb \<Rightarrow> bytes \<Rightarrow> 's \<Rightarrow> utxo list" where
  "index_scan D p s =
     concat (map (\<lambda>(key, v).
       if length key < length p + 32 + 4 then []
       else case Store_Get D s (parse_outpoint (drop (length p) key)) of
              None \<Rightarrow> [] | Some u \<Rightarrow> [u]) (kv_items D s p))"

definition GetStakes :: "('s, dbval) kvdb \<Rightarrow> bytes \<Rightarrow> 's \<Rightarrow> utxo list option" where
  "GetStakes D pubKey s =
     (if length pubKey \<noteq> compressedPubKeySize then None
      else Some (index_scan D (prefixStake @ pubKey) s))"

definition GetByAddress :: "('s, dbval) kvdb \<Rightarrow> address \<Rightarrow> 's \<Rightarrow> utxo list" where
  "GetByAddress D addr s = index_scan D (prefixAddr @ addr_bytes addr) s"

definition stake_key_pubkey :: "bytes \<Rightarrow> bytes list" where
  "stake_key_pubkey key =
     (if length key < length prefixStake + compressedPubKeySize then []
      else [take compressedPubKeySize (drop (length prefixStake) key)])"

text \<open>Each public key once, in the order of first occurrence.\<close>

definition GetAllStakedValidators :: "('s, dbval) kvdb \<Rightarrow> 's \<Rightarrow> bytes list" where
  "GetAllStakedValidators D s =
     rev (remdups (rev (concat (map (stake_key_pubkey \<circ> fst) (kv_items D s prefixStake)))))"

definition ClearAll :: "('s, dbval) kvdb \<Rightarrow> 's \<Rightarrow> 's" where
  "ClearAll D s =
     fold (kv_delete D)
       (concat (map (\<lambda>p. map fst (kv_items D s p)) [prefixUTXO, prefixAddr, prefixStake])) s"

definition UtxoStore :: "('s, dbval) kvdb \<Rightarrow> 's utxo_set_ops" where
  "UtxoStore D = \<lparr>us_get = Store_Get D, us_put = Store_Put D, us_delete = Store_Delete D,
     us_has = Store_Has D, us_items = Store_items D, us_clear = ClearAll D\<rparr>"

section \<open>What a set promises, and its total value\<close>

text \<open>The coins of a finite set of outputs.\<close>

definition value_of :: "utxo option \<Rightarrow> nat" where
  "value_of m = (case m of None \<Rightarrow> 0 | Some u \<Rightarrow> unat (u_value u))"

lemma value_of_simps [simp]: "value_of None = 0" "value_of (Some u) = unat (u_value u)"
  by (simp_all add: value_of_def)

definition total_value :: "(outpoint \<rightharpoonup> utxo) \<Rightarrow> nat" where
  "total_value m = (\<Sum>x \<in> dom m. value_of (m x))"

locale utxo_set =
  fixes U :: "'s utxo_set_ops"
  assumes get_put: "us_get U (us_put U u s) = (us_get U s)(u_outpoint u \<mapsto> u)"
    and get_delete: "us_get U (us_delete U x s) = (us_get U s)(x := None)"
    and has_get: "us_get U s x \<noteq> None \<Longrightarrow> us_has U s x"
    and finite_set: "finite (dom (us_get U s))"
    and get_clear: "us_get U (us_clear U s) = Map.empty"
begin

abbreviation total :: "'s \<Rightarrow> nat" where
  "total s \<equiv> total_value (us_get U s)"

abbreviation value_at :: "'s \<Rightarrow> outpoint \<Rightarrow> nat" where
  "value_at s x \<equiv> value_of (us_get U s x)"

lemma total_split: "total s = value_at s x + (\<Sum>y \<in> dom (us_get U s) - {x}. value_of (us_get U s y))"
proof (cases "us_get U s x")
  case None
  then show ?thesis by (simp add: total_value_def domIff)
next
  case (Some u)
  then have "x \<in> dom (us_get U s)" by auto
  then show ?thesis using Some finite_set [of s] by (simp add: total_value_def sum.remove)
qed

lemma total_cong_except:
  assumes "\<And>y. y \<noteq> x \<Longrightarrow> us_get U s y = us_get U t y"
  shows "total s + value_at t x = total t + value_at s x"
proof -
  have "(\<Sum>y \<in> dom (us_get U s) - {x}. value_of (us_get U s y)) =
        (\<Sum>y \<in> dom (us_get U t) - {x}. value_of (us_get U t y))"
    using assms by (intro sum.cong) (auto simp: dom_def)
  then show ?thesis by (simp add: total_split [of s x] total_split [of t x])
qed

lemma total_put: "total (us_put U u s) + value_at s (u_outpoint u) = total s + unat (u_value u)"
  using total_cong_except [of "u_outpoint u" "us_put U u s" s] by (simp add: get_put)

lemma total_put_le: "total (us_put U u s) \<le> total s + unat (u_value u)"
  using total_put [of u s] by simp

lemma total_delete: "total (us_delete U x s) + value_at s x = total s"
  using total_cong_except [of x "us_delete U x s" s] by (simp add: get_delete)

lemma total_clear: "total (us_clear U s) = 0"
  by (simp add: total_value_def get_clear)

lemma finite_clear: "dom (us_get U (us_clear U s)) = {}"
  by (simp add: get_clear)

end

section \<open>The store keeps the promise\<close>

text \<open>The set of outputs that a database holds.\<close>

definition utxos_of :: "(bytes \<rightharpoonup> dbval) \<Rightarrow> outpoint \<rightharpoonup> utxo" where
  "utxos_of m x = (case m (utxoKey x) of Some (DUtxo u) \<Rightarrow> Some u | _ \<Rightarrow> None)"

text \<open>The three name spaces of the set.\<close>

definition utxo_space :: "bytes \<Rightarrow> bool" where
  "utxo_space k \<longleftrightarrow> prefix prefixUTXO k \<or> prefix prefixAddr k \<or> prefix prefixStake k"

text \<open>A key-value store whose values are documents.\<close>

locale doc_store = kv_store D view for D :: "('s, dbval) kvdb" and view
begin

abbreviation utxos :: "'s \<Rightarrow> outpoint \<rightharpoonup> utxo" where
  "utxos s \<equiv> utxos_of (view s)"

lemma Store_Get_utxos: "Store_Get D s = utxos s"
  by (simp add: fun_eq_iff Store_Get_def utxos_of_def get)

lemma view_Store_Put:
  "view (Store_Put D u s) k =
     (if k = utxoKey (u_outpoint u) then Some (DUtxo u)
      else if \<exists>a. scriptAddress (u_script u) = Some a \<and> k = addrKey a (u_outpoint u) then Some (VBytes [])
      else if is_stake_script (u_script u) \<and> k = stakeKey (sc_data (u_script u)) (u_outpoint u)
      then Some (VBytes [])
      else view s k)"
  by (auto simp: Store_Put_def Let_def put split: option.splits)

lemma view_Store_Delete:
  "view (Store_Delete D x s) k =
     (if k = utxoKey x then None
      else case utxos s x of
        None \<Rightarrow> view s k
      | Some u \<Rightarrow>
          if (\<exists>a. scriptAddress (u_script u) = Some a \<and> k = addrKey a (u_outpoint u)) \<or>
             is_stake_script (u_script u) \<and> k = stakeKey (sc_data (u_script u)) (u_outpoint u)
          then None else view s k)"
  by (auto simp: Store_Delete_def Store_Get_utxos Let_def delete split: option.splits)

lemma utxos_Store_Put: "utxos (Store_Put D u s) = (utxos s)(u_outpoint u \<mapsto> u)"
  by (auto simp: fun_eq_iff utxos_of_def view_Store_Put)

lemma utxos_Store_Delete: "utxos (Store_Delete D x s) = (utxos s)(x := None)"
  by (auto simp: fun_eq_iff utxos_of_def view_Store_Delete split: option.splits dbval.splits)

lemma finite_utxos: "finite (dom (utxos s))"
proof -
  have "utxoKey ` dom (utxos s) \<subseteq> dom (view s)"
    by (auto simp: utxos_of_def split: option.splits)
  then have "finite (utxoKey ` dom (utxos s))" using finite_view finite_subset by blast
  then show ?thesis by (rule finite_imageD) (simp add: inj_on_def)
qed

lemma view_ClearAll: "view (ClearAll D s) = (\<lambda>k. if utxo_space k then None else view s k)"
proof -
  have m: "set (map fst (kv_items D s p)) = {k. prefix p k \<and> view s k \<noteq> None}" for p
    by (force simp: items)
  show ?thesis
    unfolding ClearAll_def view_delete_all
    by (rule ext) (auto simp: m utxo_space_def simp del: set_map)
qed

lemma utxo_space_keys [simp]:
  "utxo_space (utxoKey x)" "utxo_space (addrKey a x)" "utxo_space (stakeKey p x)"
  by (simp_all add: utxo_space_def utxoKey_def addrKey_def stakeKey_def)

lemma utxos_ClearAll: "utxos (ClearAll D s) = Map.empty"
  by (auto simp: fun_eq_iff utxos_of_def view_ClearAll)

lemma view_outside:
  assumes "\<not> utxo_space k"
  shows "view (Store_Put D u s) k = view s k" and "view (Store_Delete D x s) k = view s k"
    and "view (ClearAll D s) k = view s k"
  using assms by (auto simp: view_Store_Put view_Store_Delete view_ClearAll split: option.splits)

lemma utxos_outside: "\<not> utxo_space k \<Longrightarrow> utxos (kv_put D k v s) = utxos s"
  "\<not> utxo_space k \<Longrightarrow> utxos (kv_delete D k s) = utxos s"
  by (auto simp: fun_eq_iff utxos_of_def put delete)

end

sublocale doc_store \<subseteq> set: utxo_set "UtxoStore D"
  by unfold_locales
     (auto simp: UtxoStore_def Store_Get_utxos utxos_Store_Put utxos_Store_Delete finite_utxos
       utxos_ClearAll Store_Has_def has utxos_of_def split: option.splits)

section \<open>The indexes\<close>

text \<open>
  The keys of the set are well-formed, every document sits under the key of its own outpoint,
  and the two indexes list exactly the outputs that are there.
\<close>

definition index_consistent :: "(bytes \<rightharpoonup> dbval) \<Rightarrow> bool" where
  "index_consistent m \<longleftrightarrow>
     (\<forall>k d. prefix prefixUTXO k \<and> m k = Some d \<longrightarrow>
        (\<exists>u. k = utxoKey (u_outpoint u) \<and> d = DUtxo u)) \<and>
     (\<forall>k. prefix prefixAddr k \<and> m k \<noteq> None \<longrightarrow>
        (\<exists>a x u. k = addrKey a x \<and> utxos_of m x = Some u \<and> scriptAddress (u_script u) = Some a)) \<and>
     (\<forall>k. prefix prefixStake k \<and> m k \<noteq> None \<longrightarrow>
        (\<exists>x u. k = stakeKey (sc_data (u_script u)) x \<and> utxos_of m x = Some u \<and> is_stake_script (u_script u))) \<and>
     (\<forall>x u. utxos_of m x = Some u \<longrightarrow>
        (\<forall>a. scriptAddress (u_script u) = Some a \<longrightarrow> m (addrKey a x) \<noteq> None) \<and>
        (is_stake_script (u_script u) \<longrightarrow> m (stakeKey (sc_data (u_script u)) x) \<noteq> None))"

context doc_store
begin

abbreviation index_ok :: "'s \<Rightarrow> bool" where
  "index_ok s \<equiv> index_consistent (view s)"

lemma stakeKey_script_inject:
  "is_stake_script s1 \<Longrightarrow> is_stake_script s2 \<Longrightarrow>
     stakeKey (sc_data s1) x = stakeKey (sc_data s2) y \<longleftrightarrow> sc_data s1 = sc_data s2 \<and> x = y"
  by (simp add: is_stake_script_def compressedPubKeySize_def stakeKey_inject)

lemma prefix_keys [simp]:
  "prefix prefixAddr (addrKey a x)" "\<not> prefix prefixAddr (stakeKey p x)" "\<not> prefix prefixAddr (utxoKey x)"
  "prefix prefixStake (stakeKey p x)" "\<not> prefix prefixStake (addrKey a x)" "\<not> prefix prefixStake (utxoKey x)"
  "prefix prefixUTXO (utxoKey x)" "\<not> prefix prefixUTXO (addrKey a x)" "\<not> prefix prefixUTXO (stakeKey p x)"
  by (simp_all add: utxoKey_def addrKey_def stakeKey_def prefixUTXO_def prefixAddr_def prefixStake_def)

lemma utxos_view: "utxos s x = Some u \<longleftrightarrow> view s (utxoKey x) = Some (DUtxo u)"
  by (auto simp: utxos_of_def split: option.splits dbval.splits)

lemma utxos_outpoint:
  assumes "index_ok s" and "utxos s x = Some u"
  shows "u_outpoint u = x"
proof -
  have "view s (utxoKey x) = Some (DUtxo u)" using assms(2) by (simp add: utxos_view)
  with assms(1) prefix_keys(7) [of x] obtain v where "utxoKey x = utxoKey (u_outpoint v)" "DUtxo u = DUtxo v"
    unfolding index_consistent_def by blast
  then show ?thesis by simp
qed

lemma index_addr_iff:
  assumes "index_ok s"
  shows "view s (addrKey a x) \<noteq> None \<longleftrightarrow> (\<exists>u. utxos s x = Some u \<and> scriptAddress (u_script u) = Some a)"
  using assms unfolding index_consistent_def by (metis addrKey_inject prefix_keys(1))

lemma index_ok_empty: "view s = Map.empty \<Longrightarrow> index_ok s"
  by (simp add: index_consistent_def utxos_of_def)

lemma index_ok_cong:
  assumes "index_ok s" and "\<And>k. utxo_space k \<Longrightarrow> view t k = view s k"
  shows "index_ok t"
proof -
  have "utxos t = utxos s" using assms(2) by (simp add: utxos_of_def fun_eq_iff)
  moreover have "view t k = view s k" if "prefix prefixUTXO k" for k
    using that by (intro assms(2)) (simp add: utxo_space_def)
  moreover have "view t k = view s k" if "prefix prefixAddr k" for k
    using that by (intro assms(2)) (simp add: utxo_space_def)
  moreover have "view t k = view s k" if "prefix prefixStake k" for k
    using that by (intro assms(2)) (simp add: utxo_space_def)
  ultimately show ?thesis
    using assms unfolding index_consistent_def by (simp cong: conj_cong)
qed

lemma index_ok_Put:
  assumes ok: "index_ok s"
    and fresh: "\<And>v. utxos s (u_outpoint u) = Some v \<Longrightarrow> u_script v = u_script u"
  shows "index_ok (Store_Put D u s)"
  unfolding index_consistent_def
proof (intro conjI allI impI)
  let ?t = "Store_Put D u s"
  note u = utxos_Store_Put [of u s] and v = view_Store_Put [of u s]
  fix k d assume "prefix prefixUTXO k \<and> view ?t k = Some d"
  then show "\<exists>u. k = utxoKey (u_outpoint u) \<and> d = DUtxo u"
    using ok by (auto simp: v index_consistent_def split: if_splits)
next
  let ?t = "Store_Put D u s"
  note u = utxos_Store_Put [of u s] and v = view_Store_Put [of u s]
  fix k assume k: "prefix prefixAddr k \<and> view ?t k \<noteq> None"
  show "\<exists>a x w. k = addrKey a x \<and> utxos ?t x = Some w \<and> scriptAddress (u_script w) = Some a"
  proof (cases "\<exists>a. scriptAddress (u_script u) = Some a \<and> k = addrKey a (u_outpoint u)")
    case True
    then show ?thesis by (auto simp: u)
  next
    case False
    with k have "view s k \<noteq> None" by (auto simp: v split: if_splits)
    with ok k obtain a x w where "k = addrKey a x" "utxos s x = Some w" "scriptAddress (u_script w) = Some a"
      unfolding index_consistent_def by blast
    then show ?thesis using fresh by (auto simp: u intro!: exI [of _ a] exI [of _ x])
  qed
next
  let ?t = "Store_Put D u s"
  note u = utxos_Store_Put [of u s] and v = view_Store_Put [of u s]
  fix k assume k: "prefix prefixStake k \<and> view ?t k \<noteq> None"
  show "\<exists>x w. k = stakeKey (sc_data (u_script w)) x \<and> utxos ?t x = Some w \<and> is_stake_script (u_script w)"
  proof (cases "is_stake_script (u_script u) \<and> k = stakeKey (sc_data (u_script u)) (u_outpoint u)")
    case True
    then show ?thesis by (auto simp: u)
  next
    case False
    with k have "view s k \<noteq> None" by (auto simp: v split: if_splits)
    with ok k obtain x w where "k = stakeKey (sc_data (u_script w)) x" "utxos s x = Some w" "is_stake_script (u_script w)"
      unfolding index_consistent_def by blast
    then show ?thesis using fresh by (auto simp: u intro!: exI [of _ x])
  qed
next
  let ?t = "Store_Put D u s"
  note u = utxos_Store_Put [of u s] and v = view_Store_Put [of u s]
  fix x w a assume "utxos ?t x = Some w" "scriptAddress (u_script w) = Some a"
  then show "view ?t (addrKey a x) \<noteq> None"
    using ok by (auto simp: u v index_consistent_def split: if_splits)
next
  let ?t = "Store_Put D u s"
  note u = utxos_Store_Put [of u s] and v = view_Store_Put [of u s]
  fix x w assume "utxos ?t x = Some w" "is_stake_script (u_script w)"
  then show "view ?t (stakeKey (sc_data (u_script w)) x) \<noteq> None"
    using ok by (auto simp: u v index_consistent_def split: if_splits)
qed

lemma index_ok_Delete:
  assumes ok: "index_ok s"
  shows "index_ok (Store_Delete D x s)"
proof -
  let ?t = "Store_Delete D x s"
  note u = utxos_Store_Delete [of x s] and v = view_Store_Delete [of x s]
  have op: "u_outpoint w = x" if "utxos s x = Some w" for w using ok that by (rule utxos_outpoint)
  show ?thesis
    unfolding index_consistent_def
  proof (intro conjI allI impI)
    fix k d assume "prefix prefixUTXO k \<and> view ?t k = Some d"
    then show "\<exists>u. k = utxoKey (u_outpoint u) \<and> d = DUtxo u"
      using ok by (auto simp: v index_consistent_def split: if_splits option.splits)
  next
    fix k assume k: "prefix prefixAddr k \<and> view ?t k \<noteq> None"
    then have "view s k \<noteq> None" by (auto simp: v split: if_splits option.splits)
    with ok k obtain a y w where w: "k = addrKey a y" "utxos s y = Some w" "scriptAddress (u_script w) = Some a"
      unfolding index_consistent_def by blast
    moreover have "y \<noteq> x" using k w op by (auto simp: v split: if_splits)
    ultimately show "\<exists>a x w. k = addrKey a x \<and> utxos ?t x = Some w \<and> scriptAddress (u_script w) = Some a"
      by (auto simp: u)
  next
    fix k assume k: "prefix prefixStake k \<and> view ?t k \<noteq> None"
    then have "view s k \<noteq> None" by (auto simp: v split: if_splits option.splits)
    with ok k obtain y w where w: "k = stakeKey (sc_data (u_script w)) y" "utxos s y = Some w" "is_stake_script (u_script w)"
      unfolding index_consistent_def by blast
    moreover have "y \<noteq> x" using k w op by (auto simp: v split: if_splits)
    ultimately show "\<exists>x w. k = stakeKey (sc_data (u_script w)) x \<and> utxos ?t x = Some w \<and> is_stake_script (u_script w)"
      by (auto simp: u)
  next
    fix y w a assume "utxos ?t y = Some w" "scriptAddress (u_script w) = Some a"
    moreover from this have "y \<noteq> x" "utxos s y = Some w" by (auto simp: u split: if_splits)
    ultimately show "view ?t (addrKey a y) \<noteq> None"
      using ok op by (auto simp: v index_consistent_def split: option.splits)
  next
    fix y w assume "utxos ?t y = Some w" "is_stake_script (u_script w)"
    moreover from this have "y \<noteq> x" "utxos s y = Some w" by (auto simp: u split: if_splits)
    ultimately show "view ?t (stakeKey (sc_data (u_script w)) y) \<noteq> None"
      using ok op by (auto simp: v index_consistent_def stakeKey_script_inject split: option.splits)
  qed
qed

lemma index_ok_ClearAll: "index_ok (ClearAll D s)"
proof -
  have "view (ClearAll D s) k = None" if "utxo_space k" for k
    using that by (simp add: view_ClearAll)
  moreover have "utxo_space k" if "prefix prefixUTXO k \<or> prefix prefixAddr k \<or> prefix prefixStake k" for k
    using that by (auto simp: utxo_space_def)
  ultimately show ?thesis
    by (auto simp: index_consistent_def utxos_ClearAll)
qed

text \<open>Scanning an index from which the outpoint can be read back.\<close>

lemma index_scan_exact:
  assumes ok: "index_ok s"
    and keys: "\<And>k. prefix p k \<Longrightarrow> view s k \<noteq> None \<longleftrightarrow>
      (\<exists>x u. k = p @ outpoint_bytes x \<and> utxos s x = Some u \<and> Q u)"
  shows "distinct (index_scan D p s) \<and> set (index_scan D p s) = {u. \<exists>x. utxos s x = Some u \<and> Q u}"
proof -
  let ?g = "\<lambda>key. case utxos s (parse_outpoint (drop (length p) key)) of None \<Rightarrow> [] | Some u \<Rightarrow> [u]"
  have key: "\<exists>x u. k = p @ outpoint_bytes x \<and> utxos s x = Some u \<and> Q u" if "(k, v) \<in> set (kv_items D s p)" for k v
    using that keys [of k] by (auto simp: items)
  have scan: "index_scan D p s = concat (map ?g (map fst (kv_items D s p)))"
    unfolding index_scan_def map_map
    by (rule arg_cong [of _ _ concat], rule map_cong [OF refl])
       (auto simp: Store_Get_utxos length_outpoint_bytes dest!: key)
  have "distinct (concat (map ?g ks))" if "distinct ks"
    "\<And>k. k \<in> set ks \<Longrightarrow> \<exists>x u. k = p @ outpoint_bytes x \<and> utxos s x = Some u" for ks
    using that
  proof (induction ks)
    case Nil
    then show ?case by simp
  next
    case (Cons k ks)
    from Cons.prems(2) [of k] obtain x u where k: "k = p @ outpoint_bytes x" "utxos s x = Some u" by auto
    have "u \<notin> set (concat (map ?g ks))"
    proof
      assume "u \<in> set (concat (map ?g ks))"
      then obtain k' where k': "k' \<in> set ks" "u \<in> set (?g k')" by auto
      with Cons.prems obtain x' where x': "k' = p @ outpoint_bytes x'" by auto
      then have "utxos s x' = Some u" using k'(2) by (auto split: option.splits)
      then have "x' = x" using k(2) utxos_outpoint [OF ok] by metis
      then show False using x' k k' Cons.prems(1) by auto
    qed
    then show ?case using Cons k by simp
  qed
  then have "distinct (index_scan D p s)"
    unfolding scan using items_distinct [of s p] by (fastforce dest!: key)
  moreover have "u \<in> set (index_scan D p s) \<longleftrightarrow> (\<exists>x. utxos s x = Some u \<and> Q u)" for u
  proof
    assume "u \<in> set (index_scan D p s)"
    then show "\<exists>x. utxos s x = Some u \<and> Q u" unfolding scan by (force dest!: key)
  next
    assume "\<exists>x. utxos s x = Some u \<and> Q u"
    then obtain x where x: "utxos s x = Some u" "Q u" by blast
    then obtain v where "(p @ outpoint_bytes x, v) \<in> set (kv_items D s p)"
      using keys [of "p @ outpoint_bytes x"] by (auto simp: items)
    then show "u \<in> set (index_scan D p s)"
      unfolding scan using x by (force simp: image_iff)
  qed
  ultimately show ?thesis by blast
qed

lemma GetByAddress_exact:
  assumes ok: "index_ok s"
  shows "distinct (GetByAddress D a s) \<and>
    set (GetByAddress D a s) = {u. \<exists>x. utxos s x = Some u \<and> scriptAddress (u_script u) = Some a}"
  unfolding GetByAddress_def
proof (rule index_scan_exact [OF ok])
  fix k assume p: "prefix (prefixAddr @ addr_bytes a) k"
  then have pa: "prefix prefixAddr k" by (metis append_prefixD)
  show "view s k \<noteq> None \<longleftrightarrow> (\<exists>x u. k = (prefixAddr @ addr_bytes a) @ outpoint_bytes x \<and>
      utxos s x = Some u \<and> scriptAddress (u_script u) = Some a)"
  proof
    assume "view s k \<noteq> None"
    with ok pa obtain b x u where k: "k = addrKey b x" "utxos s x = Some u" "scriptAddress (u_script u) = Some b"
      unfolding index_consistent_def by blast
    moreover have "b = a" using p k(1) by (auto simp: addrKey_def prefix_def append_fixed)
    ultimately show "\<exists>x u. k = (prefixAddr @ addr_bytes a) @ outpoint_bytes x \<and>
        utxos s x = Some u \<and> scriptAddress (u_script u) = Some a"
      by (auto simp: addrKey_def)
  next
    assume "\<exists>x u. k = (prefixAddr @ addr_bytes a) @ outpoint_bytes x \<and>
        utxos s x = Some u \<and> scriptAddress (u_script u) = Some a"
    then obtain x u where "k = addrKey a x" "utxos s x = Some u" "scriptAddress (u_script u) = Some a"
      by (auto simp: addrKey_def)
    then show "view s k \<noteq> None" using index_addr_iff [OF ok, of a x] by blast
  qed
qed

lemma GetStakes_exact:
  assumes ok: "index_ok s" and len: "length pk = 33"
  shows "\<exists>us. GetStakes D pk s = Some us \<and> distinct us \<and>
    set us = {u. \<exists>x. utxos s x = Some u \<and> (is_stake_script (u_script u) \<and> sc_data (u_script u) = pk)}"
proof -
  have key: "stakeKey pk x = (prefixStake @ pk) @ outpoint_bytes x" for x
    using len by (simp add: stakeKey_def compressedPubKeySize_def)
  have "distinct (index_scan D (prefixStake @ pk) s) \<and> set (index_scan D (prefixStake @ pk) s) =
      {u. \<exists>x. utxos s x = Some u \<and> (is_stake_script (u_script u) \<and> sc_data (u_script u) = pk)}"
  proof (rule index_scan_exact [OF ok])
    fix k assume p: "prefix (prefixStake @ pk) k"
    then have ps: "prefix prefixStake k" by (metis append_prefixD)
    show "view s k \<noteq> None \<longleftrightarrow> (\<exists>x u. k = (prefixStake @ pk) @ outpoint_bytes x \<and> utxos s x = Some u \<and>
        (is_stake_script (u_script u) \<and> sc_data (u_script u) = pk))"
    proof
      assume "view s k \<noteq> None"
      with ok ps obtain x u where k: "k = stakeKey (sc_data (u_script u)) x" "utxos s x = Some u"
        and st: "is_stake_script (u_script u)"
        unfolding index_consistent_def by blast
      have "length (sc_data (u_script u)) = 33" using st by (simp add: is_stake_script_def compressedPubKeySize_def)
      then have "sc_data (u_script u) = pk"
        using p len unfolding k(1) by (auto simp: stakeKey_def prefix_def compressedPubKeySize_def append_fixed)
      then show "\<exists>x u. k = (prefixStake @ pk) @ outpoint_bytes x \<and> utxos s x = Some u \<and>
          (is_stake_script (u_script u) \<and> sc_data (u_script u) = pk)"
        using k st key by metis
    next
      assume "\<exists>x u. k = (prefixStake @ pk) @ outpoint_bytes x \<and> utxos s x = Some u \<and>
          (is_stake_script (u_script u) \<and> sc_data (u_script u) = pk)"
      then obtain x u where x: "k = (prefixStake @ pk) @ outpoint_bytes x" "utxos s x = Some u"
        and st: "is_stake_script (u_script u)" "sc_data (u_script u) = pk" by blast
      then have "k = stakeKey (sc_data (u_script u)) x" using key by simp
      then show "view s k \<noteq> None" using ok x(2) st(1) unfolding index_consistent_def by blast
    qed
  qed
  then show ?thesis using len by (simp add: GetStakes_def compressedPubKeySize_def)
qed

lemma GetAllStakedValidators_exact:
  assumes ok: "index_ok s"
  shows "distinct (GetAllStakedValidators D s) \<and> set (GetAllStakedValidators D s) =
    {sc_data (u_script u) | u. u \<in> ran (utxos s) \<and> is_stake_script (u_script u)}"
proof -
  have pk: "stake_key_pubkey (stakeKey (sc_data (u_script u)) x) = [sc_data (u_script u)]"
    if "is_stake_script (u_script u)" for u x
    using that by (simp add: stake_key_pubkey_def stakeKey_def is_stake_script_def compressedPubKeySize_def
        prefixStake_def length_outpoint_bytes)
  have "q \<in> set (GetAllStakedValidators D s) \<longleftrightarrow>
      (\<exists>u. q = sc_data (u_script u) \<and> u \<in> ran (utxos s) \<and> is_stake_script (u_script u))" for q
  proof
    assume "q \<in> set (GetAllStakedValidators D s)"
    then obtain k v where k: "(k, v) \<in> set (kv_items D s prefixStake)" "q \<in> set (stake_key_pubkey k)"
      by (auto simp: GetAllStakedValidators_def)
    then have "prefix prefixStake k \<and> view s k \<noteq> None" by (auto simp: items)
    with ok obtain x u where "k = stakeKey (sc_data (u_script u)) x" "utxos s x = Some u" "is_stake_script (u_script u)"
      unfolding index_consistent_def by blast
    with k(2) pk [of u x] show "\<exists>u. q = sc_data (u_script u) \<and> u \<in> ran (utxos s) \<and> is_stake_script (u_script u)"
      by (auto intro: ranI)
  next
    assume "\<exists>u. q = sc_data (u_script u) \<and> u \<in> ran (utxos s) \<and> is_stake_script (u_script u)"
    then obtain u x where u: "q = sc_data (u_script u)" "utxos s x = Some u" "is_stake_script (u_script u)"
      by (auto simp: ran_def)
    with ok obtain v where "view s (stakeKey q x) = Some v"
      unfolding index_consistent_def by (metis not_Some_eq)
    then have "(stakeKey q x, v) \<in> set (kv_items D s prefixStake)" by (simp add: items)
    then show "q \<in> set (GetAllStakedValidators D s)"
      using pk [OF u(3), of x] u(1) by (force simp: GetAllStakedValidators_def)
  qed
  then show ?thesis by (auto simp: GetAllStakedValidators_def)
qed

text \<open>The operations of the set, composed.\<close>

lemma set_ops [simp]:
  "us_get (UtxoStore D) = Store_Get D" "us_put (UtxoStore D) = Store_Put D"
  "us_delete (UtxoStore D) = Store_Delete D" "us_has (UtxoStore D) = Store_Has D"
  "us_items (UtxoStore D) = Store_items D" "us_clear (UtxoStore D) = ClearAll D"
  by (simp_all add: UtxoStore_def)

lemma Store_items_exact:
  assumes ok: "index_ok s"
  shows "\<exists>us. Store_items D s = map Some us \<and> distinct us \<and> set us = ran (utxos s)"
proof -
  let ?f = "\<lambda>(k :: bytes, v). case v of DUtxo u \<Rightarrow> u | _ \<Rightarrow> undefined"
  let ?us = "map ?f (kv_items D s prefixUTXO)"
  have key: "\<exists>u. k = utxoKey (u_outpoint u) \<and> v = DUtxo u" if "(k, v) \<in> set (kv_items D s prefixUTXO)" for k v
    using that ok by (auto simp: items index_consistent_def)
  have "Store_items D s = map Some ?us"
    unfolding Store_items_def map_map by (rule map_cong [OF refl]) (auto dest!: key)
  moreover have "distinct ?us"
  proof -
    have "map fst (kv_items D s prefixUTXO) = map (utxoKey \<circ> u_outpoint) ?us"
      unfolding map_map by (rule map_cong [OF refl]) (auto dest!: key)
    then have "distinct (map (utxoKey \<circ> u_outpoint) ?us)" using items_distinct by metis
    then show ?thesis by (simp only: distinct_map)
  qed
  moreover have "u \<in> set ?us \<longleftrightarrow> u \<in> ran (utxos s)" for u
  proof
    assume "u \<in> set ?us"
    then obtain k v where kv: "(k, v) \<in> set (kv_items D s prefixUTXO)" "u = ?f (k, v)" by auto
    with key [OF kv(1)] have "view s (utxoKey (u_outpoint u)) = Some (DUtxo u)" by (auto simp: items)
    then show "u \<in> ran (utxos s)" unfolding ran_def mem_Collect_eq utxos_view by blast
  next
    assume "u \<in> ran (utxos s)"
    then obtain x where "view s (utxoKey x) = Some (DUtxo u)"
      unfolding ran_def mem_Collect_eq utxos_view by blast
    then have "(utxoKey x, DUtxo u) \<in> set (kv_items D s prefixUTXO)" by (simp add: items)
    then show "u \<in> set ?us" by (force simp: image_iff)
  qed
  ultimately show ?thesis by blast
qed

end

interpretation mem: doc_store MemoryDB DAList.lookup ..

interpretation pfx: doc_store "PrefixDB MemoryDB p" "\<lambda>s k. DAList.lookup s (p @ k)" for p ..

section \<open>Properties of the store\<close>

text \<open>
  The UTXO store refines a finite map from outpoints to outputs: on the map that a database
  holds, \<open>Put\<close> is an update, \<open>Delete\<close> a removal, \<open>ClearAll\<close> empties it, \<open>Get\<close> reads it, and
  \<open>Has\<close> is true wherever \<open>Get\<close> succeeds; the index entries that \<open>Put\<close> and \<open>Delete\<close> maintain
  do not disturb it.
\<close>

theorem utxo_store_refines_map:
  "Store_Get MemoryDB s = utxos_of (DAList.lookup s) \<and>
   utxos_of (DAList.lookup (Store_Put MemoryDB u s)) = (utxos_of (DAList.lookup s))(u_outpoint u \<mapsto> u) \<and>
   utxos_of (DAList.lookup (Store_Delete MemoryDB x s)) = (utxos_of (DAList.lookup s))(x := None) \<and>
   utxos_of (DAList.lookup (ClearAll MemoryDB s)) = Map.empty \<and>
   (Store_Get MemoryDB s x \<noteq> None \<longrightarrow> Store_Has MemoryDB s x) \<and>
   finite (dom (utxos_of (DAList.lookup s)))"
  using mem.set.has_get [of s x]
  by (simp add: mem.Store_Get_utxos mem.utxos_Store_Put mem.utxos_Store_Delete mem.utxos_ClearAll mem.finite_utxos)

definition demo_utxo :: utxo where
  "demo_utxo = \<lparr>u_outpoint = Outpoint 7 0, u_value = 100, u_script = demo_script, u_token = None,
     u_height = 1, u_coinbase = False, u_locked_until = 0\<rparr>"

theorem utxo_store_refines_map_witness:
  "Store_Has MemoryDB (Store_Put MemoryDB demo_utxo DAList.empty) (Outpoint 7 0)"
  using utxo_store_refines_map [of "Store_Put MemoryDB demo_utxo DAList.empty" demo_utxo "Outpoint 7 0"]
    mem.utxos_Store_Put [of demo_utxo DAList.empty]
  by (simp add: demo_utxo_def)



section \<open>Commitment\<close>

definition hashUTXO :: "crypto \<Rightarrow> utxo \<Rightarrow> hash" where
  "hashUTXO C u = Hash C
     (hash_bytes (op_txid (u_outpoint u)) @ le_bytes 4 (op_index (u_outpoint u)) @ le_bytes 8 (u_value u) @
      [sc_type (u_script u)] @ sc_data (u_script u))"

text \<open>\<open>hashLess\<close> is the order of 256-bit words, by which the hashes are sorted.\<close>

definition Commitment :: "crypto \<Rightarrow> ('s, dbval) kvdb \<Rightarrow> 's \<Rightarrow> unit iter_error + hash" where
  "Commitment C D s =
     bindE (Store_ForEach D (\<lambda>hashes u. Inr (hashes @ [hashUTXO C u])) [] s) (\<lambda>hashes.
       if hashes = [] then Inr 0 else Inr (ComputeMerkleRoot C (sort hashes)))"

lemma Store_ForEach_collect:
  assumes "Store_items D s = map Some us"
  shows "Store_ForEach D (\<lambda>acc u. Inr (acc @ [f u])) acc s = Inr (acc @ map f us)"
  unfolding Store_ForEach_def assms by (induction us arbitrary: acc) simp_all

context doc_store
begin

lemma Commitment_sorted:
  assumes "index_ok s"
  shows "\<exists>us. distinct us \<and> set us = ran (utxos s) \<and>
    Commitment C D s = Inr (if us = [] then 0 else ComputeMerkleRoot C (sort (map (hashUTXO C) us)))"
proof -
  from Store_items_exact [OF assms] obtain us
    where "Store_items D s = map Some us" "distinct us" "set us = ran (utxos s)" by blast
  then show ?thesis by (auto simp: Commitment_def Store_ForEach_collect)
qed

lemma Commitment_cong:
  assumes "index_ok s" and "index_ok t" and "utxos s = utxos t"
  shows "Commitment C D s = Commitment C D t"
proof -
  from Commitment_sorted [OF assms(1)] obtain us where us: "distinct us" "set us = ran (utxos s)"
    "Commitment C D s = Inr (if us = [] then 0 else ComputeMerkleRoot C (sort (map (hashUTXO C) us)))" by blast
  from Commitment_sorted [OF assms(2)] obtain vs where vs: "distinct vs" "set vs = ran (utxos t)"
    "Commitment C D t = Inr (if vs = [] then 0 else ComputeMerkleRoot C (sort (map (hashUTXO C) vs)))" by blast
  have "mset us = mset vs" using us vs assms(3) by (simp flip: set_eq_iff_mset_eq_distinct)
  then have "mset (map (hashUTXO C) us) = mset (map (hashUTXO C) vs)" by simp
  then have "sort (map (hashUTXO C) us) = sort (map (hashUTXO C) vs)"
    by (intro properties_for_sort) simp_all
  moreover have "us = [] \<longleftrightarrow> vs = []" using \<open>mset us = mset vs\<close> by auto
  ultimately show ?thesis using us(3) vs(3) by simp
qed

end

text \<open>
  The commitment depends on the set of outputs alone: two consistent databases that hold
  the same outputs, whatever the order of insertion and whatever else they store, have the
  same commitment.
\<close>

theorem Commitment_order_independent:
  assumes "index_consistent (DAList.lookup s)" and "index_consistent (DAList.lookup t)"
    and "utxos_of (DAList.lookup s) = utxos_of (DAList.lookup t)"
  shows "Commitment C MemoryDB s = Commitment C MemoryDB t"
  by (rule mem.Commitment_cong [OF assms])

theorem Commitment_order_independent_witness:
  "Commitment toy_crypto MemoryDB
     (Store_Put MemoryDB demo_utxo (Store_Put MemoryDB (demo_utxo\<lparr>u_outpoint := Outpoint 8 0\<rparr>) DAList.empty)) =
   Commitment toy_crypto MemoryDB
     (Store_Put MemoryDB (demo_utxo\<lparr>u_outpoint := Outpoint 8 0\<rparr>) (Store_Put MemoryDB demo_utxo DAList.empty))"
proof (rule Commitment_order_independent)
  have e: "index_consistent (DAList.lookup DAList.empty)" by (rule mem.index_ok_empty) (simp add: fun_eq_iff)
  have u: "utxos_of (DAList.lookup DAList.empty) = Map.empty" by (simp add: utxos_of_def fun_eq_iff)
  note ok = mem.index_ok_Put [OF mem.index_ok_Put [OF e]]
  show "index_consistent (DAList.lookup (Store_Put MemoryDB demo_utxo
      (Store_Put MemoryDB (demo_utxo\<lparr>u_outpoint := Outpoint 8 0\<rparr>) DAList.empty)))"
    by (rule ok) (auto simp: u mem.utxos_Store_Put demo_utxo_def split: if_splits)
  show "index_consistent (DAList.lookup (Store_Put MemoryDB (demo_utxo\<lparr>u_outpoint := Outpoint 8 0\<rparr>)
      (Store_Put MemoryDB demo_utxo DAList.empty)))"
    by (rule ok) (auto simp: u mem.utxos_Store_Put demo_utxo_def split: if_splits)
qed (auto simp: mem.utxos_Store_Put demo_utxo_def)

end
