(* ===== verification/PoA.thy ===== *)
theory PoA
  imports Utxo "HOL-Library.List_Lexorder"
begin

text \<open>
  Proof of authority (\<open>internal/consensus/poa.go\<close>): the validator set in canonical order, the
  time-slot election with weighted difficulty, header verification and sealing, the signing
  limit, the staggered backup delays and the suspension of idle validators.
\<close>

section \<open>State\<close>

definition DiffInTurn :: u64 where "DiffInTurn = 2"
definition DiffNoTurn :: u64 where "DiffNoTurn = 1"
definition SuspensionWindow :: u64 where "SuspensionWindow = 200"
definition MinActiveValidators :: nat where "MinActiveValidators = 1"

datatype poa_error =
    ErrNoValidators | ErrNotValidator | PoaMissingSig | PoaInvalidSig | ErrInsufficientStake
  | ErrBadPoADifficulty | ErrInvalidBlockTime | PoaNoSigner | PoaStakeQuery | PoaSealFailed key_error

text \<open>
  The stake checker, when there is one, is the \<open>UTXOStakeChecker\<close> with its minimum stake.
  \<open>poa_last\<close> is keyed by the hexadecimal public key, as in the code.
\<close>

record poa =
  poa_validators :: "bytes list"
  poa_genesis :: "bytes list"
  poa_block_time :: int
  poa_signer :: "bytes option"
  poa_min_stake :: "u64 option"
  poa_last :: "string \<rightharpoonup> u64"
  poa_height :: u64

text \<open>Public keys are ordered by \<open>bytes.Compare\<close>, the lexicographic order of byte lists.\<close>

definition sortValidators :: "bytes list \<Rightarrow> bytes list" where
  "sortValidators vs = sort vs"

definition NewPoA :: "bytes list \<Rightarrow> int \<Rightarrow> poa_error + poa" where
  "NewPoA validators blockTime =
     (if validators = [] then Inl ErrNoValidators
      else if blockTime \<le> 0 then Inl ErrInvalidBlockTime
      else let vs = sortValidators validators in
        Inr \<lparr>poa_validators = vs, poa_genesis = vs, poa_block_time = blockTime, poa_signer = None,
             poa_min_stake = None, poa_last = Map.empty, poa_height = 0\<rparr>)"

definition isValidator :: "poa \<Rightarrow> bytes \<Rightarrow> bool" where
  "isValidator p pubKey \<longleftrightarrow> pubKey \<in> set (poa_validators p)"

definition isGenesisValidator :: "poa \<Rightarrow> bytes \<Rightarrow> bool" where
  "isGenesisValidator p pubKey \<longleftrightarrow> pubKey \<in> set (poa_genesis p)"

definition SetSigner :: "crypto \<Rightarrow> bytes \<Rightarrow> poa \<Rightarrow> poa_error + poa" where
  "SetSigner C key p =
     (if \<not> isValidator p (PublicKey C key) then Inl ErrNotValidator else Inr (p\<lparr>poa_signer := Some key\<rparr>))"

definition AddValidator :: "bytes \<Rightarrow> poa \<Rightarrow> poa" where
  "AddValidator pubKey p =
     (if \<not> isValidator p pubKey
      then p\<lparr>poa_validators := sortValidators (poa_validators p @ [pubKey]),
             poa_last := (poa_last p)(hex_encode pubKey \<mapsto> poa_height p)\<rparr>
      else p)"

definition RemoveValidator :: "bytes \<Rightarrow> poa \<Rightarrow> poa" where
  "RemoveValidator pubKey p =
     (if isGenesisValidator p pubKey then p
      else p\<lparr>poa_validators := remove1 pubKey (poa_validators p)\<rparr>)"

section \<open>Election, verification, sealing\<close>

definition slot_index :: "nat \<Rightarrow> u64 \<Rightarrow> int \<Rightarrow> nat" where
  "slot_index n timestamp blockTime =
     unat ((timestamp div word_of_int blockTime) mod (word_of_nat n :: u64))"

definition slotValidatorFromSet :: "bytes list \<Rightarrow> u64 \<Rightarrow> int \<Rightarrow> bytes option" where
  "slotValidatorFromSet validators timestamp blockTime =
     (case validators of
        [] \<Rightarrow> None
      | [v] \<Rightarrow> Some v
      | _ \<Rightarrow> Some (validators ! slot_index (length validators) timestamp blockTime))"

definition IsInTurn :: "crypto \<Rightarrow> poa \<Rightarrow> u64 \<Rightarrow> bool" where
  "IsInTurn C p timestamp \<longleftrightarrow>
     (case poa_signer p of
        None \<Rightarrow> False
      | Some key \<Rightarrow> slotValidatorFromSet (poa_validators p) timestamp (poa_block_time p) = Some (PublicKey C key))"

text \<open>\<open>UTXOStakeChecker.HasStake\<close>: the sum of the stakes, where an overflow counts as enough.\<close>

fun stake_reached :: "u64 \<Rightarrow> u64 \<Rightarrow> utxo list \<Rightarrow> bool" where
  "stake_reached minStake t [] \<longleftrightarrow> t \<ge> minStake"
| "stake_reached minStake t (u # us) \<longleftrightarrow>
     (if t > max_u64 - u_value u then True else stake_reached minStake (t + u_value u) us)"

definition HasStake :: "('s, dbval) kvdb \<Rightarrow> u64 \<Rightarrow> 's \<Rightarrow> bytes \<Rightarrow> bool option" where
  "HasStake D minStake s pubKey =
     (case GetStakes D pubKey s of None \<Rightarrow> None | Some stakes \<Rightarrow> Some (stake_reached minStake 0 stakes))"

definition check_stake :: "(bytes \<Rightarrow> bool option) option \<Rightarrow> poa \<Rightarrow> bytes \<Rightarrow> poa_error option" where
  "check_stake stakeChecker p pub =
     (case stakeChecker of
        None \<Rightarrow> None
      | Some hasStake \<Rightarrow>
          if isGenesisValidator p pub then None
          else (case hasStake pub of
                  None \<Rightarrow> Some PoaStakeQuery
                | Some ok \<Rightarrow> if \<not> ok then Some ErrInsufficientStake else None))"

definition expected_weight :: "poa \<Rightarrow> bytes \<Rightarrow> u64 \<Rightarrow> u64" where
  "expected_weight p pub timestamp =
     (if slotValidatorFromSet (poa_validators p) timestamp (poa_block_time p) = Some pub
      then DiffInTurn else DiffNoTurn)"

fun try_validators ::
  "crypto \<Rightarrow> (bytes \<Rightarrow> bool option) option \<Rightarrow> poa \<Rightarrow> header \<Rightarrow> bytes list \<Rightarrow> poa_error option" where
  "try_validators C sc p h [] = Some PoaInvalidSig"
| "try_validators C sc p h (pub # vs) =
     (if VerifySignature C (hash_bytes (HeaderHash C h)) (h_sig h) pub
      then and_then (check_stake sc p pub)
        (if h_difficulty h \<noteq> expected_weight p pub (h_timestamp h) then Some ErrBadPoADifficulty else None)
      else try_validators C sc p h vs)"

definition PoA_VerifyHeader ::
  "crypto \<Rightarrow> (bytes \<Rightarrow> bool option) option \<Rightarrow> poa \<Rightarrow> header \<Rightarrow> poa_error option" where
  "PoA_VerifyHeader C sc p h =
     (if h_sig h = [] then Some PoaMissingSig else try_validators C sc p h (poa_validators p))"

definition PoA_Prepare :: "crypto \<Rightarrow> poa \<Rightarrow> header \<Rightarrow> poa_error + header" where
  "PoA_Prepare C p h =
     (case poa_signer p of
        None \<Rightarrow> Inl PoaNoSigner
      | Some key \<Rightarrow>
          Inr (h\<lparr>h_difficulty :=
            if slotValidatorFromSet (poa_validators p) (h_timestamp h) (poa_block_time p) = Some (PublicKey C key)
            then DiffInTurn else DiffNoTurn\<rparr>))"

definition PoA_Seal :: "crypto \<Rightarrow> poa \<Rightarrow> header \<Rightarrow> poa_error + header" where
  "PoA_Seal C p h =
     (case poa_signer p of
        None \<Rightarrow> Inl PoaNoSigner
      | Some key \<Rightarrow>
         (case SignHash C key (hash_bytes (HeaderHash C h)) of
            Inl e \<Rightarrow> Inl (PoaSealFailed e)
          | Inr sig \<Rightarrow> Inr (h\<lparr>h_sig := sig\<rparr>)))"

definition IdentifySigner :: "crypto \<Rightarrow> poa \<Rightarrow> header \<Rightarrow> bytes option" where
  "IdentifySigner C p h =
     (if h_sig h = [] then None
      else find (\<lambda>pub. VerifySignature C (hash_bytes (HeaderHash C h)) (h_sig h) pub) (poa_validators p))"

definition SigningLimit :: "poa \<Rightarrow> nat" where
  "SigningLimit p =
     (let n = length (poa_validators p) in if n \<le> 1 then 0 else n div 2 + 1)"

text \<open>The deprecated selection by tip and height.\<close>

definition selectValidatorFromSet :: "crypto \<Rightarrow> bytes list \<Rightarrow> u64 \<Rightarrow> hash \<Rightarrow> bytes option" where
  "selectValidatorFromSet C validators height prevHash =
     (case validators of
        [] \<Rightarrow> None
      | [v] \<Rightarrow> Some v
      | _ \<Rightarrow>
         (let seed = Hash C (hash_bytes prevHash @ le_bytes 8 height);
              idx = le_word (take 8 (hash_bytes seed)) mod (word_of_nat (length validators) :: u64)
          in Some (validators ! unat idx)))"

definition IsSelected :: "crypto \<Rightarrow> poa \<Rightarrow> u64 \<Rightarrow> hash \<Rightarrow> bool" where
  "IsSelected C p height prevHash \<longleftrightarrow>
     (case poa_signer p of
        None \<Rightarrow> False
      | Some key \<Rightarrow> selectValidatorFromSet C (poa_validators p) height prevHash = Some (PublicKey C key))"

section \<open>Suspension\<close>

definition RecordBlockProduction :: "bytes \<Rightarrow> u64 \<Rightarrow> poa \<Rightarrow> poa" where
  "RecordBlockProduction signer height p =
     p\<lparr>poa_last := (poa_last p)(hex_encode signer \<mapsto> height),
       poa_height := if height > poa_height p then height else poa_height p\<rparr>"

definition SetCurrentHeight :: "u64 \<Rightarrow> poa \<Rightarrow> poa" where
  "SetCurrentHeight height p = p\<lparr>poa_height := height\<rparr>"

definition ResetSuspensions :: "poa \<Rightarrow> poa" where
  "ResetSuspensions p = p\<lparr>poa_last := Map.empty, poa_height := 0\<rparr>"

definition recently_active :: "poa \<Rightarrow> bytes \<Rightarrow> bool" where
  "recently_active p v \<longleftrightarrow>
     (case poa_last p (hex_encode v) of
        Some lastH \<Rightarrow> poa_height p - lastH \<le> SuspensionWindow
      | None \<Rightarrow> poa_height p \<le> SuspensionWindow)"

definition EffectiveValidators :: "poa \<Rightarrow> bytes list" where
  "EffectiveValidators p =
     (if poa_height p < SuspensionWindow then poa_validators p
      else let active = filter (recently_active p) (poa_validators p) in
        if length active < MinActiveValidators then poa_validators p else active)"

definition wouldViolateMinActive :: "poa \<Rightarrow> bytes \<Rightarrow> bool" where
  "wouldViolateMinActive p pubKey \<longleftrightarrow>
     (let active = EffectiveValidators p in
      if pubKey \<notin> set active then False
      else int (length active) - 1 < int MinActiveValidators)"

definition IsSuspended :: "poa \<Rightarrow> bytes \<Rightarrow> bool" where
  "IsSuspended p pubKey \<longleftrightarrow>
     (if poa_height p < SuspensionWindow then False
      else case poa_last p (hex_encode pubKey) of
        None \<Rightarrow> if poa_height p > SuspensionWindow then \<not> wouldViolateMinActive p pubKey else False
      | Some lastH \<Rightarrow>
          if poa_height p - lastH > SuspensionWindow then \<not> wouldViolateMinActive p pubKey else False)"

section \<open>Backup delays\<close>

text \<open>The first position of an element, and the delay in milliseconds for a distance.\<close>

fun index_in :: "'a list \<Rightarrow> 'a \<Rightarrow> nat option" where
  "index_in [] x = None"
| "index_in (y # ys) x = (if y = x then Some 0 else map_option Suc (index_in ys x))"

definition slot_distance :: "bytes list \<Rightarrow> bytes \<Rightarrow> u64 \<Rightarrow> int \<Rightarrow> u64 option" where
  "slot_distance vs pub timestamp blockTime =
     (case index_in vs pub of
        None \<Rightarrow> None
      | Some i \<Rightarrow>
         (let n = word_of_nat (length vs); slot = (timestamp div word_of_int blockTime) mod n
          in Some ((word_of_nat i - slot + n) mod n)))"

definition delay_ms :: "bytes list \<Rightarrow> bytes \<Rightarrow> u64 \<Rightarrow> int \<Rightarrow> u64" where
  "delay_ms vs pub timestamp blockTime =
     (case slot_distance vs pub timestamp blockTime of
        None \<Rightarrow> 0
      | Some dist \<Rightarrow> if dist = 0 then 0 else dist * word_of_int blockTime * 500)"

definition BackupDelay :: "crypto \<Rightarrow> poa \<Rightarrow> u64 \<Rightarrow> u64" where
  "BackupDelay C p timestamp =
     (case poa_signer p of
        None \<Rightarrow> 0
      | Some key \<Rightarrow>
          if length (poa_validators p) \<le> 1 then 0
          else delay_ms (poa_validators p) (PublicKey C key) timestamp (poa_block_time p))"

definition BackupDelayEffective :: "crypto \<Rightarrow> poa \<Rightarrow> u64 \<Rightarrow> u64" where
  "BackupDelayEffective C p timestamp =
     (case poa_signer p of
        None \<Rightarrow> 0
      | Some key \<Rightarrow>
          if IsSuspended p (PublicKey C key) then word_of_int (poa_block_time p) * 1000
          else let effective = EffectiveValidators p in
            if length effective \<le> 1 then 0
            else delay_ms effective (PublicKey C key) timestamp (poa_block_time p))"

section \<open>Verification and sealing\<close>

lemma try_validators_None:
  "try_validators C sc p h vs = None \<longleftrightarrow>
     (\<exists>pub. find (\<lambda>pub. VerifySignature C (hash_bytes (HeaderHash C h)) (h_sig h) pub) vs = Some pub \<and>
        check_stake sc p pub = None \<and> h_difficulty h = expected_weight p pub (h_timestamp h))"
  by (induction vs) (auto simp: err_simps)

lemma PoA_VerifyHeader_None:
  "PoA_VerifyHeader C sc p h = None \<longleftrightarrow>
     (\<exists>pub. IdentifySigner C p h = Some pub \<and> check_stake sc p pub = None \<and>
        h_difficulty h = expected_weight p pub (h_timestamp h))"
  by (auto simp: PoA_VerifyHeader_def IdentifySigner_def try_validators_None)

lemma IdentifySigner_Some:
  "IdentifySigner C p h = Some pub \<Longrightarrow>
     pub \<in> set (poa_validators p) \<and> VerifySignature C (hash_bytes (HeaderHash C h)) (h_sig h) pub"
  by (auto simp: IdentifySigner_def find_Some_iff split: if_splits)

lemma HeaderHash_sig: "HeaderHash C (h\<lparr>h_sig := s\<rparr>) = HeaderHash C h"
  by (simp add: HeaderHash_def HeaderSigningBytes_def)

text \<open>
  \<open>VerifyHeader\<close> accepts a header exactly when \<open>IdentifySigner\<close> finds a signer, that signer
  is a genesis validator or has its stake (when stakes are checked), and the difficulty is the
  weight of the signer in the time slot of the header.
\<close>

theorem PoA_VerifyHeader_iff:
  "PoA_VerifyHeader C sc p h = None \<longleftrightarrow>
     (\<exists>pub \<in> set (poa_validators p). IdentifySigner C p h = Some pub \<and>
        VerifySignature C (hash_bytes (HeaderHash C h)) (h_sig h) pub \<and>
        (sc = None \<or> isGenesisValidator p pub \<or> the sc pub = Some True) \<and>
        h_difficulty h = (if slotValidatorFromSet (poa_validators p) (h_timestamp h) (poa_block_time p) = Some pub
                          then 2 else 1))"
proof -
  have "check_stake sc p pub = None \<longleftrightarrow> sc = None \<or> isGenesisValidator p pub \<or> the sc pub = Some True" for pub
    by (auto simp: check_stake_def split: option.splits)
  then show ?thesis
    using IdentifySigner_Some [of C p h]
    by (auto simp: PoA_VerifyHeader_None expected_weight_def DiffInTurn_def DiffNoTurn_def)
qed

text \<open>
  A header that the local validator prepares and seals is accepted by \<open>VerifyHeader\<close> of
  every node with the same validators, provided Schnorr signatures verify for their own key
  and for no other validator, the signature is not empty, and the signer has its stake.
\<close>

theorem PoA_seal_verifies:
  assumes "poa_signer p = Some key" and "PublicKey C key \<in> set (poa_validators p)"
    and "PoA_Prepare C p h = Inr h1" and "PoA_Seal C p h1 = Inr h2"
    and "\<forall>hh sig. SignHash C key hh = Inr sig \<longrightarrow> sig \<noteq> [] \<and>
      (\<forall>v \<in> set (poa_validators p). VerifySignature C hh sig v \<longleftrightarrow> v = PublicKey C key)"
    and "check_stake sc p (PublicKey C key) = None"
  shows "PoA_VerifyHeader C sc p h2 = None \<and> IdentifySigner C p h2 = Some (PublicKey C key)"
proof -
  let ?k = "PublicKey C key"
  from assms(1,4) obtain sig where sig: "SignHash C key (hash_bytes (HeaderHash C h1)) = Inr sig"
    and h2: "h2 = h1\<lparr>h_sig := sig\<rparr>" by (auto simp: PoA_Seal_def split: sum.splits)
  have v: "sig \<noteq> []" "\<And>v. v \<in> set (poa_validators p) \<Longrightarrow>
      VerifySignature C (hash_bytes (HeaderHash C h2)) (h_sig h2) v \<longleftrightarrow> v = ?k"
    using assms(5) sig h2 by (auto simp: HeaderHash_sig)
  have "IdentifySigner C p h2 = Some ?k"
  proof -
    have "find (\<lambda>pub. VerifySignature C (hash_bytes (HeaderHash C h2)) (h_sig h2) pub) vs = Some ?k"
      if "?k \<in> set vs" "set vs \<subseteq> set (poa_validators p)" for vs
      using that v(2) by (induction vs) auto
    then show ?thesis using assms(2) v(1) h2 by (simp add: IdentifySigner_def)
  qed
  moreover have "h_difficulty h2 = expected_weight p ?k (h_timestamp h2)"
    using assms(1,3) h2 by (auto simp: PoA_Prepare_def expected_weight_def)
  ultimately show ?thesis using assms(6) by (simp add: PoA_VerifyHeader_None)
qed

text \<open>A single validator that signs for itself.\<close>

definition demo_poa :: poa where
  "demo_poa = \<lparr>poa_validators = [[5]], poa_genesis = [[5]], poa_block_time = 3, poa_signer = Some [5],
     poa_min_stake = None, poa_last = Map.empty, poa_height = 0\<rparr>"

definition demo_sealed :: "header \<Rightarrow> header" where
  "demo_sealed h = h\<lparr>h_difficulty := 2, h_sig := [5]\<rparr>"

lemma demo_poa_seal:
  "PoA_Prepare toy_crypto demo_poa h = Inr (h\<lparr>h_difficulty := 2\<rparr>)"
  "PoA_Seal toy_crypto demo_poa (h\<lparr>h_difficulty := 2\<rparr>) = Inr (demo_sealed h)"
  by (simp_all add: PoA_Prepare_def PoA_Seal_def demo_poa_def demo_sealed_def toy_crypto_def PublicKey_def
      slotValidatorFromSet_def SignHash_def DiffInTurn_def)

definition sample_header :: header where
  "sample_header = \<lparr>h_version = 1, h_prev = 3, h_merkle = 4, h_timestamp = 9, h_height = 1,
     h_difficulty = 0, h_nonce = 0, h_sig = []\<rparr>"

theorem PoA_seal_verifies_witness: "PoA_VerifyHeader toy_crypto None demo_poa (demo_sealed sample_header) = None"
  using PoA_seal_verifies [of demo_poa "[5]" toy_crypto sample_header "sample_header\<lparr>h_difficulty := 2\<rparr>"
    "demo_sealed sample_header" None]
  by (simp add: demo_poa_seal, simp add: demo_poa_def toy_crypto_def PublicKey_def SignHash_def VerifySignature_def check_stake_def)

section \<open>The validator set\<close>

text \<open>What nodes do to their engine, as a step relation.\<close>

inductive poa_step :: "crypto \<Rightarrow> poa \<Rightarrow> poa \<Rightarrow> bool" for C where
  step_add: "poa_step C p (AddValidator v p)"
| step_remove: "poa_step C p (RemoveValidator v p)"
| step_record: "poa_step C p (RecordBlockProduction v h p)"
| step_height: "poa_step C p (SetCurrentHeight h p)"
| step_reset: "poa_step C p (ResetSuspensions p)"
| step_signer: "SetSigner C key p = Inr p' \<Longrightarrow> poa_step C p p'"

inductive poa_reachable :: "crypto \<Rightarrow> bytes list \<Rightarrow> int \<Rightarrow> poa \<Rightarrow> bool" for C gs bt where
  reach_init: "NewPoA gs bt = Inr p \<Longrightarrow> poa_reachable C gs bt p"
| reach_step: "poa_reachable C gs bt p \<Longrightarrow> poa_step C p p' \<Longrightarrow> poa_reachable C gs bt p'"

definition poa_ok :: "bytes list \<Rightarrow> int \<Rightarrow> poa \<Rightarrow> bool" where
  "poa_ok gs bt p \<longleftrightarrow> sorted (poa_validators p) \<and> set gs \<subseteq> set (poa_validators p) \<and>
     (\<forall>v. count_list (poa_validators p) v = (if v \<in> set gs then count_list gs v else of_bool (v \<in> set (poa_validators p)))) \<and>
     set (poa_genesis p) = set gs \<and> gs \<noteq> [] \<and> poa_block_time p = bt \<and> bt > 0"

lemma count_list_sort [simp]: "count_list (sort xs) x = count_list xs x"
  by (simp flip: count_mset)

lemma count_list_remove1: "count_list (remove1 v xs) x = (if x = v then count_list xs x - 1 else count_list xs x)"
  by (simp flip: count_mset)

lemma poa_ok_init: "NewPoA gs bt = Inr p \<Longrightarrow> poa_ok gs bt p"
  by (auto simp: NewPoA_def poa_ok_def sortValidators_def Let_def count_list_0_iff simp flip: set_empty split: if_splits)

lemma poa_ok_step: "poa_step C p p' \<Longrightarrow> poa_ok gs bt p \<Longrightarrow> poa_ok gs bt p'"
proof (induction rule: poa_step.induct)
  case (step_add p v)
  then show ?case
    by (auto simp: poa_ok_def AddValidator_def sortValidators_def isValidator_def simp flip: set_empty)
next
  case (step_remove p v)
  show ?case
  proof (cases "isGenesisValidator p v")
    case True
    then show ?thesis using step_remove by (simp add: RemoveValidator_def)
  next
    case False
    let ?vs = "poa_validators p"
    have v: "v \<notin> set gs" using step_remove False by (simp add: poa_ok_def isGenesisValidator_def)
    then have "count_list ?vs v \<le> 1" using step_remove by (simp add: poa_ok_def)
    then have "count_list (remove1 v ?vs) v = 0" by (simp add: count_list_remove1)
    then have gone: "v \<notin> set (remove1 v ?vs)" by (rule count_list_0_iff [THEN iffD1])
    have "set (remove1 v ?vs) = set ?vs - {v}"
    proof (rule set_eqI)
      fix x
      show "x \<in> set (remove1 v ?vs) \<longleftrightarrow> x \<in> set ?vs - {v}" using gone by (cases "x = v") simp_all
    qed
    then show ?thesis
      using step_remove False v
      by (auto simp: poa_ok_def RemoveValidator_def isGenesisValidator_def sorted_remove1 count_list_remove1)
  qed
qed (auto simp: poa_ok_def RecordBlockProduction_def SetCurrentHeight_def ResetSuspensions_def SetSigner_def
      split: if_splits)

lemma poa_reachable_ok: "poa_reachable C gs bt p \<Longrightarrow> poa_ok gs bt p"
  by (induction rule: poa_reachable.induct) (auto intro: poa_ok_init poa_ok_step)

lemma poa_ok_same_validators:
  assumes p: "poa_ok gs bt p" and q: "poa_ok gs' bt' q" and gs: "mset gs = mset gs'"
    and same: "set (poa_validators p) = set (poa_validators q)"
  shows "poa_validators p = poa_validators q"
proof -
  have "set gs = set gs'" "count_list gs v = count_list gs' v" for v
    using gs by (auto dest: mset_eq_setD simp flip: count_mset)
  then have "mset (poa_validators p) = mset (poa_validators q)"
    using p q same by (auto simp: multiset_eq_iff count_mset poa_ok_def)
  then have "sort (poa_validators q) = poa_validators p"
    using p by (intro properties_for_sort) (simp_all add: poa_ok_def)
  then show ?thesis using q by (simp add: poa_ok_def sorted_sort_id)
qed



section \<open>Turns and delays\<close>

lemma slot_index_eq:
  assumes "0 < n" and "n < 2 ^ 64" and "0 < bt" and "bt < 2 ^ 63"
  shows "slot_index n ts bt = (unat ts div nat bt) mod n"
proof -
  have "unat (word_of_int bt :: u64) = nat bt"
    using assms by (simp add: unat_eq_nat_uint uint_word_of_int_eq take_bit_int_eq_self)
  moreover have "unat (word_of_nat n :: u64) = n" using assms by (simp add: unat_of_nat)
  ultimately show ?thesis by (simp add: slot_index_def unat_mod unat_div)
qed

lemma slotValidator_nth:
  assumes "length vs \<ge> 2"
  shows "slotValidatorFromSet vs ts bt = Some (vs ! slot_index (length vs) ts bt)"
  using assms by (auto simp: slotValidatorFromSet_def split: list.splits)

lemma index_in_nth: "distinct vs \<Longrightarrow> i < length vs \<Longrightarrow> index_in vs (vs ! i) = Some i"
proof (induction vs arbitrary: i)
  case Nil
  then show ?case by simp
next
  case (Cons v vs)
  then show ?case by (cases i) (auto simp: nth_eq_iff_index_eq)
qed

text \<open>The distance is the number of slots from the turn of the validator to the current one.\<close>

lemma slot_distance_eq:
  assumes "distinct vs" and "i < length vs" and "length vs < 2 ^ 32" and "0 < bt" and "bt < 2 ^ 63"
  shows "\<exists>d. slot_distance vs (vs ! i) ts bt = Some d \<and>
    unat d = (i + length vs - slot_index (length vs) ts bt) mod length vs"
proof -
  let ?n = "length vs" and ?s = "slot_index (length vs) ts bt"
  let ?d = "(word_of_nat i - (ts div word_of_int bt) mod (word_of_nat ?n) + word_of_nat ?n) mod word_of_nat ?n :: u64"
  have n: "unat (word_of_nat ?n :: u64) = ?n" "unat (word_of_nat i :: u64) = i"
    using assms by (simp_all add: unat_of_nat)
  have s: "unat ((ts div word_of_int bt) mod (word_of_nat ?n :: u64)) = ?s" by (simp add: slot_index_def)
  have pos: "0 < ?n" using assms(2) by linarith
  then have lt: "?s < ?n" using assms by (subst slot_index_eq) simp_all
  have "word_of_nat i - (ts div word_of_int bt) mod (word_of_nat ?n :: u64) + word_of_nat ?n =
      (word_of_nat (i + ?n - ?s) :: u64)"
  proof -
    have "(ts div word_of_int bt) mod (word_of_nat ?n :: u64) = word_of_nat ?s" by (simp flip: s)
    moreover have "(word_of_nat (i + ?n - ?s) :: u64) = word_of_nat i + word_of_nat ?n - word_of_nat ?s"
      using lt by (simp add: of_nat_diff)
    ultimately show ?thesis by simp
  qed
  moreover have "unat (word_of_nat (i + ?n - ?s) :: u64) = i + ?n - ?s"
    using assms by (simp add: unat_of_nat)
  ultimately have "unat ?d = (i + ?n - ?s) mod ?n" using n by (simp add: unat_mod)
  then show ?thesis
    using index_in_nth [OF assms(1,2)] by (simp add: slot_distance_def Let_def)
qed

lemma block_time_small:
  assumes "1 \<le> n" and "0 < bt" and "int n * bt * 500 < 2 ^ 64"
  shows "bt < 2 ^ 63"
proof -
  have "1 * bt \<le> int n * bt" using assms(1,2) by (intro mult_right_mono) linarith+
  then have "bt * 500 \<le> int n * bt * 500" by linarith
  then have "bt * 500 < 2 ^ 64" using assms(3) by (rule le_less_trans)
  then show ?thesis by simp
qed

lemma delay_ms_eq:
  assumes "distinct vs" and "i < length vs" and "length vs < 2 ^ 32" and "0 < bt"
    and "int (length vs) * bt * 500 < 2 ^ 64"
  shows "unat (delay_ms vs (vs ! i) ts bt) =
    (i + length vs - slot_index (length vs) ts bt) mod length vs * nat bt * 500"
proof -
  let ?k = "(i + length vs - slot_index (length vs) ts bt) mod length vs"
  have bt: "bt < 2 ^ 63" using assms(2,4,5) by (intro block_time_small [of "length vs"]) linarith+
  obtain d where d: "slot_distance vs (vs ! i) ts bt = Some d" "unat d = ?k"
    using slot_distance_eq [OF assms(1-4) bt] by blast
  have b: "unat (word_of_int bt :: u64) = nat bt"
    using assms(4) bt by (simp add: unat_eq_nat_uint uint_word_of_int_eq take_bit_int_eq_self)
  have "0 < length vs" using assms(2) by linarith
  then have "?k < length vs" by simp
  then have k: "?k * nat bt * 500 \<le> length vs * nat bt * 500" by (intro mult_le_mono) simp_all
  also have "length vs * nat bt * 500 < 2 ^ 64"
  proof -
    have "int (length vs * nat bt * 500) < int (2 ^ 64)" using assms(4,5) by simp
    then show ?thesis by (simp only: of_nat_less_iff)
  qed
  finally have lt: "?k * nat bt * 500 < 2 ^ 64" .
  then have "?k * nat bt < 2 ^ 64" by linarith
  then have "unat (d * word_of_int bt) = ?k * nat bt" using d(2) b by (simp add: unat_mult_lem [THEN iffD1] unat_word_ariths)
  then have "unat (d * word_of_int bt * 500) = ?k * nat bt * 500"
    using lt by (simp add: unat_word_ariths)
  then show ?thesis using d by (auto simp: delay_ms_def unat_eq_0)
qed

lemma circular_distance:
  assumes "i < n" and "s < (n :: nat)"
  shows "(i + n - s) mod n = (if s \<le> i then i - s else i + n - s)"
proof (cases "s \<le> i")
  case True
  then have "i + n - s = i - s + n" by linarith
  moreover have "(i - s + n) mod n = i - s" using assms(1) by simp
  ultimately show ?thesis using True by simp
next
  case False
  then have "i + n - s < n" using assms by linarith
  then show ?thesis using False by simp
qed

text \<open>
  The backup delays order the validators of a time slot without ties: the delay is zero for
  the validator in turn and for no other, and two different validators never have the same
  delay. (In milliseconds, for block times and validator numbers whose product stays in range.)
\<close>

theorem backup_delays_distinct:
  assumes "distinct vs" and "2 \<le> length vs" and "length vs < 2 ^ 32" and "0 < bt"
    and "int (length vs) * bt * 500 < 2 ^ 64" and "i < length vs" and "j < length vs"
  shows "(delay_ms vs (vs ! i) ts bt = 0 \<longleftrightarrow> slotValidatorFromSet vs ts bt = Some (vs ! i)) \<and>
    (delay_ms vs (vs ! i) ts bt = delay_ms vs (vs ! j) ts bt \<longleftrightarrow> i = j)"
proof -
  let ?n = "length vs" and ?s = "slot_index (length vs) ts bt"
  have d: "unat (delay_ms vs (vs ! k) ts bt) = (k + ?n - ?s) mod ?n * nat bt * 500" if "k < ?n" for k
    using delay_ms_eq [OF assms(1) that assms(3-5)] .
  have "bt < 2 ^ 63" using assms(2,4,5) by (intro block_time_small [of ?n]) linarith+
  moreover have "0 < ?n" using assms(2) by linarith
  ultimately have s: "?s < ?n" using assms(3,4) by (subst slot_index_eq) simp_all
  have z: "nat bt * 500 \<noteq> 0" using assms(4) by simp
  have inj: "(i + ?n - ?s) mod ?n = (j + ?n - ?s) mod ?n \<longleftrightarrow> i = j"
    using assms(6,7) s by (auto simp: circular_distance split: if_splits)
  have zero: "(i + ?n - ?s) mod ?n = 0 \<longleftrightarrow> i = ?s"
    using assms(6) s by (auto simp: circular_distance split: if_splits)
  have "delay_ms vs (vs ! i) ts bt = 0 \<longleftrightarrow> i = ?s"
    using d [OF assms(6)] z zero by (simp flip: unat_eq_0)
  moreover have "slotValidatorFromSet vs ts bt = Some (vs ! i) \<longleftrightarrow> i = ?s"
    using assms(1,2,6) s by (auto simp: slotValidator_nth nth_eq_iff_index_eq)
  moreover have "delay_ms vs (vs ! i) ts bt = delay_ms vs (vs ! j) ts bt \<longleftrightarrow> i = j"
    using d [OF assms(6)] d [OF assms(7)] z inj by (simp add: word_unat_eq_iff)
  ultimately show ?thesis by blast
qed

theorem backup_delays_distinct_witness:
  "delay_ms [[1], [2], [3]] [2] 9 3 \<noteq> delay_ms [[1], [2], [3]] [3] 9 3"
  using backup_delays_distinct [of "[[1], [2], [3]]" 3 1 2 9] by simp

section \<open>Properties of suspension\<close>

lemma EffectiveValidators_subset: "set (EffectiveValidators p) \<subseteq> set (poa_validators p)"
  by (auto simp: EffectiveValidators_def Let_def)

text \<open>
  The effective validator set is never empty while there are validators, but \<open>IsSuspended\<close>
  can hold for every one of them at the same time: when all are idle the effective set falls
  back to the full set, whose size lets each single suspension pass the check that at least
  one validator remains active.
\<close>

theorem all_validators_suspended:
  assumes "poa_height p > SuspensionWindow" and "2 \<le> length (poa_validators p)"
    and "\<forall>v \<in> set (poa_validators p). \<not> recently_active p v"
  shows "EffectiveValidators p = poa_validators p \<and> (\<forall>v \<in> set (poa_validators p). IsSuspended p v)"
proof -
  have "filter (recently_active p) (poa_validators p) = []" using assms(3) by (simp add: filter_empty_conv)
  then have e: "EffectiveValidators p = poa_validators p"
    by (simp add: EffectiveValidators_def MinActiveValidators_def)
  have "\<not> wouldViolateMinActive p v" for v
    using assms(2) by (simp add: wouldViolateMinActive_def e MinActiveValidators_def)
  then have "IsSuspended p v" if "v \<in> set (poa_validators p)" for v
    using assms that
    by (auto simp: IsSuspended_def recently_active_def not_le less_not_sym split: option.splits)
  with e show ?thesis by blast
qed

theorem all_validators_suspended_witness:
  "\<exists>p. NewPoA [[1], [2]] 3 = Inr p \<and> (\<forall>v \<in> {[1], [2]}. IsSuspended (SetCurrentHeight 300 p) v)"
proof -
  obtain p where p: "NewPoA [[1], [2]] 3 = Inr p" "set (poa_validators p) = {[1], [2]}" "poa_last p = Map.empty"
    "length (poa_validators p) = 2"
    by (auto simp: NewPoA_def sortValidators_def Let_def)
  then show ?thesis
    using all_validators_suspended [of "SetCurrentHeight 300 p"]
    by (simp add: SetCurrentHeight_def recently_active_def SuspensionWindow_def)
qed

end
