(* ===== verification/Consensus.thy ===== *)
theory Consensus
  imports PoW PoA
begin

text \<open>
  The consensus interface (\<open>internal/consensus\<close>): the two engines behind one \<open>Engine\<close>, block
  validation through it, and the tracker of validator liveness.
\<close>

section \<open>Engines\<close>

datatype engine = EnginePoW pow | EnginePoA poa

datatype consensus_error = PowErr pow_error | PoaErr poa_error | BlockErr block_error

definition stake_checker :: "('s, dbval) kvdb \<Rightarrow> 's \<Rightarrow> poa \<Rightarrow> (bytes \<Rightarrow> bool option) option" where
  "stake_checker D s p = map_option (\<lambda>m. HasStake D m s) (poa_min_stake p)"

definition Engine_VerifyHeader ::
  "crypto \<Rightarrow> ('s, dbval) kvdb \<Rightarrow> 's \<Rightarrow> engine \<Rightarrow> header \<Rightarrow> consensus_error option" where
  "Engine_VerifyHeader C D s e h =
     (case e of
        EnginePoW p \<Rightarrow> map_option PowErr (PoW_VerifyHeader C h)
      | EnginePoA p \<Rightarrow> map_option PoaErr (PoA_VerifyHeader C (stake_checker D s p) p h))"

definition Engine_Prepare :: "crypto \<Rightarrow> engine \<Rightarrow> header \<Rightarrow> consensus_error + header" where
  "Engine_Prepare C e h =
     (case e of
        EnginePoW p \<Rightarrow> Inr (PoW_Prepare p h)
      | EnginePoA p \<Rightarrow> (case PoA_Prepare C p h of Inl er \<Rightarrow> Inl (PoaErr er) | Inr h' \<Rightarrow> Inr h'))"

text \<open>\<open>Seal\<close> mines without cancellation on one thread for proof of work.\<close>

definition Engine_Seal :: "crypto \<Rightarrow> engine \<Rightarrow> header \<Rightarrow> consensus_error + header" where
  "Engine_Seal C e h =
     (case e of
        EnginePoW p \<Rightarrow>
          if h_difficulty h = 0 then Inl (PowErr ErrZeroDifficulty)
          else (case sealSingle C (\<lambda>_. False) h of Inl er \<Rightarrow> Inl (PowErr er) | Inr h' \<Rightarrow> Inr h')
      | EnginePoA p \<Rightarrow> (case PoA_Seal C p h of Inl er \<Rightarrow> Inl (PoaErr er) | Inr h' \<Rightarrow> Inr h'))"

definition ValidateBlock ::
  "crypto \<Rightarrow> ('s, dbval) kvdb \<Rightarrow> 's \<Rightarrow> engine \<Rightarrow> block \<Rightarrow> consensus_error option" where
  "ValidateBlock C D s e b =
     and_then (map_option BlockErr (Block_Validate C b))
       (case b_header b of
          None \<Rightarrow> None
        | Some h \<Rightarrow> Engine_VerifyHeader C D s e h)"

lemma ValidateBlock_None:
  "ValidateBlock C D s e b = None \<longleftrightarrow>
     Block_Validate C b = None \<and> (\<exists>h. b_header b = Some h \<and> Engine_VerifyHeader C D s e h = None)"
  by (cases "b_header b") (auto simp: ValidateBlock_def err_simps Block_Validate_def)

text \<open>
  A locale for the interface \<open>Engine\<close>: what a block producer may rely on is that a header it
  prepared and sealed is accepted, whatever the engine behind the interface, and that sealing
  changes neither the linkage to the parent nor the commitment to the transactions.
\<close>

locale sealing_engine =
  fixes prepare seal :: "header \<Rightarrow> 'e + header" and verify :: "header \<Rightarrow> 'e option"
  assumes prepare_keeps: "prepare h = Inr h1 \<Longrightarrow> h1\<lparr>h_difficulty := h_difficulty h\<rparr> = h"
    and seal_keeps: "seal h1 = Inr h2 \<Longrightarrow> h2\<lparr>h_nonce := h_nonce h1, h_sig := h_sig h1\<rparr> = h1"
    and verify_sealed: "prepare h = Inr h1 \<Longrightarrow> seal h1 = Inr h2 \<Longrightarrow> verify h2 = None"
begin

lemma produced_header:
  assumes "prepare h = Inr h1" and "seal h1 = Inr h2"
  shows "verify h2 = None \<and> h_prev h2 = h_prev h \<and> h_merkle h2 = h_merkle h \<and> h_height h2 = h_height h \<and>
    h_timestamp h2 = h_timestamp h \<and> h_version h2 = h_version h"
proof -
  have "h_prev h1 = h_prev h \<and> h_merkle h1 = h_merkle h \<and> h_height h1 = h_height h \<and>
      h_timestamp h1 = h_timestamp h \<and> h_version h1 = h_version h"
    using prepare_keeps [OF assms(1)] by (cases h1; cases h) simp
  moreover have "h_prev h2 = h_prev h1 \<and> h_merkle h2 = h_merkle h1 \<and> h_height h2 = h_height h1 \<and>
      h_timestamp h2 = h_timestamp h1 \<and> h_version h2 = h_version h1"
    using seal_keeps [OF assms(2)] by (cases h1; cases h2) simp
  ultimately show ?thesis using verify_sealed [OF assms] by simp
qed

end

interpretation pow_engine: sealing_engine "Engine_Prepare C (EnginePoW p)" "Engine_Seal C (EnginePoW p)"
  "Engine_VerifyHeader C D s (EnginePoW p)" for C D s p
proof
  fix h h1 h2 :: header
  show "Engine_Prepare C (EnginePoW p) h = Inr h1 \<Longrightarrow> h1\<lparr>h_difficulty := h_difficulty h\<rparr> = h"
    by (cases h) (auto simp: Engine_Prepare_def PoW_Prepare_def split: option.splits)
  assume sl: "Engine_Seal C (EnginePoW p) h1 = Inr h2"
  then obtain n where d: "h_difficulty h1 \<noteq> 0" and h2: "h2 = h1\<lparr>h_nonce := n\<rparr>"
    and lp: "seal_loop C (signingPrefix h1) (pow_target (h_difficulty h1)) (\<lambda>_. False) 0 = Inr n"
    by (auto simp: Engine_Seal_def sealSingle_def err_simps split: if_splits sum.splits)
  from h2 show "h2\<lparr>h_nonce := h_nonce h1, h_sig := h_sig h1\<rparr> = h1" by simp
  have "PoW_VerifyHeader C h2 = None"
    using seal_loop_Inr [OF lp] meets_VerifyHeader [OF d] h2 by simp
  then show "Engine_VerifyHeader C D s (EnginePoW p) h2 = None" by (simp add: Engine_VerifyHeader_def)
qed

section \<open>Liveness of validators\<close>

text \<open>Times are seconds; \<open>None\<close> is Go's zero time.\<close>

record validator_stats =
  vs_pubkey :: bytes
  vs_last_heartbeat :: "int option"
  vs_last_block :: "int option"
  vs_block_count :: u64
  vs_missed_count :: u64

record tracker =
  tr_stats :: "string \<rightharpoonup> validator_stats"
  tr_interval :: int

definition NewValidatorTracker :: "int \<Rightarrow> tracker" where
  "NewValidatorTracker heartbeatInterval = \<lparr>tr_stats = Map.empty, tr_interval = heartbeatInterval\<rparr>"

definition getOrCreate :: "tracker \<Rightarrow> bytes \<Rightarrow> validator_stats" where
  "getOrCreate t pubKey =
     (case tr_stats t (hex_encode pubKey) of
        Some s \<Rightarrow> s
      | None \<Rightarrow> \<lparr>vs_pubkey = pubKey, vs_last_heartbeat = None, vs_last_block = None,
                 vs_block_count = 0, vs_missed_count = 0\<rparr>)"

definition set_stats :: "bytes \<Rightarrow> validator_stats \<Rightarrow> tracker \<Rightarrow> tracker" where
  "set_stats pubKey s t = t\<lparr>tr_stats := (tr_stats t)(hex_encode pubKey \<mapsto> s)\<rparr>"

definition RecordHeartbeat :: "int \<Rightarrow> bytes \<Rightarrow> tracker \<Rightarrow> tracker" where
  "RecordHeartbeat now pubKey t =
     set_stats pubKey ((getOrCreate t pubKey)\<lparr>vs_last_heartbeat := Some now\<rparr>) t"

definition RecordBlock :: "int \<Rightarrow> bytes \<Rightarrow> tracker \<Rightarrow> tracker" where
  "RecordBlock now pubKey t =
     (let s = getOrCreate t pubKey
      in set_stats pubKey (s\<lparr>vs_last_block := Some now, vs_block_count := vs_block_count s + 1\<rparr>) t)"

definition RecordMiss :: "bytes \<Rightarrow> tracker \<Rightarrow> tracker" where
  "RecordMiss pubKey t =
     (let s = getOrCreate t pubKey
      in set_stats pubKey (s\<lparr>vs_missed_count := vs_missed_count s + 1\<rparr>) t)"

definition IsOnline :: "int \<Rightarrow> tracker \<Rightarrow> bytes \<Rightarrow> bool" where
  "IsOnline now t pubKey \<longleftrightarrow>
     (case tr_stats t (hex_encode pubKey) of
        None \<Rightarrow> False
      | Some s \<Rightarrow> (case vs_last_heartbeat s of
                    None \<Rightarrow> False | Some hb \<Rightarrow> now - hb \<le> 2 * tr_interval t))"

definition GetStats :: "tracker \<Rightarrow> bytes \<Rightarrow> validator_stats option" where
  "GetStats t pubKey = tr_stats t (hex_encode pubKey)"

lemma hex_encode_inject [simp]: "hex_encode a = hex_encode b \<longleftrightarrow> a = b"
  by (metis hex_roundtrip option.inject)

end
