(* ===== verification/Token.thy ===== *)
theory Token
  imports Utxo
begin

text \<open>
  Tokens (\<open>internal/token\<close>): the id of a new token, the conservation rules of a transaction,
  the creation fee, the metadata embedded in mint scripts, and the metadata store.
\<close>

section \<open>Token ids\<close>

definition DeriveTokenID :: "crypto \<Rightarrow> outpoint \<Rightarrow> hash" where
  "DeriveTokenID C first = Hash C (hash_bytes (op_txid first) @ le_bytes 4 (op_index first))"

section \<open>Validation\<close>

datatype token_error =
    ErrTokenConservation | ErrMintZeroAmount | ErrBurnZeroAmount | ErrTokenIDMismatch
  | ErrMixedMintTransfer | ErrMintFeeTooLow | ErrTokenAmountTooLarge | ErrTokenOverflow

text \<open>
  The Go maps from token id to amount are association lists in the order of first insertion;
  a missing key reads as 0. (Go iterates in an arbitrary order, which decides only which of
  several errors is reported.)
\<close>

type_synonym amounts = "(hash \<times> u64) list"

definition amount_of :: "amounts \<Rightarrow> hash \<Rightarrow> u64" where
  "amount_of m i = (case map_of m i of None \<Rightarrow> 0 | Some v \<Rightarrow> v)"

definition add_amount :: "token_data \<Rightarrow> amounts \<Rightarrow> token_error + amounts" where
  "add_amount td m =
     (if amount_of m (td_id td) > max_u64 - td_amount td then Inl ErrTokenOverflow
      else Inr (AList.update (td_id td) (amount_of m (td_id td) + td_amount td) m))"

fun gather_inputs :: "(outpoint \<Rightarrow> token_data option) \<Rightarrow> amounts \<Rightarrow> input list \<Rightarrow> token_error + amounts" where
  "gather_inputs G m [] = Inr m"
| "gather_inputs G m (i # is) =
     (if is_coinbase_input i then gather_inputs G m is
      else case G (in_prevout i) of
        None \<Rightarrow> gather_inputs G m is
      | Some td \<Rightarrow> bindE (add_amount td m) (\<lambda>m'. gather_inputs G m' is))"

definition validateMintOutput :: "hash \<Rightarrow> token_data \<Rightarrow> token_error option" where
  "validateMintOutput expectedID td =
     (if td_amount td = 0 then Some ErrMintZeroAmount
      else if td_amount td > MaxTokenAmount then Some ErrTokenAmountTooLarge
      else if td_id td \<noteq> expectedID then Some ErrTokenIDMismatch
      else None)"

record token_outputs =
  to_totals :: amounts
  to_minted :: "hash list"
  to_burned :: amounts

definition gather_output :: "hash \<Rightarrow> token_outputs \<Rightarrow> txout \<Rightarrow> token_error + token_outputs" where
  "gather_output mintID st out =
     (case out_token out of
        None \<Rightarrow> Inr st
      | Some td \<Rightarrow>
          if sc_type (out_script out) = ScriptTypeMint then
            check (validateMintOutput mintID td)
             (bindE (add_amount td (to_totals st)) (\<lambda>m.
                Inr (st\<lparr>to_totals := m, to_minted := td_id td # to_minted st\<rparr>)))
          else if sc_type (out_script out) = ScriptTypeBurn then
            (if td_amount td = 0 then Inl ErrBurnZeroAmount
             else if td_amount td > MaxTokenAmount then Inl ErrTokenAmountTooLarge
             else bindE (add_amount td (to_burned st)) (\<lambda>m. Inr (st\<lparr>to_burned := m\<rparr>)))
          else
            (if td_amount td > MaxTokenAmount then Inl ErrTokenAmountTooLarge
             else bindE (add_amount td (to_totals st)) (\<lambda>m. Inr (st\<lparr>to_totals := m\<rparr>))))"

definition check_mixed :: "amounts \<Rightarrow> hash \<Rightarrow> token_error option" where
  "check_mixed ins i = (if map_of ins i \<noteq> None then Some ErrMixedMintTransfer else None)"

definition check_conservation :: "amounts \<Rightarrow> token_outputs \<Rightarrow> hash \<Rightarrow> token_error option" where
  "check_conservation ins st i =
     (if i \<in> set (to_minted st) then None
      else if amount_of (to_totals st) i > max_u64 - amount_of (to_burned st) i then Some ErrTokenOverflow
      else if amount_of ins i \<noteq> amount_of (to_totals st) i + amount_of (to_burned st) i
      then Some ErrTokenConservation else None)"

definition mint_token_id :: "crypto \<Rightarrow> transaction \<Rightarrow> hash" where
  "mint_token_id C t = (case tx_inputs t of [] \<Rightarrow> 0 | i # _ \<Rightarrow> DeriveTokenID C (in_prevout i))"

definition check_tokens :: "amounts \<Rightarrow> token_outputs \<Rightarrow> token_error option" where
  "check_tokens ins st =
     and_then (first_error (check_mixed ins) (to_minted st))
       (first_error (check_conservation ins st)
         (map fst ins @ filter (\<lambda>i. i \<notin> set (to_minted st)) (map fst (to_totals st))))"

definition ValidateTokens ::
  "crypto \<Rightarrow> transaction \<Rightarrow> (outpoint \<Rightarrow> token_data option) \<Rightarrow> token_error option" where
  "ValidateTokens C t G =
     (case gather_inputs G [] (tx_inputs t) of
        Inl e \<Rightarrow> Some e
      | Inr ins \<Rightarrow>
         (case foldE (gather_output (mint_token_id C t))
                 \<lparr>to_totals = [], to_minted = [], to_burned = []\<rparr> (tx_outputs t) of
            Inl e \<Rightarrow> Some e
          | Inr st \<Rightarrow> check_tokens ins st))"

definition HasMintOutput :: "transaction \<Rightarrow> bool" where
  "HasMintOutput t \<longleftrightarrow> (\<exists>out \<in> set (tx_outputs t). sc_type (out_script out) = ScriptTypeMint)"

definition ValidateMintFee :: "transaction \<Rightarrow> u64 \<Rightarrow> u64 \<Rightarrow> token_error option" where
  "ValidateMintFee t fee creationFee =
     (if \<not> HasMintOutput t then None
      else if fee < creationFee then Some ErrMintFeeTooLow else None)"

text \<open>The adapter that reads the token data of an outpoint from the UTXO set.\<close>

definition GetTokenData :: "'s utxo_set_ops \<Rightarrow> 's \<Rightarrow> outpoint \<Rightarrow> token_data option" where
  "GetTokenData U s x = (case us_get U s x of None \<Rightarrow> None | Some u \<Rightarrow> u_token u)"

section \<open>What the totals are\<close>

definition token_ids :: "amounts \<Rightarrow> hash set" where
  "token_ids m = fst ` set m"

lemma token_ids_map_of: "map_of m i \<noteq> None \<longleftrightarrow> i \<in> token_ids m"
  by (metis token_ids_def map_of_eq_None_iff)

lemma token_ids_Nil [simp]: "token_ids [] = {}"
  by (simp add: token_ids_def)

lemma amount_of_update: "amount_of (AList.update i v m) j = (if j = i then v else amount_of m j)"
  by (simp add: amount_of_def update_conv')

lemma amount_of_Nil [simp]: "amount_of [] i = 0"
  by (simp add: amount_of_def)

lemma add_amount_Inr:
  assumes "add_amount td m = Inr m'"
  shows "unat (amount_of m' i) = unat (amount_of m i) + (if i = td_id td then unat (td_amount td) else 0) \<and>
    token_ids m' = insert (td_id td) (token_ids m)"
proof -
  from assms have le: "\<not> amount_of m (td_id td) > max_u64 - td_amount td"
    and m': "m' = AList.update (td_id td) (amount_of m (td_id td) + td_amount td) m"
    by (auto simp: add_amount_def split: if_splits)
  from le have "unat (amount_of m (td_id td) + td_amount td) = unat (amount_of m (td_id td)) + unat (td_amount td)"
    by (simp add: u64_simps)
  then show ?thesis unfolding m' by (simp add: amount_of_update dom_update token_ids_def)
qed

text \<open>Token amounts carried by inputs, by outputs that move a token on, and by burns.\<close>

definition token_amount :: "hash \<Rightarrow> token_data option \<Rightarrow> nat" where
  "token_amount i m = (case m of None \<Rightarrow> 0 | Some td \<Rightarrow> if td_id td = i then unat (td_amount td) else 0)"

definition input_token :: "(outpoint \<Rightarrow> token_data option) \<Rightarrow> input \<Rightarrow> token_data option" where
  "input_token G i = (if is_coinbase_input i then None else G (in_prevout i))"

definition tokens_in :: "(outpoint \<Rightarrow> token_data option) \<Rightarrow> transaction \<Rightarrow> hash \<Rightarrow> nat" where
  "tokens_in G t i = sum_list (map (\<lambda>x. token_amount i (input_token G x)) (tx_inputs t))"

definition is_burn :: "txout \<Rightarrow> bool" where
  "is_burn out \<longleftrightarrow> sc_type (out_script out) = ScriptTypeBurn"

definition tokens_out :: "transaction \<Rightarrow> hash \<Rightarrow> nat" where
  "tokens_out t i = sum_list (map (\<lambda>out. token_amount i (out_token out)) (filter (\<lambda>out. \<not> is_burn out) (tx_outputs t)))"

definition tokens_burned :: "transaction \<Rightarrow> hash \<Rightarrow> nat" where
  "tokens_burned t i = sum_list (map (\<lambda>out. token_amount i (out_token out)) (filter is_burn (tx_outputs t)))"

definition mints :: "transaction \<Rightarrow> hash \<Rightarrow> bool" where
  "mints t i \<longleftrightarrow> (\<exists>out \<in> set (tx_outputs t). \<exists>td. sc_type (out_script out) = ScriptTypeMint \<and>
     out_token out = Some td \<and> td_id td = i)"

lemma gather_inputs_exact:
  "gather_inputs G m is = Inr m' \<Longrightarrow>
     unat (amount_of m' i) = unat (amount_of m i) + sum_list (map (\<lambda>x. token_amount i (input_token G x)) is) \<and>
     token_ids m' = token_ids m \<union> {td_id td | td x. x \<in> set is \<and> input_token G x = Some td}"
proof (induction G m "is" rule: gather_inputs.induct)
  case (1 G m)
  then show ?case by simp
next
  case (2 G m x "is")
  show ?case
  proof (cases "input_token G x")
    case None
    then have "gather_inputs G m is = Inr m'"
      using "2.prems" by (auto simp: input_token_def split: if_splits option.splits)
    moreover from None have "is_coinbase_input x \<or> (\<not> is_coinbase_input x \<and> G (in_prevout x) = None)"
      by (auto simp: input_token_def split: if_splits)
    ultimately have "unat (amount_of m' i) = unat (amount_of m i) + sum_list (map (\<lambda>x. token_amount i (input_token G x)) is) \<and>
     token_ids m' = token_ids m \<union> {td_id td | td x. x \<in> set is \<and> input_token G x = Some td}"
      using "2.IH"(1,2) by blast
    then show ?thesis using None by (auto simp: token_amount_def)
  next
    case (Some td)
    then have g: "\<not> is_coinbase_input x" "G (in_prevout x) = Some td" by (auto simp: input_token_def split: if_splits)
    with "2.prems" obtain m1 where m1: "add_amount td m = Inr m1" "gather_inputs G m1 is = Inr m'"
      by (auto simp: bindE_Inr)
    show ?thesis
      using "2.IH"(3) [OF g m1(2)] add_amount_Inr [OF m1(1), of i] Some by (auto simp: token_amount_def)
  qed
qed

lemma gather_output_exact:
  assumes "gather_output mintID st out = Inr st'"
  shows "unat (amount_of (to_totals st') i) = unat (amount_of (to_totals st) i) +
      (if is_burn out then 0 else token_amount i (out_token out))"
    and "unat (amount_of (to_burned st') i) = unat (amount_of (to_burned st) i) +
      (if is_burn out then token_amount i (out_token out) else 0)"
    and "set (to_minted st') = set (to_minted st) \<union>
      {td_id td | td. sc_type (out_script out) = ScriptTypeMint \<and> out_token out = Some td}"
    and "set (to_minted st) \<subseteq> {mintID} \<Longrightarrow> set (to_minted st') \<subseteq> {mintID}"
    and "token_ids (to_totals st') = token_ids (to_totals st) \<union>
      {td_id td | td. \<not> is_burn out \<and> out_token out = Some td}"
proof -
  consider "out_token out = None" "st' = st"
    | (mint) td m where "out_token out = Some td" "sc_type (out_script out) = ScriptTypeMint" "td_id td = mintID"
        "add_amount td (to_totals st) = Inr m" "st' = st\<lparr>to_totals := m, to_minted := td_id td # to_minted st\<rparr>"
    | (burn) td m where "out_token out = Some td" "sc_type (out_script out) = ScriptTypeBurn"
        "add_amount td (to_burned st) = Inr m" "st' = st\<lparr>to_burned := m\<rparr>"
    | (move) td m where "out_token out = Some td" "sc_type (out_script out) \<noteq> ScriptTypeMint"
        "sc_type (out_script out) \<noteq> ScriptTypeBurn"
        "add_amount td (to_totals st) = Inr m" "st' = st\<lparr>to_totals := m\<rparr>"
    using assms
    by (auto simp: gather_output_def err_simps validateMintOutput_def split: option.splits if_splits)
  then have "unat (amount_of (to_totals st') i) = unat (amount_of (to_totals st) i) +
        (if is_burn out then 0 else token_amount i (out_token out)) \<and>
      unat (amount_of (to_burned st') i) = unat (amount_of (to_burned st) i) +
        (if is_burn out then token_amount i (out_token out) else 0) \<and>
      set (to_minted st') = set (to_minted st) \<union>
        {td_id td | td. sc_type (out_script out) = ScriptTypeMint \<and> out_token out = Some td} \<and>
      (set (to_minted st) \<subseteq> {mintID} \<longrightarrow> set (to_minted st') \<subseteq> {mintID}) \<and>
      token_ids (to_totals st') = token_ids (to_totals st) \<union>
        {td_id td | td. \<not> is_burn out \<and> out_token out = Some td}"
  proof cases
    case 1
    then show ?thesis by (simp add: token_amount_def)
  next
    case mint
    then show ?thesis using add_amount_Inr [OF mint(4), of i] by (simp add: token_amount_def is_burn_def)
  next
    case burn
    then show ?thesis using add_amount_Inr [OF burn(3), of i] by (simp add: token_amount_def is_burn_def)
  next
    case move
    then show ?thesis using add_amount_Inr [OF move(4), of i] by (simp add: token_amount_def is_burn_def)
  qed
  then show "unat (amount_of (to_totals st') i) = unat (amount_of (to_totals st) i) +
      (if is_burn out then 0 else token_amount i (out_token out))"
    and "unat (amount_of (to_burned st') i) = unat (amount_of (to_burned st) i) +
      (if is_burn out then token_amount i (out_token out) else 0)"
    and "set (to_minted st') = set (to_minted st) \<union>
      {td_id td | td. sc_type (out_script out) = ScriptTypeMint \<and> out_token out = Some td}"
    and "set (to_minted st) \<subseteq> {mintID} \<Longrightarrow> set (to_minted st') \<subseteq> {mintID}"
    and "token_ids (to_totals st') = token_ids (to_totals st) \<union>
      {td_id td | td. \<not> is_burn out \<and> out_token out = Some td}"
    by blast+
qed

lemma gather_outputs_exact:
  assumes "foldE (gather_output mintID) st outs = Inr st'"
  shows "unat (amount_of (to_totals st') i) = unat (amount_of (to_totals st) i) +
      sum_list (map (\<lambda>out. token_amount i (out_token out)) (filter (\<lambda>out. \<not> is_burn out) outs)) \<and>
    unat (amount_of (to_burned st') i) = unat (amount_of (to_burned st) i) +
      sum_list (map (\<lambda>out. token_amount i (out_token out)) (filter is_burn outs)) \<and>
    set (to_minted st') = set (to_minted st) \<union>
      {td_id td | td out. out \<in> set outs \<and> sc_type (out_script out) = ScriptTypeMint \<and> out_token out = Some td} \<and>
    (set (to_minted st) \<subseteq> {mintID} \<longrightarrow> set (to_minted st') \<subseteq> {mintID}) \<and>
    token_ids (to_totals st') = token_ids (to_totals st) \<union>
      {td_id td | td out. out \<in> set outs \<and> \<not> is_burn out \<and> out_token out = Some td}"
  using assms
proof (induction outs arbitrary: st)
  case Nil
  then show ?case by simp
next
  case (Cons out outs)
  then obtain st1 where st1: "gather_output mintID st out = Inr st1" "foldE (gather_output mintID) st1 outs = Inr st'"
    by (auto simp: bindE_Inr)
  note g = gather_output_exact [OF st1(1)]
  show ?case
    using Cons.IH [OF st1(2)] g(1,2) [of i] g(3,5) g(4) by (cases "is_burn out") auto
qed

lemma tokens_in_pos:
  assumes "0 < tokens_in G t i"
  shows "\<exists>x \<in> set (tx_inputs t). \<exists>td. input_token G x = Some td \<and> td_id td = i"
proof (rule ccontr)
  assume "\<not> ?thesis"
  then have "\<forall>x \<in> set (tx_inputs t). token_amount i (input_token G x) = 0"
    by (auto simp: token_amount_def split: option.splits)
  then have "tokens_in G t i = 0" by (simp add: tokens_in_def)
  with assms show False by simp
qed

lemma mints_iff: "mints t i \<longleftrightarrow>
    i \<in> {td_id td | td out. out \<in> set (tx_outputs t) \<and> sc_type (out_script out) = ScriptTypeMint \<and> out_token out = Some td}"
  by (auto simp: mints_def)

lemma ValidateTokens_cases:
  assumes "ValidateTokens C t G = None"
  shows "(mints t i \<longrightarrow> i = mint_token_id C t \<and> tokens_in G t i = 0) \<and>
    (\<not> mints t i \<and> (tokens_in G t i > 0 \<or> tokens_out t i > 0) \<longrightarrow>
       tokens_in G t i = tokens_out t i + tokens_burned t i)"
proof -
  let ?st0 = "\<lparr>to_totals = [], to_minted = [], to_burned = []\<rparr>"
  from assms obtain ins st where g: "gather_inputs G [] (tx_inputs t) = Inr ins"
    and f: "foldE (gather_output (mint_token_id C t)) ?st0 (tx_outputs t) = Inr st"
    and c: "check_tokens ins st = None"
    by (auto simp: ValidateTokens_def split: sum.splits)
  have ins: "unat (amount_of ins i) = tokens_in G t i"
    "token_ids ins = {td_id td | td x. x \<in> set (tx_inputs t) \<and> input_token G x = Some td}"
    using gather_inputs_exact [OF g, of i] by (simp_all add: tokens_in_def)
  note o' = gather_outputs_exact [OF f, of i]
  have outs: "unat (amount_of (to_totals st) i) = tokens_out t i"
    "unat (amount_of (to_burned st) i) = tokens_burned t i"
    using o' by (simp_all add: tokens_out_def tokens_burned_def)
  have "i \<in> set (to_minted st) \<longleftrightarrow> mints t i"
    using o' unfolding mints_iff by simp
  moreover have "set (to_minted st) \<subseteq> {mint_token_id C t}"
    using o' [THEN conjunct2, THEN conjunct2, THEN conjunct2, THEN conjunct1] by simp
  ultimately have minted: "i \<in> set (to_minted st) \<longleftrightarrow> mints t i" "set (to_minted st) \<subseteq> {mint_token_id C t}"
    by blast+
  have mixed: "\<forall>j \<in> set (to_minted st). j \<notin> token_ids ins"
    using c by (auto simp: check_tokens_def err_simps check_mixed_def simp flip: token_ids_map_of)
  have cons: "check_conservation ins st i = None"
    if "i \<in> token_ids ins \<or> i \<in> token_ids (to_totals st) \<and> i \<notin> set (to_minted st)"
    using c that by (auto simp: check_tokens_def err_simps token_ids_def)
  show ?thesis
  proof (intro conjI impI)
    assume m: "mints t i"
    then show "i = mint_token_id C t" using minted by auto
    have "i \<notin> token_ids ins" using m minted(1) mixed by auto
    then have "map_of ins i = None" using token_ids_map_of by blast
    then show "tokens_in G t i = 0" using ins(1) by (simp add: amount_of_def)
  next
    assume m: "\<not> mints t i \<and> (tokens_in G t i > 0 \<or> tokens_out t i > 0)"
    have "i \<in> token_ids ins" if "tokens_in G t i > 0"
      using tokens_in_pos [OF that] ins(2) by auto
    moreover have "i \<in> token_ids (to_totals st)" if "tokens_out t i > 0"
    proof (rule ccontr)
      assume "i \<notin> token_ids (to_totals st)"
      then have "map_of (to_totals st) i = None" using token_ids_map_of by blast
      then show False using that outs(1) by (simp add: amount_of_def)
    qed
    ultimately have "i \<in> token_ids ins \<or> i \<in> token_ids (to_totals st) \<and> i \<notin> set (to_minted st)"
      using m minted(1) by auto
    then have "check_conservation ins st i = None" by (rule cons)
    then have "\<not> amount_of (to_totals st) i > max_u64 - amount_of (to_burned st) i"
      "amount_of ins i = amount_of (to_totals st) i + amount_of (to_burned st) i"
      using m minted(1) by (auto simp: check_conservation_def split: if_splits)
    then have "unat (amount_of ins i) = unat (amount_of (to_totals st) i) + unat (amount_of (to_burned st) i)"
      by (simp add: u64_simps)
    then show "tokens_in G t i = tokens_out t i + tokens_burned t i" using ins(1) outs by simp
  qed
qed

text \<open>
  C19: Tokens are conserved. In a transaction that passes \<open>ValidateTokens\<close>, a token that is
  minted carries the id derived from the first spent outpoint and is not among the inputs;
  every other token comes out, moved on or burned, in exactly the amount that went in as soon
  as it appears in an input or a non-burn output, so no transaction can create tokens of an
  existing id. All sums are exact.
\<close>

theorem ValidateTokens_conserves:
  assumes "ValidateTokens C t G = None"
  shows "(mints t i \<longrightarrow> i = mint_token_id C t \<and> tokens_in G t i = 0) \<and>
    (\<not> mints t i \<and> (tokens_in G t i > 0 \<or> tokens_out t i > 0) \<longrightarrow>
       tokens_in G t i = tokens_out t i + tokens_burned t i) \<and>
    (\<not> mints t i \<longrightarrow> tokens_out t i \<le> tokens_in G t i)"
  using ValidateTokens_cases [OF assms, of i] by (cases "tokens_out t i") auto

definition demo_token_tx :: transaction where
  "demo_token_tx = demo_tx\<lparr>tx_outputs :=
     [\<lparr>out_value = 1, out_script = demo_script, out_token = Some \<lparr>td_id = 9, td_amount = 30\<rparr>\<rparr>,
      \<lparr>out_value = 1, out_script = demo_script\<lparr>sc_type := ScriptTypeBurn\<rparr>, out_token = Some \<lparr>td_id = 9, td_amount = 12\<rparr>\<rparr>]\<rparr>"

definition demo_tokens :: "outpoint \<Rightarrow> token_data option" where
  "demo_tokens x = (if x = Outpoint 7 0 then Some \<lparr>td_id = 9, td_amount = 42\<rparr> else None)"

lemma demo_tokens_valid: "ValidateTokens toy_crypto demo_token_tx demo_tokens = None"
  by (simp add: ValidateTokens_def demo_token_tx_def demo_tx_defs demo_tokens_def add_amount_def amount_of_def
      gather_output_def check_tokens_def check_conservation_def MaxTokenAmount_def)

theorem ValidateTokens_conserves_witness:
  "tokens_in demo_tokens demo_token_tx 9 = tokens_out demo_token_tx 9 + tokens_burned demo_token_tx 9 \<and>
   tokens_out demo_token_tx 9 = 30"
  using ValidateTokens_conserves [OF demo_tokens_valid, of 9]
  by (simp add: demo_token_tx_def demo_tx_defs mints_def tokens_out_def is_burn_def token_amount_def)

text \<open>
  Nothing checks a token id that occurs in burn outputs only: this transaction burns
  tokens that no input provides and passes.
\<close>

theorem burn_of_absent_tokens_passes:
  "ValidateTokens C (demo_tx\<lparr>tx_outputs := [\<lparr>out_value = 1, out_script = demo_script\<lparr>sc_type := ScriptTypeBurn\<rparr>,
     out_token = Some \<lparr>td_id = 9, td_amount = 12\<rparr>\<rparr>]\<rparr>) (\<lambda>_. None) = None"
  by (simp add: ValidateTokens_def demo_tx_defs add_amount_def amount_of_def
      gather_output_def check_tokens_def MaxTokenAmount_def)

section \<open>Mint data\<close>

definition EncodeMintData :: "address \<Rightarrow> bytes \<Rightarrow> bytes \<Rightarrow> u8 \<Rightarrow> bytes" where
  "EncodeMintData addr name symbol decimals =
     (let nameBytes = (if length name > 255 then take 255 name else name);
          symbolBytes = (if length symbol > 255 then take 255 symbol else symbol)
      in addr_bytes addr @ [decimals, word_of_nat (length nameBytes)] @ nameBytes @
         [word_of_nat (length symbolBytes)] @ symbolBytes)"

text \<open>The result is address, name, symbol and decimals; \<open>None\<close> is \<open>ok = false\<close>.\<close>

definition DecodeMintData :: "bytes \<Rightarrow> (address \<times> bytes \<times> bytes \<times> u8) option" where
  "DecodeMintData data =
     (if length data < 20 then None
      else let addr = take_address data in
        if length data = 20 then Some (addr, [], [], 0)
        else if length data < 23 then Some (addr, [], [], 0)
        else let decimals = data ! 20; nameLen = unat (data ! 21) in
          if 22 + nameLen > length data then Some (addr, [], [], decimals)
          else let name = take nameLen (drop 22 data); off = 22 + nameLen in
            if off \<ge> length data then Some (addr, name, [], decimals)
            else let symbolLen = unat (data ! off) in
              if off + 1 + symbolLen > length data then Some (addr, name, [], decimals)
              else Some (addr, name, take symbolLen (drop (off + 1) data), decimals))"

text \<open>
  \<open>DecodeMintData\<close> inverts \<open>EncodeMintData\<close>: the address, the decimals and the name and
  symbol come back, the latter two cut to 255 bytes as the encoder does.
\<close>

theorem mint_data_roundtrip:
  "DecodeMintData (EncodeMintData a name symbol d) = Some (a, take 255 name, take 255 symbol, d)"
proof -
  define n where "n = take 255 name"
  define m where "m = take 255 symbol"
  have e: "EncodeMintData a name symbol d =
      addr_bytes a @ [d, word_of_nat (length n)] @ n @ [word_of_nat (length m)] @ m"
    by (simp add: EncodeMintData_def n_def m_def Let_def)
  have len: "length n < 256" "length m < 256" by (simp_all add: n_def m_def)
  then have u: "unat (word_of_nat (length n) :: u8) = length n" "unat (word_of_nat (length m) :: u8) = length m"
    by (simp_all add: unat_of_nat)
  have "drop (3 + length n) (d # word_of_nat (length n) # n @ word_of_nat (length m) # m) = m"
    by (simp add: eval_nat_numeral)
  then show ?thesis
    unfolding e DecodeMintData_def by (simp add: nth_append u Let_def n_def [symmetric] m_def [symmetric])
qed

section \<open>The metadata store\<close>

definition prefixToken :: bytes where "prefixToken = [116, 47]" \<comment> \<open>\<open>t/\<close>\<close>

definition tokenKey :: "hash \<Rightarrow> bytes" where
  "tokenKey i = prefixToken @ hash_bytes i"

definition TokenStore_Put :: "('s, dbval) kvdb \<Rightarrow> hash \<Rightarrow> metadata \<Rightarrow> 's \<Rightarrow> 's" where
  "TokenStore_Put D i meta s = kv_put D (tokenKey i) (DMeta meta) s"

definition TokenStore_Get :: "('s, dbval) kvdb \<Rightarrow> 's \<Rightarrow> hash \<Rightarrow> metadata option" where
  "TokenStore_Get D s i = (case kv_get D s (tokenKey i) of Some (DMeta m) \<Rightarrow> Some m | _ \<Rightarrow> None)"

definition TokenStore_Has :: "('s, dbval) kvdb \<Rightarrow> 's \<Rightarrow> hash \<Rightarrow> bool" where
  "TokenStore_Has D s i = kv_has D s (tokenKey i)"

definition TokenStore_List :: "('s, dbval) kvdb \<Rightarrow> 's \<Rightarrow> (hash \<times> metadata) list" where
  "TokenStore_List D s =
     concat (map (\<lambda>(key, v). if length key < 34 then []
                            else case v of DMeta m \<Rightarrow> [(be_word (take 32 (drop 2 key)), m)] | _ \<Rightarrow> [])
       (kv_items D s prefixToken))"

definition store_output_metadata :: "('s, dbval) kvdb \<Rightarrow> txout \<Rightarrow> 's \<Rightarrow> 's" where
  "store_output_metadata D out s =
     (if sc_type (out_script out) \<noteq> ScriptTypeMint then s
      else case out_token out of
        None \<Rightarrow> s
      | Some td \<Rightarrow>
          if length (sc_data (out_script out)) \<le> 20 then s
          else if TokenStore_Has D s (td_id td) then s
          else case DecodeMintData (sc_data (out_script out)) of
            None \<Rightarrow> s
          | Some (addr, name, symbol, decimals) \<Rightarrow>
              if name = [] \<and> symbol = [] then s
              else TokenStore_Put D (td_id td)
                \<lparr>md_name = name, md_symbol = symbol, md_decimals = decimals, md_creator = addr\<rparr> s)"

definition ExtractAndStoreMetadata :: "('s, dbval) kvdb \<Rightarrow> block \<Rightarrow> 's \<Rightarrow> 's" where
  "ExtractAndStoreMetadata D b s =
     fold (store_output_metadata D) (concat (map tx_outputs (b_txs b))) s"

context doc_store
begin

lemma tokenKey_inject: "tokenKey i = tokenKey j \<longleftrightarrow> i = j"
  by (simp add: tokenKey_def)

lemma view_store_output_metadata:
  "view (store_output_metadata D out s) k =
     (if view s k = None \<and> view (store_output_metadata D out s) k \<noteq> None
      then view (store_output_metadata D out s) k else view s k)"
  by (auto simp: store_output_metadata_def TokenStore_Put_def TokenStore_Has_def has put
      split: option.splits if_splits)

lemma metadata_first_wins:
  "view s k = Some v \<Longrightarrow> view (fold (store_output_metadata D) outs s) k = Some v"
proof (induction outs arbitrary: s)
  case Nil
  then show ?case by simp
next
  case (Cons out outs)
  then have "view (store_output_metadata D out s) k = Some v"
    by (subst view_store_output_metadata) simp
  then show ?case using Cons.IH by simp
qed

end

text \<open>
  Token metadata is written once: whatever blocks follow, what the database holds, the
  metadata of an id or anything else, is never changed by extracting metadata from a block.
\<close>

theorem metadata_never_overwritten:
  assumes "kv_get MemoryDB s k = Some v"
  shows "kv_get MemoryDB (ExtractAndStoreMetadata MemoryDB b s) k = Some v"
  using assms unfolding mem.get ExtractAndStoreMetadata_def by (rule mem.metadata_first_wins)

theorem metadata_never_overwritten_witness:
  "kv_get MemoryDB (ExtractAndStoreMetadata MemoryDB (demo_block toy_crypto)
     (TokenStore_Put MemoryDB 9 \<lparr>md_name = [65], md_symbol = [66], md_decimals = 2, md_creator = 0\<rparr> DAList.empty))
     (tokenKey 9) = Some (DMeta \<lparr>md_name = [65], md_symbol = [66], md_decimals = 2, md_creator = 0\<rparr>)"
  by (rule metadata_never_overwritten) (simp add: TokenStore_Put_def mem.get_put)

end
