(* ===== verification/ChainStore.thy ===== *)
theory ChainStore
  imports Consensus Token
begin

text \<open>
  The block store (\<open>internal/chain/store.go\<close>): blocks by hash, the height and transaction
  indexes, undo data, the tip record and the reorg checkpoint, the atomic commit of a block and
  the reconstruction of the indexes. A block in the store has a header (\<open>hdr\<close>): the code
  dereferences it without a test.
\<close>

abbreviation hdr :: "block \<Rightarrow> header" where
  "hdr b \<equiv> the (b_header b)"

section \<open>Keys\<close>

definition prefixBlock :: bytes where "prefixBlock = [98, 47]"    \<comment> \<open>\<open>b/\<close>\<close>
definition prefixHeight :: bytes where "prefixHeight = [104, 47]" \<comment> \<open>\<open>h/\<close>\<close>
definition prefixTx :: bytes where "prefixTx = [120, 47]"         \<comment> \<open>\<open>x/\<close>\<close>
definition prefixUndo :: bytes where "prefixUndo = [100, 47]"     \<comment> \<open>\<open>d/\<close>\<close>
definition keyTipHash :: bytes where "keyTipHash = [115, 47, 116, 105, 112]"                 \<comment> \<open>\<open>s/tip\<close>\<close>
definition keyHeight :: bytes where "keyHeight = [115, 47, 104, 101, 105, 103, 104, 116]"    \<comment> \<open>\<open>s/height\<close>\<close>
definition keySupply :: bytes where "keySupply = [115, 47, 115, 117, 112, 112, 108, 121]"    \<comment> \<open>\<open>s/supply\<close>\<close>
definition keyCumDifficulty :: bytes where
  "keyCumDifficulty = [115, 47, 99, 117, 109, 100, 105, 102, 102]" \<comment> \<open>\<open>s/cumdiff\<close>\<close>
definition keyReorgCheckpoint :: bytes where
  "keyReorgCheckpoint = [115, 47, 114, 101, 111, 114, 103]" \<comment> \<open>\<open>s/reorg\<close>\<close>

definition blockKey :: "hash \<Rightarrow> bytes" where "blockKey h = prefixBlock @ hash_bytes h"
definition heightKey :: "u64 \<Rightarrow> bytes" where "heightKey n = prefixHeight @ be_bytes 8 n"
definition txKey :: "hash \<Rightarrow> bytes" where "txKey h = prefixTx @ hash_bytes h"
definition undoKey :: "hash \<Rightarrow> bytes" where "undoKey h = prefixUndo @ hash_bytes h"

lemmas state_keys = keyTipHash_def keyHeight_def keySupply_def keyCumDifficulty_def keyReorgCheckpoint_def
lemmas chain_keys = blockKey_def heightKey_def txKey_def undoKey_def state_keys
  prefixBlock_def prefixHeight_def prefixTx_def prefixUndo_def

section \<open>Operations\<close>

definition tx_location_val :: "u64 \<Rightarrow> hash \<Rightarrow> dbval" where
  "tx_location_val height h = VBytes (be_bytes 8 height @ hash_bytes h)"

definition StoreBlock :: "('s, dbval) kvdb \<Rightarrow> crypto \<Rightarrow> block \<Rightarrow> 's \<Rightarrow> 's" where
  "StoreBlock D C b s = kv_put D (blockKey (BlockHash C b)) (DBlock b) s"

definition PutBlock :: "('s, dbval) kvdb \<Rightarrow> crypto \<Rightarrow> block \<Rightarrow> 's \<Rightarrow> 's" where
  "PutBlock D C b s =
     (let h = BlockHash C b;
          s1 = kv_put D (blockKey h) (DBlock b) s;
          s2 = kv_put D (heightKey (h_height (hdr b))) (VBytes (hash_bytes h)) s1
      in fold (\<lambda>t. kv_put D (txKey (TxHash C t)) (tx_location_val (h_height (hdr b)) h)) (b_txs b) s2)"

definition GetBlock :: "('s, dbval) kvdb \<Rightarrow> 's \<Rightarrow> hash \<Rightarrow> block option" where
  "GetBlock D s h = (case kv_get D s (blockKey h) of Some (DBlock b) \<Rightarrow> Some b | _ \<Rightarrow> None)"

definition GetBlockByHeight :: "('s, dbval) kvdb \<Rightarrow> 's \<Rightarrow> u64 \<Rightarrow> block option" where
  "GetBlockByHeight D s height =
     (case kv_get D s (heightKey height) of
        Some (VBytes bs) \<Rightarrow> if length bs \<noteq> 32 then None else GetBlock D s (be_word bs)
      | _ \<Rightarrow> None)"

definition HasBlock :: "('s, dbval) kvdb \<Rightarrow> 's \<Rightarrow> hash \<Rightarrow> bool" where
  "HasBlock D s h = kv_has D s (blockKey h)"

definition SetTip :: "('s, dbval) kvdb \<Rightarrow> hash \<Rightarrow> u64 \<Rightarrow> u64 \<Rightarrow> 's \<Rightarrow> 's" where
  "SetTip D h height supply s =
     kv_put D keySupply (VBytes (be_bytes 8 supply))
      (kv_put D keyHeight (VBytes (be_bytes 8 height))
        (kv_put D keyTipHash (VBytes (hash_bytes h)) s))"

datatype store_error = CorruptTipHash | TipHeightMissing | CorruptTipHeight | BlockMissing | HeightMismatch

definition GetTip :: "('s, dbval) kvdb \<Rightarrow> 's \<Rightarrow> store_error + hash \<times> u64 \<times> u64" where
  "GetTip D s =
     (case kv_get D s keyTipHash of
        Some (VBytes hb) \<Rightarrow>
          if length hb \<noteq> 32 then Inl CorruptTipHash
          else (case kv_get D s keyHeight of
             Some (VBytes nb) \<Rightarrow>
               if length nb \<noteq> 8 then Inl CorruptTipHeight
               else let supply = (case kv_get D s keySupply of
                                    Some (VBytes sb) \<Rightarrow> if length sb = 8 then be_word sb else 0
                                  | _ \<Rightarrow> 0)
                    in Inr (be_word hb, be_word nb, supply)
           | Some _ \<Rightarrow> Inl CorruptTipHeight
           | None \<Rightarrow> Inl TipHeightMissing)
      | Some _ \<Rightarrow> Inl CorruptTipHash
      | None \<Rightarrow> Inr (0, 0, 0))"

definition GetTxLocation :: "('s, dbval) kvdb \<Rightarrow> 's \<Rightarrow> hash \<Rightarrow> (u64 \<times> hash) option" where
  "GetTxLocation D s h =
     (case kv_get D s (txKey h) of
        Some (VBytes bs) \<Rightarrow> if length bs \<noteq> 40 then None else Some (be_word (take 8 bs), be_word (drop 8 bs))
      | _ \<Rightarrow> None)"

definition DeleteTxIndex :: "('s, dbval) kvdb \<Rightarrow> hash \<Rightarrow> 's \<Rightarrow> 's" where
  "DeleteTxIndex D h = kv_delete D (txKey h)"

definition PutUndo :: "('s, dbval) kvdb \<Rightarrow> hash \<Rightarrow> undo_data \<Rightarrow> 's \<Rightarrow> 's" where
  "PutUndo D h undo = kv_put D (undoKey h) (DUndo undo)"

text \<open>
  \<open>GetUndo\<close> together with the reading of its JSON: the outer option is the missing key, the
  inner one a document of another kind.
\<close>

definition GetUndo :: "('s, dbval) kvdb \<Rightarrow> 's \<Rightarrow> hash \<Rightarrow> undo_data option option" where
  "GetUndo D s h =
     map_option (\<lambda>d. case d of DUndo u \<Rightarrow> Some u | _ \<Rightarrow> None) (kv_get D s (undoKey h))"

definition DeleteUndo :: "('s, dbval) kvdb \<Rightarrow> hash \<Rightarrow> 's \<Rightarrow> 's" where
  "DeleteUndo D h = kv_delete D (undoKey h)"

definition SetCumulativeDifficulty :: "('s, dbval) kvdb \<Rightarrow> u64 \<Rightarrow> 's \<Rightarrow> 's" where
  "SetCumulativeDifficulty D d = kv_put D keyCumDifficulty (VBytes (be_bytes 8 d))"

definition u64_at :: "('s, dbval) kvdb \<Rightarrow> 's \<Rightarrow> bytes \<Rightarrow> u64 option" where
  "u64_at D s k =
     (case kv_get D s k of Some (VBytes bs) \<Rightarrow> if length bs \<noteq> 8 then None else Some (be_word bs) | _ \<Rightarrow> None)"

definition GetCumulativeDifficulty :: "('s, dbval) kvdb \<Rightarrow> 's \<Rightarrow> u64" where
  "GetCumulativeDifficulty D s = (case u64_at D s keyCumDifficulty of None \<Rightarrow> 0 | Some d \<Rightarrow> d)"

definition PutReorgCheckpoint :: "('s, dbval) kvdb \<Rightarrow> u64 \<Rightarrow> 's \<Rightarrow> 's" where
  "PutReorgCheckpoint D forkHeight = kv_put D keyReorgCheckpoint (VBytes (be_bytes 8 forkHeight))"

definition GetReorgCheckpoint :: "('s, dbval) kvdb \<Rightarrow> 's \<Rightarrow> u64 option" where
  "GetReorgCheckpoint D s = u64_at D s keyReorgCheckpoint"

definition DeleteReorgCheckpoint :: "('s, dbval) kvdb \<Rightarrow> 's \<Rightarrow> 's" where
  "DeleteReorgCheckpoint D = kv_delete D keyReorgCheckpoint"

text \<open>The writes of \<open>CommitBlock\<close> in the order in which the batch buffers them.\<close>

definition commit_batch :: "crypto \<Rightarrow> block \<Rightarrow> undo_data \<Rightarrow> u64 \<Rightarrow> u64 \<Rightarrow> dbval batch" where
  "commit_batch C b undo supply cumDiff =
     (let h = BlockHash C b; n = h_height (hdr b)
      in [(blockKey h, Some (DBlock b)), (heightKey n, Some (VBytes (hash_bytes h)))] @
         map (\<lambda>t. (txKey (TxHash C t), Some (tx_location_val n h))) (b_txs b) @
         [(undoKey h, Some (DUndo undo)), (keyTipHash, Some (VBytes (hash_bytes h))),
          (keyHeight, Some (VBytes (be_bytes 8 n))), (keySupply, Some (VBytes (be_bytes 8 supply))),
          (keyCumDifficulty, Some (VBytes (be_bytes 8 cumDiff)))])"

definition CommitBlock ::
  "('s, dbval) kvdb \<Rightarrow> crypto \<Rightarrow> block \<Rightarrow> undo_data \<Rightarrow> u64 \<Rightarrow> u64 \<Rightarrow> 's \<Rightarrow> 's" where
  "CommitBlock D C b undo supply cumDiff s =
     (case kv_commit D of
        Some commit \<Rightarrow> commit (commit_batch C b undo supply cumDiff) s
      | None \<Rightarrow>
          SetCumulativeDifficulty D cumDiff
           (SetTip D (BlockHash C b) (h_height (hdr b)) supply
             (PutUndo D (BlockHash C b) undo (PutBlock D C b s))))"

text \<open>
  \<open>RebuildIndexes\<close>: the walk from the tip back to height 0, as the list of blocks by
  ascending height, and the rewriting of the indexes. (Heights are below \<open>2 ^ 63\<close>: the code
  counts down in an \<open>int64\<close>.)
\<close>

fun walk_back :: "('s, dbval) kvdb \<Rightarrow> 's \<Rightarrow> nat \<Rightarrow> hash \<Rightarrow> store_error + block list" where
  "walk_back D s 0 h =
     (case GetBlock D s h of
        None \<Rightarrow> Inl BlockMissing
      | Some b \<Rightarrow> if h_height (hdr b) \<noteq> 0 then Inl HeightMismatch else Inr [b])"
| "walk_back D s (Suc n) h =
     (case GetBlock D s h of
        None \<Rightarrow> Inl BlockMissing
      | Some b \<Rightarrow> if h_height (hdr b) \<noteq> word_of_nat (Suc n) then Inl HeightMismatch
                  else bindE (walk_back D s n (h_prev (hdr b))) (\<lambda>bs. Inr (bs @ [b])))"

definition index_block :: "('s, dbval) kvdb \<Rightarrow> crypto \<Rightarrow> u64 \<times> block \<Rightarrow> 's \<Rightarrow> 's" where
  "index_block D C nb s =
     (let (n, b) = nb; h = BlockHash C b
      in fold (\<lambda>t. kv_put D (txKey (TxHash C t)) (tx_location_val n h)) (b_txs b)
           (kv_put D (heightKey n) (VBytes (hash_bytes h)) s))"

definition RebuildIndexes :: "('s, dbval) kvdb \<Rightarrow> crypto \<Rightarrow> 's \<Rightarrow> store_error + nat \<times> 's" where
  "RebuildIndexes D C s =
     bindE (GetTip D s) (\<lambda>(tip, height, supply).
       if is_zero_hash tip then Inr (0, s)
       else bindE (walk_back D s (unat height) tip) (\<lambda>bs.
         Inr (length bs, fold (index_block D C) (zip (map word_of_nat [0..<length bs]) bs) s)))"

section \<open>What the operations do\<close>

lemma chain_key_inject [simp]:
  "blockKey a = blockKey b \<longleftrightarrow> a = b" "heightKey m = heightKey n \<longleftrightarrow> m = n"
  "txKey a = txKey b \<longleftrightarrow> a = b" "undoKey a = undoKey b \<longleftrightarrow> a = b"
  by (simp_all add: chain_keys)

lemma chain_key_kinds [simp]:
  "blockKey a \<noteq> heightKey n" "blockKey a \<noteq> txKey b" "blockKey a \<noteq> undoKey b" "heightKey n \<noteq> txKey b"
  "heightKey n \<noteq> undoKey b" "txKey a \<noteq> undoKey b" "heightKey n \<noteq> blockKey a" "txKey b \<noteq> blockKey a"
  "undoKey b \<noteq> blockKey a" "txKey b \<noteq> heightKey n" "undoKey b \<noteq> heightKey n" "undoKey b \<noteq> txKey a"
  by (simp_all add: chain_keys)

lemma state_key_kinds [simp]:
  assumes "k \<in> {keyTipHash, keyHeight, keySupply, keyCumDifficulty, keyReorgCheckpoint}"
  shows "k \<noteq> blockKey a" "k \<noteq> heightKey n" "k \<noteq> txKey a" "k \<noteq> undoKey a"
    "blockKey a \<noteq> k" "heightKey n \<noteq> k" "txKey a \<noteq> k" "undoKey a \<noteq> k"
  using assms by (auto simp: chain_keys)

lemma state_keys_distinct [simp]:
  "distinct [keyTipHash, keyHeight, keySupply, keyCumDifficulty, keyReorgCheckpoint]"
  by (simp add: state_keys)

lemma state_keys_different [simp]:
  "keyTipHash \<noteq> keyHeight" "keyTipHash \<noteq> keySupply" "keyTipHash \<noteq> keyCumDifficulty" "keyTipHash \<noteq> keyReorgCheckpoint"
  "keyHeight \<noteq> keySupply" "keyHeight \<noteq> keyCumDifficulty" "keyHeight \<noteq> keyReorgCheckpoint"
  "keySupply \<noteq> keyCumDifficulty" "keySupply \<noteq> keyReorgCheckpoint" "keyCumDifficulty \<noteq> keyReorgCheckpoint"
  "keyHeight \<noteq> keyTipHash" "keySupply \<noteq> keyTipHash" "keyCumDifficulty \<noteq> keyTipHash" "keyReorgCheckpoint \<noteq> keyTipHash"
  "keySupply \<noteq> keyHeight" "keyCumDifficulty \<noteq> keyHeight" "keyReorgCheckpoint \<noteq> keyHeight"
  "keyCumDifficulty \<noteq> keySupply" "keyReorgCheckpoint \<noteq> keySupply" "keyReorgCheckpoint \<noteq> keyCumDifficulty"
  by (simp_all add: state_keys)

lemma chain_keys_outside [simp]:
  "\<not> utxo_space (blockKey a)" "\<not> utxo_space (heightKey n)" "\<not> utxo_space (txKey a)" "\<not> utxo_space (undoKey a)"
  "\<not> utxo_space keyTipHash" "\<not> utxo_space keyHeight" "\<not> utxo_space keySupply"
  "\<not> utxo_space keyCumDifficulty" "\<not> utxo_space keyReorgCheckpoint"
  by (simp_all add: utxo_space_def chain_keys prefixUTXO_def prefixAddr_def prefixStake_def)

lemma apply_ops_append: "apply_ops (xs @ ys) m = apply_ops ys (apply_ops xs m)"
  by (induction xs m rule: apply_ops.induct) (simp_all del: fun_upd_apply)

lemma apply_ops_txs:
  "apply_ops (map (\<lambda>t. (f t, v)) ts) m k = (if k \<in> f ` set ts then v else m k)"
  by (induction ts arbitrary: m) auto

context doc_store
begin

lemma view_tx_index:
  "view (fold (\<lambda>t. kv_put D (f t) v) ts s) k = (if k \<in> f ` set ts then Some v else view s k)"
  by (induction ts arbitrary: s) (auto simp: put)

lemma view_PutBlock:
  "view (PutBlock D C b s) k =
    (if k \<in> (\<lambda>t. txKey (TxHash C t)) ` set (b_txs b) then Some (tx_location_val (h_height (hdr b)) (BlockHash C b))
     else if k = heightKey (h_height (hdr b)) then Some (VBytes (hash_bytes (BlockHash C b)))
     else if k = blockKey (BlockHash C b) then Some (DBlock b)
     else view s k)"
  by (auto simp: PutBlock_def Let_def view_tx_index put)

text \<open>With or without batches, \<open>CommitBlock\<close> performs the same writes.\<close>

lemma view_CommitBlock:
  "view (CommitBlock D C b undo supply cd s) = apply_ops (commit_batch C b undo supply cd) (view s)"
proof (cases "kv_commit D")
  case (Some c)
  then show ?thesis by (simp add: CommitBlock_def commit)
next
  case None
  show ?thesis
  proof
    fix k
    show "view (CommitBlock D C b undo supply cd s) k = apply_ops (commit_batch C b undo supply cd) (view s) k"
      using None
      by (simp add: CommitBlock_def commit_batch_def Let_def apply_ops_append apply_ops_txs view_PutBlock put
          SetCumulativeDifficulty_def SetTip_def PutUndo_def image_iff)
  qed
qed

lemma view_CommitBlock_cases:
  "view (CommitBlock D C b undo supply cd s) k =
    (if k = keyCumDifficulty then Some (VBytes (be_bytes 8 cd))
     else if k = keySupply then Some (VBytes (be_bytes 8 supply))
     else if k = keyHeight then Some (VBytes (be_bytes 8 (h_height (hdr b))))
     else if k = keyTipHash then Some (VBytes (hash_bytes (BlockHash C b)))
     else if k = undoKey (BlockHash C b) then Some (DUndo undo)
     else if k \<in> (\<lambda>t. txKey (TxHash C t)) ` set (b_txs b) then Some (tx_location_val (h_height (hdr b)) (BlockHash C b))
     else if k = heightKey (h_height (hdr b)) then Some (VBytes (hash_bytes (BlockHash C b)))
     else if k = blockKey (BlockHash C b) then Some (DBlock b)
     else view s k)"
  unfolding view_CommitBlock by (simp add: commit_batch_def Let_def apply_ops_append apply_ops_txs)

lemma utxos_cong: "(\<And>k. utxo_space k \<Longrightarrow> view s k = view t k) \<Longrightarrow> utxos s = utxos t"
  by (simp add: utxos_of_def fun_eq_iff)

lemma CommitBlock_utxo_space:
  "utxo_space k \<Longrightarrow> view (CommitBlock D C b undo supply cd s) k = view s k"
  by (auto simp: view_CommitBlock_cases)

lemma CommitBlock_reads:
  shows "GetBlock D (CommitBlock D C b undo supply cd s) h = (if h = BlockHash C b then Some b else GetBlock D s h)"
    and "GetBlockByHeight D (CommitBlock D C b undo supply cd s) (h_height (hdr b)) = Some b"
    and "GetTip D (CommitBlock D C b undo supply cd s) = Inr (BlockHash C b, h_height (hdr b), supply)"
    and "GetUndo D (CommitBlock D C b undo supply cd s) (BlockHash C b) = Some (Some undo)"
    and "GetCumulativeDifficulty D (CommitBlock D C b undo supply cd s) = cd"
    and "t \<in> set (b_txs b) \<Longrightarrow>
      GetTxLocation D (CommitBlock D C b undo supply cd s) (TxHash C t) = Some (h_height (hdr b), BlockHash C b)"
    and "utxos (CommitBlock D C b undo supply cd s) = utxos s"
proof -
  show *: "GetBlock D (CommitBlock D C b undo supply cd s) h = (if h = BlockHash C b then Some b else GetBlock D s h)" for h
    by (auto simp: GetBlock_def get view_CommitBlock_cases)
  show "GetBlockByHeight D (CommitBlock D C b undo supply cd s) (h_height (hdr b)) = Some b"
    by (auto simp: GetBlockByHeight_def get view_CommitBlock_cases *)
  show "GetTip D (CommitBlock D C b undo supply cd s) = Inr (BlockHash C b, h_height (hdr b), supply)"
    by (simp add: GetTip_def get view_CommitBlock_cases)
  show "GetUndo D (CommitBlock D C b undo supply cd s) (BlockHash C b) = Some (Some undo)"
    by (simp add: GetUndo_def get view_CommitBlock_cases)
  show "GetCumulativeDifficulty D (CommitBlock D C b undo supply cd s) = cd"
    by (simp add: GetCumulativeDifficulty_def u64_at_def get view_CommitBlock_cases)
  show "GetTxLocation D (CommitBlock D C b undo supply cd s) (TxHash C t) = Some (h_height (hdr b), BlockHash C b)"
    if "t \<in> set (b_txs b)" for t
    using that by (auto simp: GetTxLocation_def get view_CommitBlock_cases tx_location_val_def)
  show "utxos (CommitBlock D C b undo supply cd s) = utxos s"
    by (rule utxos_cong) (rule CommitBlock_utxo_space)
qed

end

text \<open>
  After \<open>CommitBlock\<close> the store answers every question about the new tip: the block by
  hash and by height, its undo data, the location of each of its transactions, tip hash,
  height, supply and cumulative difficulty; all other blocks and the UTXO set are untouched.
\<close>

theorem CommitBlock_complete:
  "GetBlock MemoryDB (CommitBlock MemoryDB C b undo supply cd s) h =
     (if h = BlockHash C b then Some b else GetBlock MemoryDB s h) \<and>
   GetBlockByHeight MemoryDB (CommitBlock MemoryDB C b undo supply cd s) (h_height (hdr b)) = Some b \<and>
   GetTip MemoryDB (CommitBlock MemoryDB C b undo supply cd s) = Inr (BlockHash C b, h_height (hdr b), supply) \<and>
   GetUndo MemoryDB (CommitBlock MemoryDB C b undo supply cd s) (BlockHash C b) = Some (Some undo) \<and>
   GetCumulativeDifficulty MemoryDB (CommitBlock MemoryDB C b undo supply cd s) = cd \<and>
   list_all (\<lambda>t. GetTxLocation MemoryDB (CommitBlock MemoryDB C b undo supply cd s) (TxHash C t) =
     Some (h_height (hdr b), BlockHash C b)) (b_txs b) \<and>
   utxos_of (DAList.lookup (CommitBlock MemoryDB C b undo supply cd s)) = utxos_of (DAList.lookup s)"
  by (simp add: mem.CommitBlock_reads list_all_iff)

section \<open>Rebuilding the indexes\<close>

text \<open>A list of blocks of ascending heights from 0, each linked to the one before.\<close>

definition linked_chain :: "crypto \<Rightarrow> block list \<Rightarrow> bool" where
  "linked_chain C bs \<longleftrightarrow>
     (\<forall>i < length bs. h_height (hdr (bs ! i)) = word_of_nat i) \<and>
     (\<forall>i. Suc i < length bs \<longrightarrow> h_prev (hdr (bs ! Suc i)) = BlockHash C (bs ! i))"

lemma linked_chain_snoc:
  assumes "linked_chain C bs" and "h_height (hdr b) = word_of_nat (length bs)"
    and "bs \<noteq> [] \<Longrightarrow> h_prev (hdr b) = BlockHash C (last bs)"
  shows "linked_chain C (bs @ [b])"
proof -
  have "h_prev (hdr ((bs @ [b]) ! Suc i)) = BlockHash C ((bs @ [b]) ! i)" if "Suc i < length (bs @ [b])" for i
  proof (cases "Suc i < length bs")
    case True
    then show ?thesis using assms(1) by (simp add: linked_chain_def nth_append)
  next
    case False
    then have "Suc i = length bs" using that by simp
    then have "bs \<noteq> []" "length bs - 1 = i" by auto
    then have "last bs = bs ! i" by (simp add: last_conv_nth)
    then show ?thesis using assms(3) \<open>Suc i = length bs\<close> \<open>bs \<noteq> []\<close> by (simp add: nth_append)
  qed
  moreover have "h_height (hdr ((bs @ [b]) ! i)) = word_of_nat i" if "i < length (bs @ [b])" for i
    using that assms(1,2) by (cases "i = length bs") (auto simp: linked_chain_def nth_append)
  ultimately show ?thesis unfolding linked_chain_def by blast
qed

text \<open>Blocks are stored under their own hash.\<close>

definition blocks_keyed :: "('s, dbval) kvdb \<Rightarrow> crypto \<Rightarrow> 's \<Rightarrow> bool" where
  "blocks_keyed D C s \<longleftrightarrow> (\<forall>h b. GetBlock D s h = Some b \<longrightarrow> BlockHash C b = h)"

lemma walk_back_chain:
  assumes "blocks_keyed D C s"
  shows "walk_back D s n h = Inr bs \<Longrightarrow> length bs = Suc n \<and> linked_chain C bs \<and> BlockHash C (last bs) = h \<and>
    (\<forall>b \<in> set bs. GetBlock D s (BlockHash C b) = Some b)"
proof (induction n arbitrary: h bs)
  case 0
  then obtain b where b: "GetBlock D s h = Some b" "h_height (hdr b) = 0" "bs = [b]"
    by (auto split: option.splits if_splits)
  moreover have "BlockHash C b = h" using assms b(1) by (simp add: blocks_keyed_def)
  ultimately show ?case by (simp add: linked_chain_def)
next
  case (Suc n)
  then obtain b bs' where b: "GetBlock D s h = Some b" "h_height (hdr b) = word_of_nat (Suc n)"
    and w: "walk_back D s n (h_prev (hdr b)) = Inr bs'" and bs: "bs = bs' @ [b]"
    by (auto simp: err_simps simp del: of_nat_Suc split: option.splits if_splits)
  have "BlockHash C b = h" using assms b(1) by (simp add: blocks_keyed_def)
  with Suc.IH [OF w] b bs show ?case
    by (auto intro!: linked_chain_snoc)
qed

context doc_store
begin

lemma view_index_block:
  "view (index_block D C (n, b) s) k =
    (if k \<in> (\<lambda>t. txKey (TxHash C t)) ` set (b_txs b) then Some (tx_location_val n (BlockHash C b))
     else if k = heightKey n then Some (VBytes (hash_bytes (BlockHash C b))) else view s k)"
  by (auto simp: index_block_def Let_def view_tx_index put)

lemma view_index_blocks_other:
  "k \<notin> heightKey ` fst ` set nbs \<Longrightarrow> k \<notin> range txKey \<Longrightarrow>
     view (fold (index_block D C) nbs s) k = view s k"
  by (induction nbs arbitrary: s) (auto simp: view_index_block)

lemma view_index_blocks_height:
  assumes "distinct (map fst nbs)" and "(n, b) \<in> set nbs"
  shows "view (fold (index_block D C) nbs s) (heightKey n) = Some (VBytes (hash_bytes (BlockHash C b)))"
  using assms
proof (induction nbs arbitrary: s)
  case Nil
  then show ?case by simp
next
  case (Cons nb nbs)
  show ?case
  proof (cases "nb = (n, b)")
    case True
    then have "heightKey n \<notin> heightKey ` fst ` set nbs" using Cons.prems(1) by (auto simp: image_iff)
    then show ?thesis using True by (subst fold_Cons, simp, subst view_index_blocks_other) (auto simp: view_index_block)
  next
    case False
    then show ?thesis using Cons by auto
  qed
qed

lemma RebuildIndexes_heights:
  assumes keyed: "blocks_keyed D C s" and tip: "GetTip D s = Inr (tip, height, supply)" "tip \<noteq> 0"
    and r: "RebuildIndexes D C s = Inr (n, s')"
  shows "\<exists>bs. length bs = n \<and> n = Suc (unat height) \<and> linked_chain C bs \<and> BlockHash C (last bs) = tip \<and>
    (\<forall>i < n. GetBlockByHeight D s' (word_of_nat i) = Some (bs ! i)) \<and> utxos s' = utxos s"
proof -
  from tip r obtain bs where w: "walk_back D s (unat height) tip = Inr bs" and n: "n = length bs"
    and s': "s' = fold (index_block D C) (zip (map word_of_nat [0..<length bs]) bs) s"
    by (auto simp: RebuildIndexes_def err_simps is_zero_hash_def)
  note c = walk_back_chain [OF keyed w]
  let ?nbs = "zip (map word_of_nat [0..<length bs]) bs :: (u64 \<times> block) list"
  have len: "length bs \<le> 2 ^ 64" using c unat_u64_less [of height] by simp
  have "inj_on (word_of_nat :: nat \<Rightarrow> u64) {0..<length bs}"
    by (rule inj_onI) (use len in \<open>auto dest!: arg_cong [of _ _ unat] simp: unat_of_nat\<close>)
  then have d: "distinct (map fst ?nbs)" by (simp add: distinct_map)
  have blk: "GetBlock D s' h = GetBlock D s h" for h
  proof -
    have "view s' (blockKey h) = view s (blockKey h)"
      unfolding s' by (rule view_index_blocks_other) auto
    then show ?thesis by (simp add: GetBlock_def get)
  qed
  have "GetBlockByHeight D s' (word_of_nat i) = Some (bs ! i)" if "i < n" for i
  proof -
    have "(word_of_nat i, bs ! i) \<in> set ?nbs"
      using that n by (auto simp: in_set_zip intro!: exI [of _ i])
    from view_index_blocks_height [OF d this] have "view s' (heightKey (word_of_nat i)) = Some (VBytes (hash_bytes (BlockHash C (bs ! i))))"
      by (simp add: s')
    moreover have "GetBlock D s (BlockHash C (bs ! i)) = Some (bs ! i)" using c that n by simp
    ultimately show ?thesis by (simp add: GetBlockByHeight_def get blk)
  qed
  moreover have "utxos s' = utxos s"
    unfolding s' by (rule utxos_cong, rule view_index_blocks_other) auto
  ultimately show ?thesis using c n by auto
qed

end

text \<open>
  \<open>RebuildIndexes\<close> repairs a corrupt height index: with the blocks stored under their own
  hashes and a tip recorded, a successful run leaves an index in which the block of every height
  from 0 to the tip is the one on the path of parent links from the tip, and leaves the UTXO set
  alone.
\<close>

theorem RebuildIndexes_correct:
  assumes "blocks_keyed MemoryDB C s" and "GetTip MemoryDB s = Inr (tip, height, supply)" and "tip \<noteq> 0"
    and "RebuildIndexes MemoryDB C s = Inr (n, s')"
  shows "\<exists>bs. length bs = n \<and> n = Suc (unat height) \<and> linked_chain C bs \<and> BlockHash C (last bs) = tip \<and>
    (\<forall>i < n. GetBlockByHeight MemoryDB s' (word_of_nat i) = Some (bs ! i)) \<and>
    utxos_of (DAList.lookup s') = utxos_of (DAList.lookup s)"
  by (rule mem.RebuildIndexes_heights [OF assms])

end
