(* ===== verification/Chain.thy ===== *)
theory Chain
  imports ChainStore
begin

text \<open>
  The chain (\<open>internal/chain\<close>): its state, the validation of a block against the UTXO set,
  block rewards, and the application of a block to the set with the data to undo it.

  Operations that can fail half-way return the state they leave behind together with the
  error. The UTXO set and the block store share one database state.
\<close>

section \<open>State and environment\<close>

datatype event =
    EvRegister hash u32 u64 bytes u64   \<comment> \<open>registration handler\<close>
  | EvDeregister hash u32
  | EvStake bytes
  | EvUnstake bytes
  | EvReverted "transaction list"
  | EvReorg

text \<open>
  What a chain is built from: the hash and signature functions, the database, the UTXO set on
  it, the registration validator (true is acceptance) and the callbacks. A callback that is
  installed may change the consensus engine, as those of the node do; \<open>None\<close> is a nil handler.
\<close>

record 's env =
  en_crypto :: crypto
  en_db :: "('s, dbval) kvdb"
  en_set :: "'s utxo_set_ops"
  en_registration_ok :: "(txout \<Rightarrow> u64 \<Rightarrow> u64 \<Rightarrow> bool) option"
  en_handler :: "event \<Rightarrow> ('s \<Rightarrow> engine \<Rightarrow> engine) option"

record 's chain =
  ch_db :: 's
  ch_height :: u64
  ch_tip :: hash
  ch_supply :: u64
  ch_cumdiff :: u64
  ch_tip_time :: u64
  ch_engine :: engine
  ch_max_supply :: u64
  ch_block_reward :: u64
  ch_halving :: u64
  ch_validator_stake :: u64
  ch_allow_minting :: bool
  ch_registered :: u64
  ch_genesis :: hash
  ch_log :: "event list"

datatype chain_error =
    ErrBlockKnown | ErrPrevNotFound | ErrBadHeight | ErrBadPrevHash | ErrApplyUTXO
  | ErrCoinbaseNotMature | ErrOutputLocked | ErrTimestampTooFuture | ErrTimestampBeforeParent
  | ErrInvalidStakeAmount | ErrBadCoinbaseTx | ErrCoinbaseRewardExceeded | ErrMintingDisabled
  | ErrSigningLimitExceeded | ErrForkDetected | ErrReorgTooDeep | ErrGenesisReorg
  | NilBlock | ConsensusErr consensus_error | DifficultyErr pow_error | TxErr tx_error
  | TokenErr token_error | FeeOverflow | CoinbaseToken | SupplyOverflow | CumDiffOverflow
  | SupplyUnderflow | CumDiffUnderflow | RegistrationRejected | RegistrationOverflow
  | RegistrationUnderflow | BlockLoad | UndoUnreadable | EmptyBranch | StoreErr store_error
  | AlreadyInitialized | GenesisErr genesis_error

definition notify :: "'s env \<Rightarrow> event \<Rightarrow> 's chain \<Rightarrow> 's chain" where
  "notify E ev ch =
     (case en_handler E ev of
        None \<Rightarrow> ch
      | Some f \<Rightarrow> ch\<lparr>ch_engine := f (ch_db ch) (ch_engine ch), ch_log := ch_log ch @ [ev]\<rparr>)"

definition notify_all :: "'s env \<Rightarrow> event list \<Rightarrow> 's chain \<Rightarrow> 's chain" where
  "notify_all E evs ch = fold (notify E) evs ch"

text \<open>Scans of a block for registrations and stakes, and of undo data for spent stakes.\<close>

definition outputs_of :: "crypto \<Rightarrow> transaction \<Rightarrow> (hash \<times> u32 \<times> txout) list" where
  "outputs_of C t = map (\<lambda>(i, out). (TxHash C t, word_of_nat i, out)) (List.enumerate 0 (tx_outputs t))"

definition block_outputs :: "crypto \<Rightarrow> block \<Rightarrow> (hash \<times> u32 \<times> txout) list" where
  "block_outputs C b = concat (map (outputs_of C) (b_txs b))"

definition is_register :: "txout \<Rightarrow> bool" where
  "is_register out \<longleftrightarrow> sc_type (out_script out) = ScriptTypeRegister"

definition register_events :: "crypto \<Rightarrow> block \<Rightarrow> event list" where
  "register_events C b =
     map (\<lambda>(h, i, out). EvRegister h i (out_value out) (sc_data (out_script out)) (h_height (hdr b)))
       (filter (\<lambda>(h, i, out). is_register out) (block_outputs C b))"

definition deregister_events :: "crypto \<Rightarrow> block \<Rightarrow> event list" where
  "deregister_events C b =
     map (\<lambda>(h, i, out). EvDeregister h i) (filter (\<lambda>(h, i, out). is_register out) (block_outputs C b))"

definition stake_outputs :: "(bytes \<Rightarrow> event) \<Rightarrow> block \<Rightarrow> event list" where
  "stake_outputs ev b =
     map (\<lambda>out. ev (sc_data (out_script out)))
       (filter (\<lambda>out. is_stake_script (out_script out)) (concat (map tx_outputs (b_txs b))))"

definition spent_stakes :: "(bytes \<Rightarrow> event) \<Rightarrow> undo_data \<Rightarrow> event list" where
  "spent_stakes ev undo =
     map (\<lambda>u. ev (sc_data (u_script u))) (filter (\<lambda>u. is_stake_script (u_script u)) (undo_spent undo))"

section \<open>Rewards and fees\<close>

definition chain_subsidy :: "'s chain \<Rightarrow> u64 \<Rightarrow> u64" where
  "chain_subsidy ch height = BlockSubsidy (ch_block_reward ch) (ch_halving ch) height"

text \<open>The cap that keeps a reward within the maximum supply (0 is no maximum).\<close>

definition cap_reward :: "u64 \<Rightarrow> u64 \<Rightarrow> u64 \<Rightarrow> u64" where
  "cap_reward maxSupply supply reward =
     (if maxSupply > 0 then
        (if supply \<ge> maxSupply then 0
         else if reward > maxSupply - supply then maxSupply - supply else reward)
      else reward)"

definition chain_provider :: "'s env \<Rightarrow> 's \<Rightarrow> utxo_provider" where
  "chain_provider E s =
     \<lparr>GetUTXO = (\<lambda>x. case us_get (en_set E) s x of None \<Rightarrow> None | Some u \<Rightarrow> Some (u_value u, u_script u)),
      HasUTXO = us_has (en_set E) s\<rparr>"

text \<open>Sums that skip a summand which would overflow.\<close>

fun guarded_sum :: "u64 \<Rightarrow> u64 list \<Rightarrow> u64" where
  "guarded_sum t [] = t"
| "guarded_sum t (v # vs) = guarded_sum (if t > max_u64 - v then t else t + v) vs"

definition input_values :: "'s utxo_set_ops \<Rightarrow> 's \<Rightarrow> input list \<Rightarrow> u64 list" where
  "input_values U s is =
     concat (map (\<lambda>i. if is_coinbase_input i then []
                     else case us_get U s (in_prevout i) of None \<Rightarrow> [] | Some u \<Rightarrow> [u_value u]) is)"

definition computeTxFee :: "'s utxo_set_ops \<Rightarrow> 's \<Rightarrow> transaction \<Rightarrow> u64" where
  "computeTxFee U s t =
     (let inputSum = guarded_sum 0 (input_values U s (tx_inputs t));
          outputSum = guarded_sum 0 (map out_value (tx_outputs t))
      in if inputSum > outputSum then inputSum - outputSum else 0)"

definition computeBlockReward :: "'s utxo_set_ops \<Rightarrow> 's \<Rightarrow> block \<Rightarrow> u64" where
  "computeBlockReward U s b =
     (case b_txs b of
        [] \<Rightarrow> 0
      | cb # rest \<Rightarrow>
          if tx_outputs cb = [] then 0
          else case TotalOutputValue cb of
            Inl e \<Rightarrow> 0
          | Inr coinbaseValue \<Rightarrow>
             (let totalFees = guarded_sum 0 (map (computeTxFee U s) rest)
              in if coinbaseValue > totalFees then coinbaseValue - totalFees else 0))"

section \<open>Validation against the state\<close>

definition check_coinbase_outputs :: "transaction \<Rightarrow> chain_error option" where
  "check_coinbase_outputs cb =
     first_error (\<lambda>out. if sc_type (out_script out) = ScriptTypeMint then Some CoinbaseToken
                        else if out_token out \<noteq> None then Some CoinbaseToken else None) (tx_outputs cb)"

text \<open>The fees of the transactions after the coinbase, and their guarded sum.\<close>

fun validate_fees :: "'s env \<Rightarrow> 's \<Rightarrow> u64 \<Rightarrow> transaction list \<Rightarrow> chain_error + u64 list \<times> u64" where
  "validate_fees E s totalFees [] = Inr ([], totalFees)"
| "validate_fees E s totalFees (t # ts) =
     (case ValidateWithUTXOs (en_crypto E) (chain_provider E s) t of
        Inl e \<Rightarrow> Inl (TxErr e)
      | Inr fee \<Rightarrow>
          if totalFees > max_u64 - fee then Inl FeeOverflow
          else bindE (validate_fees E s (totalFees + fee) ts) (\<lambda>(fees, total). Inr (fee # fees, total)))"

definition check_maturity_input :: "'s utxo_set_ops \<Rightarrow> 's \<Rightarrow> u64 \<Rightarrow> input \<Rightarrow> chain_error option" where
  "check_maturity_input U s height i =
     (if is_coinbase_input i then None
      else case us_get U s (in_prevout i) of
        None \<Rightarrow> None
      | Some u \<Rightarrow>
          if u_coinbase u \<and> height - u_height u < CoinbaseMaturity then Some ErrCoinbaseNotMature
          else if u_locked_until u > 0 \<and> height < u_locked_until u then Some ErrOutputLocked
          else None)"

definition checkCoinbaseMaturity :: "'s utxo_set_ops \<Rightarrow> 's \<Rightarrow> block \<Rightarrow> chain_error option" where
  "checkCoinbaseMaturity U s b =
     first_error (check_maturity_input U s (h_height (hdr b))) (concat (map tx_inputs (b_txs b)))"

definition check_token_rules ::
  "'s env \<Rightarrow> 's chain \<Rightarrow> transaction \<times> u64 \<Rightarrow> chain_error option" where
  "check_token_rules E ch = (\<lambda>(t, fee).
     if HasMintOutput t \<and> \<not> ch_allow_minting ch then Some ErrMintingDisabled
     else and_then (map_option TokenErr
              (ValidateTokens (en_crypto E) t (GetTokenData (en_set E) (ch_db ch))))
       (if HasMintOutput t then map_option TokenErr (ValidateMintFee t fee TokenCreationFee) else None))"

definition check_stake_amounts :: "'s chain \<Rightarrow> transaction list \<Rightarrow> chain_error option" where
  "check_stake_amounts ch ts =
     (if ch_validator_stake ch > 0 then
        first_error (\<lambda>out. if sc_type (out_script out) = ScriptTypeStake \<and> out_value out \<noteq> ch_validator_stake ch
                           then Some ErrInvalidStakeAmount else None) (concat (map tx_outputs ts))
      else None)"

fun validate_registrations :: "'s env \<Rightarrow> u64 \<Rightarrow> u64 \<Rightarrow> txout list \<Rightarrow> chain_error + u64" where
  "validate_registrations E existing n [] = Inr n"
| "validate_registrations E existing n (out # outs) =
     (if \<not> is_register out then validate_registrations E existing n outs
      else if (case en_registration_ok E of None \<Rightarrow> False | Some ok \<Rightarrow> \<not> ok out existing n)
      then Inl RegistrationRejected
      else if n = max_u64 then Inl RegistrationOverflow
      else validate_registrations E existing (n + 1) outs)"

definition validateRegistrations :: "'s env \<Rightarrow> 's chain \<Rightarrow> block \<Rightarrow> chain_error + u64" where
  "validateRegistrations E ch b =
     validate_registrations E (ch_registered ch) 0 (concat (map tx_outputs (b_txs b)))"

definition check_extra_coinbase :: "transaction list \<Rightarrow> chain_error option" where
  "check_extra_coinbase ts =
     first_error (\<lambda>i. if is_coinbase_input i then Some ErrBadCoinbaseTx else None) (concat (map tx_inputs ts))"

definition validateBlockState :: "'s env \<Rightarrow> 's chain \<Rightarrow> block \<Rightarrow> chain_error + u64" where
  "validateBlockState E ch b =
     (case b_txs b of
        [] \<Rightarrow> Inl NilBlock
      | cb # rest \<Rightarrow>
          if \<not> isCoinbase cb then Inl ErrBadCoinbaseTx
          else check (check_coinbase_outputs cb)
           (bindE (validate_fees E (ch_db ch) 0 rest) (\<lambda>(fees, totalFees).
             (case TotalOutputValue cb of
                Inl e \<Rightarrow> Inl (TxErr e)
              | Inr coinbaseTotal \<Rightarrow>
                 (let minted = (if coinbaseTotal > totalFees then coinbaseTotal - totalFees else 0);
                      allowedMint = cap_reward (ch_max_supply ch) (ch_supply ch)
                        (chain_subsidy ch (h_height (hdr b)))
                  in if minted > allowedMint then Inl ErrCoinbaseRewardExceeded
                     else check (check_extra_coinbase rest)
                      (check (checkCoinbaseMaturity (en_set E) (ch_db ch) b)
                       (check (first_error (check_token_rules E ch) (zip rest fees))
                        (check (check_stake_amounts ch rest)
                          (validateRegistrations E ch b)))))))))"

section \<open>Parent link, difficulty, signing limit\<close>

definition chain_is_genesis :: "'s chain \<Rightarrow> bool" where
  "chain_is_genesis ch \<longleftrightarrow> ch_height ch = 0 \<and> is_zero_hash (ch_tip ch)"

definition checkParentLink :: "'s env \<Rightarrow> 's chain \<Rightarrow> header \<Rightarrow> chain_error option" where
  "checkParentLink E ch h =
     (if chain_is_genesis ch then
        (if h_height h \<noteq> 0 then Some ErrBadHeight
         else if \<not> is_zero_hash (h_prev h) then Some ErrBadPrevHash else None)
      else if h_prev h = ch_tip ch then
        (if h_height h \<noteq> ch_height ch + 1 then Some ErrBadHeight else None)
      else if HasBlock (en_db E) (ch_db ch) (h_prev h) then
        (case GetBlock (en_db E) (ch_db ch) (h_prev h) of
           None \<Rightarrow> Some BlockLoad
         | Some parent \<Rightarrow>
             if h_height h \<noteq> h_height (hdr parent) + 1 then Some ErrBadHeight else Some ErrForkDetected)
      else Some ErrPrevNotFound)"

definition getBlockTimestamp :: "'s env \<Rightarrow> 's chain \<Rightarrow> u64 \<Rightarrow> u64 option" where
  "getBlockTimestamp E ch height =
     map_option (\<lambda>b. h_timestamp (hdr b)) (GetBlockByHeight (en_db E) (ch_db ch) height)"

definition verifyDifficulty :: "'s env \<Rightarrow> 's chain \<Rightarrow> header \<Rightarrow> chain_error option" where
  "verifyDifficulty E ch h =
     (case ch_engine ch of
        EnginePoA _ \<Rightarrow> None
      | EnginePoW p \<Rightarrow>
          if h_height h > 1 then
            (case GetBlockByHeight (en_db E) (ch_db ch) (h_height h - 1) of
               None \<Rightarrow> Some BlockLoad
             | Some prev \<Rightarrow>
                 map_option DifficultyErr
                   (VerifyDifficulty p h (h_difficulty (hdr prev)) (getBlockTimestamp E ch)))
          else map_option DifficultyErr (VerifyDifficulty p h 0 (getBlockTimestamp E ch)))"

definition signed_at :: "'s env \<Rightarrow> 's chain \<Rightarrow> poa \<Rightarrow> bytes \<Rightarrow> u64 \<Rightarrow> bool" where
  "signed_at E ch p signer height \<longleftrightarrow>
     (case GetBlockByHeight (en_db E) (ch_db ch) height of
        None \<Rightarrow> False
      | Some prev \<Rightarrow> IdentifySigner (en_crypto E) p (hdr prev) = Some signer)"

definition checkSigningLimit :: "'s env \<Rightarrow> 's chain \<Rightarrow> header \<Rightarrow> chain_error option" where
  "checkSigningLimit E ch h =
     (case ch_engine ch of
        EnginePoW _ \<Rightarrow> None
      | EnginePoA p \<Rightarrow>
          if SigningLimit p = 0 then None
          else (case IdentifySigner (en_crypto E) p h of
             None \<Rightarrow> None
           | Some signer \<Rightarrow>
               first_error (\<lambda>i. if signed_at E ch p signer (h_height h - word_of_nat i)
                                then Some ErrSigningLimitExceeded else None)
                 (takeWhile (\<lambda>i. \<not> h_height h < word_of_nat i) [1..<SigningLimit p])))"

definition IsSigningLimitReached :: "'s env \<Rightarrow> 's chain \<Rightarrow> bytes \<Rightarrow> bool" where
  "IsSigningLimitReached E ch pubkey \<longleftrightarrow>
     (case ch_engine ch of
        EnginePoW _ \<Rightarrow> False
      | EnginePoA p \<Rightarrow>
          if SigningLimit p = 0 then False
          else list_ex (\<lambda>i. signed_at E ch p pubkey (ch_height ch - word_of_nat i))
                 (takeWhile (\<lambda>i. \<not> ch_height ch < word_of_nat (i + 1)) [0..<SigningLimit p - 1]))"

section \<open>Applying and reverting blocks\<close>

definition output_utxo :: "hash \<Rightarrow> u64 \<Rightarrow> bool \<Rightarrow> u64 \<Rightarrow> nat \<times> txout \<Rightarrow> utxo" where
  "output_utxo txHash height coinbase lockedUntil = (\<lambda>(i, out).
     \<lparr>u_outpoint = Outpoint txHash (word_of_nat i), u_value = out_value out, u_script = out_script out,
      u_token = out_token out, u_height = height, u_coinbase = coinbase, u_locked_until = lockedUntil\<rparr>)"

definition create_outputs :: "'s utxo_set_ops \<Rightarrow> hash \<Rightarrow> u64 \<Rightarrow> bool \<Rightarrow> u64 \<Rightarrow> txout list \<Rightarrow> 's \<Rightarrow> 's" where
  "create_outputs U txHash height coinbase lockedUntil outs s =
     fold (us_put U) (map (output_utxo txHash height coinbase lockedUntil) (List.enumerate 0 outs)) s"

fun spend_inputs :: "'s utxo_set_ops \<Rightarrow> input list \<Rightarrow> 's \<Rightarrow> 's" where
  "spend_inputs U [] s = s"
| "spend_inputs U (i # is) s =
     (if is_coinbase_input i then spend_inputs U is s
      else spend_inputs U is (us_delete U (in_prevout i) s))"

definition applyBlock :: "'s env \<Rightarrow> block \<Rightarrow> 's \<Rightarrow> 's" where
  "applyBlock E b s =
     fold (\<lambda>(k, t) s.
         create_outputs (en_set E) (TxHash (en_crypto E) t) (h_height (hdr b))
           (k = 0 \<and> h_height (hdr b) > 0) 0 (tx_outputs t) (spend_inputs (en_set E) (tx_inputs t) s))
       (List.enumerate 0 (b_txs b)) s"

definition stake_lock :: "'s utxo_set_ops \<Rightarrow> u64 \<Rightarrow> input list \<Rightarrow> 's \<Rightarrow> u64" where
  "stake_lock U height is s =
     (if list_ex (\<lambda>i. \<not> is_coinbase_input i \<and>
           (case us_get U s (in_prevout i) of None \<Rightarrow> False | Some u \<Rightarrow> sc_type (u_script u) = ScriptTypeStake)) is
      then height + UnstakeCooldown else 0)"

text \<open>Spending with undo: the outputs spent so far are kept even when an input is missing.\<close>

fun spend_undo :: "'s utxo_set_ops \<Rightarrow> input list \<Rightarrow> utxo list \<Rightarrow> 's \<Rightarrow> 's \<times> utxo list option" where
  "spend_undo U [] spent s = (s, Some spent)"
| "spend_undo U (i # is) spent s =
     (if is_coinbase_input i then spend_undo U is spent s
      else case us_get U s (in_prevout i) of
        None \<Rightarrow> (s, None)
      | Some u \<Rightarrow> spend_undo U is (spent @ [u]) (us_delete U (in_prevout i) s))"

fun apply_txs :: "'s env \<Rightarrow> u64 \<Rightarrow> (nat \<times> transaction) list \<Rightarrow> undo_data \<Rightarrow> 's \<Rightarrow> 's \<times> undo_data option" where
  "apply_txs E height [] undo s = (s, Some undo)"
| "apply_txs E height ((k, t) # ts) undo s =
     (let txHash = TxHash (en_crypto E) t;
          lockedUntil = stake_lock (en_set E) height (tx_inputs t) s
      in case spend_undo (en_set E) (tx_inputs t) (undo_spent undo) s of
           (s1, None) \<Rightarrow> (s1, None)
         | (s1, Some spent) \<Rightarrow>
             apply_txs E height ts
               (undo\<lparr>undo_txhashes := undo_txhashes undo @ [txHash], undo_spent := spent,
                     undo_created := undo_created undo @
                       map (\<lambda>i. Outpoint txHash (word_of_nat i)) [0..<length (tx_outputs t)]\<rparr>)
               (create_outputs (en_set E) txHash height (k = 0 \<and> height > 0) lockedUntil (tx_outputs t) s1))"

definition empty_undo :: undo_data where
  "empty_undo = \<lparr>undo_spent = [], undo_created = [], undo_txhashes = [], undo_reward = 0\<rparr>"

definition applyBlockWithUndo :: "'s env \<Rightarrow> block \<Rightarrow> 's \<Rightarrow> 's \<times> undo_data option" where
  "applyBlockWithUndo E b s = apply_txs E (h_height (hdr b)) (List.enumerate 0 (b_txs b)) empty_undo s"

definition revertBlock :: "'s env \<Rightarrow> undo_data \<Rightarrow> 's \<Rightarrow> 's" where
  "revertBlock E undo s =
     (let s1 = fold (us_delete (en_set E)) (rev (undo_created undo)) s;
          s2 = fold (us_put (en_set E)) (undo_spent undo) s1
      in fold (DeleteTxIndex (en_db E)) (undo_txhashes undo) s2)"

definition countRegisterOutputs :: "block \<Rightarrow> u64" where
  "countRegisterOutputs b = word_of_nat (length (filter is_register (concat (map tx_outputs (b_txs b)))))"

definition addRegisteredSubChains :: "u64 \<Rightarrow> 's chain \<Rightarrow> chain_error + 's chain" where
  "addRegisteredSubChains cnt ch =
     (if cnt = 0 then Inr ch
      else if ch_registered ch > max_u64 - cnt then Inl RegistrationOverflow
      else Inr (ch\<lparr>ch_registered := ch_registered ch + cnt\<rparr>))"

definition removeRegisteredSubChains :: "u64 \<Rightarrow> 's chain \<Rightarrow> chain_error + 's chain" where
  "removeRegisteredSubChains cnt ch =
     (if cnt = 0 then Inr ch
      else if cnt > ch_registered ch then Inl RegistrationUnderflow
      else Inr (ch\<lparr>ch_registered := ch_registered ch - cnt\<rparr>))"

end
