(* ===== verification/Reorg.thy ===== *)
theory Reorg
  imports Chain
begin

text \<open>
  The entry points of the chain (\<open>internal/chain\<close>): genesis, start-up and recovery, the
  connection of a block to the tip, reorganisations, and \<open>ProcessBlock\<close>.
\<close>

section \<open>Genesis\<close>

fun genesis_outputs :: "(string \<times> u64) list \<Rightarrow> string list \<Rightarrow> genesis_error + txout list" where
  "genesis_outputs alloc [] = Inr []"
| "genesis_outputs alloc (a # as) =
     (case ParseAddress a of
        Inl e \<Rightarrow> Inl BadAllocAddress
      | Inr addr \<Rightarrow>
          bindE (genesis_outputs alloc as) (\<lambda>outs.
            Inr (\<lparr>out_value = (case map_of alloc a of None \<Rightarrow> 0 | Some v \<Rightarrow> v),
                  out_script = \<lparr>sc_type = ScriptTypeP2PKH, sc_data = addr_bytes addr\<rparr>,
                  out_token = None\<rparr> # outs)))"

definition buildCoinbaseTx :: "(string \<times> u64) list \<Rightarrow> genesis_error + transaction" where
  "buildCoinbaseTx alloc =
     bindE (genesis_outputs alloc (sort (map fst alloc))) (\<lambda>outs.
       Inr \<lparr>tx_version = 1, tx_inputs = [\<lparr>in_prevout = zero_outpoint, in_sig = [], in_pubkey = []\<rparr>],
            tx_outputs = (if outs = [] then [\<lparr>out_value = 0,
              out_script = \<lparr>sc_type = ScriptTypeP2PKH, sc_data = replicate 20 0\<rparr>, out_token = None\<rparr>] else outs),
            tx_locktime = 0\<rparr>)"

definition CreateGenesisBlock :: "crypto \<Rightarrow> genesis \<Rightarrow> genesis_error + block" where
  "CreateGenesisBlock C gen =
     bindE (buildCoinbaseTx (gen_alloc gen)) (\<lambda>cb.
       Inr \<lparr>b_header = Some \<lparr>h_version = CurrentVersion, h_prev = 0,
               h_merkle = ComputeMerkleRoot C [TxHash C cb], h_timestamp = gen_timestamp gen,
               h_height = 0, h_difficulty = 0, h_nonce = 0, h_sig = []\<rparr>,
            b_txs = [cb]\<rparr>)"

fun alloc_supply :: "u64 \<Rightarrow> (string \<times> u64) list \<Rightarrow> chain_error + u64" where
  "alloc_supply supply [] = Inr supply"
| "alloc_supply supply ((a, v) # xs) =
     (if supply > max_u64 - v then Inl SupplyOverflow else alloc_supply (supply + v) xs)"

definition InitFromGenesis :: "'s env \<Rightarrow> genesis \<Rightarrow> 's chain \<Rightarrow> chain_error + 's chain" where
  "InitFromGenesis E gen ch =
     (if \<not> chain_is_genesis ch then Inl AlreadyInitialized
      else bindE (alloc_supply 0 (gen_alloc gen)) (\<lambda>supply.
        case CreateGenesisBlock (en_crypto E) gen of
          Inl e \<Rightarrow> Inl (GenesisErr e)
        | Inr b \<Rightarrow>
           (let C = en_crypto E; D = en_db E; c = pc_consensus (gen_protocol gen); h = BlockHash C b;
                s1 = PutBlock D C b (applyBlock E b (ch_db ch))
            in Inr (ch\<lparr>ch_db := SetTip D h 0 supply s1, ch_tip := h, ch_height := 0, ch_supply := supply,
                 ch_tip_time := h_timestamp (hdr b), ch_genesis := h,
                 ch_max_supply := cr_max_supply c, ch_block_reward := cr_block_reward c,
                 ch_halving := cr_halving_interval c, ch_validator_stake := cr_validator_stake c,
                 ch_allow_minting := tr_allow_minting (pc_token (gen_protocol gen)),
                 ch_registered := 0\<rparr>))))"

definition SetConsensusRules :: "consensus_rules \<Rightarrow> 's chain \<Rightarrow> 's chain" where
  "SetConsensusRules r ch =
     ch\<lparr>ch_max_supply := cr_max_supply r, ch_block_reward := cr_block_reward r,
        ch_halving := cr_halving_interval r, ch_validator_stake := cr_validator_stake r\<rparr>"

definition SetTokenRules :: "token_rules \<Rightarrow> 's chain \<Rightarrow> 's chain" where
  "SetTokenRules r ch = ch\<lparr>ch_allow_minting := tr_allow_minting r\<rparr>"

section \<open>Connecting a block\<close>

text \<open>
  The common part of \<open>ProcessBlock\<close> and of the replay in \<open>Reorg\<close>: reward, overflow guards,
  UTXO changes, and the commit with supply and cumulative difficulty.
\<close>

definition connect_block :: "'s env \<Rightarrow> block \<Rightarrow> 's chain \<Rightarrow> 's chain \<times> (chain_error + undo_data)" where
  "connect_block E b ch =
     (let blockReward = computeBlockReward (en_set E) (ch_db ch) b;
          effectiveReward = cap_reward (ch_max_supply ch) (ch_supply ch) blockReward
      in if effectiveReward > max_u64 - ch_supply ch then (ch, Inl SupplyOverflow)
         else if h_difficulty (hdr b) > max_u64 - ch_cumdiff ch then (ch, Inl CumDiffOverflow)
         else let newSupply = ch_supply ch + effectiveReward;
                  newCumDiff = ch_cumdiff ch + h_difficulty (hdr b)
              in case applyBlockWithUndo E b (ch_db ch) of
                   (s1, None) \<Rightarrow> (ch\<lparr>ch_db := s1\<rparr>, Inl ErrApplyUTXO)
                 | (s1, Some undo0) \<Rightarrow>
                    (let undo = undo0\<lparr>undo_reward := effectiveReward\<rparr>
                     in (ch\<lparr>ch_db := CommitBlock (en_db E) (en_crypto E) b undo newSupply newCumDiff s1,
                            ch_supply := newSupply, ch_cumdiff := newCumDiff\<rparr>, Inr undo)))"

definition connect_events :: "'s env \<Rightarrow> block \<Rightarrow> undo_data \<Rightarrow> event list" where
  "connect_events E b undo =
     register_events (en_crypto E) b @ stake_outputs EvStake b @ spent_stakes EvUnstake undo"

section \<open>Recovery\<close>

fun rebuild_loop :: "'s env \<Rightarrow> u64 list \<Rightarrow> u64 \<Rightarrow> u64 \<Rightarrow> 's chain \<Rightarrow> 's chain \<times> (chain_error + u64 \<times> u64)" where
  "rebuild_loop E [] supply cumDiff ch = (ch, Inr (supply, cumDiff))"
| "rebuild_loop E (n # ns) supply cumDiff ch =
     (case GetBlockByHeight (en_db E) (ch_db ch) n of
        None \<Rightarrow> (ch, Inl BlockLoad)
      | Some b \<Rightarrow>
         (let blockReward = computeBlockReward (en_set E) (ch_db ch) b
          in case applyBlockWithUndo E b (ch_db ch) of
               (s1, None) \<Rightarrow> (ch\<lparr>ch_db := s1\<rparr>, Inl ErrApplyUTXO)
             | (s1, Some undo) \<Rightarrow>
                (let ch1 = ch\<lparr>ch_db := PutUndo (en_db E) (BlockHash (en_crypto E) b)
                                 (undo\<lparr>undo_reward := blockReward\<rparr>) s1\<rparr>;
                     reward = cap_reward (ch_max_supply ch) supply blockReward
                 in if reward > max_u64 - supply then (ch1, Inl SupplyOverflow)
                    else if h_difficulty (hdr b) > max_u64 - cumDiff then (ch1, Inl CumDiffOverflow)
                    else case addRegisteredSubChains (countRegisterOutputs b) ch1 of
                           Inl e \<Rightarrow> (ch1, Inl e)
                         | Inr ch2 \<Rightarrow> rebuild_loop E ns (supply + reward) (cumDiff + h_difficulty (hdr b)) ch2)))"

text \<open>The loop over heights from 0 to the tip.\<close>

definition heights_to :: "u64 \<Rightarrow> u64 list" where
  "heights_to n = map word_of_nat [0..<Suc (unat n)]"

definition RebuildUTXOs :: "'s env \<Rightarrow> 's chain \<Rightarrow> 's chain \<times> chain_error option" where
  "RebuildUTXOs E ch =
     (let ch0 = ch\<lparr>ch_db := us_clear (en_set E) (ch_db ch), ch_registered := 0\<rparr>
      in case rebuild_loop E (heights_to (ch_height ch)) 0 0 ch0 of
           (ch1, Inl e) \<Rightarrow> (ch1, Some e)
         | (ch1, Inr (supply, cumDiff)) \<Rightarrow>
            (let D = en_db E;
                 s = DeleteReorgCheckpoint D (SetCumulativeDifficulty D cumDiff
                       (SetTip D (ch_tip ch1) (ch_height ch1) supply (ch_db ch1)))
             in (ch1\<lparr>ch_supply := supply, ch_cumdiff := cumDiff, ch_db := s\<rparr>, None)))"

text \<open>The count over the set; a document that cannot be read is an error.\<close>

fun count_registrations :: "u64 \<Rightarrow> utxo option list \<Rightarrow> chain_error + u64" where
  "count_registrations n [] = Inr n"
| "count_registrations n (None # us) = Inl BlockLoad"
| "count_registrations n (Some u # us) =
     (if sc_type (u_script u) \<noteq> ScriptTypeRegister then count_registrations n us
      else if n = max_u64 then Inl RegistrationOverflow else count_registrations (n + 1) us)"

definition NewChain :: "'s env \<Rightarrow> engine \<Rightarrow> 's \<Rightarrow> chain_error + 's chain" where
  "NewChain E eng s =
     (let D = en_db E; C = en_crypto E in
      case GetTip D s of
        Inl e \<Rightarrow> Inl (StoreErr e)
      | Inr (tip, height, supply) \<Rightarrow>
          bindE (count_registrations 0 (us_items (en_set E) s)) (\<lambda>registered.
            let ch = \<lparr>ch_db = s, ch_height = height, ch_tip = tip, ch_supply = supply,
                  ch_cumdiff = GetCumulativeDifficulty D s,
                  ch_tip_time = (case GetBlock D s tip of None \<Rightarrow> 0 | Some b \<Rightarrow> h_timestamp (hdr b)),
                  ch_engine = eng, ch_max_supply = 0, ch_block_reward = 0, ch_halving = 0,
                  ch_validator_stake = 0, ch_allow_minting = False, ch_registered = registered,
                  ch_genesis = (case GetBlockByHeight D s 0 of None \<Rightarrow> 0 | Some g \<Rightarrow> BlockHash C g),
                  ch_log = []\<rparr>
            in case GetReorgCheckpoint D s of
                 None \<Rightarrow> Inr ch
               | Some _ \<Rightarrow> (case RebuildUTXOs E ch of (ch', Some e) \<Rightarrow> Inl e | (ch', None) \<Rightarrow> Inr ch')))"

section \<open>Reorganisation\<close>

definition MaxReorgDepth :: nat where "MaxReorgDepth = 1000"

text \<open>The branch from a block back to the main chain, collected by ascending height.\<close>

function collect_loop :: "'s env \<Rightarrow> 's chain \<Rightarrow> hash \<Rightarrow> block list \<Rightarrow> chain_error + block list" where
  "collect_loop E ch h branch =
     (case GetBlock (en_db E) (ch_db ch) h of
        None \<Rightarrow> Inl BlockLoad
      | Some b \<Rightarrow>
          if length (b # branch) > MaxReorgDepth then Inl ErrReorgTooDeep
          else if h_height (hdr b) = 0 then
            (if \<not> is_zero_hash (ch_genesis ch) \<and> BlockHash (en_crypto E) b \<noteq> ch_genesis ch
             then Inl ErrGenesisReorg else Inr (b # branch))
          else if (case GetBlockByHeight (en_db E) (ch_db ch) (h_height (hdr b) - 1) of
                     None \<Rightarrow> False
                   | Some m \<Rightarrow> BlockHash (en_crypto E) m = h_prev (hdr b))
          then Inr (b # branch)
          else collect_loop E ch (h_prev (hdr b)) (b # branch))"
  by pat_completeness auto
termination
  by (relation "measure (\<lambda>(E, ch, h, branch). Suc MaxReorgDepth - length branch)") auto

declare collect_loop.simps [simp del]

definition collectBranch :: "'s env \<Rightarrow> 's chain \<Rightarrow> hash \<Rightarrow> chain_error + block list" where
  "collectBranch E ch tipHash = collect_loop E ch tipHash []"

definition work_of :: "block list \<Rightarrow> u64" where
  "work_of bs = fold (\<lambda>b w. w + h_difficulty (hdr b)) bs 0"

text \<open>Heights from \<open>m + 1\<close> to \<open>n\<close>, ascending.\<close>

definition heights_between :: "u64 \<Rightarrow> u64 \<Rightarrow> u64 list" where
  "heights_between m n = map word_of_nat [Suc (unat m)..<Suc (unat n)]"

fun load_blocks :: "'s env \<Rightarrow> 's chain \<Rightarrow> u64 list \<Rightarrow> chain_error + block list" where
  "load_blocks E ch [] = Inr []"
| "load_blocks E ch (n # ns) =
     (case GetBlockByHeight (en_db E) (ch_db ch) n of
        None \<Rightarrow> Inl BlockLoad
      | Some b \<Rightarrow> bindE (load_blocks E ch ns) (\<lambda>bs. Inr (b # bs)))"

definition revert_events :: "'s env \<Rightarrow> block \<Rightarrow> undo_data \<Rightarrow> event list" where
  "revert_events E b undo =
     deregister_events (en_crypto E) b @ stake_outputs EvUnstake b @ spent_stakes EvStake undo"

datatype revert_result = RevertFailed chain_error | UndoMissing | Reverted "transaction list"

text \<open>Disconnecting the block at the tip of the old branch.\<close>

definition disconnect_block :: "'s env \<Rightarrow> block \<Rightarrow> undo_data \<Rightarrow> 's chain \<Rightarrow> 's chain \<times> chain_error option" where
  "disconnect_block E b undo ch =
     (let ch1 = notify_all E (revert_events E b undo) (ch\<lparr>ch_db := revertBlock E undo (ch_db ch)\<rparr>)
      in if undo_reward undo > ch_supply ch1 then (ch1, Some SupplyUnderflow)
         else let ch2 = ch1\<lparr>ch_supply := ch_supply ch1 - undo_reward undo\<rparr>
              in case removeRegisteredSubChains (countRegisterOutputs b) ch2 of
                   Inl e \<Rightarrow> (ch2, Some e)
                 | Inr ch3 \<Rightarrow>
                     if h_difficulty (hdr b) > ch_cumdiff ch3 then (ch3, Some CumDiffUnderflow)
                     else (ch3\<lparr>ch_cumdiff := ch_cumdiff ch3 - h_difficulty (hdr b),
                               ch_db := DeleteUndo (en_db E) (BlockHash (en_crypto E) b) (ch_db ch3)\<rparr>, None))"

fun revert_loop :: "'s env \<Rightarrow> u64 list \<Rightarrow> transaction list \<Rightarrow> 's chain \<Rightarrow> 's chain \<times> revert_result" where
  "revert_loop E [] txs ch = (ch, Reverted txs)"
| "revert_loop E (n # ns) txs ch =
     (case GetBlockByHeight (en_db E) (ch_db ch) n of
        None \<Rightarrow> (ch, RevertFailed BlockLoad)
      | Some b \<Rightarrow>
         (case GetUndo (en_db E) (ch_db ch) (BlockHash (en_crypto E) b) of
            None \<Rightarrow> (ch, UndoMissing)
          | Some None \<Rightarrow> (ch, RevertFailed UndoUnreadable)
          | Some (Some undo) \<Rightarrow>
             (case disconnect_block E b undo ch of
                (ch1, Some e) \<Rightarrow> (ch1, RevertFailed e)
              | (ch1, None) \<Rightarrow> revert_loop E ns (txs @ tl (b_txs b)) ch1)))"

text \<open>Full validation and connection of one block of the new branch.\<close>

definition validate_replay :: "'s env \<Rightarrow> block \<Rightarrow> 's chain \<Rightarrow> chain_error + u64" where
  "validate_replay E b ch =
     check (map_option ConsensusErr (ValidateBlock (en_crypto E) (en_db E) (ch_db ch) (ch_engine ch) b))
      (check (verifyDifficulty E ch (hdr b))
       (check (checkSigningLimit E ch (hdr b))
        (validateBlockState E ch b)))"

definition replay_block :: "'s env \<Rightarrow> block \<Rightarrow> 's chain \<Rightarrow> 's chain \<times> chain_error option" where
  "replay_block E b ch =
     (case validate_replay E b ch of
        Inl e \<Rightarrow> (ch, Some e)
      | Inr registered \<Rightarrow>
         (case connect_block E b ch of
            (ch1, Inl e) \<Rightarrow> (ch1, Some e)
          | (ch1, Inr undo) \<Rightarrow>
             (case addRegisteredSubChains registered ch1 of
                Inl e \<Rightarrow> (ch1, Some e)
              | Inr ch2 \<Rightarrow> (notify_all E (connect_events E b undo) ch2, None))))"

fun replay_loop :: "'s env \<Rightarrow> block list \<Rightarrow> 's chain \<Rightarrow> 's chain \<times> chain_error option" where
  "replay_loop E [] ch = (ch, None)"
| "replay_loop E (b # bs) ch =
     (case replay_block E b ch of
        (ch1, Some e) \<Rightarrow> (ch1, Some e)
      | (ch1, None) \<Rightarrow> replay_loop E bs ch1)"

text \<open>The reorganisation without undo data: index the new branch and replay from genesis.\<close>

fun old_branch_events :: "'s env \<Rightarrow> u64 list \<Rightarrow> 's chain \<Rightarrow> 's chain" where
  "old_branch_events E [] ch = ch"
| "old_branch_events E (n # ns) ch =
     (case GetBlockByHeight (en_db E) (ch_db ch) n of
        None \<Rightarrow> old_branch_events E ns ch
      | Some b \<Rightarrow>
          old_branch_events E ns
            (notify_all E (deregister_events (en_crypto E) b @ stake_outputs EvUnstake b) ch))"

fun rebuild_reorg_loop ::
  "'s env \<Rightarrow> u64 \<Rightarrow> u64 list \<Rightarrow> u64 \<Rightarrow> u64 \<Rightarrow> 's chain \<Rightarrow> 's chain \<times> (chain_error + u64 \<times> u64)" where
  "rebuild_reorg_loop E forkHeight [] supply cumDiff ch = (ch, Inr (supply, cumDiff))"
| "rebuild_reorg_loop E forkHeight (n # ns) supply cumDiff ch =
     (case GetBlockByHeight (en_db E) (ch_db ch) n of
        None \<Rightarrow> (ch, Inl BlockLoad)
      | Some b \<Rightarrow>
         (case (if n > forkHeight then validate_replay E b ch else Inr 0) of
            Inl e \<Rightarrow> (ch, Inl e)
          | Inr _ \<Rightarrow>
             (let blockReward = computeBlockReward (en_set E) (ch_db ch) b
              in case applyBlockWithUndo E b (ch_db ch) of
                   (s1, None) \<Rightarrow> (ch\<lparr>ch_db := s1\<rparr>, Inl ErrApplyUTXO)
                 | (s1, Some undo) \<Rightarrow>
                    (let ch1 = ch\<lparr>ch_db := PutUndo (en_db E) (BlockHash (en_crypto E) b)
                                     (undo\<lparr>undo_reward := blockReward\<rparr>) s1\<rparr>;
                         reward = cap_reward (ch_max_supply ch) supply blockReward
                     in if reward > max_u64 - supply then (ch1, Inl SupplyOverflow)
                        else if h_difficulty (hdr b) > max_u64 - cumDiff then (ch1, Inl CumDiffOverflow)
                        else case addRegisteredSubChains (countRegisterOutputs b) ch1 of
                               Inl e \<Rightarrow> (ch1, Inl e)
                             | Inr ch2 \<Rightarrow>
                                 rebuild_reorg_loop E forkHeight ns (supply + reward) (cumDiff + h_difficulty (hdr b))
                                   (if n > forkHeight then notify_all E (connect_events E b undo) ch2 else ch2)))))"

definition set_tip_block :: "'s env \<Rightarrow> block \<Rightarrow> 's chain \<Rightarrow> 's chain" where
  "set_tip_block E b ch =
     ch\<lparr>ch_tip := BlockHash (en_crypto E) b, ch_height := h_height (hdr b), ch_tip_time := h_timestamp (hdr b)\<rparr>"

definition rebuildReorg :: "'s env \<Rightarrow> block list \<Rightarrow> u64 \<Rightarrow> 's chain \<Rightarrow> 's chain \<times> chain_error option" where
  "rebuildReorg E newBranch forkHeight ch =
     (let newTip = last newBranch; D = en_db E; C = en_crypto E;
          ch0 = old_branch_events E (rev (heights_between forkHeight (ch_height ch))) ch;
          ch1 = ch0\<lparr>ch_db := us_clear (en_set E) (fold (PutBlock D C) newBranch (ch_db ch0)), ch_registered := 0\<rparr>
      in case rebuild_reorg_loop E forkHeight (heights_to (h_height (hdr newTip))) 0 0 ch1 of
           (ch2, Inl e) \<Rightarrow> (ch2, Some e)
         | (ch2, Inr (supply, cumDiff)) \<Rightarrow>
            (let s = DeleteReorgCheckpoint D (SetCumulativeDifficulty D cumDiff
                       (SetTip D (BlockHash C newTip) (h_height (hdr newTip)) supply (ch_db ch2)))
             in (notify E EvReorg
                  ((set_tip_block E newTip ch2)\<lparr>ch_supply := supply, ch_cumdiff := cumDiff, ch_db := s\<rparr>), None)))"

definition returned_txs :: "crypto \<Rightarrow> block list \<Rightarrow> transaction list \<Rightarrow> transaction list" where
  "returned_txs C newBranch reverted =
     filter (\<lambda>t. TxHash C t \<notin> set (map (TxHash C) (concat (map b_txs newBranch)))) reverted"

definition Reorg :: "'s env \<Rightarrow> hash \<Rightarrow> 's chain \<Rightarrow> 's chain \<times> chain_error option" where
  "Reorg E newTipHash ch =
     (case collectBranch E ch newTipHash of
        Inl e \<Rightarrow> (ch, Some e)
      | Inr [] \<Rightarrow> (ch, Some EmptyBranch)
      | Inr (b0 # bs) \<Rightarrow>
         (let newBranch = b0 # bs; D = en_db E;
              forkHeight = h_height (hdr b0) - 1;
              oldHeights = (if forkHeight + 1 = 0 then heights_to (ch_height ch)
                            else heights_between forkHeight (ch_height ch))
          in case load_blocks E ch oldHeights of
               Inl e \<Rightarrow> (ch, Some e)
             | Inr oldBranch \<Rightarrow>
                 if work_of newBranch \<le> work_of oldBranch then (ch, None)
                 else let ch0 = ch\<lparr>ch_db := PutReorgCheckpoint D forkHeight (ch_db ch)\<rparr>
                      in case revert_loop E (rev (heights_between forkHeight (ch_height ch))) [] ch0 of
                           (ch1, RevertFailed e) \<Rightarrow> (ch1, Some e)
                         | (ch1, UndoMissing) \<Rightarrow> rebuildReorg E newBranch forkHeight ch1
                         | (ch1, Reverted txs) \<Rightarrow>
                            (case replay_loop E newBranch ch1 of
                               (ch2, Some e) \<Rightarrow> (ch2, Some e)
                             | (ch2, None) \<Rightarrow>
                                (let ch3 = set_tip_block E (last newBranch) ch2;
                                     ch4 = ch3\<lparr>ch_db := DeleteReorgCheckpoint D (ch_db ch3)\<rparr>;
                                     toReturn = returned_txs (en_crypto E) newBranch txs;
                                     ch5 = (if toReturn = [] then ch4 else notify E (EvReverted toReturn) ch4)
                                 in (notify E EvReorg ch5, None)))))"

section \<open>ProcessBlock\<close>

definition is_pow :: "'s chain \<Rightarrow> bool" where
  "is_pow ch \<longleftrightarrow> (case ch_engine ch of EnginePoW _ \<Rightarrow> True | EnginePoA _ \<Rightarrow> False)"

text \<open>\<open>now\<close> is \<open>time.Now().Unix()\<close>.\<close>

definition check_times :: "'s env \<Rightarrow> u64 \<Rightarrow> header \<Rightarrow> 's chain \<Rightarrow> chain_error option" where
  "check_times E now h ch =
     (if h_timestamp h > now + 120 then Some ErrTimestampTooFuture
      else if h_height h > 0 \<and>
        (case GetBlock (en_db E) (ch_db ch) (h_prev h) of
           None \<Rightarrow> False | Some parent \<Rightarrow> h_timestamp h < h_timestamp (hdr parent))
      then Some ErrTimestampBeforeParent else None)"

text \<open>The fast path, after the checks that it shares with the fork path.\<close>

definition extend_tip :: "'s env \<Rightarrow> block \<Rightarrow> 's chain \<Rightarrow> 's chain \<times> chain_error option" where
  "extend_tip E b ch =
     (case validateBlockState E ch b of
        Inl e \<Rightarrow> (ch, Some e)
      | Inr registered \<Rightarrow>
         (case connect_block E b ch of
            (ch1, Inl e) \<Rightarrow> (ch1, Some e)
          | (ch1, Inr undo) \<Rightarrow>
             (let ch2 = set_tip_block E b ch1
              in case addRegisteredSubChains registered ch2 of
                   Inl e \<Rightarrow> (ch2, Some e)
                 | Inr ch3 \<Rightarrow> (notify_all E (connect_events E b undo) ch3, None))))"

definition ProcessBlock :: "'s env \<Rightarrow> u64 \<Rightarrow> block \<Rightarrow> 's chain \<Rightarrow> 's chain \<times> chain_error option" where
  "ProcessBlock E now b ch =
     (case b_header b of
        None \<Rightarrow> (ch, Some NilBlock)
      | Some h \<Rightarrow>
         (let hash = BlockHash (en_crypto E) b; D = en_db E; parentErr = checkParentLink E ch h in
          if HasBlock D (ch_db ch) hash then (ch, Some ErrBlockKnown)
          else if parentErr \<noteq> None \<and> parentErr \<noteq> Some ErrForkDetected then (ch, parentErr)
          else let isFork = (parentErr = Some ErrForkDetected) in
          case and_then (if isFork then None else verifyDifficulty E ch h)
                (and_then (map_option ConsensusErr (ValidateBlock (en_crypto E) D (ch_db ch) (ch_engine ch) b))
                 (and_then (check_times E now h ch)
                  (if isFork then None else checkSigningLimit E ch h))) of
            Some e \<Rightarrow> (ch, Some e)
          | None \<Rightarrow>
              if isFork then
                (let ch1 = ch\<lparr>ch_db := StoreBlock D (en_crypto E) b (ch_db ch)\<rparr>
                 in if h_height h \<ge> ch_height ch \<or> is_pow ch then Reorg E hash ch1 else (ch1, None))
              else extend_tip E b ch))"

section \<open>Lookups\<close>

definition GetTransaction :: "'s env \<Rightarrow> 's chain \<Rightarrow> hash \<Rightarrow> transaction option" where
  "GetTransaction E ch h =
     (case GetTxLocation (en_db E) (ch_db ch) h of
        None \<Rightarrow> None
      | Some (n, blockHash) \<Rightarrow>
         (case GetBlock (en_db E) (ch_db ch) blockHash of
            None \<Rightarrow> None
          | Some b \<Rightarrow> find (\<lambda>t. TxHash (en_crypto E) t = h) (b_txs b)))"

end
