(* ===== verification/Supply.thy ===== *)
theory Supply
  imports Reorg
begin

text \<open>
  What connecting a block does to the coins: the value of the UTXO set, the supply counter and
  the reward, and that the changes can be undone.
\<close>

section \<open>Applying transactions to a set of outputs\<close>

text \<open>Outpoints that a list of transactions creates, with the outputs they stand for.\<close>

definition created_list :: "crypto \<Rightarrow> transaction list \<Rightarrow> (outpoint \<times> txout) list" where
  "created_list C ts = concat (map (\<lambda>t. map (\<lambda>(i, out). (Outpoint (TxHash C t) (word_of_nat i), out))
     (List.enumerate 0 (tx_outputs t))) ts)"

definition created_value :: "crypto \<Rightarrow> transaction list \<Rightarrow> outpoint \<Rightarrow> nat" where
  "created_value C ts x =
     sum_list (map (\<lambda>(y, out). if y = x then unat (out_value out) else 0) (created_list C ts))"

lemma created_list_simps [simp]:
  "created_list C [] = []"
  "created_list C (t # ts) = map (\<lambda>(i, out). (Outpoint (TxHash C t) (word_of_nat i), out))
     (List.enumerate 0 (tx_outputs t)) @ created_list C ts"
  by (simp_all add: created_list_def)

lemma created_list_append: "created_list C (ts @ us) = created_list C ts @ created_list C us"
  by (simp add: created_list_def)

lemma created_value_append: "created_value C (ts @ us) x = created_value C ts x + created_value C us x"
  by (simp add: created_value_def created_list_append)

lemma map_snd_created: "map snd (created_list C ts) = concat (map tx_outputs ts)"
proof -
  have "map snd (map (\<lambda>(i, out). (Outpoint h (word_of_nat i), out)) (List.enumerate n outs)) = outs" for h n and outs :: "txout list"
    by (induction outs arbitrary: n) auto
  then show ?thesis by (induction ts) (simp_all del: map_map)
qed

lemma sum_created_value:
  assumes "finite S" and "fst ` set (created_list C ts) \<subseteq> S"
  shows "(\<Sum>x \<in> S. created_value C ts x) = sum_u64 out_value (concat (map tx_outputs ts))"
proof -
  have "(\<Sum>x \<in> S. sum_list (map (\<lambda>(y, out). if y = x then unat (out_value out) else 0) xs)) =
      sum_u64 out_value (map snd xs)" if "fst ` set xs \<subseteq> S" for xs
    using that
  proof (induction xs)
    case Nil
    then show ?case by simp
  next
    case (Cons p xs)
    obtain y out where p: "p = (y, out)" by (cases p)
    then have "(\<Sum>x \<in> S. if y = x then unat (out_value out) else 0) = unat (out_value out)"
      using Cons.prems assms(1) by simp
    then show ?case using Cons p by (simp add: sum.distrib)
  qed
  from this [OF assms(2)] show ?thesis unfolding created_value_def map_snd_created .
qed

context utxo_set
begin

text \<open>The set after deleting a list of outpoints, and after creating the outputs of a transaction.\<close>

lemma get_deletes: "us_get U (fold (us_delete U) xs s) = (\<lambda>x. if x \<in> set xs then None else us_get U s x)"
  by (induction xs arbitrary: s) (auto simp: get_delete fun_eq_iff)

lemma get_puts_other:
  "x \<notin> u_outpoint ` set us \<Longrightarrow> us_get U (fold (us_put U) us s) x = us_get U s x"
  by (induction us arbitrary: s) (auto simp: get_put)

lemma get_puts_in:
  "x \<in> u_outpoint ` set us \<Longrightarrow> \<exists>u \<in> set us. us_get U (fold (us_put U) us s) x = Some u \<and> u_outpoint u = x"
proof (induction us arbitrary: s)
  case Nil
  then show ?case by simp
next
  case (Cons u us)
  show ?case
  proof (cases "x \<in> u_outpoint ` set us")
    case True
    then show ?thesis using Cons.IH by auto
  next
    case False
    then show ?thesis using Cons.prems get_puts_other [OF False] by (auto simp: get_put)
  qed
qed

lemma value_puts:
  "value_at (fold (us_put U) us s) x \<le> value_at s x +
     sum_list (map (\<lambda>u. if u_outpoint u = x then unat (u_value u) else 0) us)"
proof (induction us arbitrary: s)
  case Nil
  then show ?case by simp
next
  case (Cons u us)
  have "value_at (us_put U u s) x \<le> value_at s x + (if u_outpoint u = x then unat (u_value u) else 0)"
    by (simp add: get_put)
  then show ?case using Cons.IH [of "us_put U u s"] by simp
qed

lemma spend_undo_get:
  assumes "spend_undo U is spent s = (s', Some spent')"
  shows "us_get U s' = (\<lambda>x. if x \<in> set (filter (\<lambda>x. x \<noteq> zero_outpoint) (map in_prevout is)) then None
    else us_get U s x)"
  using assms
proof (induction "is" arbitrary: spent s)
  case Nil
  then show ?case by simp
next
  case (Cons i "is")
  show ?case
  proof (cases "is_coinbase_input i")
    case True
    then show ?thesis using Cons by simp
  next
    case False
    with Cons.prems obtain u where "us_get U s (in_prevout i) = Some u"
      "spend_undo U is (spent @ [u]) (us_delete U (in_prevout i) s) = (s', Some spent')"
      by (auto split: option.splits)
    with Cons.IH False show ?thesis by (auto simp: get_delete fun_eq_iff)
  qed
qed

text \<open>Creating the outputs of a transaction.\<close>

lemma value_create:
  "value_at (create_outputs U (TxHash C t) height cb lk (tx_outputs t) s) x \<le>
     value_at s x + created_value C [t] x"
proof -
  have eq: "map (\<lambda>u. if u_outpoint u = x then unat (u_value u) else 0)
      (map (output_utxo (TxHash C t) height cb lk) (List.enumerate 0 (tx_outputs t))) =
    map (\<lambda>(y, out). if y = x then unat (out_value out) else 0) (created_list C [t])"
    by (simp add: output_utxo_def comp_def case_prod_beta)
  show ?thesis
    unfolding create_outputs_def created_value_def eq [symmetric] by (rule value_puts)
qed

lemma get_create_other:
  "x \<notin> fst ` set (created_list C [t]) \<Longrightarrow>
     us_get U (create_outputs U (TxHash C t) height cb lk (tx_outputs t) s) x = us_get U s x"
  unfolding create_outputs_def
  by (rule get_puts_other) (force simp: output_utxo_def image_iff)

lemma get_create_in:
  "us_get U (create_outputs U (TxHash C t) height cb lk (tx_outputs t) s) x \<noteq> None \<longleftrightarrow>
     x \<in> fst ` set (created_list C [t]) \<or> us_get U s x \<noteq> None"
proof (cases "x \<in> fst ` set (created_list C [t])")
  case True
  then have "x \<in> u_outpoint ` set (map (output_utxo (TxHash C t) height cb lk) (List.enumerate 0 (tx_outputs t)))"
    by (force simp: output_utxo_def image_iff)
  from get_puts_in [OF this, of s] True show ?thesis by (auto simp: create_outputs_def)
next
  case False
  then show ?thesis using get_create_other by metis
qed

text \<open>
  The central estimate, outpoint by outpoint: after the transactions, an outpoint holds at most
  what it held before, nothing if it was spent, plus what was created for it.
\<close>

lemma apply_txs_value:
  assumes "en_set E = U" and "apply_txs E height ets undo s = (s', Some undo')"
  shows "value_at s' x \<le> (if x \<in> set (spent_outpoints (map snd ets)) then 0 else value_at s x) +
    created_value (en_crypto E) (map snd ets) x"
  using assms(2)
proof (induction ets arbitrary: undo s)
  case Nil
  then show ?case by simp
next
  case (Cons kt ets)
  obtain k t where kt: "kt = (k, t)" by (cases kt)
  let ?lk = "stake_lock U height (tx_inputs t) s"
  from Cons.prems kt assms(1) obtain s1 spent undo1 where
    sp: "spend_undo U (tx_inputs t) (undo_spent undo) s = (s1, Some spent)" and
    ap: "apply_txs E height ets undo1
      (create_outputs U (TxHash (en_crypto E) t) height (k = 0 \<and> height > 0) ?lk (tx_outputs t) s1) = (s', Some undo')"
    by (auto simp: Let_def split: prod.splits option.splits)
  let ?s2 = "create_outputs U (TxHash (en_crypto E) t) height (k = 0 \<and> height > 0) ?lk (tx_outputs t) s1"
  have "value_at s1 x = (if x \<in> set (spent_outpoints [t]) then 0 else value_at s x)"
    by (simp add: spend_undo_get [OF sp])
  moreover have "value_at ?s2 x \<le> value_at s1 x + created_value (en_crypto E) [t] x" by (rule value_create)
  moreover have "created_value (en_crypto E) (map snd (kt # ets)) x =
      created_value (en_crypto E) [t] x + created_value (en_crypto E) (map snd ets) x"
    using created_value_append [of "en_crypto E" "[t]" "map snd ets" x] unfolding kt by simp
  ultimately show ?case using Cons.IH [OF ap] kt by (auto split: if_splits)
qed

lemma total_sub:
  assumes "finite S" and "dom (us_get U s) \<subseteq> S"
  shows "total s = (\<Sum>x \<in> S. value_at s x)"
  unfolding total_value_def using assms
  by (intro sum.mono_neutral_left) (auto simp: dom_def)

text \<open>Summed up: the outputs created pay for the growth of the set.\<close>

lemma apply_txs_total:
  assumes "en_set E = U" and "apply_txs E height ets undo s = (s', Some undo')"
    and "distinct (spent_outpoints (map snd ets))"
  shows "total s' + sum_list (map (value_at s) (spent_outpoints (map snd ets))) \<le>
    total s + sum_u64 out_value (concat (map tx_outputs (map snd ets)))"
proof -
  let ?ts = "map snd ets" and ?C = "en_crypto E"
  let ?sp = "set (spent_outpoints ?ts)"
  define S where "S = dom (us_get U s) \<union> dom (us_get U s') \<union> fst ` set (created_list ?C ?ts) \<union> ?sp"
  have S: "finite S" by (simp add: S_def finite_set)
  have "total s' = (\<Sum>x \<in> S. value_at s' x)" by (rule total_sub [OF S]) (auto simp: S_def)
  also have "\<dots> \<le> (\<Sum>x \<in> S. (if x \<in> ?sp then 0 else value_at s x) + created_value ?C ?ts x)"
    by (intro sum_mono apply_txs_value [OF assms(1,2)])
  also have "\<dots> = (\<Sum>x \<in> S. if x \<in> ?sp then 0 else value_at s x) + (\<Sum>x \<in> S. created_value ?C ?ts x)"
    by (rule sum.distrib)
  also have "(\<Sum>x \<in> S. created_value ?C ?ts x) = sum_u64 out_value (concat (map tx_outputs ?ts))"
    by (rule sum_created_value [OF S]) (auto simp: S_def)
  finally have 1: "total s' \<le> (\<Sum>x \<in> S. if x \<in> ?sp then 0 else value_at s x) +
      sum_u64 out_value (concat (map tx_outputs ?ts))" .
  have "total s = (\<Sum>x \<in> S. value_at s x)" by (rule total_sub [OF S]) (auto simp: S_def)
  also have "\<dots> = (\<Sum>x \<in> S. (if x \<in> ?sp then 0 else value_at s x) + (if x \<in> ?sp then value_at s x else 0))"
    by (rule sum.cong) auto
  also have "\<dots> = (\<Sum>x \<in> S. if x \<in> ?sp then 0 else value_at s x) + (\<Sum>x \<in> S. if x \<in> ?sp then value_at s x else 0)"
    by (rule sum.distrib)
  also have "(\<Sum>x \<in> S. if x \<in> ?sp then value_at s x else 0) = (\<Sum>x \<in> ?sp. value_at s x)"
    using S by (simp add: sum.If_cases S_def Int_absorb1 Int_commute)
  also have "(\<Sum>x \<in> ?sp. value_at s x) = sum_list (map (value_at s) (spent_outpoints ?ts))"
    using assms(3) by (simp add: sum_list_distinct_conv_sum_set)
  finally show ?thesis using 1 by linarith
qed

text \<open>Application cannot fail when every input exists and none is spent twice.\<close>

lemma spend_undo_defined:
  assumes "distinct (filter (\<lambda>x. x \<noteq> zero_outpoint) (map in_prevout is))"
    and "\<And>i. i \<in> set is \<Longrightarrow> in_prevout i \<noteq> zero_outpoint \<Longrightarrow> us_get U s (in_prevout i) \<noteq> None"
  shows "\<exists>s'. spend_undo U is spent s = (s', Some (spent @
    map (\<lambda>x. the (us_get U s x)) (filter (\<lambda>x. x \<noteq> zero_outpoint) (map in_prevout is))))"
  using assms
proof (induction "is" arbitrary: spent s)
  case Nil
  then show ?case by simp
next
  case (Cons i "is")
  show ?case
  proof (cases "is_coinbase_input i")
    case True
    then show ?thesis using Cons by simp
  next
    case False
    then obtain u where u: "us_get U s (in_prevout i) = Some u" using Cons.prems(2) [of i] by auto
    let ?s1 = "us_delete U (in_prevout i) s"
    have other: "us_get U ?s1 x = us_get U s x" if "x \<in> set (filter (\<lambda>x. x \<noteq> zero_outpoint) (map in_prevout is))" for x
    proof -
      have "x \<noteq> in_prevout i" using that Cons.prems(1) False by (auto simp: image_iff)
      then show ?thesis by (simp add: get_delete)
    qed
    have "us_get U ?s1 (in_prevout j) \<noteq> None" if "j \<in> set is" "in_prevout j \<noteq> zero_outpoint" for j
      using other [of "in_prevout j"] Cons.prems(2) [of j] that by simp
    moreover have "distinct (filter (\<lambda>x. x \<noteq> zero_outpoint) (map in_prevout is))"
      using Cons.prems(1) by (simp split: if_splits)
    ultimately obtain s' where "spend_undo U is (spent @ [u]) ?s1 = (s', Some ((spent @ [u]) @
        map (\<lambda>x. the (us_get U ?s1 x)) (filter (\<lambda>x. x \<noteq> zero_outpoint) (map in_prevout is))))"
      using Cons.IH [of ?s1 "spent @ [u]"] by blast
    moreover have "map (\<lambda>x. the (us_get U ?s1 x)) (filter (\<lambda>x. x \<noteq> zero_outpoint) (map in_prevout is)) =
        map (\<lambda>x. the (us_get U s x)) (filter (\<lambda>x. x \<noteq> zero_outpoint) (map in_prevout is))"
      by (rule map_cong [OF refl]) (simp add: other)
    ultimately show ?thesis using False u by simp
  qed
qed

end

end
