(* ===== verification/Issuance.thy ===== *)
theory Issuance
  imports Supply
begin

text \<open>
  Issuance: a block accepted by the chain spends only outputs that exist, its application
  cannot fail, and the coins in the UTXO set never exceed the supply counter, which never
  exceeds the maximum supply.
\<close>

section \<open>The setting\<close>

text \<open>A chain whose UTXO set is the store on its own database.\<close>

locale chain_env = doc_store D view for D :: "('s, dbval) kvdb" and view +
  fixes E :: "'s env"
  assumes en_db [simp]: "en_db E = D" and en_set [simp]: "en_set E = UtxoStore D"

definition env_on ::
  "('s, dbval) kvdb \<Rightarrow> crypto \<Rightarrow> (txout \<Rightarrow> u64 \<Rightarrow> u64 \<Rightarrow> bool) option \<Rightarrow>
   (event \<Rightarrow> ('s \<Rightarrow> engine \<Rightarrow> engine) option) \<Rightarrow> 's env" where
  "env_on D C reg hnd =
     \<lparr>en_crypto = C, en_db = D, en_set = UtxoStore D, en_registration_ok = reg, en_handler = hnd\<rparr>"

text \<open>The root chain lives on the database itself, a sub-chain behind a key prefix.\<close>

interpretation root_chain: chain_env MemoryDB DAList.lookup "env_on MemoryDB C reg hnd" for C reg hnd
  by unfold_locales (simp_all add: env_on_def)

interpretation sub_chain: chain_env "PrefixDB MemoryDB p" "\<lambda>s k. DAList.lookup s (p @ k)"
  "env_on (PrefixDB MemoryDB p) C reg hnd" for p C reg hnd
  by unfold_locales (simp_all add: env_on_def)

section \<open>Fees\<close>

lemma guarded_sum_exact:
  "unat t + sum_u64 (\<lambda>v. v) vs < 2 ^ 64 \<Longrightarrow> unat (guarded_sum t vs) = unat t + sum_u64 (\<lambda>v. v) vs"
proof (induction t vs rule: guarded_sum.induct)
  case (1 t)
  then show ?case by simp
next
  case (2 t v vs)
  then have "\<not> t > max_u64 - v" "unat (t + v) = unat t + unat v" by (simp_all add: u64_simps)
  with 2 show ?case by simp
qed

lemma validate_fees_exact:
  "validate_fees E s tf ts = Inr (fees, tot) \<Longrightarrow>
     unat tot = unat tf + sum_u64 (\<lambda>v. v) fees \<and>
     list_all2 (\<lambda>t fee. ValidateWithUTXOs (en_crypto E) (chain_provider E s) t = Inr fee) ts fees"
proof (induction ts arbitrary: tf fees)
  case Nil
  then show ?case by simp
next
  case (Cons t ts)
  then obtain fee fees' where v: "ValidateWithUTXOs (en_crypto E) (chain_provider E s) t = Inr fee"
    and o: "\<not> tf > max_u64 - fee" and r: "validate_fees E s (tf + fee) ts = Inr (fees', tot)"
    and f: "fees = fee # fees'"
    by (auto simp: err_simps split: sum.splits if_splits)
  have "unat (tf + fee) = unat tf + unat fee" using o by (simp add: u64_simps)
  then show ?case using Cons.IH [OF r] v f by simp
qed

text \<open>The exact sums behind an accepted transaction.\<close>

lemma sum_input_values:
  "sum_u64 (\<lambda>v. v) (input_values (en_set E) s is) = sum_u64 (input_value (chain_provider E s)) is"
  by (induction "is") (auto simp: input_values_def input_value_def chain_provider_def split: option.splits)

lemma computeTxFee_exact:
  assumes "ValidateWithUTXOs C (chain_provider E s) t = Inr fee"
  shows "computeTxFee (en_set E) s t = fee"
proof -
  note a = accepted_transaction [OF assms]
  have ins: "unat (guarded_sum 0 (input_values (en_set E) s (tx_inputs t))) =
      sum_u64 out_value (tx_outputs t) + unat fee"
    using a(1,2) guarded_sum_exact [of 0 "input_values (en_set E) s (tx_inputs t)"]
    by (simp add: sum_input_values)
  have "sum_u64 (\<lambda>v. v) (map out_value outs) = sum_u64 out_value outs" for outs :: "txout list"
    by (simp add: sum_u64_def comp_def)
  then have outs: "unat (guarded_sum 0 (map out_value (tx_outputs t))) = sum_u64 out_value (tx_outputs t)"
    using a(1,2) guarded_sum_exact [of 0 "map out_value (tx_outputs t)"] by simp
  show ?thesis
  proof (cases "fee = 0")
    case True
    then show ?thesis using ins outs by (simp add: computeTxFee_def Let_def word_less_nat_alt)
  next
    case False
    then have "unat fee > 0" by (simp add: unat_gt_0)
    then have "guarded_sum 0 (map out_value (tx_outputs t)) < guarded_sum 0 (input_values (en_set E) s (tx_inputs t))"
      using ins outs by (simp add: word_less_nat_alt)
    moreover from this have "unat (guarded_sum 0 (input_values (en_set E) s (tx_inputs t)) -
        guarded_sum 0 (map out_value (tx_outputs t))) = unat fee"
      using ins outs by (simp add: u64_simps)
    then have "guarded_sum 0 (input_values (en_set E) s (tx_inputs t)) -
        guarded_sum 0 (map out_value (tx_outputs t)) = fee"
      by (simp only: word_unat_eq_iff)
    ultimately show ?thesis by (simp add: computeTxFee_def Let_def)
  qed
qed

section \<open>Blocks that pass the state check\<close>

lemma validateBlockState_Inr:
  assumes "validateBlockState E ch b = Inr n"
  obtains cb rest fees totalFees coinbaseTotal where
    "b_txs b = cb # rest" "isCoinbase cb" "validate_fees E (ch_db ch) 0 rest = Inr (fees, totalFees)"
    "TotalOutputValue cb = Inr coinbaseTotal"
    "(if coinbaseTotal > totalFees then coinbaseTotal - totalFees else 0)
       \<le> cap_reward (ch_max_supply ch) (ch_supply ch) (chain_subsidy ch (h_height (hdr b)))"
    "checkCoinbaseMaturity (en_set E) (ch_db ch) b = None"
    "first_error (check_token_rules E ch) (zip rest fees) = None"
    "check_stake_amounts ch rest = None"
    "check_extra_coinbase rest = None"
    "check_coinbase_outputs cb = None"
    "validateRegistrations E ch b = Inr n"
proof -
  from assms obtain cb rest where b: "b_txs b = cb # rest" and c: "isCoinbase cb"
    by (auto simp: validateBlockState_def split: list.splits if_splits)
  let ?k = "\<lambda>fees totalFees. case TotalOutputValue cb of
      Inl e \<Rightarrow> Inl (TxErr e)
    | Inr coinbaseTotal \<Rightarrow>
       (let minted = (if coinbaseTotal > totalFees then coinbaseTotal - totalFees else 0);
            allowedMint = cap_reward (ch_max_supply ch) (ch_supply ch) (chain_subsidy ch (h_height (hdr b)))
        in if minted > allowedMint then Inl ErrCoinbaseRewardExceeded
           else check (check_extra_coinbase rest)
            (check (checkCoinbaseMaturity (en_set E) (ch_db ch) b)
             (check (first_error (check_token_rules E ch) (zip rest fees))
              (check (check_stake_amounts ch rest) (validateRegistrations E ch b)))))"
  from assms b c obtain fees totalFees where co: "check_coinbase_outputs cb = None"
    and f: "validate_fees E (ch_db ch) 0 rest = Inr (fees, totalFees)" and k: "?k fees totalFees = Inr n"
    by (auto simp: validateBlockState_def check_Inr bindE_Inr)
  from k obtain coinbaseTotal where t: "TotalOutputValue cb = Inr coinbaseTotal"
    by (auto split: sum.splits)
  with k have "(if coinbaseTotal > totalFees then coinbaseTotal - totalFees else 0)
       \<le> cap_reward (ch_max_supply ch) (ch_supply ch) (chain_subsidy ch (h_height (hdr b)))"
    "checkCoinbaseMaturity (en_set E) (ch_db ch) b = None"
    "first_error (check_token_rules E ch) (zip rest fees) = None"
    "check_stake_amounts ch rest = None" "check_extra_coinbase rest = None"
    "validateRegistrations E ch b = Inr n"
    by (simp_all only: Let_def sum.case if_Inl_Inr check_Inr not_less)
  with that b c co f t show thesis by blast
qed

text \<open>The reward of an accepted block is what its coinbase takes beyond the fees.\<close>

lemma computeBlockReward_accepted:
  assumes tx: "b_txs b = cb # rest" and fees: "validate_fees E s 0 rest = Inr (fees, totalFees)"
    and cbt: "TotalOutputValue cb = Inr coinbaseTotal"
  shows "computeBlockReward (en_set E) s b =
    (if coinbaseTotal > totalFees then coinbaseTotal - totalFees else 0)"
proof (cases "tx_outputs cb = []")
  case True
  then have "coinbaseTotal = 0" using cbt by (simp add: TotalOutputValue_def)
  then show ?thesis using True tx by (simp add: computeBlockReward_def)
next
  case False
  note v = validate_fees_exact [OF fees]
  then have "map (computeTxFee (en_set E) s) rest = fees"
    by (intro nth_equalityI) (auto simp: list_all2_conv_all_nth intro: computeTxFee_exact)
  moreover have "unat (guarded_sum 0 fees) = unat totalFees"
    using guarded_sum_exact [of 0 fees] v unat_u64_less [of totalFees] by simp
  then have "guarded_sum 0 fees = totalFees" by (simp only: word_unat_eq_iff)
  ultimately show ?thesis using False tx cbt by (simp add: computeBlockReward_def)
qed

lemma cap_reward_idem: "r \<le> cap_reward m s q \<Longrightarrow> cap_reward m s r = r"
  by (auto simp: cap_reward_def split: if_splits)

lemma cap_reward_max:
  assumes "m > 0" and "s \<le> m"
  shows "unat s + unat (cap_reward m s r) \<le> unat m"
proof (cases "r > m - s \<or> s \<ge> m")
  case True
  then show ?thesis using assms by (auto simp: cap_reward_def u64_simps word_le_nat_alt)
next
  case False
  then have "r \<le> m - s" using not_less by blast
  then have "unat r \<le> unat m - unat s" using assms(2) by (simp add: word_le_nat_alt u64_simps)
  moreover have "unat s \<le> unat m" using assms(2) by (simp add: word_le_nat_alt)
  moreover have "cap_reward m s r = r" using False assms(1) by (simp add: cap_reward_def)
  ultimately show ?thesis by simp
qed


section \<open>Application never fails\<close>

context utxo_set
begin

lemma apply_txs_defined:
  assumes "en_set E = U" and "distinct (spent_outpoints (map snd ets))"
    and "\<And>x. x \<in> set (spent_outpoints (map snd ets)) \<Longrightarrow> us_get U s x \<noteq> None"
  shows "\<exists>s' undo'. apply_txs E height ets undo s = (s', Some undo')"
  using assms(2,3)
proof (induction ets arbitrary: undo s)
  case Nil
  then show ?case by simp
next
  case (Cons kt ets)
  obtain k t where kt: "kt = (k, t)" by (cases kt)
  have d: "distinct (filter (\<lambda>x. x \<noteq> zero_outpoint) (map in_prevout (tx_inputs t)))"
    "distinct (spent_outpoints (map snd ets))"
    "set (filter (\<lambda>x. x \<noteq> zero_outpoint) (map in_prevout (tx_inputs t))) \<inter> set (spent_outpoints (map snd ets)) = {}"
    using Cons.prems(1) kt by simp_all
  have "us_get U s (in_prevout i) \<noteq> None" if "i \<in> set (tx_inputs t)" "in_prevout i \<noteq> zero_outpoint" for i
    using Cons.prems(2) [of "in_prevout i"] that kt by simp
  from spend_undo_defined [OF d(1) this] obtain s1 spent
    where sp: "spend_undo U (tx_inputs t) (undo_spent undo) s = (s1, Some spent)" by metis
  have other: "us_get U (create_outputs U (TxHash C t) height cb lk (tx_outputs t) s1) x \<noteq> None"
    if "x \<in> set (spent_outpoints (map snd ets))" for C cb lk x
  proof -
    have "us_get U s1 x = us_get U s x" using spend_undo_get [OF sp] d(3) that by auto
    then show ?thesis using Cons.prems(2) [of x] that kt unfolding get_create_in by simp
  qed
  show ?case using Cons.IH [OF d(2) other] kt sp assms(1) by (simp add: Let_def)
qed

end

section \<open>Connecting an accepted block\<close>

lemma spent_outpoints_coinbase: "isCoinbase cb \<Longrightarrow> spent_outpoints (cb # rest) = spent_outpoints rest"
  by (auto simp: isCoinbase_iff)

lemma sum_concat_outputs:
  "sum_u64 out_value (concat (map tx_outputs ts)) = sum_list (map (\<lambda>t. sum_u64 out_value (tx_outputs t)) ts)"
  by (induction ts) simp_all

context chain_env
begin

abbreviation coins :: "'s \<Rightarrow> nat" where
  "coins s \<equiv> total_value (Store_Get D s)"

lemma sum_input_value:
  "sum_u64 (input_value (chain_provider E s)) is =
     sum_list (map (\<lambda>x. value_of (Store_Get D s x)) (filter (\<lambda>x. x \<noteq> zero_outpoint) (map in_prevout is)))"
  by (induction "is") (auto simp: input_value_def chain_provider_def split: option.splits)

lemma sum_spent:
  "sum_list (map (\<lambda>x. value_of (Store_Get D s x)) (spent_outpoints ts)) =
     sum_list (map (\<lambda>t. sum_u64 (input_value (chain_provider E s)) (tx_inputs t)) ts)"
  by (induction ts) (simp_all add: sum_input_value)

lemma accepted_sums:
  assumes "validate_fees E s 0 rest = Inr (fees, totalFees)"
  shows "sum_list (map (\<lambda>x. value_of (Store_Get D s x)) (spent_outpoints rest)) =
    sum_u64 out_value (concat (map tx_outputs rest)) + unat totalFees"
proof -
  note v = validate_fees_exact [OF assms]
  have "sum_list (map (\<lambda>t. sum_u64 (input_value (chain_provider E s)) (tx_inputs t)) ts) =
      sum_list (map (\<lambda>t. sum_u64 out_value (tx_outputs t)) ts) + sum_u64 (\<lambda>v. v) fs"
    if "list_all2 (\<lambda>t fee. ValidateWithUTXOs (en_crypto E) (chain_provider E s) t = Inr fee) ts fs" for ts fs
    using that by (induction rule: list_all2_induct) (simp_all add: accepted_transaction(1))
  from this [of rest fees] v show ?thesis by (simp add: sum_spent sum_concat_outputs)
qed

lemma accepted_inputs_exist:
  assumes "validate_fees E s 0 rest = Inr (fees, totalFees)" and "x \<in> set (spent_outpoints rest)"
  shows "Store_Get D s x \<noteq> None"
proof -
  from assms(2) obtain t i where ti: "t \<in> set rest" "i \<in> set (tx_inputs t)" "x = in_prevout i" "x \<noteq> zero_outpoint"
    by (auto simp: spent_outpoints_def)
  from ti(1) obtain fee where "ValidateWithUTXOs (en_crypto E) (chain_provider E s) t = Inr fee"
    using validate_fees_exact [OF assms(1)] by (auto simp: list_all2_conv_all_nth in_set_conv_nth)
  from accepted_transaction(3) [OF this ti(2)] ti(3,4) show ?thesis
    by (auto simp: spendable_def chain_provider_def split: option.splits)
qed

lemma applyBlock_accepted:
  assumes v: "validateBlockState E ch b = Inr n" and d: "distinct (spent_outpoints (b_txs b))"
  shows "\<exists>s' undo. applyBlockWithUndo E b (ch_db ch) = (s', Some undo) \<and>
    coins s' \<le> coins (ch_db ch) + unat (computeBlockReward (en_set E) (ch_db ch) b)"
proof -
  from v obtain cb rest fees totalFees coinbaseTotal where
    b: "b_txs b = cb # rest" "isCoinbase cb" and f: "validate_fees E (ch_db ch) 0 rest = Inr (fees, totalFees)"
    and t: "TotalOutputValue cb = Inr coinbaseTotal"
    by (rule validateBlockState_Inr)
  have snd: "map snd (List.enumerate 0 (b_txs b)) = b_txs b" by simp
  have sp: "spent_outpoints (b_txs b) = spent_outpoints rest" using b spent_outpoints_coinbase by simp
  obtain s' undo where a: "applyBlockWithUndo E b (ch_db ch) = (s', Some undo)"
    using set.apply_txs_defined [of E "List.enumerate 0 (b_txs b)" "ch_db ch" "h_height (hdr b)" empty_undo]
      d sp accepted_inputs_exist [OF f]
    unfolding applyBlockWithUndo_def snd by auto
  have ap: "apply_txs E (h_height (hdr b)) (List.enumerate 0 (b_txs b)) empty_undo (ch_db ch) = (s', Some undo)"
    using a by (simp add: applyBlockWithUndo_def)
  have "coins s' + sum_list (map (\<lambda>x. value_of (Store_Get D (ch_db ch) x)) (spent_outpoints (b_txs b))) \<le>
      coins (ch_db ch) + sum_u64 out_value (concat (map tx_outputs (b_txs b)))"
    using set.apply_txs_total [OF en_set ap] d unfolding snd by simp
  moreover have "sum_u64 out_value (concat (map tx_outputs (b_txs b))) =
      unat coinbaseTotal + sum_u64 out_value (concat (map tx_outputs rest))"
    using sum_outputs_exact [of 0 "tx_outputs cb" coinbaseTotal] t b by (simp add: TotalOutputValue_def)
  ultimately have "coins s' + unat totalFees \<le> coins (ch_db ch) + unat coinbaseTotal"
    using accepted_sums [OF f] sp by simp
  moreover have "unat coinbaseTotal \<le> unat totalFees +
      unat (if coinbaseTotal > totalFees then coinbaseTotal - totalFees else 0)"
    by (cases "coinbaseTotal > totalFees")
      (auto simp: word_less_nat_alt word_le_nat_alt unat_sub_u64)
  ultimately show ?thesis
    using a computeBlockReward_accepted [OF b(1) f t] by auto
qed

text \<open>
  Connecting an accepted block either trips one of the two counter guards, before anything is
  written, or commits the block: the cap never changes the reward.
\<close>

lemma connect_block_accepted:
  assumes v: "validateBlockState E ch b = Inr n" and d: "distinct (spent_outpoints (b_txs b))"
    and c: "connect_block E b ch = (ch', r)"
  shows "(ch' = ch \<and> (r = Inl SupplyOverflow \<or> r = Inl CumDiffOverflow)) \<or>
    (\<exists>s' undo reward. applyBlockWithUndo E b (ch_db ch) = (s', Some undo) \<and>
       reward = computeBlockReward (en_set E) (ch_db ch) b \<and>
       r = Inr (undo\<lparr>undo_reward := reward\<rparr>) \<and>
       ch' = ch\<lparr>ch_db := CommitBlock D (en_crypto E) b (undo\<lparr>undo_reward := reward\<rparr>) (ch_supply ch + reward)
                 (ch_cumdiff ch + h_difficulty (hdr b)) s',
               ch_supply := ch_supply ch + reward, ch_cumdiff := ch_cumdiff ch + h_difficulty (hdr b)\<rparr> \<and>
       reward \<le> cap_reward (ch_max_supply ch) (ch_supply ch) (chain_subsidy ch (h_height (hdr b))) \<and>
       unat (ch_supply ch + reward) = unat (ch_supply ch) + unat reward \<and>
       unat (ch_cumdiff ch + h_difficulty (hdr b)) = unat (ch_cumdiff ch) + unat (h_difficulty (hdr b)) \<and>
       coins s' \<le> coins (ch_db ch) + unat reward)"
proof -
  let ?reward = "computeBlockReward (en_set E) (ch_db ch) b"
  from v obtain cb rest fees totalFees coinbaseTotal where
    b: "b_txs b = cb # rest" and f: "validate_fees E (ch_db ch) 0 rest = Inr (fees, totalFees)"
    and t: "TotalOutputValue cb = Inr coinbaseTotal"
    and le: "(if coinbaseTotal > totalFees then coinbaseTotal - totalFees else 0)
       \<le> cap_reward (ch_max_supply ch) (ch_supply ch) (chain_subsidy ch (h_height (hdr b)))"
    by (rule validateBlockState_Inr)
  have le: "?reward \<le> cap_reward (ch_max_supply ch) (ch_supply ch) (chain_subsidy ch (h_height (hdr b)))"
    using le computeBlockReward_accepted [OF b f t] by simp
  have cap: "cap_reward (ch_max_supply ch) (ch_supply ch) ?reward = ?reward" by (rule cap_reward_idem [OF le])
  from applyBlock_accepted [OF v d] obtain s' undo where a: "applyBlockWithUndo E b (ch_db ch) = (s', Some undo)"
    and m: "coins s' \<le> coins (ch_db ch) + unat ?reward" by blast
  show ?thesis
  proof (cases "?reward > max_u64 - ch_supply ch \<or> h_difficulty (hdr b) > max_u64 - ch_cumdiff ch")
    case True
    then show ?thesis using c unfolding connect_block_def Let_def cap by (auto split: if_splits)
  next
    case False
    then have "unat (ch_supply ch + ?reward) = unat (ch_supply ch) + unat ?reward"
      "unat (ch_cumdiff ch + h_difficulty (hdr b)) = unat (ch_cumdiff ch) + unat (h_difficulty (hdr b))"
      by (simp_all add: u64_simps)
    moreover have "ch' = ch\<lparr>ch_db := CommitBlock D (en_crypto E) b (undo\<lparr>undo_reward := ?reward\<rparr>)
          (ch_supply ch + ?reward) (ch_cumdiff ch + h_difficulty (hdr b)) s',
        ch_supply := ch_supply ch + ?reward, ch_cumdiff := ch_cumdiff ch + h_difficulty (hdr b)\<rparr>"
      "r = Inr (undo\<lparr>undo_reward := ?reward\<rparr>)"
      using c False a unfolding connect_block_def Let_def cap by simp_all
    ultimately show ?thesis using a le m by blast
  qed
qed

end

end
