(* ===== verification/ChainRun.thy ===== *)
theory ChainRun
  imports Issuance
begin

text \<open>
  Runs of a chain: what \<open>ProcessBlock\<close> does on a block that extends the tip, and the states
  that are reached from genesis by blocks and restarts.
\<close>

section \<open>Callbacks leave the chain alone\<close>

lemma notify_fields [simp]:
  "ch_db (notify E ev ch) = ch_db ch" "ch_height (notify E ev ch) = ch_height ch"
  "ch_tip (notify E ev ch) = ch_tip ch" "ch_supply (notify E ev ch) = ch_supply ch"
  "ch_cumdiff (notify E ev ch) = ch_cumdiff ch" "ch_tip_time (notify E ev ch) = ch_tip_time ch"
  "ch_max_supply (notify E ev ch) = ch_max_supply ch" "ch_block_reward (notify E ev ch) = ch_block_reward ch"
  "ch_halving (notify E ev ch) = ch_halving ch" "ch_registered (notify E ev ch) = ch_registered ch"
  "ch_genesis (notify E ev ch) = ch_genesis ch"
  "ch_validator_stake (notify E ev ch) = ch_validator_stake ch"
  "ch_allow_minting (notify E ev ch) = ch_allow_minting ch"
  by (simp_all add: notify_def split: option.splits)

lemma notify_all_fields [simp]:
  "ch_db (notify_all E evs ch) = ch_db ch" "ch_height (notify_all E evs ch) = ch_height ch"
  "ch_tip (notify_all E evs ch) = ch_tip ch" "ch_supply (notify_all E evs ch) = ch_supply ch"
  "ch_cumdiff (notify_all E evs ch) = ch_cumdiff ch" "ch_tip_time (notify_all E evs ch) = ch_tip_time ch"
  "ch_max_supply (notify_all E evs ch) = ch_max_supply ch"
  "ch_block_reward (notify_all E evs ch) = ch_block_reward ch"
  "ch_halving (notify_all E evs ch) = ch_halving ch" "ch_registered (notify_all E evs ch) = ch_registered ch"
  "ch_genesis (notify_all E evs ch) = ch_genesis ch"
  "ch_validator_stake (notify_all E evs ch) = ch_validator_stake ch"
  "ch_allow_minting (notify_all E evs ch) = ch_allow_minting ch"
  by (induction evs arbitrary: ch) (simp_all add: notify_all_def)

section \<open>The fast path of ProcessBlock\<close>

text \<open>A block that does not come in as a fork.\<close>

definition no_fork :: "'s env \<Rightarrow> block \<Rightarrow> 's chain \<Rightarrow> bool" where
  "no_fork E b ch \<longleftrightarrow>
     (case b_header b of None \<Rightarrow> True | Some h \<Rightarrow> checkParentLink E ch h \<noteq> Some ErrForkDetected)"

text \<open>What every block has passed when \<open>extend_tip\<close> is called.\<close>

definition accepted_header :: "'s env \<Rightarrow> u64 \<Rightarrow> block \<Rightarrow> 's chain \<Rightarrow> bool" where
  "accepted_header E now b ch \<longleftrightarrow>
     b_header b \<noteq> None \<and> checkParentLink E ch (hdr b) = None \<and>
     \<not> HasBlock (en_db E) (ch_db ch) (BlockHash (en_crypto E) b) \<and>
     verifyDifficulty E ch (hdr b) = None \<and>
     ValidateBlock (en_crypto E) (en_db E) (ch_db ch) (ch_engine ch) b = None \<and>
     check_times E now (hdr b) ch = None \<and> checkSigningLimit E ch (hdr b) = None"

text \<open>No header check reports an error of the UTXO set or of the registration counter.\<close>

lemma checkParentLink_errors:
  "checkParentLink E ch h \<noteq> Some ErrApplyUTXO" "checkParentLink E ch h \<noteq> Some RegistrationOverflow"
  by (auto simp: checkParentLink_def split: option.splits)

lemma header_check_errors:
  assumes "e = ErrApplyUTXO \<or> e = RegistrationOverflow"
  shows "and_then (verifyDifficulty E ch h) (and_then (map_option ConsensusErr c)
     (and_then (check_times E now h ch) (checkSigningLimit E ch h))) \<noteq> Some e"
proof -
  have "verifyDifficulty E ch h \<noteq> Some e" using assms
    by (auto simp: verifyDifficulty_def split: engine.splits option.splits)
  moreover have "map_option ConsensusErr c \<noteq> Some e" using assms by auto
  moreover have "check_times E now h ch \<noteq> Some e" using assms by (auto simp: check_times_def)
  moreover have "checkSigningLimit E ch h \<noteq> Some e"
  proof -
    have "first_error (\<lambda>i. if P i then Some ErrSigningLimitExceeded else None) is \<noteq> Some e" for P and "is" :: "nat list"
      using assms by (induction "is") auto
    then show ?thesis by (auto simp: checkSigningLimit_def split: engine.splits option.splits)
  qed
  ultimately show ?thesis
    by (cases "verifyDifficulty E ch h"; cases c; cases "check_times E now h ch") simp_all
qed

lemma ProcessBlock_no_fork:
  assumes "no_fork E b ch" and "ProcessBlock E now b ch = (ch', r)"
  shows "(ch' = ch \<and> r \<noteq> None \<and> r \<noteq> Some ErrApplyUTXO \<and> r \<noteq> Some RegistrationOverflow) \<or>
    (accepted_header E now b ch \<and> extend_tip E b ch = (ch', r))"
proof (cases "b_header b")
  case None
  then show ?thesis using assms by (auto simp: ProcessBlock_def)
next
  case (Some h)
  have nf: "checkParentLink E ch h \<noteq> Some ErrForkDetected" using assms(1) Some by (simp add: no_fork_def)
  let ?c = "and_then (verifyDifficulty E ch h)
    (and_then (map_option ConsensusErr (ValidateBlock (en_crypto E) (en_db E) (ch_db ch) (ch_engine ch) b))
     (and_then (check_times E now h ch) (checkSigningLimit E ch h)))"
  show ?thesis
  proof (cases "HasBlock (en_db E) (ch_db ch) (BlockHash (en_crypto E) b)")
    case True
    then show ?thesis using assms(2) Some by (auto simp: ProcessBlock_def)
  next
    case new: False
    show ?thesis
    proof (cases "checkParentLink E ch h")
      case (Some e)
      then have "ch' = ch \<and> r = checkParentLink E ch h"
        using assms(2) nf new \<open>b_header b = Some h\<close> by (auto simp: ProcessBlock_def)
      then show ?thesis using Some checkParentLink_errors [of E ch h] by auto
    next
      case None
      then have P: "ProcessBlock E now b ch = (case ?c of Some e \<Rightarrow> (ch, Some e) | None \<Rightarrow> extend_tip E b ch)"
        using new \<open>b_header b = Some h\<close> by (simp add: ProcessBlock_def Let_def)
      show ?thesis
      proof (cases ?c)
        case c: None
        have "accepted_header E now b ch"
          using None new c Some by (simp add: accepted_header_def and_then_None)
        then show ?thesis using assms(2) P c by simp
      next
        case c: (Some e)
        have "(ch, Some e) = (ch', r)" using assms(2) unfolding P c by simp
        moreover have "e \<noteq> ErrApplyUTXO" "e \<noteq> RegistrationOverflow"
          using c header_check_errors [of e E ch h] by blast+
        ultimately show ?thesis by auto
      qed
    qed
  qed
qed

text \<open>No state check reports a failed application either.\<close>

lemma first_error_Some: "first_error f xs = Some e \<Longrightarrow> \<exists>x \<in> set xs. f x = Some e"
  by (induction xs) (auto split: option.splits simp: and_then_def)

lemma validate_fees_errors: "validate_fees E s t ts \<noteq> Inl ErrApplyUTXO"
  by (induction ts arbitrary: t) (auto simp: bindE_def split: sum.splits)

lemma validate_registrations_errors: "validate_registrations E n k outs \<noteq> Inl ErrApplyUTXO"
  by (induction outs arbitrary: k) auto

lemma validateBlockState_errors: "validateBlockState E ch b \<noteq> Inl ErrApplyUTXO"
proof -
  have 1: "check_coinbase_outputs t \<noteq> Some ErrApplyUTXO" for t
    unfolding check_coinbase_outputs_def by (auto dest!: first_error_Some split: if_splits)
  have 2: "check_extra_coinbase ts \<noteq> Some ErrApplyUTXO" for ts
    unfolding check_extra_coinbase_def by (auto dest!: first_error_Some split: if_splits)
  have 3: "checkCoinbaseMaturity U s b \<noteq> Some ErrApplyUTXO" for U and s :: 'a
    unfolding checkCoinbaseMaturity_def check_maturity_input_def
    by (auto dest!: first_error_Some split: if_splits option.splits)
  have 4: "first_error (check_token_rules E ch) zs \<noteq> Some ErrApplyUTXO" for zs
    unfolding check_token_rules_def
    by (auto dest!: first_error_Some simp: and_then_def split: if_splits option.splits)
  have 5: "check_stake_amounts ch ts \<noteq> Some ErrApplyUTXO" for ts
    unfolding check_stake_amounts_def by (auto dest!: first_error_Some split: if_splits)
  show ?thesis
    using 1 2 3 4 5 validate_fees_errors [of E "ch_db ch"] validate_registrations_errors [of E]
    unfolding validateBlockState_def validateRegistrations_def
    by (auto simp: check_def bindE_def Let_def split: list.splits option.splits sum.splits prod.splits)
qed

context chain_env
begin

lemma extend_tip_cases:
  assumes "distinct (spent_outpoints (b_txs b))" and "extend_tip E b ch = (ch', r)"
  obtains (rejected) "ch' = ch" "r \<noteq> None" "r \<noteq> Some ErrApplyUTXO"
  | (connected) n s' undo reward where
      "validateBlockState E ch b = Inr n"
      "applyBlockWithUndo E b (ch_db ch) = (s', Some undo)"
      "reward = computeBlockReward (en_set E) (ch_db ch) b"
      "ch_db ch' = CommitBlock D (en_crypto E) b (undo\<lparr>undo_reward := reward\<rparr>) (ch_supply ch + reward)
        (ch_cumdiff ch + h_difficulty (hdr b)) s'"
      "ch_supply ch' = ch_supply ch + reward" "ch_cumdiff ch' = ch_cumdiff ch + h_difficulty (hdr b)"
      "ch_tip ch' = BlockHash (en_crypto E) b" "ch_height ch' = h_height (hdr b)"
      "ch_tip_time ch' = h_timestamp (hdr b)" "ch_max_supply ch' = ch_max_supply ch"
      "ch_block_reward ch' = ch_block_reward ch" "ch_halving ch' = ch_halving ch"
      "ch_genesis ch' = ch_genesis ch"
      "r = None \<or> r = Some RegistrationOverflow"
      "reward \<le> cap_reward (ch_max_supply ch) (ch_supply ch) (chain_subsidy ch (h_height (hdr b)))"
      "unat (ch_supply ch + reward) = unat (ch_supply ch) + unat reward"
      "unat (ch_cumdiff ch + h_difficulty (hdr b)) = unat (ch_cumdiff ch) + unat (h_difficulty (hdr b))"
      "coins s' \<le> coins (ch_db ch) + unat reward"
proof (cases "validateBlockState E ch b")
  case (Inl e)
  then show ?thesis using assms(2) rejected validateBlockState_errors [of E ch b] by (auto simp: extend_tip_def)
next
  case (Inr n)
  obtain ch1 r1 where c: "connect_block E b ch = (ch1, r1)" by fastforce
  from connect_block_accepted [OF Inr assms(1) c] show ?thesis
  proof (elim disjE exE conjE)
    assume "ch1 = ch" "r1 = Inl SupplyOverflow"
    then show ?thesis using assms(2) Inr c rejected by (auto simp: extend_tip_def)
  next
    assume "ch1 = ch" "r1 = Inl CumDiffOverflow"
    then show ?thesis using assms(2) Inr c rejected by (auto simp: extend_tip_def)
  next
    fix s' and undo :: undo_data and reward
    let ?undo = "undo\<lparr>undo_reward := reward\<rparr>"
    assume a: "applyBlockWithUndo E b (ch_db ch) = (s', Some undo)"
      and rw: "reward = computeBlockReward (en_set E) (ch_db ch) b" and r1: "r1 = Inr ?undo"
      and ch1: "ch1 = ch\<lparr>ch_db := CommitBlock D (en_crypto E) b ?undo (ch_supply ch + reward)
            (ch_cumdiff ch + h_difficulty (hdr b)) s',
          ch_supply := ch_supply ch + reward, ch_cumdiff := ch_cumdiff ch + h_difficulty (hdr b)\<rparr>"
      and le: "reward \<le> cap_reward (ch_max_supply ch) (ch_supply ch) (chain_subsidy ch (h_height (hdr b)))"
        "unat (ch_supply ch + reward) = unat (ch_supply ch) + unat reward"
        "unat (ch_cumdiff ch + h_difficulty (hdr b)) = unat (ch_cumdiff ch) + unat (h_difficulty (hdr b))"
        "coins s' \<le> coins (ch_db ch) + unat reward"
    let ?ch2 = "set_tip_block E b ch1"
    have reg: "addRegisteredSubChains n ?ch2 = Inl RegistrationOverflow \<or>
        (\<exists>k. addRegisteredSubChains n ?ch2 = Inr (?ch2\<lparr>ch_registered := k\<rparr>))"
      by (cases "n = 0") (auto simp: addRegisteredSubChains_def intro: exI [of _ "ch_registered ?ch2"])
    have x: "extend_tip E b ch = (case addRegisteredSubChains n ?ch2 of
           Inl e \<Rightarrow> (?ch2, Some e) | Inr ch3 \<Rightarrow> (notify_all E (connect_events E b ?undo) ch3, None))"
      using Inr c r1 by (simp add: extend_tip_def Let_def)
    show ?thesis
      by (rule connected [OF Inr a rw]; (rule le)?)
        (insert reg assms(2) x, auto simp: ch1 set_tip_block_def)
  qed
qed

end

section \<open>Runs\<close>

text \<open>
  The states a chain goes through from a fresh database: genesis, blocks that do not come in as
  forks, and restarts with the consensus rules of the same genesis. The counter of heights
  does not wrap, and the genesis hash is not the zero hash (which marks an empty chain).
\<close>

definition restart_rules :: "genesis \<Rightarrow> 's chain \<Rightarrow> 's chain" where
  "restart_rules gen ch =
     SetTokenRules (pc_token (gen_protocol gen)) (SetConsensusRules (pc_consensus (gen_protocol gen)) ch)"

inductive run :: "'s env \<Rightarrow> genesis \<Rightarrow> 's \<Rightarrow> 's chain \<Rightarrow> bool" for E gen s0 where
  genesis: "NewChain E eng s0 = Inr ch0 \<Longrightarrow> InitFromGenesis E gen ch0 = Inr ch \<Longrightarrow>
     ch_tip ch \<noteq> 0 \<Longrightarrow> run E gen s0 ch"
| block: "run E gen s0 ch \<Longrightarrow> no_fork E b ch \<Longrightarrow> ch_height ch \<noteq> max_u64 \<Longrightarrow>
     ProcessBlock E now b ch = (ch', r) \<Longrightarrow> run E gen s0 ch'"
| restart: "run E gen s0 ch \<Longrightarrow> NewChain E eng (ch_db ch) = Inr ch1 \<Longrightarrow>
     run E gen s0 (restart_rules gen ch1)"

text \<open>The first invariant: coins, supply, maximum.\<close>

definition supply_sound :: "('s, dbval) kvdb \<Rightarrow> 's chain \<Rightarrow> bool" where
  "supply_sound D ch \<longleftrightarrow>
     total_value (Store_Get D (ch_db ch)) \<le> unat (ch_supply ch) \<and>
     (ch_max_supply ch \<noteq> 0 \<longrightarrow> ch_supply ch \<le> ch_max_supply ch)"

text \<open>The second: the database records the state in memory.\<close>

definition persisted :: "('s, dbval) kvdb \<Rightarrow> 's chain \<Rightarrow> bool" where
  "persisted D ch \<longleftrightarrow>
     GetTip D (ch_db ch) = Inr (ch_tip ch, ch_height ch, ch_supply ch) \<and>
     GetCumulativeDifficulty D (ch_db ch) = ch_cumdiff ch \<and> GetReorgCheckpoint D (ch_db ch) = None"

text \<open>
  The third: the height index is a path of parent links from genesis to the tip, times do not
  decrease along it, and the cumulative difficulty is the sum over it.
\<close>

definition main_path :: "('s, dbval) kvdb \<Rightarrow> crypto \<Rightarrow> 's chain \<Rightarrow> block list \<Rightarrow> bool" where
  "main_path D C ch bs \<longleftrightarrow>
     length bs = Suc (unat (ch_height ch)) \<and> linked_chain C bs \<and> BlockHash C (last bs) = ch_tip ch \<and>
     (\<forall>i < length bs. GetBlockByHeight D (ch_db ch) (word_of_nat i) = Some (bs ! i) \<and>
        kv_get D (ch_db ch) (heightKey (word_of_nat i)) = Some (VBytes (hash_bytes (BlockHash C (bs ! i)))) \<and>
        GetBlock D (ch_db ch) (BlockHash C (bs ! i)) = Some (bs ! i)) \<and>
     sorted (map (\<lambda>b. h_timestamp (hdr b)) bs) \<and>
     unat (ch_cumdiff ch) = sum_u64 (\<lambda>b. h_difficulty (hdr b)) bs \<and>
     ch_tip_time ch = h_timestamp (hdr (last bs)) \<and> ch_genesis ch = BlockHash C (hd bs)"

section \<open>Application stays in its name spaces\<close>

lemma Block_Validate_distinct:
  assumes "Block_Validate C b = None"
  shows "distinct (spent_outpoints (b_txs b))"
proof -
  from assms obtain h where h: "b_header b = Some h" by (auto simp: Block_Validate_def split: option.splits)
  from assms h obtain cb rest where tx: "b_txs b = cb # rest"
    by (auto simp: Block_Validate_def split: list.splits if_splits)
  have "check_block_inputs [] (concat (map tx_inputs (b_txs b))) = None"
    using assms by (simp add: Block_Validate_def h tx Let_def and_then_None if_Some_None)
  then show ?thesis by (simp add: check_block_inputs_None spent_outpoints_def)
qed

context chain_env
begin

lemma view_spend_undo:
  "spend_undo (UtxoStore D) is spent s = (s', r) \<Longrightarrow> \<not> utxo_space k \<Longrightarrow> view s' k = view s k"
  by (induction "UtxoStore D" "is" spent s rule: spend_undo.induct)
    (auto simp: view_outside split: if_splits option.splits)

lemma view_create_outputs:
  "\<not> utxo_space k \<Longrightarrow> view (create_outputs (UtxoStore D) h n cb lk outs s) k = view s k"
proof -
  assume k: "\<not> utxo_space k"
  have "view (fold (us_put (UtxoStore D)) us s) k = view s k" for us
    using k by (induction us arbitrary: s) (simp_all add: view_outside)
  then show ?thesis by (simp add: create_outputs_def)
qed

lemma view_apply_txs:
  "apply_txs E n ets undo s = (s', r) \<Longrightarrow> \<not> utxo_space k \<Longrightarrow> view s' k = view s k"
proof (induction ets arbitrary: undo s)
  case Nil
  then show ?case by simp
next
  case (Cons kt ets)
  obtain j t where kt: "kt = (j, t)" by (cases kt)
  obtain s1 sp where s: "spend_undo (UtxoStore D) (tx_inputs t) (undo_spent undo) s = (s1, sp)" by fastforce
  note v = view_spend_undo [OF s Cons.prems(2)]
  show ?case
  proof (cases sp)
    case None
    then show ?thesis using Cons.prems(1) kt s v by (simp add: Let_def)
  next
    case (Some spent)
    then show ?thesis using Cons.prems kt s v Cons.IH
      by (fastforce simp: Let_def view_create_outputs)
  qed
qed

lemma view_applyBlock:
  "applyBlockWithUndo E b s = (s', r) \<Longrightarrow> \<not> utxo_space k \<Longrightarrow> view s' k = view s k"
  unfolding applyBlockWithUndo_def by (rule view_apply_txs)

end

end
