(* ===== verification/Reach.thy ===== *)
theory Reach
  imports ChainRun
begin

text \<open>
  Invariants of the runs of a chain: supply, persistence, and the path of blocks from genesis
  to the tip.
\<close>

section \<open>Genesis\<close>

lemma sum_map_sort: "sum_list (map f (sort xs)) = sum_list (map (f :: 'a :: linorder \<Rightarrow> nat) xs)"
proof -
  have "mset (map f (sort xs)) = mset (map f xs)" by simp
  then show ?thesis by (metis sum_mset_sum_list)
qed

lemma genesis_outputs_sum:
  "genesis_outputs alloc as = Inr outs \<Longrightarrow>
     sum_u64 out_value outs = sum_list (map (\<lambda>a. unat (case map_of alloc a of None \<Rightarrow> 0 | Some v \<Rightarrow> v)) as)"
  by (induction as arbitrary: outs) (auto simp: bindE_Inr split: sum.splits)

lemma map_of_values:
  assumes "distinct (map fst alloc)"
  shows "map (\<lambda>a. unat (case map_of alloc a of None \<Rightarrow> 0 | Some v \<Rightarrow> v)) (map fst alloc) = map (\<lambda>x. unat (snd x)) alloc"
  using assms by (auto simp: map_of_eq_Some_iff)

lemma alloc_supply_exact: "alloc_supply s xs = Inr t \<Longrightarrow> unat t = unat s + sum_u64 snd xs"
  by (induction s xs rule: alloc_supply.induct) (auto simp: u64_simps split: if_splits)

lemma Genesis_Validate_alloc:
  assumes "Genesis_Validate g = None"
  shows "cr_max_supply (pc_consensus (gen_protocol g)) = 0 \<or>
    sum_u64 snd (gen_alloc g) \<le> unat (cr_max_supply (pc_consensus (gen_protocol g)))"
proof -
  let ?c = "pc_consensus (gen_protocol g)"
  from assms obtain t where t: "alloc_total 0 (gen_alloc g) = Inr t"
    and le: "\<not> (cr_max_supply ?c > 0 \<and> t > cr_max_supply ?c)"
    by (auto simp: Genesis_Validate_def Let_def and_then_None split: if_splits sum.splits)
  from alloc_total_exact [OF t] have "unat t = sum_u64 snd (gen_alloc g)" by simp
  with le show ?thesis by (auto simp: word_gt_0 word_less_nat_alt not_less unat_eq_0)
qed

text \<open>What the genesis block creates.\<close>

lemma CreateGenesisBlock_Inr:
  assumes "CreateGenesisBlock C gen = Inr b" and "distinct (map fst (gen_alloc gen))"
  shows "\<exists>cb h. b = \<lparr>b_header = Some h, b_txs = [cb]\<rparr> \<and> h_height h = 0 \<and> h_difficulty h = 0 \<and>
    isCoinbase cb \<and> sum_u64 out_value (tx_outputs cb) = sum_u64 snd (gen_alloc gen)"
proof -
  let ?a = "gen_alloc gen"
  from assms(1) obtain cb where cb: "buildCoinbaseTx ?a = Inr cb"
    and b: "\<exists>h. b = \<lparr>b_header = Some h, b_txs = [cb]\<rparr> \<and> h_height h = 0 \<and> h_difficulty h = 0"
    by (auto simp: CreateGenesisBlock_def bindE_Inr)
  from cb obtain outs where o: "genesis_outputs ?a (sort (map fst ?a)) = Inr outs"
    and t: "tx_inputs cb = [\<lparr>in_prevout = zero_outpoint, in_sig = [], in_pubkey = []\<rparr>]"
      "outs \<noteq> [] \<Longrightarrow> tx_outputs cb = outs" "outs = [] \<Longrightarrow> sum_u64 out_value (tx_outputs cb) = 0"
    by (auto simp: buildCoinbaseTx_def bindE_Inr)
  have "sum_u64 out_value outs = sum_list (map (\<lambda>a. unat (case map_of ?a a of None \<Rightarrow> 0 | Some v \<Rightarrow> v)) (sort (map fst ?a)))"
    by (rule genesis_outputs_sum [OF o])
  also have "\<dots> = sum_u64 snd ?a"
    unfolding sum_map_sort map_of_values [OF assms(2)] by (simp add: sum_u64_def)
  finally have "sum_u64 out_value (tx_outputs cb) = sum_u64 snd ?a"
    using t by (cases "outs = []") simp_all
  then show ?thesis using b t(1) by (auto simp: isCoinbase_iff)
qed

lemma sorted_snoc: "sorted xs \<Longrightarrow> xs \<noteq> [] \<Longrightarrow> last xs \<le> y \<Longrightarrow> sorted (xs @ [y])"
  by (induction xs) (auto split: if_splits, meson last_in_set order_trans)

context utxo_set
begin

lemma total_puts_le: "total (fold (us_put U) us s) \<le> total s + sum_u64 u_value us"
proof (induction us arbitrary: s)
  case Nil
  then show ?case by simp
next
  case (Cons u us)
  have "total (fold (us_put U) us (us_put U u s)) \<le> total (us_put U u s) + sum_u64 u_value us" by (rule Cons.IH)
  then show ?case using total_put_le [of u s] by simp
qed

lemma total_create_outputs: "total (create_outputs U h n cb lk outs s) \<le> total s + sum_u64 out_value outs"
proof -
  have "sum_u64 u_value (map (output_utxo h n cb lk) (List.enumerate k os)) = sum_u64 out_value os" for k os
    by (induction os arbitrary: k) (simp_all add: output_utxo_def)
  then show ?thesis unfolding create_outputs_def using total_puts_le by metis
qed

end

context chain_env
begin

text \<open>The state of a new chain on a database, and of a chain with its genesis block.\<close>

lemma NewChain_empty:
  assumes "view s0 = Map.empty" and "NewChain E eng s0 = Inr ch0"
  shows "ch_db ch0 = s0 \<and> ch_height ch0 = 0 \<and> ch_tip ch0 = 0 \<and> ch_cumdiff ch0 = 0"
  using assms
  by (auto simp: NewChain_def Let_def GetTip_def GetCumulativeDifficulty_def u64_at_def get
      GetReorgCheckpoint_def bindE_Inr)

lemma InitFromGenesis_fields:
  assumes "InitFromGenesis E gen ch0 = Inr ch" and "distinct (map fst (gen_alloc gen))"
  shows "\<exists>b h cb. b = \<lparr>b_header = Some h, b_txs = [cb]\<rparr> \<and> h_height h = 0 \<and> h_difficulty h = 0 \<and>
    sum_u64 out_value (tx_outputs cb) = sum_u64 snd (gen_alloc gen) \<and>
    ch_db ch = SetTip D (BlockHash (en_crypto E) b) 0 (ch_supply ch)
      (PutBlock D (en_crypto E) b
        (create_outputs (UtxoStore D) (TxHash (en_crypto E) cb) 0 False 0 (tx_outputs cb) (ch_db ch0))) \<and>
    ch_tip ch = BlockHash (en_crypto E) b \<and> ch_height ch = 0 \<and> unat (ch_supply ch) = sum_u64 snd (gen_alloc gen) \<and>
    ch_tip_time ch = h_timestamp h \<and> ch_genesis ch = BlockHash (en_crypto E) b \<and>
    ch_max_supply ch = cr_max_supply (pc_consensus (gen_protocol gen)) \<and>
    ch_block_reward ch = cr_block_reward (pc_consensus (gen_protocol gen)) \<and>
    ch_halving ch = cr_halving_interval (pc_consensus (gen_protocol gen)) \<and>
    ch_cumdiff ch = ch_cumdiff ch0"
proof -
  from assms(1) obtain sup0 where s: "alloc_supply 0 (gen_alloc gen) = Inr sup0"
    by (cases "alloc_supply 0 (gen_alloc gen)") (auto simp: InitFromGenesis_def split: if_splits)
  with assms(1) obtain b where b: "CreateGenesisBlock (en_crypto E) gen = Inr b"
    by (cases "CreateGenesisBlock (en_crypto E) gen") (auto simp: InitFromGenesis_def split: if_splits)
  from CreateGenesisBlock_Inr [OF b assms(2)] obtain cb h where
    bh: "b = \<lparr>b_header = Some h, b_txs = [cb]\<rparr>" "h_height h = 0" "h_difficulty h = 0" "isCoinbase cb"
    and sum: "sum_u64 out_value (tx_outputs cb) = sum_u64 snd (gen_alloc gen)" by blast
  have "spend_inputs U (tx_inputs cb) s = s" for U and s :: 's
    using bh(4) by (auto simp: isCoinbase_iff)
  then have ap: "applyBlock E b s = create_outputs (UtxoStore D) (TxHash (en_crypto E) cb) 0 False 0 (tx_outputs cb) s" for s
    using bh by (simp add: applyBlock_def)
  have "unat sup0 = sum_u64 snd (gen_alloc gen)" using alloc_supply_exact [OF s] by simp
  then show ?thesis
    using assms(1) s b sum bh ap
    by (intro exI [of _ b] exI [of _ h] exI [of _ cb])
       (auto simp: InitFromGenesis_def Let_def split: if_splits)
qed

lemma utxos_SetTip: "utxos (SetTip D h n s st) = utxos st"
  by (simp add: SetTip_def utxos_outside)

lemma utxos_PutBlock: "utxos (PutBlock D C b st) = utxos st"
  by (rule utxos_cong) (auto simp: view_PutBlock)

section \<open>Supply\<close>

text \<open>The outcome of \<open>ProcessBlock\<close> on a block that does not come in as a fork.\<close>

lemma ProcessBlock_cases:
  assumes "no_fork E b ch" and "ProcessBlock E now b ch = (ch', r)"
  obtains (rejected) "ch' = ch" "r \<noteq> None" "r \<noteq> Some ErrApplyUTXO"
  | (connected) s' undo reward where
      "accepted_header E now b ch"
      "applyBlockWithUndo E b (ch_db ch) = (s', Some undo)"
      "ch_db ch' = CommitBlock D (en_crypto E) b (undo\<lparr>undo_reward := reward\<rparr>) (ch_supply ch + reward)
        (ch_cumdiff ch + h_difficulty (hdr b)) s'"
      "ch_supply ch' = ch_supply ch + reward" "ch_cumdiff ch' = ch_cumdiff ch + h_difficulty (hdr b)"
      "ch_tip ch' = BlockHash (en_crypto E) b" "ch_height ch' = h_height (hdr b)"
      "ch_tip_time ch' = h_timestamp (hdr b)" "ch_max_supply ch' = ch_max_supply ch"
      "ch_block_reward ch' = ch_block_reward ch" "ch_halving ch' = ch_halving ch"
      "ch_genesis ch' = ch_genesis ch"
      "r = None \<or> r = Some RegistrationOverflow"
      "reward \<le> cap_reward (ch_max_supply ch) (ch_supply ch) (chain_subsidy ch (h_height (hdr b)))"
      "unat (ch_supply ch + reward) = unat (ch_supply ch) + unat reward"
      "unat (ch_cumdiff ch + h_difficulty (hdr b)) = unat (ch_cumdiff ch) + unat (h_difficulty (hdr b))"
      "coins s' \<le> coins (ch_db ch) + unat reward"
proof (cases "accepted_header E now b ch \<and> extend_tip E b ch = (ch', r)")
  case False
  then show ?thesis using ProcessBlock_no_fork [OF assms] rejected by blast
next
  case True
  then have "Block_Validate (en_crypto E) b = None" by (simp add: accepted_header_def ValidateBlock_None)
  from Block_Validate_distinct [OF this] True show ?thesis
    by (auto elim!: extend_tip_cases intro: rejected connected)
qed

lemma coins_CommitBlock: "coins (CommitBlock D C b undo n cd s) = coins s"
  by (simp add: Store_Get_utxos CommitBlock_reads)

lemma supply_sound_reward:
  assumes "supply_sound D ch" and "reward \<le> cap_reward (ch_max_supply ch) (ch_supply ch) subsidy"
    and "unat (ch_supply ch + reward) = unat (ch_supply ch) + unat reward" and "coins s' \<le> coins (ch_db ch) + unat reward"
  shows "coins s' \<le> unat (ch_supply ch + reward)" "ch_max_supply ch \<noteq> 0 \<Longrightarrow> ch_supply ch + reward \<le> ch_max_supply ch"
proof -
  show "coins s' \<le> unat (ch_supply ch + reward)" using assms by (simp add: supply_sound_def)
  assume m: "ch_max_supply ch \<noteq> 0"
  have "unat (ch_supply ch) + unat (cap_reward (ch_max_supply ch) (ch_supply ch) subsidy) \<le> unat (ch_max_supply ch)"
    using m assms(1) by (intro cap_reward_max) (auto simp: supply_sound_def word_gt_0)
  then show "ch_supply ch + reward \<le> ch_max_supply ch" using assms(2,3) by (simp add: word_le_nat_alt)
qed

lemma supply_sound_step:
  assumes "no_fork E b ch" and "ProcessBlock E now b ch = (ch', r)" and s: "supply_sound D ch"
  shows "supply_sound D ch'"
  using assms(1,2)
proof (cases rule: ProcessBlock_cases)
  case rejected
  then show ?thesis using s by simp
next
  case (connected s' undo reward)
  from supply_sound_reward [OF s connected(14,15,17)] show ?thesis
    using connected by (simp add: supply_sound_def coins_CommitBlock)
qed

lemma supply_sound_genesis:
  assumes "view (ch_db ch0) = Map.empty" and "InitFromGenesis E gen ch0 = Inr ch"
    and "distinct (map fst (gen_alloc gen))" and "Genesis_Validate gen = None"
  shows "supply_sound D ch"
proof -
  from InitFromGenesis_fields [OF assms(2,3)] obtain b h cb where
    sum: "sum_u64 out_value (tx_outputs cb) = sum_u64 snd (gen_alloc gen)"
    and db: "ch_db ch = SetTip D (BlockHash (en_crypto E) b) 0 (ch_supply ch) (PutBlock D (en_crypto E) b
        (create_outputs (UtxoStore D) (TxHash (en_crypto E) cb) 0 False 0 (tx_outputs cb) (ch_db ch0)))"
    and sup: "unat (ch_supply ch) = sum_u64 snd (gen_alloc gen)"
    and m: "ch_max_supply ch = cr_max_supply (pc_consensus (gen_protocol gen))" by blast
  have "coins (ch_db ch0) = 0" using assms(1) by (simp add: Store_Get_utxos total_value_def utxos_of_def dom_def)
  then have "coins (ch_db ch) \<le> unat (ch_supply ch)"
    using set.total_create_outputs [of "TxHash (en_crypto E) cb" 0 False 0 "tx_outputs cb" "ch_db ch0"] sum sup
    unfolding db by (simp add: Store_Get_utxos utxos_SetTip utxos_PutBlock)
  moreover have "ch_max_supply ch \<noteq> 0 \<longrightarrow> ch_supply ch \<le> ch_max_supply ch"
    using Genesis_Validate_alloc [OF assms(4)] sup m by (auto simp: word_le_nat_alt)
  ultimately show ?thesis by (simp add: supply_sound_def)
qed

section \<open>Persistence and the path\<close>

text \<open>What connecting a new block does to the rest of the store.\<close>

lemma connected_view:
  assumes "applyBlockWithUndo E b s = (s', r)" and "\<not> utxo_space k"
    and "k \<notin> {keyCumDifficulty, keySupply, keyHeight, keyTipHash, undoKey (BlockHash C b),
      heightKey (h_height (hdr b)), blockKey (BlockHash C b)}" and "k \<notin> range txKey"
  shows "view (CommitBlock D C b undo n cd s') k = view s k"
  using assms(3,4) view_applyBlock [OF assms(1,2)] by (auto simp: view_CommitBlock_cases)

lemma persisted_step:
  assumes "no_fork E b ch" and "ProcessBlock E now b ch = (ch', r)" and p: "persisted D ch"
  shows "persisted D ch'"
  using assms(1,2)
proof (cases rule: ProcessBlock_cases)
  case rejected
  then show ?thesis using p by simp
next
  case (connected s' undo reward)
  have "view (ch_db ch') keyReorgCheckpoint = view (ch_db ch) keyReorgCheckpoint"
    unfolding connected(3) by (rule connected_view [OF connected(2)]) auto
  then show ?thesis
    using p connected by (simp add: persisted_def CommitBlock_reads GetReorgCheckpoint_def u64_at_def get)
qed

lemma GetBlockByHeight_via:
  assumes "kv_get D s (heightKey n) = Some (VBytes (hash_bytes h))"
  shows "GetBlockByHeight D s n = GetBlock D s h"
  using assms by (simp add: GetBlockByHeight_def)

text \<open>A block that passes the parent check of a chain with genesis is the next one.\<close>

lemma accepted_next:
  assumes "accepted_header E now b ch" and "\<not> chain_is_genesis ch"
  shows "h_prev (hdr b) = ch_tip ch \<and> h_height (hdr b) = ch_height ch + 1"
  using assms by (auto simp: accepted_header_def checkParentLink_def split: if_splits option.splits)

lemma linked_heights:
  assumes "linked_chain C bs" and "i < length bs"
  shows "h_height (hdr (bs ! i)) = word_of_nat i"
  using assms by (simp add: linked_chain_def)

lemma main_path_step:
  assumes "no_fork E b ch" and "ProcessBlock E now b ch = (ch', r)"
    and m: "main_path D (en_crypto E) ch bs" and g: "\<not> chain_is_genesis ch" and w: "ch_height ch \<noteq> max_u64"
  shows "ch' = ch \<or> main_path D (en_crypto E) ch' (bs @ [b])"
  using assms(1,2)
proof (cases rule: ProcessBlock_cases)
  case rejected
  then show ?thesis by simp
next
  case (connected s' undo reward)
  let ?C = "en_crypto E" and ?db = "ch_db ch'"
  note nx = accepted_next [OF connected(1) g]
  have len: "length bs = Suc (unat (ch_height ch))" and lk: "linked_chain ?C bs"
    and lt: "BlockHash ?C (last bs) = ch_tip ch"
    and at: "\<And>i. i < length bs \<Longrightarrow> kv_get D (ch_db ch) (heightKey (word_of_nat i)) = Some (VBytes (hash_bytes (BlockHash ?C (bs ! i)))) \<and>
        GetBlock D (ch_db ch) (BlockHash ?C (bs ! i)) = Some (bs ! i)"
    using m by (auto simp: main_path_def)
  have ne: "bs \<noteq> []" using len by auto
  have big: "Suc (unat (ch_height ch)) < 2 ^ 64"
    using w unat_u64_less [of "ch_height ch"] unat_max_u64 by (simp add: word_unat_eq_iff)
  have hn: "h_height (hdr b) = word_of_nat (length bs)" using nx len by simp
  have uh: "unat (h_height (hdr b)) = length bs" unfolding hn unat_of_nat using big len by simp
  have new: "BlockHash ?C (bs ! i) \<noteq> BlockHash ?C b" if "i < length bs" for i
    using at [OF that] connected(1) by (auto simp: accepted_header_def HasBlock_def has GetBlock_def get)
  have old: "kv_get D ?db (heightKey (word_of_nat i)) = Some (VBytes (hash_bytes (BlockHash ?C (bs ! i)))) \<and>
      GetBlock D ?db (BlockHash ?C (bs ! i)) = Some (bs ! i)" if i: "i < length bs" for i
  proof -
    have "unat (word_of_nat i :: u64) = i" using i big len by (simp add: unat_of_nat)
    then have "(word_of_nat i :: u64) \<noteq> h_height (hdr b)" using uh i by auto
    then have 1: "view ?db (heightKey (word_of_nat i)) = view (ch_db ch) (heightKey (word_of_nat i))"
      unfolding connected(3) by (intro connected_view [OF connected(2)]) auto
    have 2: "view ?db (blockKey (BlockHash ?C (bs ! i))) = view (ch_db ch) (blockKey (BlockHash ?C (bs ! i)))"
      unfolding connected(3) using new [OF i] by (intro connected_view [OF connected(2)]) auto
    show ?thesis using at [OF i] 1 2 by (simp add: get GetBlock_def)
  qed
  have this': "kv_get D ?db (heightKey (h_height (hdr b))) = Some (VBytes (hash_bytes (BlockHash ?C b)))"
    "GetBlock D ?db (BlockHash ?C b) = Some b"
    unfolding connected(3) by (auto simp: get view_CommitBlock_cases CommitBlock_reads)
  have "\<forall>i < length (bs @ [b]).
      kv_get D ?db (heightKey (word_of_nat i)) = Some (VBytes (hash_bytes (BlockHash ?C ((bs @ [b]) ! i)))) \<and>
      GetBlock D ?db (BlockHash ?C ((bs @ [b]) ! i)) = Some ((bs @ [b]) ! i)"
    using old this' hn by (auto simp: nth_append less_Suc_eq)
  then have ix: "\<forall>i < length (bs @ [b]). GetBlockByHeight D ?db (word_of_nat i) = Some ((bs @ [b]) ! i) \<and>
      kv_get D ?db (heightKey (word_of_nat i)) = Some (VBytes (hash_bytes (BlockHash ?C ((bs @ [b]) ! i)))) \<and>
      GetBlock D ?db (BlockHash ?C ((bs @ [b]) ! i)) = Some ((bs @ [b]) ! i)"
    by (auto simp: GetBlockByHeight_via)
  have "linked_chain ?C (bs @ [b])" using linked_chain_snoc [OF lk hn] nx lt by simp
  moreover have "GetBlock D (ch_db ch) (h_prev (hdr b)) = Some (last bs)"
    using at [of "length bs - 1"] ne nx lt by (simp add: last_conv_nth)
  then have "h_timestamp (hdr (last bs)) \<le> h_timestamp (hdr b)"
    using connected(1) uh ne by (auto simp: accepted_header_def check_times_def word_gt_0 unat_eq_0 split: if_splits)
  then have "sorted (map (\<lambda>b. h_timestamp (hdr b)) (bs @ [b]))"
    using m ne sorted_snoc [of "map (\<lambda>b. h_timestamp (hdr b)) bs" "h_timestamp (hdr b)"]
    by (simp add: main_path_def last_map)
  moreover have "unat (ch_cumdiff ch') = sum_u64 (\<lambda>b. h_difficulty (hdr b)) (bs @ [b])"
    using m connected by (simp add: main_path_def)
  moreover have "length (bs @ [b]) = Suc (unat (ch_height ch'))" using connected(7) uh by simp
  ultimately show ?thesis
    using ix connected m ne by (simp add: main_path_def hd_append)
qed

section \<open>The invariant\<close>

text \<open>Restarting recovers what was persisted.\<close>

lemma NewChain_persisted:
  assumes p: "persisted D ch" and m: "main_path D (en_crypto E) ch bs" and n: "NewChain E eng (ch_db ch) = Inr ch1"
  shows "ch_db ch1 = ch_db ch \<and> ch_tip ch1 = ch_tip ch \<and> ch_height ch1 = ch_height ch \<and>
    ch_supply ch1 = ch_supply ch \<and> ch_cumdiff ch1 = ch_cumdiff ch \<and> ch_tip_time ch1 = ch_tip_time ch \<and>
    ch_genesis ch1 = ch_genesis ch"
proof -
  have len: "bs \<noteq> []" "length bs - 1 < length bs" using m by (auto simp: main_path_def)
  then have "GetBlock D (ch_db ch) (ch_tip ch) = Some (last bs)"
    using m by (auto simp: main_path_def last_conv_nth)
  moreover have "GetBlockByHeight D (ch_db ch) 0 = Some (hd bs)"
    using m len by (auto simp: main_path_def hd_conv_nth dest!: spec [of _ 0])
  ultimately show ?thesis
    using n p m by (auto simp: NewChain_def Let_def bindE_Inr persisted_def main_path_def)
qed

lemma restart_rules_fields [simp]:
  "ch_db (restart_rules gen ch) = ch_db ch" "ch_tip (restart_rules gen ch) = ch_tip ch"
  "ch_height (restart_rules gen ch) = ch_height ch" "ch_supply (restart_rules gen ch) = ch_supply ch"
  "ch_cumdiff (restart_rules gen ch) = ch_cumdiff ch" "ch_tip_time (restart_rules gen ch) = ch_tip_time ch"
  "ch_genesis (restart_rules gen ch) = ch_genesis ch"
  "ch_max_supply (restart_rules gen ch) = cr_max_supply (pc_consensus (gen_protocol gen))"
  "ch_block_reward (restart_rules gen ch) = cr_block_reward (pc_consensus (gen_protocol gen))"
  "ch_halving (restart_rules gen ch) = cr_halving_interval (pc_consensus (gen_protocol gen))"
  by (simp_all add: restart_rules_def SetTokenRules_def SetConsensusRules_def)

lemma genesis_path:
  assumes "view s0 = Map.empty" and n: "NewChain E eng s0 = Inr ch0" and i: "InitFromGenesis E gen ch0 = Inr ch"
    and d: "distinct (map fst (gen_alloc gen))"
  shows "persisted D ch \<and> (\<exists>b. main_path D (en_crypto E) ch [b])"
proof -
  note n0 = NewChain_empty [OF assms(1) n]
  from InitFromGenesis_fields [OF i d] obtain b h cb where b: "b = \<lparr>b_header = Some h, b_txs = [cb]\<rparr>"
    "h_height h = 0" "h_difficulty h = 0"
    and db: "ch_db ch = SetTip D (BlockHash (en_crypto E) b) 0 (ch_supply ch) (PutBlock D (en_crypto E) b
        (create_outputs (UtxoStore D) (TxHash (en_crypto E) cb) 0 False 0 (tx_outputs cb) (ch_db ch0)))"
    and f: "ch_tip ch = BlockHash (en_crypto E) b" "ch_height ch = 0" "ch_tip_time ch = h_timestamp h"
      "ch_genesis ch = BlockHash (en_crypto E) b" "ch_cumdiff ch = ch_cumdiff ch0" by blast
  let ?C = "en_crypto E" and ?db = "ch_db ch"
  have other: "view ?db k = None" if "\<not> utxo_space k" "k \<notin> {keyTipHash, keyHeight, keySupply}"
    "k \<noteq> heightKey 0" "k \<noteq> blockKey (BlockHash ?C b)" "k \<notin> range txKey" for k
    using that assms(1) n0 b by (auto simp: db SetTip_def put view_PutBlock view_create_outputs)
  have "GetTip D ?db = Inr (ch_tip ch, ch_height ch, ch_supply ch)"
    unfolding f(1,2) by (simp add: db GetTip_def get SetTip_def put)
  moreover have "view ?db keyCumDifficulty = None" "view ?db keyReorgCheckpoint = None"
    by (rule other; auto)+
  ultimately have "persisted D ch"
    using f(5) n0 by (simp add: persisted_def GetCumulativeDifficulty_def GetReorgCheckpoint_def u64_at_def get)
  moreover have "kv_get D ?db (heightKey 0) = Some (VBytes (hash_bytes (BlockHash ?C b)))"
    "GetBlock D ?db (BlockHash ?C b) = Some b"
    using b by (auto simp: db SetTip_def put get view_PutBlock GetBlock_def)
  then have "main_path D ?C ch [b]"
    using f n0 b GetBlockByHeight_via by (auto simp: main_path_def linked_chain_def)
  ultimately show ?thesis by blast
qed

lemma run_invariant:
  assumes "run E gen s0 ch" and s0: "view s0 = Map.empty" and d: "distinct (map fst (gen_alloc gen))"
    and v: "Genesis_Validate gen = None"
  shows "supply_sound D ch \<and> persisted D ch \<and> \<not> chain_is_genesis ch \<and>
    ch_max_supply ch = cr_max_supply (pc_consensus (gen_protocol gen)) \<and>
    (\<exists>bs. main_path D (en_crypto E) ch bs)"
  using assms(1)
proof (induction rule: run.induct)
  case (genesis eng ch0 ch)
  then show ?case
    using genesis_path [OF s0 genesis(1,2) d] supply_sound_genesis [OF _ genesis(2) d v] s0
      NewChain_empty [OF s0 genesis(1)] InitFromGenesis_fields [OF genesis(2) d]
    by (auto simp: chain_is_genesis_def is_zero_hash_def)
next
  case (block ch b now ch' r)
  then obtain bs where m: "main_path D (en_crypto E) ch bs" and g: "\<not> chain_is_genesis ch" by blast
  have mx: "ch_max_supply ch' = ch_max_supply ch"
    using block.hyps(2,4) by (cases rule: ProcessBlock_cases) auto
  consider "ch' = ch" | "main_path D (en_crypto E) ch' (bs @ [b])"
    using main_path_step [OF block.hyps(2,4) m g block.hyps(3)] by blast
  then show ?case
  proof cases
    case 1
    then show ?thesis using block by simp
  next
    case 2
    then have "ch_height ch' \<noteq> 0" using m by (auto simp: main_path_def)
    then show ?thesis
      using 2 mx block supply_sound_step [OF block.hyps(2,4)] persisted_step [OF block.hyps(2,4)]
      by (auto simp: chain_is_genesis_def)
  qed
next
  case (restart ch eng ch1)
  then obtain bs where m: "main_path D (en_crypto E) ch bs" and p: "persisted D ch" by blast
  note f = NewChain_persisted [OF p m restart.hyps(2)]
  have "main_path D (en_crypto E) (restart_rules gen ch1) bs" using m f by (simp add: main_path_def)
  then show ?case using restart f by (auto simp: supply_sound_def persisted_def chain_is_genesis_def)
qed

end

end
