(* ===== verification/Demo.thy ===== *)
theory Demo
  imports Reach
begin

text \<open>
  A concrete chain, on which the theorems about chains are applied: proof of work with
  difficulty 1, and a hash function that maps the bytes of a header to its height plus 1.
\<close>

definition demo_crypto :: crypto where
  "demo_crypto = toy_crypto\<lparr>blake3_sum256 :=
     (\<lambda>bs. word_of_nat (Suc (unat (le_word (take 8 (drop 76 bs)) :: u64))))\<rparr>"

definition demo_engine :: engine where
  "demo_engine = EnginePoW \<lparr>pow_initial = 1, pow_adjust = 0, pow_block_time = 3,
     pow_difficulty_fn = None, pow_threads = 1\<rparr>"

definition demo_env :: "dbval memory_db env" where
  "demo_env = env_on MemoryDB demo_crypto None (\<lambda>_. None)"

definition demo_new :: "dbval memory_db chain" where
  "demo_new = (case NewChain demo_env demo_engine DAList.empty of Inr ch \<Rightarrow> ch)"

definition demo_genesis_block :: block where
  "demo_genesis_block = (case CreateGenesisBlock demo_crypto demo_genesis of Inr b \<Rightarrow> b)"

definition demo_start :: "dbval memory_db chain" where
  "demo_start = (case InitFromGenesis demo_env demo_genesis demo_new of Inr ch \<Rightarrow> ch)"

definition demo_first :: block where
  "demo_first = \<lparr>b_header = Some \<lparr>h_version = 1, h_prev = 1,
       h_merkle = TxHash demo_crypto demo_coinbase, h_timestamp = 1770734110, h_height = 1,
       h_difficulty = 1, h_nonce = 0, h_sig = []\<rparr>,
     b_txs = [demo_coinbase]\<rparr>"

definition demo_chain :: "dbval memory_db chain" where
  "demo_chain = fst (ProcessBlock demo_env 1770734110 demo_first demo_start)"

lemma demo_hash_header: "HeaderHash demo_crypto h = word_of_nat (Suc (unat (h_height h)))"
  by (simp add: HeaderHash_def Hash_def demo_crypto_def HeaderSigningBytes_def le_word_le_bytes)

lemma demo_env_simps [simp]:
  "en_crypto demo_env = demo_crypto" "en_db demo_env = MemoryDB" "en_set demo_env = UtxoStore MemoryDB"
  "en_registration_ok demo_env = None" "en_handler demo_env ev = None"
  by (simp_all add: demo_env_def env_on_def)

lemma demo_new_Inr: "NewChain demo_env demo_engine DAList.empty = Inr demo_new"
proof -
  have "case NewChain demo_env demo_engine DAList.empty of Inl _ \<Rightarrow> False | Inr _ \<Rightarrow> True"
    by code_simp
  then show ?thesis by (simp add: demo_new_def split: sum.splits)
qed

lemma demo_genesis_Inr: "CreateGenesisBlock demo_crypto demo_genesis = Inr demo_genesis_block"
proof -
  have "case ParseAddress ''00000000000000000000000000000000000000aa'' of Inl _ \<Rightarrow> False | Inr _ \<Rightarrow> True"
    by code_simp
  then have "case CreateGenesisBlock demo_crypto demo_genesis of Inl _ \<Rightarrow> False | Inr _ \<Rightarrow> True"
    by (auto simp: CreateGenesisBlock_def buildCoinbaseTx_def demo_genesis_def split: sum.splits)
  then show ?thesis by (simp add: demo_genesis_block_def split: sum.splits)
qed

lemma demo_new_fields [simp]:
  "ch_db demo_new = DAList.empty" "ch_height demo_new = 0" "ch_tip demo_new = 0" "ch_cumdiff demo_new = 0"
  "ch_engine demo_new = demo_engine"
proof -
  have "DAList.lookup DAList.empty = (Map.empty :: bytes \<rightharpoonup> dbval)" by (simp add: fun_eq_iff)
  from root_chain.NewChain_empty [OF this demo_new_Inr [unfolded demo_env_def]]
  show "ch_db demo_new = DAList.empty" "ch_height demo_new = 0" "ch_tip demo_new = 0" "ch_cumdiff demo_new = 0"
    by simp_all
  have r: "GetReorgCheckpoint MemoryDB DAList.empty = None"
    by (simp add: GetReorgCheckpoint_def u64_at_def mem.get)
  have "ch_engine ch = e" if "NewChain demo_env e DAList.empty = Inr ch" for e ch
  proof (cases "GetTip MemoryDB DAList.empty")
    case (Inl x)
    then show ?thesis using that by (simp add: NewChain_def Let_def)
  next
    case (Inr x)
    obtain tip n sup0 where "x = (tip, n, sup0)" by (cases x)
    then show ?thesis using that Inr r by (auto simp: NewChain_def Let_def bindE_Inr)
  qed
  from this [OF demo_new_Inr] show "ch_engine demo_new = demo_engine" .
qed

lemma demo_genesis_obtain:
  obtains cb where "b_txs demo_genesis_block = [cb]" "h_height (hdr demo_genesis_block) = 0"
    "h_timestamp (hdr demo_genesis_block) = 1770734103" "b_header demo_genesis_block = Some (hdr demo_genesis_block)"
    "tx_inputs cb = [\<lparr>in_prevout = zero_outpoint, in_sig = [], in_pubkey = []\<rparr>]"
    "length (tx_outputs cb) = 1"
proof -
  obtain cb where c: "buildCoinbaseTx (gen_alloc demo_genesis) = Inr cb"
    and e: "demo_genesis_block = \<lparr>b_header = Some \<lparr>h_version = CurrentVersion, h_prev = 0,
      h_merkle = ComputeMerkleRoot demo_crypto [TxHash demo_crypto cb], h_timestamp = gen_timestamp demo_genesis,
      h_height = 0, h_difficulty = 0, h_nonce = 0, h_sig = []\<rparr>, b_txs = [cb]\<rparr>"
    using demo_genesis_Inr by (auto simp: CreateGenesisBlock_def bindE_Inr eq_commute [of _ demo_genesis_block])
  have "tx_inputs cb = [\<lparr>in_prevout = zero_outpoint, in_sig = [], in_pubkey = []\<rparr>]"
    using c by (auto simp: buildCoinbaseTx_def bindE_Inr)
  moreover have "length (tx_outputs cb) = 1"
    using c by (auto simp: buildCoinbaseTx_def bindE_Inr demo_genesis_def split: sum.splits)
  ultimately show thesis by (intro that [of cb]) (simp_all add: e demo_genesis_def)
qed

lemma demo_genesis_time: "h_timestamp (hdr demo_genesis_block) = 1770734103"
  by (rule demo_genesis_obtain)

lemma demo_genesis_hash: "BlockHash demo_crypto demo_genesis_block = 1"
proof -
  obtain cb where "h_height (hdr demo_genesis_block) = 0" "b_header demo_genesis_block = Some (hdr demo_genesis_block)"
    by (rule demo_genesis_obtain)
  then show ?thesis by (metis (no_types) BlockHash_def demo_hash_header option.simps(5) unsigned_0 of_nat_1 One_nat_def)
qed

lemma demo_start_Inr: "InitFromGenesis demo_env demo_genesis demo_new = Inr demo_start"
  and demo_start_fields [simp]:
    "ch_db demo_start = SetTip MemoryDB 1 0 900 (PutBlock MemoryDB demo_crypto demo_genesis_block
       (applyBlock demo_env demo_genesis_block DAList.empty))"
    "ch_tip demo_start = 1" "ch_height demo_start = 0" "ch_supply demo_start = 900" "ch_cumdiff demo_start = 0"
    "ch_engine demo_start = demo_engine" "ch_max_supply demo_start = 1000" "ch_block_reward demo_start = 20"
    "ch_halving demo_start = 0" "ch_validator_stake demo_start = 5" "ch_registered demo_start = 0"
    "ch_tip_time demo_start = 1770734103"
proof -
  have "alloc_supply 0 (gen_alloc demo_genesis) = Inr 900"
    by (simp add: demo_genesis_def)
  then have i: "InitFromGenesis demo_env demo_genesis demo_new = Inr (demo_new\<lparr>
      ch_db := SetTip MemoryDB 1 0 900 (PutBlock MemoryDB demo_crypto demo_genesis_block
       (applyBlock demo_env demo_genesis_block DAList.empty)),
      ch_tip := 1, ch_height := 0, ch_supply := 900, ch_tip_time := h_timestamp (hdr demo_genesis_block),
      ch_genesis := 1, ch_max_supply := 1000, ch_block_reward := 20, ch_halving := 0,
      ch_validator_stake := 5, ch_allow_minting := True, ch_registered := 0\<rparr>)"
    by (simp add: InitFromGenesis_def demo_genesis_Inr demo_genesis_hash chain_is_genesis_def is_zero_hash_def Let_def)
       (simp add: demo_genesis_def demo_consensus_rules_def)
  then show "InitFromGenesis demo_env demo_genesis demo_new = Inr demo_start" by (simp add: demo_start_def)
  from i show "ch_db demo_start = SetTip MemoryDB 1 0 900 (PutBlock MemoryDB demo_crypto demo_genesis_block
       (applyBlock demo_env demo_genesis_block DAList.empty))"
    "ch_tip demo_start = 1" "ch_height demo_start = 0" "ch_supply demo_start = 900" "ch_cumdiff demo_start = 0"
    "ch_engine demo_start = demo_engine" "ch_max_supply demo_start = 1000" "ch_block_reward demo_start = 20"
    "ch_halving demo_start = 0" "ch_validator_stake demo_start = 5" "ch_registered demo_start = 0"
    "ch_tip_time demo_start = 1770734103"
    by (simp_all add: demo_start_def demo_genesis_time)
qed

lemma demo_run_start: "run demo_env demo_genesis DAList.empty demo_start"
  by (rule run.genesis [OF demo_new_Inr demo_start_Inr]) simp

section \<open>The first block\<close>

lemma demo_first_hash: "BlockHash demo_crypto demo_first = 2"
  by (simp add: BlockHash_def demo_hash_header demo_first_def)

lemma demo_view_other:
  assumes "\<not> utxo_space k" and "k \<notin> {keyTipHash, keyHeight, keySupply, heightKey 0, blockKey 1}" and "k \<notin> range txKey"
  shows "DAList.lookup (ch_db demo_start) k = None"
proof -
  obtain cb where cb: "b_txs demo_genesis_block = [cb]" "h_height (hdr demo_genesis_block) = 0"
    and i: "tx_inputs cb = [\<lparr>in_prevout = zero_outpoint, in_sig = [], in_pubkey = []\<rparr>]"
    by (rule demo_genesis_obtain)
  have "spend_inputs (UtxoStore MemoryDB) (tx_inputs cb) s = s" for s by (simp add: i)
  then have "DAList.lookup (applyBlock demo_env demo_genesis_block DAList.empty) k = None"
    using assms(1) cb by (simp add: applyBlock_def root_chain.view_create_outputs)
  then show ?thesis
    using assms(2,3) cb by (auto simp: SetTip_def mem.put mem.view_PutBlock demo_genesis_hash)
qed

lemma demo_start_genesis_block: "GetBlock MemoryDB (ch_db demo_start) 1 = Some demo_genesis_block"
  by (auto simp: GetBlock_def mem.get SetTip_def mem.put mem.view_PutBlock demo_genesis_hash)

lemma demo_first_valid: "Block_Validate demo_crypto demo_first = None"
  by (simp add: demo_first_def coinbase_block_valid)

lemma demo_first_accepted: "accepted_header demo_env 1770734110 demo_first demo_start"
proof -
  have "\<not> HasBlock MemoryDB (ch_db demo_start) 2"
    using demo_view_other [of "blockKey 2"]
    by (auto simp: HasBlock_def mem.has image_iff simp del: demo_start_fields)
  moreover have "checkParentLink demo_env demo_start (hdr demo_first) = None"
    by (simp add: checkParentLink_def chain_is_genesis_def is_zero_hash_def demo_first_def)
  moreover have "verifyDifficulty demo_env demo_start (hdr demo_first) = None"
    by (simp add: verifyDifficulty_def demo_engine_def VerifyDifficulty_def ExpectedDifficulty_def demo_first_def)
  moreover have "HeaderHash demo_crypto (hdr demo_first) = 2" by (simp add: demo_hash_header demo_first_def)
  then have "PoW_VerifyHeader demo_crypto (hdr demo_first) = None"
    by (simp add: PoW_VerifyHeader_def pow_target_def HeaderHash_def demo_first_def maxUint256_def)
  then have "ValidateBlock demo_crypto MemoryDB (ch_db demo_start) demo_engine demo_first = None"
    using demo_first_valid
    by (simp add: ValidateBlock_None Engine_VerifyHeader_def demo_engine_def) (simp add: demo_first_def)
  moreover have "check_times demo_env 1770734110 (hdr demo_first) demo_start = None"
    using demo_start_genesis_block demo_genesis_time
    by (simp add: check_times_def demo_first_def del: demo_start_fields)
  moreover have "checkSigningLimit demo_env demo_start (hdr demo_first) = None"
    by (simp add: checkSigningLimit_def demo_engine_def)
  ultimately show ?thesis by (simp add: accepted_header_def demo_first_hash) (simp add: demo_first_def)
qed

text \<open>The block passes the state check and is connected.\<close>

lemma demo_first_state: "validateBlockState demo_env demo_start demo_first = Inr 0"
proof -
  have ins: "concat (map tx_inputs (b_txs demo_first)) =
      [\<lparr>in_prevout = zero_outpoint, in_sig = [1, 0, 0, 0, 0, 0, 0, 0], in_pubkey = []\<rparr>]"
    by (simp add: demo_first_def demo_coinbase_def)
  have "checkCoinbaseMaturity U s demo_first = None" for U and s :: "dbval memory_db"
    unfolding checkCoinbaseMaturity_def ins by (simp add: check_maturity_input_def)
  moreover have "validateRegistrations demo_env demo_start demo_first = Inr 0"
    by (simp add: validateRegistrations_def demo_first_def demo_coinbase_def is_register_def demo_script_def)
  moreover have "cap_reward 1000 900 (chain_subsidy demo_start (h_height (hdr demo_first))) = 20"
    by (simp add: chain_subsidy_def BlockSubsidy_def cap_reward_def demo_first_def)
  moreover have "isCoinbase demo_coinbase" "check_coinbase_outputs demo_coinbase = None"
    "TotalOutputValue demo_coinbase = Inr 20" "b_txs demo_first = [demo_coinbase]"
    by (simp_all add: demo_coinbase_def isCoinbase_def check_coinbase_outputs_def demo_script_def
        TotalOutputValue_def demo_first_def)
  ultimately show ?thesis
    by (simp add: validateBlockState_def check_extra_coinbase_def check_stake_amounts_def Let_def
        del: demo_start_fields(1))
qed

lemma demo_connect:
  "\<exists>s' undo. connect_block demo_env demo_first demo_start =
     (demo_start\<lparr>ch_db := CommitBlock MemoryDB demo_crypto demo_first undo 920 1 s',
        ch_supply := 920, ch_cumdiff := 1\<rparr>, Inr undo)"
proof -
  have b: "b_txs demo_first = [demo_coinbase]" "TotalOutputValue demo_coinbase = Inr 20" "tx_outputs demo_coinbase \<noteq> []"
    by (simp_all add: demo_first_def demo_coinbase_def TotalOutputValue_def)
  then have rw: "computeBlockReward (en_set demo_env) s demo_first = 20" for s
    by (simp add: computeBlockReward_def)
  have d: "h_difficulty (hdr demo_first) = 1" by (simp add: demo_first_def)
  have "distinct (spent_outpoints (b_txs demo_first))"
    by (rule Block_Validate_distinct [OF demo_first_valid])
  then obtain s' undo where ap: "applyBlockWithUndo demo_env demo_first (ch_db demo_start) = (s', Some undo)"
    using root_chain.applyBlock_accepted demo_first_state unfolding demo_env_def by blast
  have cap: "cap_reward 1000 900 20 = 20" by (simp add: cap_reward_def)
  show ?thesis using ap unfolding connect_block_def rw by (simp add: cap d Let_def del: demo_start_fields(1)) blast
qed

lemma demo_first_connected:
  "\<exists>ch. ProcessBlock demo_env 1770734110 demo_first demo_start = (ch, None) \<and> ch_height ch = 1 \<and>
     ch_supply ch = 920 \<and> ch_cumdiff ch = 1 \<and> ch_tip ch = 2"
proof -
  have d: "h_height (hdr demo_first) = 1" "countRegisterOutputs demo_first = 0"
    by (simp_all add: demo_first_def countRegisterOutputs_def demo_coinbase_def is_register_def demo_script_def)
  obtain s' undo where "connect_block demo_env demo_first demo_start =
      (demo_start\<lparr>ch_db := CommitBlock MemoryDB demo_crypto demo_first undo 920 1 s', ch_supply := 920, ch_cumdiff := 1\<rparr>,
       Inr undo)" using demo_connect by blast
  then have "\<exists>ch. extend_tip demo_env demo_first demo_start = (ch, None) \<and> ch_height ch = 1 \<and>
     ch_supply ch = 920 \<and> ch_cumdiff ch = 1 \<and> ch_tip ch = 2"
    by (simp add: extend_tip_def demo_first_state addRegisteredSubChains_def Let_def set_tip_block_def demo_first_hash d
        del: demo_start_fields(1))
  moreover have "ProcessBlock demo_env 1770734110 demo_first demo_start = extend_tip demo_env demo_first demo_start"
    using demo_first_accepted
    by (auto simp: ProcessBlock_def accepted_header_def Let_def and_then_None simp del: demo_start_fields(1))
  ultimately show ?thesis by simp
qed

lemma demo_chain_eq: "ProcessBlock demo_env 1770734110 demo_first demo_start = (demo_chain, None)"
  and demo_chain_fields [simp]:
    "ch_height demo_chain = 1" "ch_supply demo_chain = 920" "ch_cumdiff demo_chain = 1" "ch_tip demo_chain = 2"
  using demo_first_connected by (auto simp: demo_chain_def)

lemma demo_first_no_fork: "no_fork demo_env demo_first demo_start"
  using demo_first_accepted by (auto simp: no_fork_def accepted_header_def split: option.splits)

lemma demo_run_chain: "run demo_env demo_genesis DAList.empty demo_chain"
  by (rule run.block [OF demo_run_start demo_first_no_fork _ demo_chain_eq]) simp

section \<open>Restarting on the genesis block\<close>

definition demo_genesis_tx :: transaction where
  "demo_genesis_tx = \<lparr>tx_version = 1,
     tx_inputs = [\<lparr>in_prevout = zero_outpoint, in_sig = [], in_pubkey = []\<rparr>],
     tx_outputs = [\<lparr>out_value = 900, out_script = \<lparr>sc_type = ScriptTypeP2PKH, sc_data = addr_bytes 0xaa\<rparr>,
       out_token = None\<rparr>], tx_locktime = 0\<rparr>"

lemma demo_genesis_txs: "b_txs demo_genesis_block = [demo_genesis_tx]"
proof -
  have "ParseAddress ''00000000000000000000000000000000000000aa'' = Inr 0xaa" by code_simp
  then have "map_sum id b_txs (CreateGenesisBlock demo_crypto demo_genesis) = Inr [demo_genesis_tx]"
    by (simp add: CreateGenesisBlock_def buildCoinbaseTx_def demo_genesis_def demo_genesis_tx_def)
  then show ?thesis by (simp add: demo_genesis_Inr)
qed

lemma demo_hashes: "TxHash demo_crypto demo_coinbase \<noteq> TxHash demo_crypto demo_genesis_tx"
proof -
  have "take 8 (drop 76 (SigningBytes demo_coinbase)) = [0, 0, 0, 0, 0, 0, 0, 0]"
    "take 8 (drop 76 (SigningBytes demo_genesis_tx)) = [0, 0, 0, 0, 170, 0, 0, 0]"
    by code_simp+
  then show ?thesis by (simp add: TxHash_def Hash_def demo_crypto_def)
qed

lemma demo_start_set:
  "\<exists>u. op_txid (u_outpoint u) = TxHash demo_crypto demo_genesis_tx \<and>
     index_consistent (DAList.lookup (ch_db demo_start)) \<and>
     utxos_of (DAList.lookup (ch_db demo_start)) = [u_outpoint u \<mapsto> u]"
proof -
  obtain out where i: "tx_inputs demo_genesis_tx = [\<lparr>in_prevout = zero_outpoint, in_sig = [], in_pubkey = []\<rparr>]"
    and out: "tx_outputs demo_genesis_tx = [out]" by (simp add: demo_genesis_tx_def)
  have h: "h_height (hdr demo_genesis_block) = 0" by (rule demo_genesis_obtain)
  let ?u = "output_utxo (TxHash demo_crypto demo_genesis_tx) 0 False 0 (0, out)"
  have ap: "applyBlock demo_env demo_genesis_block DAList.empty = Store_Put MemoryDB ?u DAList.empty"
    by (simp add: applyBlock_def demo_genesis_txs h i out create_outputs_def)
  have v: "DAList.lookup (ch_db demo_start) k = DAList.lookup (Store_Put MemoryDB ?u DAList.empty) k" if "utxo_space k" for k
    using that by (auto simp: SetTip_def mem.put mem.view_PutBlock ap)
  have e: "DAList.lookup DAList.empty = (Map.empty :: bytes \<rightharpoonup> dbval)" by (simp add: fun_eq_iff)
  have "index_consistent (DAList.lookup (Store_Put MemoryDB ?u DAList.empty))"
    by (rule mem.index_ok_Put [OF mem.index_ok_empty [OF e]]) (simp add: utxos_of_def)
  then have "index_consistent (DAList.lookup (ch_db demo_start))" using v by (rule mem.index_ok_cong)
  moreover have "utxos_of (DAList.lookup (ch_db demo_start)) = utxos_of (DAList.lookup (Store_Put MemoryDB ?u DAList.empty))"
    using v by (rule mem.utxos_cong)
  then have "utxos_of (DAList.lookup (ch_db demo_start)) = [u_outpoint ?u \<mapsto> ?u]"
    by (simp add: mem.utxos_Store_Put) (simp add: utxos_of_def fun_eq_iff)
  ultimately show ?thesis by (intro exI [of _ ?u]) (simp add: output_utxo_def del: demo_start_fields(1))
qed

lemma demo_start_items: "\<exists>u. Store_items MemoryDB (ch_db demo_start) = [Some u]"
proof -
  obtain u where ok: "index_consistent (DAList.lookup (ch_db demo_start))"
    and m: "utxos_of (DAList.lookup (ch_db demo_start)) = [u_outpoint u \<mapsto> u]" using demo_start_set by blast
  then have "ran (utxos_of (DAList.lookup (ch_db demo_start))) = {u}" by simp
  with mem.Store_items_exact [OF ok] obtain us where us: "Store_items MemoryDB (ch_db demo_start) = map Some us"
    "distinct us" "set us = {u}" by metis
  then have "us = [u]" by (metis distinct_card card.empty card_insert_disjoint empty_iff finite.emptyI
      length_0_conv length_Suc_conv list.set(1) list.set(2) list.set_intros(1) singletonD)
  then show ?thesis using us(1) by simp
qed

lemma demo_restart: "\<exists>ch. NewChain demo_env demo_engine (ch_db demo_start) = Inr ch"
proof -
  have "persisted MemoryDB demo_start"
    using root_chain.run_invariant [OF demo_run_start [unfolded demo_env_def]] demo_genesis_valid
    by (simp add: fun_eq_iff demo_genesis_def)
  then have "GetTip MemoryDB (ch_db demo_start) = Inr (1, 0, 900)" "GetReorgCheckpoint MemoryDB (ch_db demo_start) = None"
    by (simp_all add: persisted_def)
  moreover obtain u where "Store_items MemoryDB (ch_db demo_start) = [Some u]" using demo_start_items by blast
  then have "\<exists>k. count_registrations 0 (us_items (UtxoStore MemoryDB) (ch_db demo_start)) = Inr k"
    by (simp del: demo_start_fields(1))
  ultimately show ?thesis
    by (auto simp: NewChain_def Let_def simp del: demo_start_fields(1))
qed

end
