(* ===== verification/Undo.thy ===== *)
theory Undo
  imports Demo
begin

text \<open>
  Undoing a block: reverting with the recorded undo data restores the UTXO set with its
  indexes, the supply, the cumulative difficulty and the registration counter.
\<close>

section \<open>What application records\<close>

lemma created_list_fst:
  "map fst (created_list C (t # ts)) =
     map (\<lambda>i. Outpoint (TxHash C t) (word_of_nat i)) [0..<length (tx_outputs t)] @ map fst (created_list C ts)"
proof -
  have "map fst (map (\<lambda>(i, out). (Outpoint h (word_of_nat i), out)) (List.enumerate n outs)) =
      map (\<lambda>i. Outpoint h (word_of_nat i)) [n..<n + length outs]" for h n and outs :: "txout list"
    by (induction outs arbitrary: n) (simp_all add: upt_rec)
  from this [of "TxHash C t" 0 "tx_outputs t"] show ?thesis by simp
qed

context utxo_set
begin

lemma spend_undo_exact:
  assumes "distinct (filter (\<lambda>x. x \<noteq> zero_outpoint) (map in_prevout is))"
    and "spend_undo U is spent s = (s', Some spent')"
  shows "spent' = spent @ map (\<lambda>x. the (us_get U s x)) (filter (\<lambda>x. x \<noteq> zero_outpoint) (map in_prevout is))"
  using assms
proof (induction "is" arbitrary: spent s)
  case Nil
  then show ?case by simp
next
  case (Cons i "is")
  show ?case
  proof (cases "is_coinbase_input i")
    case True
    then show ?thesis using Cons by simp
  next
    case False
    with Cons.prems(2) obtain u where u: "us_get U s (in_prevout i) = Some u"
      and r: "spend_undo U is (spent @ [u]) (us_delete U (in_prevout i) s) = (s', Some spent')"
      by (auto split: option.splits)
    let ?xs = "filter (\<lambda>x. x \<noteq> zero_outpoint) (map in_prevout is)"
    have d: "distinct ?xs" "in_prevout i \<notin> set ?xs" using Cons.prems(1) False by (auto simp: image_iff)
    have "map (\<lambda>x. the (us_get U (us_delete U (in_prevout i) s) x)) ?xs = map (\<lambda>x. the (us_get U s x)) ?xs"
    proof (rule map_cong [OF refl])
      fix x assume "x \<in> set ?xs"
      with d(2) have "x \<noteq> in_prevout i" by metis
      then show "the (us_get U (us_delete U (in_prevout i) s) x) = the (us_get U s x)" by (simp add: get_delete)
    qed
    with Cons.IH [OF d(1) r] u False show ?thesis by simp
  qed
qed

text \<open>A property that deletion and the insertion of fresh outputs keep.\<close>

lemma spend_undo_keeps:
  assumes "\<And>x s. P s \<Longrightarrow> P (us_delete U x s)"
    and "spend_undo U is spent s = (s', r)" and "P s"
  shows "P s'"
  using assms(2,3)
  by (induction "is" arbitrary: spent s) (auto simp: assms(1) split: if_splits option.splits)

lemma puts_keep:
  assumes "\<And>u s. P s \<Longrightarrow> us_get U s (u_outpoint u) = None \<Longrightarrow> P (us_put U u s)"
    and "distinct (map u_outpoint us)" and "\<And>u. u \<in> set us \<Longrightarrow> us_get U s (u_outpoint u) = None" and "P s"
  shows "P (fold (us_put U) us s)"
  using assms(2-4)
proof (induction us arbitrary: s)
  case Nil
  then show ?case by simp
next
  case (Cons u us)
  have "us_get U (us_put U u s) (u_outpoint v) = None" if "v \<in> set us" for v
  proof -
    have "u_outpoint v \<in> u_outpoint ` set us" using that by blast
    then have "u_outpoint v \<noteq> u_outpoint u" using Cons.prems(1) by fastforce
    then show ?thesis using Cons.prems(2) [of v] that by (simp add: get_put)
  qed
  then show ?case using Cons.IH [of "us_put U u s"] Cons.prems assms(1) by simp
qed

lemma created_outpoints:
  "map u_outpoint (map (output_utxo (TxHash C t) height cb lk) (List.enumerate 0 (tx_outputs t))) =
     map fst (created_list C [t])"
  by (simp add: output_utxo_def comp_def case_prod_beta)

lemma apply_txs_exact:
  assumes "en_set E = U"
    and "\<And>x s. P s \<Longrightarrow> P (us_delete U x s)"
    and "\<And>u s. P s \<Longrightarrow> us_get U s (u_outpoint u) = None \<Longrightarrow> P (us_put U u s)"
    and "P s" and "distinct (spent_outpoints (map snd ets))"
    and "\<And>x. x \<in> set (spent_outpoints (map snd ets)) \<Longrightarrow> us_get U s x \<noteq> None"
    and "distinct (map fst (created_list (en_crypto E) (map snd ets)))"
    and "\<And>x. x \<in> fst ` set (created_list (en_crypto E) (map snd ets)) \<Longrightarrow> us_get U s x = None"
    and "apply_txs E height ets undo s = (s', Some undo')"
  shows "undo_spent undo' = undo_spent undo @ map (\<lambda>x. the (us_get U s x)) (spent_outpoints (map snd ets)) \<and>
    undo_created undo' = undo_created undo @ map fst (created_list (en_crypto E) (map snd ets)) \<and>
    (\<forall>x. x \<notin> fst ` set (created_list (en_crypto E) (map snd ets)) \<longrightarrow>
       us_get U s' x = (if x \<in> set (spent_outpoints (map snd ets)) then None else us_get U s x)) \<and> P s'"
  using assms(4-9)
proof (induction ets arbitrary: undo s)
  case Nil
  then show ?case by simp
next
  case (Cons kt ets)
  obtain k t where kt: "kt = (k, t)" by (cases kt)
  let ?C = "en_crypto E" and ?ts = "map snd ets"
  let ?sp = "filter (\<lambda>x. x \<noteq> zero_outpoint) (map in_prevout (tx_inputs t))"
  let ?cr = "fst ` set (created_list ?C [t])"
  let ?lk = "stake_lock U height (tx_inputs t) s"
  from Cons.prems(6) kt assms(1) obtain s1 spent where
    sp: "spend_undo U (tx_inputs t) (undo_spent undo) s = (s1, Some spent)" and
    ap: "apply_txs E height ets
        (undo\<lparr>undo_txhashes := undo_txhashes undo @ [TxHash ?C t], undo_spent := spent,
           undo_created := undo_created undo @ map (\<lambda>i. Outpoint (TxHash ?C t) (word_of_nat i)) [0..<length (tx_outputs t)]\<rparr>)
        (create_outputs U (TxHash ?C t) height (k = 0 \<and> height > 0) ?lk (tx_outputs t) s1) = (s', Some undo')"
    by (auto simp: Let_def split: prod.splits option.splits)
  let ?s2 = "create_outputs U (TxHash ?C t) height (k = 0 \<and> height > 0) ?lk (tx_outputs t) s1"
  have d: "distinct ?sp" "distinct (spent_outpoints ?ts)" "set ?sp \<inter> set (spent_outpoints ?ts) = {}"
    using Cons.prems(2) kt by simp_all
  have cr: "distinct (map fst (created_list ?C ?ts))" "?cr \<inter> fst ` set (created_list ?C ?ts) = {}"
    using Cons.prems(4) kt by (auto simp: image_iff)
  have s2: "us_get U ?s2 x = (if x \<in> set ?sp then None else us_get U s x)" if "x \<notin> ?cr" for x
    using that by (simp add: get_create_other spend_undo_get [OF sp])
  have sp': "us_get U ?s2 x = us_get U s x" if "x \<in> set (spent_outpoints ?ts)" for x
  proof -
    have "x \<notin> ?cr"
    proof
      assume "x \<in> ?cr"
      then have "us_get U s x = None" using kt by (intro Cons.prems(5)) (simp add: image_Un)
      moreover have "us_get U s x \<noteq> None" using that kt by (intro Cons.prems(3)) simp
      ultimately show False by simp
    qed
    then show ?thesis using s2 d(3) that by auto
  qed
  have "us_get U ?s2 x \<noteq> None" if "x \<in> set (spent_outpoints ?ts)" for x
    using sp' [OF that] Cons.prems(3) [of x] that kt by simp
  moreover have "us_get U ?s2 x = None" if "x \<in> fst ` set (created_list ?C ?ts)" for x
  proof -
    have "x \<notin> ?cr" using cr(2) that by blast
    then show ?thesis using s2 [of x] Cons.prems(5) [of x] that kt by auto
  qed
  moreover have "P ?s2"
    unfolding create_outputs_def
  proof (rule puts_keep [of P, OF assms(3)])
    show "distinct (map u_outpoint (map (output_utxo (TxHash ?C t) height (k = 0 \<and> height > 0) ?lk)
        (List.enumerate 0 (tx_outputs t))))"
      unfolding created_outpoints using Cons.prems(4) kt by simp
    show "us_get U s1 (u_outpoint u) = None"
      if "u \<in> set (map (output_utxo (TxHash ?C t) height (k = 0 \<and> height > 0) ?lk) (List.enumerate 0 (tx_outputs t)))" for u
    proof -
      have "u_outpoint u \<in> ?cr"
        using imageI [OF that, of u_outpoint] unfolding set_map [symmetric] created_outpoints by simp
      then have "us_get U s (u_outpoint u) = None" using kt by (intro Cons.prems(5)) (simp add: image_Un)
      then show ?thesis by (simp add: spend_undo_get [OF sp])
    qed
    show "P s1" using spend_undo_keeps [of P, OF assms(2) sp Cons.prems(1)] by simp
  qed
  ultimately have IH: "undo_spent undo' = spent @ map (\<lambda>x. the (us_get U ?s2 x)) (spent_outpoints ?ts)"
    "undo_created undo' = undo_created undo @ map (\<lambda>i. Outpoint (TxHash ?C t) (word_of_nat i)) [0..<length (tx_outputs t)] @
        map fst (created_list ?C ?ts)"
    "\<And>x. x \<notin> fst ` set (created_list ?C ?ts) \<Longrightarrow>
        us_get U s' x = (if x \<in> set (spent_outpoints ?ts) then None else us_get U ?s2 x)"
    "P s'"
    using Cons.IH [OF _ d(2) _ cr(1) _ ap] by auto
  have "map (\<lambda>x. the (us_get U ?s2 x)) (spent_outpoints ?ts) = map (\<lambda>x. the (us_get U s x)) (spent_outpoints ?ts)"
    by (rule map_cong [OF refl]) (simp add: sp')
  then have "undo_spent undo' = undo_spent undo @ map (\<lambda>x. the (us_get U s x)) (spent_outpoints (map snd (kt # ets)))"
    using IH(1) spend_undo_exact [OF d(1) sp] kt by simp
  moreover have "undo_created undo' = undo_created undo @ map fst (created_list ?C (map snd (kt # ets)))"
    using IH(2) kt created_list_fst [of ?C t ?ts] by simp
  moreover have "us_get U s' x = (if x \<in> set (spent_outpoints (map snd (kt # ets))) then None else us_get U s x)"
    if "x \<notin> fst ` set (created_list ?C (map snd (kt # ets)))" for x
  proof -
    have "x \<notin> ?cr" "x \<notin> fst ` set (created_list ?C ?ts)" using that kt by auto
    then show ?thesis using IH(3) s2 kt by auto
  qed
  ultimately show ?case using IH(4) by blast
qed

text \<open>Putting back outputs whose outpoints are as recorded.\<close>

lemma get_puts_exact:
  assumes "\<And>u. u \<in> set us \<Longrightarrow> m (u_outpoint u) = Some u"
  shows "us_get U (fold (us_put U) us s) = (\<lambda>x. if x \<in> u_outpoint ` set us then m x else us_get U s x)"
  using assms by (induction us arbitrary: s) (auto simp: get_put fun_eq_iff)

end

section \<open>Disconnecting the block that was connected last\<close>

text \<open>The block creates outputs that are not there yet, each once.\<close>

definition fresh_outputs :: "crypto \<Rightarrow> (outpoint \<rightharpoonup> utxo) \<Rightarrow> block \<Rightarrow> bool" where
  "fresh_outputs C m b \<longleftrightarrow>
     distinct (map fst (created_list C (b_txs b))) \<and> (\<forall>x \<in> fst ` set (created_list C (b_txs b)). m x = None)"

context chain_env
begin

lemma index_ok_put_fresh:
  "index_ok s \<Longrightarrow> us_get (UtxoStore D) s (u_outpoint u) = None \<Longrightarrow> index_ok (us_put (UtxoStore D) u s)"
  using index_ok_Put [of s u] by (simp add: UtxoStore_def Store_Get_utxos)

lemma index_ok_delete: "index_ok s \<Longrightarrow> index_ok (us_delete (UtxoStore D) x s)"
  by (simp add: UtxoStore_def index_ok_Delete)

lemma apply_exact:
  assumes ok: "index_ok s" and fresh: "fresh_outputs (en_crypto E) (utxos s) b"
    and d: "distinct (spent_outpoints (b_txs b))"
    and ex: "\<And>x. x \<in> set (spent_outpoints (b_txs b)) \<Longrightarrow> utxos s x \<noteq> None"
    and a: "applyBlockWithUndo E b s = (s', Some undo)"
  shows "undo_spent undo = map (\<lambda>x. the (utxos s x)) (spent_outpoints (b_txs b))"
    and "undo_created undo = map fst (created_list (en_crypto E) (b_txs b))"
    and "\<And>x. x \<notin> set (undo_created undo) \<Longrightarrow>
      utxos s' x = (if x \<in> set (spent_outpoints (b_txs b)) then None else utxos s x)"
    and "index_ok s'"
proof -
  have get: "us_get (UtxoStore D) = utxos" by (simp add: UtxoStore_def Store_Get_utxos fun_eq_iff)
  have snd: "map snd (List.enumerate 0 (b_txs b)) = b_txs b" by simp
  note x = set.apply_txs_exact [of E index_ok s "List.enumerate 0 (b_txs b)" "h_height (hdr b)" empty_undo s' undo,
      unfolded snd get, OF en_set index_ok_delete index_ok_put_fresh [unfolded get] ok d ex]
  have "undo_spent undo = undo_spent empty_undo @ map (\<lambda>x. the (utxos s x)) (spent_outpoints (b_txs b)) \<and>
    undo_created undo = undo_created empty_undo @ map fst (created_list (en_crypto E) (b_txs b)) \<and>
    (\<forall>x. x \<notin> fst ` set (created_list (en_crypto E) (b_txs b)) \<longrightarrow>
       utxos s' x = (if x \<in> set (spent_outpoints (b_txs b)) then None else utxos s x)) \<and> index_ok s'"
    using fresh a unfolding fresh_outputs_def applyBlockWithUndo_def by (intro x) auto
  then show "undo_spent undo = map (\<lambda>x. the (utxos s x)) (spent_outpoints (b_txs b))"
    and "undo_created undo = map fst (created_list (en_crypto E) (b_txs b))"
    and "\<And>x. x \<notin> set (undo_created undo) \<Longrightarrow>
      utxos s' x = (if x \<in> set (spent_outpoints (b_txs b)) then None else utxos s x)"
    and "index_ok s'"
    by (simp_all add: empty_undo_def)
qed

text \<open>Reverting with this record gives the set back, with its indexes.\<close>

lemma delete_tx_indexes:
  "utxo_space k \<Longrightarrow> view (fold (DeleteTxIndex D) hs s) k = view s k"
  by (induction hs arbitrary: s) (auto simp: DeleteTxIndex_def delete)

lemma deletes_index_ok: "index_ok t \<Longrightarrow> index_ok (fold (us_delete (UtxoStore D)) xs t)"
  by (induction xs arbitrary: t) (simp_all add: index_ok_Delete)

lemma view_revertBlock:
  assumes "\<not> utxo_space k" and "k \<notin> range txKey"
  shows "view (revertBlock E undo t) k = view t k"
proof -
  have "view (fold (us_delete (UtxoStore D)) xs s) k = view s k" for xs s
    using assms(1) by (induction xs arbitrary: s) (simp_all add: view_outside)
  moreover have "view (fold (us_put (UtxoStore D)) us s) k = view s k" for us s
    using assms(1) by (induction us arbitrary: s) (simp_all add: view_outside)
  moreover have "view (fold (DeleteTxIndex D) hs s) k = view s k" for hs s
    using assms(2) by (induction hs arbitrary: s) (auto simp: DeleteTxIndex_def delete)
  ultimately show ?thesis by (simp add: revertBlock_def)
qed

lemma revert_exact:
  assumes ok: "index_ok s" and fresh: "fresh_outputs (en_crypto E) (utxos s) b"
    and d: "distinct (spent_outpoints (b_txs b))"
    and ex: "\<And>x. x \<in> set (spent_outpoints (b_txs b)) \<Longrightarrow> utxos s x \<noteq> None"
    and a: "applyBlockWithUndo E b s = (s', Some undo)"
    and ut: "utxos t = utxos s'" and it: "index_ok t"
  shows "utxos (revertBlock E (undo\<lparr>undo_reward := r\<rparr>) t) = utxos s"
    and "index_ok (revertBlock E (undo\<lparr>undo_reward := r\<rparr>) t)"
proof -
  note x = apply_exact [OF ok fresh d ex a]
  let ?us = "undo_spent undo" and ?sp = "spent_outpoints (b_txs b)"
  let ?t1 = "fold (us_delete (UtxoStore D)) (rev (undo_created undo)) t"
  let ?t2 = "fold (us_put (UtxoStore D)) ?us ?t1"
  have get: "us_get (UtxoStore D) = utxos" by (simp add: UtxoStore_def Store_Get_utxos fun_eq_iff)
  have t1: "utxos ?t1 = (\<lambda>x. if x \<in> set (undo_created undo) then None else utxos s' x)"
    using set.get_deletes [of "rev (undo_created undo)" t] unfolding get ut by simp
  have un: "utxos s (u_outpoint u) = Some u \<and> u_outpoint u \<in> set ?sp" if "u \<in> set ?us" for u
  proof -
    from that obtain y where y: "y \<in> set ?sp" "u = the (utxos s y)" using x(1) by auto
    then have "utxos s y = Some u" using ex by fastforce
    then show ?thesis using utxos_outpoint [OF ok] y(1) by metis
  qed
  have "u_outpoint (the (utxos s y)) = y" if "y \<in> set ?sp" for y
    using ex [OF that] utxos_outpoint [OF ok, of y] by fastforce
  then have "map (\<lambda>y. u_outpoint (the (utxos s y))) ?sp = ?sp" by (simp add: map_idI)
  then have op: "map u_outpoint ?us = ?sp" by (simp add: x(1) comp_def)
  have gone: "utxos ?t1 y = None" if "y \<in> set ?sp" for y
    using x(3) [of y] that unfolding t1 by simp
  have "utxos ?t2 = (\<lambda>x. if x \<in> u_outpoint ` set ?us then utxos s x else utxos ?t1 x)"
    using set.get_puts_exact [of ?us "utxos s" ?t1] un unfolding get by blast
  also have "\<dots> = utxos s"
  proof
    fix y
    have img: "u_outpoint ` set ?us = set ?sp" using op by (metis set_map)
    have "utxos s y = None" if "y \<in> set (undo_created undo)"
      using fresh that by (auto simp: fresh_outputs_def x(2))
    then show "(if y \<in> u_outpoint ` set ?us then utxos s y else utxos ?t1 y) = utxos s y"
      using x(3) [of y] unfolding img t1 by auto
  qed
  finally have u2: "utxos ?t2 = utxos s" .
  have "index_ok (fold (us_delete (UtxoStore D)) xs t)" for xs
    using it by (rule deletes_index_ok)
  then have "index_ok ?t1" .
  then have i2: "index_ok ?t2"
    using set.puts_keep [of index_ok ?us ?t1, OF index_ok_put_fresh] d gone un unfolding op get by auto
  have r: "view (revertBlock E (undo\<lparr>undo_reward := r\<rparr>) t) k = view ?t2 k" if "utxo_space k" for k
    using that by (simp add: revertBlock_def delete_tx_indexes)
  show "utxos (revertBlock E (undo\<lparr>undo_reward := r\<rparr>) t) = utxos s"
    unfolding u2 [symmetric] by (rule utxos_cong) (rule r)
  show "index_ok (revertBlock E (undo\<lparr>undo_reward := r\<rparr>) t)"
    by (rule index_ok_cong [OF i2]) (rule r)
qed

text \<open>Disconnecting a block restores the chain as it was before the block was connected.\<close>

lemma registered_round_trip:
  assumes "addRegisteredSubChains cnt ch = Inr ch'"
  shows "cnt = 0 \<or> \<not> cnt > ch_registered ch'"
    and "ch_registered ch' - cnt = ch_registered ch" and "ch' = ch\<lparr>ch_registered := ch_registered ch'\<rparr>"
proof -
  have "unat (ch_registered ch + cnt) = unat (ch_registered ch) + unat cnt" if "\<not> ch_registered ch > max_u64 - cnt"
    using that by (simp add: u64_simps)
  then show "cnt = 0 \<or> \<not> cnt > ch_registered ch'"
    using assms by (auto simp: addRegisteredSubChains_def word_less_nat_alt split: if_splits)
  show "ch_registered ch' - cnt = ch_registered ch" and "ch' = ch\<lparr>ch_registered := ch_registered ch'\<rparr>"
    using assms by (auto simp: addRegisteredSubChains_def split: if_splits)
qed

lemma connect_index_ok:
  assumes ok: "index_ok (ch_db ch)" and fresh: "fresh_outputs (en_crypto E) (utxos (ch_db ch)) b"
    and v: "validateBlockState E ch b = Inr n" and bv: "Block_Validate (en_crypto E) b = None"
    and c: "connect_block E b ch = (ch1, Inr undo)"
  shows "index_ok (ch_db ch1)"
proof -
  have d: "distinct (spent_outpoints (b_txs b))" by (rule Block_Validate_distinct [OF bv])
  from v obtain cb rest fees totalFees where b: "b_txs b = cb # rest" "isCoinbase cb"
    and f: "validate_fees E (ch_db ch) 0 rest = Inr (fees, totalFees)" by (rule validateBlockState_Inr)
  have ex: "utxos (ch_db ch) z \<noteq> None" if "z \<in> set (spent_outpoints (b_txs b))" for z
    using that accepted_inputs_exist [OF f, of z] unfolding b(1) spent_outpoints_coinbase [OF b(2)]
    by (simp add: Store_Get_utxos)
  from connect_block_accepted [OF v d c] obtain s' undo0 n' cd where
    a: "applyBlockWithUndo E b (ch_db ch) = (s', Some undo0)"
    and ch1: "ch_db ch1 = CommitBlock D (en_crypto E) b undo n' cd s'" by auto
  from apply_exact(4) [OF ok fresh d ex a] CommitBlock_utxo_space show ?thesis
    unfolding ch1 by (rule index_ok_cong)
qed

text \<open>
  It is enough that the chain agrees with the one that the block was connected to in its coins and
  counters. The rest of the database is not touched.
\<close>

lemma disconnect_like:
  assumes ok: "index_ok (ch_db ch)" and fresh: "fresh_outputs (en_crypto E) (utxos (ch_db ch)) b"
    and v: "validateBlockState E ch b = Inr n" and bv: "Block_Validate (en_crypto E) b = None"
    and c: "connect_block E b ch = (ch1, Inr undo)"
    and g: "addRegisteredSubChains (countRegisterOutputs b) y = Inr ch2" "ch_registered y = ch_registered ch"
    and like: "utxos (ch_db x) = utxos (ch_db ch1)" "index_ok (ch_db x)" "ch_supply x = ch_supply ch1"
      "ch_cumdiff x = ch_cumdiff ch1" "ch_registered x = ch_registered ch2"
  shows "\<exists>x'. disconnect_block E b undo x = (x', None) \<and> utxos (ch_db x') = utxos (ch_db ch) \<and>
    index_ok (ch_db x') \<and> ch_supply x' = ch_supply ch \<and> ch_cumdiff x' = ch_cumdiff ch \<and>
    ch_registered x' = ch_registered ch \<and> ch_max_supply x' = ch_max_supply x \<and> ch_tip x' = ch_tip x \<and>
    ch_height x' = ch_height x \<and>
    (\<forall>k. \<not> utxo_space k \<and> k \<notin> range txKey \<and> k \<noteq> undoKey (BlockHash (en_crypto E) b) \<longrightarrow>
       view (ch_db x') k = view (ch_db x) k)"
proof -
  have d: "distinct (spent_outpoints (b_txs b))" by (rule Block_Validate_distinct [OF bv])
  from v obtain cb rest fees totalFees where b: "b_txs b = cb # rest" "isCoinbase cb"
    and f: "validate_fees E (ch_db ch) 0 rest = Inr (fees, totalFees)" by (rule validateBlockState_Inr)
  have ex: "utxos (ch_db ch) z \<noteq> None" if "z \<in> set (spent_outpoints (b_txs b))" for z
  proof -
    have "z \<in> set (spent_outpoints rest)" using that unfolding b(1) spent_outpoints_coinbase [OF b(2)] .
    then show ?thesis using accepted_inputs_exist [OF f] by (simp add: Store_Get_utxos)
  qed
  from connect_block_accepted [OF v d c] obtain s' undo0 reward where
    a: "applyBlockWithUndo E b (ch_db ch) = (s', Some undo0)" and u: "undo = undo0\<lparr>undo_reward := reward\<rparr>"
    and ch1: "ch1 = ch\<lparr>ch_db := CommitBlock D (en_crypto E) b undo (ch_supply ch + reward)
                 (ch_cumdiff ch + h_difficulty (hdr b)) s',
               ch_supply := ch_supply ch + reward, ch_cumdiff := ch_cumdiff ch + h_difficulty (hdr b)\<rparr>"
    and s: "unat (ch_supply ch + reward) = unat (ch_supply ch) + unat reward"
    and w: "unat (ch_cumdiff ch + h_difficulty (hdr b)) = unat (ch_cumdiff ch) + unat (h_difficulty (hdr b))"
    by auto
  have ut: "utxos (ch_db x) = utxos s'" using like(1) by (simp add: ch1 CommitBlock_reads)
  note r = revert_exact [OF ok fresh d ex a ut like(2), of reward, folded u]
  note rt = registered_round_trip [OF g(1)]
  have le: "\<not> reward > ch_supply ch + reward" "\<not> h_difficulty (hdr b) > ch_cumdiff ch + h_difficulty (hdr b)"
    using s w by (simp_all add: word_less_nat_alt)
  let ?s2 = "revertBlock E undo (ch_db x)"
  let ?s3 = "DeleteUndo D (BlockHash (en_crypto E) b) ?s2"
  have v3: "view ?s3 k = view ?s2 k" if "k \<noteq> undoKey (BlockHash (en_crypto E) b)" for k
    using that by (simp add: DeleteUndo_def delete)
  then have v4: "view ?s3 k = view ?s2 k" if "utxo_space k" for k using that by (auto simp: DeleteUndo_def delete)
  have "utxos ?s3 = utxos ?s2" by (rule utxos_cong) (rule v4)
  then have "utxos ?s3 = utxos (ch_db ch)" using r(1) by simp
  moreover from r(2) v4 have "index_ok ?s3" by (rule index_ok_cong)
  moreover have "view ?s3 k = view (ch_db x) k"
    if "\<not> utxo_space k" "k \<notin> range txKey" "k \<noteq> undoKey (BlockHash (en_crypto E) b)" for k
    using v3 [OF that(3)] view_revertBlock [OF that(1,2)] by simp
  ultimately show ?thesis
    using rt(1,2) le like(3-5) g(2)
    by (auto simp: disconnect_block_def Let_def ch1 u removeRegisteredSubChains_def)
qed

lemma disconnect_exact:
  assumes ok: "index_ok (ch_db ch)" and fresh: "fresh_outputs (en_crypto E) (utxos (ch_db ch)) b"
    and v: "validateBlockState E ch b = Inr n" and bv: "Block_Validate (en_crypto E) b = None"
    and c: "connect_block E b ch = (ch1, Inr undo)"
    and g: "addRegisteredSubChains (countRegisterOutputs b) ch1 = Inr ch2"
  shows "\<exists>ch3. disconnect_block E b undo ch2 = (ch3, None) \<and> utxos (ch_db ch3) = utxos (ch_db ch) \<and>
    index_ok (ch_db ch3) \<and> ch_supply ch3 = ch_supply ch \<and> ch_cumdiff ch3 = ch_cumdiff ch \<and>
    ch_registered ch3 = ch_registered ch"
proof -
  from connect_index_ok [OF ok fresh v bv c] have i: "index_ok (ch_db ch1)" .
  have y: "ch_registered ch1 = ch_registered ch"
    using connect_block_accepted [OF v Block_Validate_distinct [OF bv] c] by auto
  have "ch_db ch2 = ch_db ch1" "ch_supply ch2 = ch_supply ch1" "ch_cumdiff ch2 = ch_cumdiff ch1"
    using g by (auto simp: addRegisteredSubChains_def split: if_splits)
  then show ?thesis using disconnect_like [OF ok fresh v bv c g y, of ch2] i by auto
qed

lemma revert_loop_exact:
  assumes ok: "index_ok (ch_db ch)" and fresh: "fresh_outputs (en_crypto E) (utxos (ch_db ch)) b"
    and v: "validateBlockState E ch b = Inr n" and bv: "Block_Validate (en_crypto E) b = None"
    and c: "connect_block E b ch = (ch1, Inr undo)"
    and g: "addRegisteredSubChains (countRegisterOutputs b) ch1 = Inr ch2"
  shows "\<exists>ch3. revert_loop E [h_height (hdr b)] [] ch2 = (ch3, Reverted (tl (b_txs b))) \<and>
    utxos (ch_db ch3) = utxos (ch_db ch) \<and> index_ok (ch_db ch3) \<and> ch_supply ch3 = ch_supply ch \<and>
    ch_cumdiff ch3 = ch_cumdiff ch \<and> ch_registered ch3 = ch_registered ch"
proof -
  have db: "ch_db ch2 = ch_db ch1" using g by (auto simp: addRegisteredSubChains_def split: if_splits)
  from connect_block_accepted [OF v Block_Validate_distinct [OF bv] c] obtain s' reward cd where
    "ch_db ch1 = CommitBlock D (en_crypto E) b undo (ch_supply ch + reward) cd s'" by auto
  then have "GetBlockByHeight D (ch_db ch2) (h_height (hdr b)) = Some b"
    "GetUndo D (ch_db ch2) (BlockHash (en_crypto E) b) = Some (Some undo)"
    by (simp_all add: db CommitBlock_reads)
  then show ?thesis using disconnect_exact [OF assms] by auto
qed

end

text \<open>
  Reverting is the inverse of connecting. A valid block whose outputs are new is connected
  and then reverted from the stored block and undo data: the UTXO set is the one before, with
  consistent indexes and the same commitment, and supply, cumulative difficulty and the
  registration counter are back; the transactions without the coinbase are handed back.
\<close>

theorem disconnect_undoes_connect:
  assumes "index_consistent (DAList.lookup (ch_db ch))"
    and "fresh_outputs C (Store_Get MemoryDB (ch_db ch)) b" and "Block_Validate C b = None"
    and "validateBlockState (env_on MemoryDB C reg hnd) ch b = Inr n"
    and "connect_block (env_on MemoryDB C reg hnd) b ch = (ch1, Inr undo)"
    and "addRegisteredSubChains (countRegisterOutputs b) ch1 = Inr ch2"
  shows "\<exists>ch3. revert_loop (env_on MemoryDB C reg hnd) [h_height (hdr b)] [] ch2 = (ch3, Reverted (tl (b_txs b))) \<and>
    Store_Get MemoryDB (ch_db ch3) = Store_Get MemoryDB (ch_db ch) \<and>
    index_consistent (DAList.lookup (ch_db ch3)) \<and>
    Commitment C MemoryDB (ch_db ch3) = Commitment C MemoryDB (ch_db ch) \<and>
    ch_supply ch3 = ch_supply ch \<and> ch_cumdiff ch3 = ch_cumdiff ch \<and> ch_registered ch3 = ch_registered ch"
proof -
  have C: "en_crypto (env_on MemoryDB C reg hnd) = C" by (simp add: env_on_def)
  obtain ch3 where r: "revert_loop (env_on MemoryDB C reg hnd) [h_height (hdr b)] [] ch2 = (ch3, Reverted (tl (b_txs b)))"
    and u: "utxos_of (DAList.lookup (ch_db ch3)) = utxos_of (DAList.lookup (ch_db ch))"
    and i: "index_consistent (DAList.lookup (ch_db ch3))"
    and f: "ch_supply ch3 = ch_supply ch" "ch_cumdiff ch3 = ch_cumdiff ch" "ch_registered ch3 = ch_registered ch"
    using root_chain.revert_loop_exact [of ch C reg hnd b n ch1 undo ch2] assms by (auto simp: C mem.Store_Get_utxos)
  then show ?thesis using mem.Commitment_cong [OF i assms(1) u] by (simp add: mem.Store_Get_utxos)
qed

text \<open>The first block of the sample chain, connected and reverted.\<close>

theorem disconnect_undoes_connect_witness:
  "\<exists>ch1 undo ch3. connect_block demo_env demo_first demo_start = (ch1, Inr undo) \<and>
     revert_loop demo_env [1] [] ch1 = (ch3, Reverted []) \<and>
     Store_Get MemoryDB (ch_db ch3) = Store_Get MemoryDB (ch_db demo_start) \<and> ch_supply ch3 = 900"
proof -
  have h: "h_height (hdr demo_first) = 1" "tl (b_txs demo_first) = []" "countRegisterOutputs demo_first = 0"
    by (simp_all add: demo_first_def countRegisterOutputs_def demo_coinbase_def is_register_def demo_script_def)
  obtain u where ok: "index_consistent (DAList.lookup (ch_db demo_start))"
    and u: "op_txid (u_outpoint u) = TxHash demo_crypto demo_genesis_tx"
      "Store_Get MemoryDB (ch_db demo_start) = [u_outpoint u \<mapsto> u]"
    using demo_start_set unfolding mem.Store_Get_utxos by blast
  have "fresh_outputs demo_crypto (Store_Get MemoryDB (ch_db demo_start)) demo_first"
  proof -
    have "map fst (created_list demo_crypto (b_txs demo_first)) = [Outpoint (TxHash demo_crypto demo_coinbase) 0]"
      by (simp add: demo_first_def) (simp add: demo_coinbase_def)
    moreover have "Outpoint (TxHash demo_crypto demo_coinbase) 0 \<noteq> u_outpoint u"
      using u(1) demo_hashes by (metis outpoint.sel(1))
    moreover from calculation(1) have "fst ` set (created_list demo_crypto (b_txs demo_first)) =
        {Outpoint (TxHash demo_crypto demo_coinbase) 0}" by (metis list.set(1) list.set(2) set_map)
    ultimately show ?thesis unfolding fresh_outputs_def u(2) by simp
  qed
  moreover obtain ch1 undo where c: "connect_block demo_env demo_first demo_start = (ch1, Inr undo)"
    using demo_connect by blast
  moreover have "addRegisteredSubChains (countRegisterOutputs demo_first) ch1 = Inr ch1"
    by (simp add: h addRegisteredSubChains_def)
  ultimately show ?thesis
    using disconnect_undoes_connect [of demo_start demo_crypto demo_first None "\<lambda>_. None" 0 ch1 undo ch1,
        folded demo_env_def] ok demo_first_valid demo_first_state
    by (auto simp: h simp del: demo_start_fields(1))
qed

end
