(* ===== verification/Switch.thy ===== *)
theory Switch
  imports Undo
begin

text \<open>
  Reorganisations: a branch of several blocks is disconnected, down to the fork, and another branch is
  connected in its place. The chain that is disconnected is followed block by block, with the blocks of
  other branches that are stored meanwhile (\<open>grown\<close>); \<open>like\<close>
  is agreement in coins and counters, which is what reverting restores, whatever else the database holds.
\<close>

section \<open>The blocks above the fork\<close>

inductive grown :: "'s env \<Rightarrow> 's chain \<Rightarrow> block list \<Rightarrow> 's chain \<Rightarrow> bool" for E ch0 where
  start: "grown E ch0 [] ch0"
| block: "grown E ch0 bs ch \<Longrightarrow> no_fork E b ch \<Longrightarrow> ch_height ch \<noteq> max_u64 \<Longrightarrow>
     fresh_outputs (en_crypto E) (Store_Get (en_db E) (ch_db ch)) b \<Longrightarrow>
     ProcessBlock E now b ch = (ch', None) \<Longrightarrow> grown E ch0 (bs @ [b]) ch'"
| side: "grown E ch0 bs ch \<Longrightarrow> \<not> HasBlock (en_db E) (ch_db ch) (BlockHash (en_crypto E) b) \<Longrightarrow>
     grown E ch0 bs (ch\<lparr>ch_db := StoreBlock (en_db E) (en_crypto E) b (ch_db ch)\<rparr>)"

text \<open>A block of the main chain with its undo data, as the database has them.\<close>

definition stored_block :: "crypto \<Rightarrow> (bytes \<rightharpoonup> dbval) \<Rightarrow> block \<times> undo_data \<Rightarrow> bool" where
  "stored_block C m bu \<longleftrightarrow>
     m (heightKey (h_height (hdr (fst bu)))) = Some (VBytes (hash_bytes (BlockHash C (fst bu)))) \<and>
     m (blockKey (BlockHash C (fst bu))) = Some (DBlock (fst bu)) \<and>
     m (undoKey (BlockHash C (fst bu))) = Some (DUndo (snd bu))"

lemma unat_next: "n \<noteq> max_u64 \<Longrightarrow> unat (n + 1 :: u64) = Suc (unat n)"
  using unat_u64_less [of n] unat_max_u64 by (simp add: word_unat_eq_iff unat_add_u64)

lemma validate_registrations_count:
  "validate_registrations E existing n outs = Inr m \<Longrightarrow> m = n + word_of_nat (length (filter is_register outs))"
proof (induction outs arbitrary: n)
  case (Cons out outs)
  from Cons.IH [of n] Cons.IH [of "n + 1"] Cons.prems show ?case by (auto simp: add.assoc split: if_splits)
qed simp

lemma validateBlockState_count:
  assumes "validateBlockState E ch b = Inr n"
  shows "n = countRegisterOutputs b"
proof -
  from assms have "validateRegistrations E ch b = Inr n" by (rule validateBlockState_Inr)
  then show ?thesis
    by (auto simp: validateRegistrations_def countRegisterOutputs_def dest: validate_registrations_count)
qed

context chain_env
begin

text \<open>Agreement in coins and counters.\<close>

definition like :: "'s chain \<Rightarrow> 's chain \<Rightarrow> bool" where
  "like x c \<longleftrightarrow> utxos (ch_db x) = utxos (ch_db c) \<and> index_ok (ch_db x) \<and> ch_supply x = ch_supply c \<and>
     ch_cumdiff x = ch_cumdiff c \<and> ch_registered x = ch_registered c \<and> ch_max_supply x = ch_max_supply c"

lemma stored_reads:
  assumes "stored_block (en_crypto E) (view s) (b, u)"
  shows "GetBlockByHeight D s (h_height (hdr b)) = Some b" "GetUndo D s (BlockHash (en_crypto E) b) = Some (Some u)"
    "GetBlock D s (BlockHash (en_crypto E) b) = Some b"
  using assms by (auto simp: stored_block_def GetBlockByHeight_def GetBlock_def GetUndo_def get)

lemma ProcessBlock_connects:
  assumes "no_fork E b ch" and "ProcessBlock E now b ch = (ch', None)"
  obtains n undo ch1 y ch2 where "accepted_header E now b ch" "Block_Validate (en_crypto E) b = None"
    "validateBlockState E ch b = Inr n" "connect_block E b ch = (ch1, Inr undo)"
    "y = set_tip_block E b ch1" "addRegisteredSubChains (countRegisterOutputs b) y = Inr ch2"
    "ch' = notify_all E (connect_events E b undo) ch2"
proof -
  have a: "accepted_header E now b ch" and e: "extend_tip E b ch = (ch', None)"
    using ProcessBlock_no_fork [OF assms] by auto
  have "Block_Validate (en_crypto E) b = None" using a by (simp add: accepted_header_def ValidateBlock_None)
  then show thesis using a e that validateBlockState_count [of E ch b]
    by (fastforce simp: extend_tip_def Let_def split: sum.splits prod.splits)
qed

text \<open>What connecting a block adds to the database, and what it leaves.\<close>

lemma connected_stored:
  assumes a: "accepted_header E now b ch" and v: "validateBlockState E ch b = Inr n"
    and bv: "Block_Validate (en_crypto E) b = None" and c: "connect_block E b ch = (ch1, Inr undo)"
  shows "stored_block (en_crypto E) (view (ch_db ch1)) (b, undo)"
    and "stored_block (en_crypto E) (view (ch_db ch)) bu \<Longrightarrow> h_height (hdr (fst bu)) \<noteq> h_height (hdr b) \<Longrightarrow>
      BlockHash (en_crypto E) (fst bu) \<noteq> BlockHash (en_crypto E) b \<and> stored_block (en_crypto E) (view (ch_db ch1)) bu"
    and "unat (ch_cumdiff ch1) = unat (ch_cumdiff ch) + unat (h_difficulty (hdr b))"
    and "ch_registered ch1 = ch_registered ch" "ch_max_supply ch1 = ch_max_supply ch" "ch_height ch1 = ch_height ch"
proof -
  from connect_block_accepted [OF v Block_Validate_distinct [OF bv] c] obtain s' undo0 reward cd where
    ap: "applyBlockWithUndo E b (ch_db ch) = (s', Some undo0)"
    and ch1: "ch1 = ch\<lparr>ch_db := CommitBlock D (en_crypto E) b undo (ch_supply ch + reward) cd s',
               ch_supply := ch_supply ch + reward, ch_cumdiff := cd\<rparr>"
    and cd: "unat cd = unat (ch_cumdiff ch) + unat (h_difficulty (hdr b))" by auto
  show "stored_block (en_crypto E) (view (ch_db ch1)) (b, undo)"
    by (auto simp: stored_block_def ch1 view_CommitBlock_cases)
  show "BlockHash (en_crypto E) (fst bu) \<noteq> BlockHash (en_crypto E) b \<and> stored_block (en_crypto E) (view (ch_db ch1)) bu"
    if s: "stored_block (en_crypto E) (view (ch_db ch)) bu" "h_height (hdr (fst bu)) \<noteq> h_height (hdr b)"
  proof
    show ne: "BlockHash (en_crypto E) (fst bu) \<noteq> BlockHash (en_crypto E) b"
      using a s(1) by (auto simp: accepted_header_def HasBlock_def has stored_block_def)
    have "view (ch_db ch1) k = view (ch_db ch) k"
      if "k \<in> {heightKey (h_height (hdr (fst bu))), blockKey (BlockHash (en_crypto E) (fst bu)),
        undoKey (BlockHash (en_crypto E) (fst bu))}" for k
      using that ne s(2) unfolding ch1 by (auto intro!: connected_view [OF ap])
    then show "stored_block (en_crypto E) (view (ch_db ch1)) bu" using s(1) by (simp add: stored_block_def)
  qed
  show "unat (ch_cumdiff ch1) = unat (ch_cumdiff ch) + unat (h_difficulty (hdr b))"
    "ch_registered ch1 = ch_registered ch" "ch_max_supply ch1 = ch_max_supply ch" "ch_height ch1 = ch_height ch"
    by (simp_all add: ch1 cd)
qed

lemma set_tip_block_fields:
  "ch_db (set_tip_block E b ch) = ch_db ch" "ch_supply (set_tip_block E b ch) = ch_supply ch"
  "ch_cumdiff (set_tip_block E b ch) = ch_cumdiff ch" "ch_registered (set_tip_block E b ch) = ch_registered ch"
  "ch_max_supply (set_tip_block E b ch) = ch_max_supply ch"
  "ch_height (set_tip_block E b ch) = h_height (hdr b)" "ch_tip (set_tip_block E b ch) = BlockHash (en_crypto E) b"
  by (simp_all add: set_tip_block_def)

lemma add_registered_fields:
  assumes "addRegisteredSubChains n ch = Inr ch'"
  shows "ch_db ch' = ch_db ch" "ch_supply ch' = ch_supply ch" "ch_cumdiff ch' = ch_cumdiff ch"
    "ch_max_supply ch' = ch_max_supply ch" "ch_height ch' = ch_height ch" "ch_tip ch' = ch_tip ch"
  using assms by (auto simp: addRegisteredSubChains_def split: if_splits)

text \<open>The shape of what grows: consecutive heights, exact work.\<close>

lemma grown_shape:
  assumes "grown E ch0 bs ch" and "\<not> chain_is_genesis ch0"
  shows "unat (ch_height ch) = unat (ch_height ch0) + length bs \<and>
    map (\<lambda>b. h_height (hdr b)) bs = map word_of_nat [Suc (unat (ch_height ch0))..<Suc (unat (ch_height ch0) + length bs)] \<and>
    \<not> chain_is_genesis ch \<and> ch_max_supply ch = ch_max_supply ch0 \<and>
    unat (ch_cumdiff ch) = unat (ch_cumdiff ch0) + sum_u64 (\<lambda>b. h_difficulty (hdr b)) bs"
  using assms(1)
proof induction
  case start
  then show ?case using assms(2) by simp
next
  case (block bs ch b now ch')
  from ProcessBlock_connects [OF block.hyps(2,5)] obtain n undo ch1 y ch2 where
    a: "accepted_header E now b ch" and bv: "Block_Validate (en_crypto E) b = None"
    and v: "validateBlockState E ch b = Inr n" and c: "connect_block E b ch = (ch1, Inr undo)"
    and y: "y = set_tip_block E b ch1" and g: "addRegisteredSubChains (countRegisterOutputs b) y = Inr ch2"
    and ch': "ch' = notify_all E (connect_events E b undo) ch2" .
  note st = connected_stored(3-6) [OF a v bv c]
  have next_height: "h_height (hdr b) = ch_height ch + 1" using accepted_next [OF a] block.IH by simp
  have "unat (ch_height ch + 1) = Suc (unat (ch_height ch))"
    using unat_next [OF block.hyps(3)] .
  moreover have "ch_height ch' = h_height (hdr b)"
    by (simp add: ch' add_registered_fields [OF g] y set_tip_block_fields)
  moreover from this have "unat (ch_height ch') \<noteq> 0" using next_height calculation(1) by simp
  then have "\<not> chain_is_genesis ch'" by (auto simp: chain_is_genesis_def)
  moreover have "h_height (hdr b) = word_of_nat (Suc (unat (ch_height ch0) + length bs))"
  proof -
    have "h_height (hdr b) = word_of_nat (unat (ch_height ch + 1))" using next_height by simp
    then show ?thesis using block.IH calculation(1) by simp
  qed
  ultimately show ?case using block.IH next_height st
    by (simp add: ch' add_registered_fields [OF g] y set_tip_block_fields)
next
  case (side bs ch b)
  then show ?case by (simp add: chain_is_genesis_def)
qed

text \<open>Stored blocks do not depend on coins, and only on the undo data of their own hash.\<close>

lemma stored_frame:
  assumes "stored_block (en_crypto E) (view s) bu" and "BlockHash (en_crypto E) (fst bu) \<noteq> h"
    and "\<forall>k. \<not> utxo_space k \<and> k \<notin> range txKey \<and> k \<noteq> undoKey h \<longrightarrow> view t k = view s k"
  shows "stored_block (en_crypto E) (view t) bu"
proof -
  have "view t k = view s k"
    if "k \<in> {heightKey (h_height (hdr (fst bu))), blockKey (BlockHash (en_crypto E) (fst bu)),
      undoKey (BlockHash (en_crypto E) (fst bu))}" for k
    using that assms(2) by (intro assms(3) [rule_format]) auto
  then show ?thesis using assms(1) by (simp add: stored_block_def)
qed

text \<open>A stored block of another branch changes nothing of this.\<close>

lemma StoreBlock_view: "k \<noteq> blockKey (BlockHash C b) \<Longrightarrow> view (StoreBlock D C b s) k = view s k"
  by (simp add: StoreBlock_def put)

lemma StoreBlock_utxos: "utxos (StoreBlock D C b s) = utxos s" "index_ok s \<Longrightarrow> index_ok (StoreBlock D C b s)"
proof -
  have v: "view (StoreBlock D C b s) k = view s k" if "utxo_space k" for k using that by (intro StoreBlock_view) auto
  then show "utxos (StoreBlock D C b s) = utxos s" by (rule utxos_cong)
  show "index_ok (StoreBlock D C b s)" if "index_ok s" using that v by (rule index_ok_cong)
qed

lemma StoreBlock_stored:
  assumes "stored_block (en_crypto E) (view s) bu" and "\<not> HasBlock D s (BlockHash (en_crypto E) b)"
  shows "stored_block (en_crypto E) (view (StoreBlock D (en_crypto E) b s)) bu"
proof -
  have "BlockHash (en_crypto E) (fst bu) \<noteq> BlockHash (en_crypto E) b"
    using assms by (auto simp: stored_block_def HasBlock_def has)
  then show ?thesis using assms(1) by (simp add: stored_block_def StoreBlock_view)
qed

text \<open>Disconnecting all of it leads back to the coins and counters of the fork.\<close>

definition reverts_to :: "'s chain \<Rightarrow> block list \<Rightarrow> undo_data list \<Rightarrow> 's chain \<Rightarrow> bool" where
  "reverts_to ch0 bs us ch \<longleftrightarrow>
     (\<forall>x txs. like x ch \<and> list_all (stored_block (en_crypto E) (view (ch_db x))) (zip bs us) \<longrightarrow>
       (\<exists>x'. revert_loop E (rev (map (\<lambda>b. h_height (hdr b)) bs)) txs x =
           (x', Reverted (txs @ concat (map (\<lambda>b. tl (b_txs b)) (rev bs)))) \<and>
         like x' ch0 \<and> ch_tip x' = ch_tip x \<and> ch_height x' = ch_height x))"

lemma grown_reverts:
  assumes "grown E ch0 bs ch" and "\<not> chain_is_genesis ch0" and "index_ok (ch_db ch0)"
  shows "index_ok (ch_db ch) \<and> (\<exists>us. length us = length bs \<and> distinct (map (BlockHash (en_crypto E)) bs) \<and>
    list_all (stored_block (en_crypto E) (view (ch_db ch))) (zip bs us) \<and> reverts_to ch0 bs us ch)"
  using assms(1)
proof induction
  case start
  then show ?case using assms(3) by (simp add: reverts_to_def)
next
  case (block bs ch b now ch')
  let ?st = "\<lambda>s. stored_block (en_crypto E) (view s)"
  from ProcessBlock_connects [OF block.hyps(2,5)] obtain n undo ch1 y ch2 where
    a: "accepted_header E now b ch" and bv: "Block_Validate (en_crypto E) b = None"
    and v: "validateBlockState E ch b = Inr n" and c: "connect_block E b ch = (ch1, Inr undo)"
    and y: "y = set_tip_block E b ch1" and g: "addRegisteredSubChains (countRegisterOutputs b) y = Inr ch2"
    and ch': "ch' = notify_all E (connect_events E b undo) ch2" .
  from block.IH obtain us where us: "length us = length bs" "distinct (map (BlockHash (en_crypto E)) bs)"
    "list_all (?st (ch_db ch)) (zip bs us)" "reverts_to ch0 bs us ch" and ok: "index_ok (ch_db ch)" by blast
  have fresh: "fresh_outputs (en_crypto E) (utxos (ch_db ch)) b" using block.hyps(4) by (simp add: Store_Get_utxos)
  note st = connected_stored [OF a v bv c]
  have ry: "ch_registered y = ch_registered ch" by (simp add: y set_tip_block_fields st)
  have db: "ch_db ch' = ch_db ch1" "ch_supply ch' = ch_supply ch1" "ch_cumdiff ch' = ch_cumdiff ch1"
    "ch_registered ch' = ch_registered ch2" "ch_max_supply ch' = ch_max_supply ch"
    by (simp_all add: ch' add_registered_fields [OF g] y set_tip_block_fields st)
  have low: "h_height (hdr b') \<noteq> h_height (hdr b)" if "b' \<in> set bs" for b'
  proof -
    note shape = grown_shape [OF block.hyps(1) assms(2)]
    then have m: "map (\<lambda>b. h_height (hdr b)) bs =
        map word_of_nat [Suc (unat (ch_height ch0))..<Suc (unat (ch_height ch0) + length bs)]" by blast
    from that have "h_height (hdr b') \<in> set (map (\<lambda>b. h_height (hdr b)) bs)" by simp
    then obtain i where "i < Suc (unat (ch_height ch0) + length bs)" "h_height (hdr b') = word_of_nat i"
      unfolding m set_map set_upt by auto
    then have i: "i \<le> unat (ch_height ch)" "h_height (hdr b') = word_of_nat i" using shape by simp_all
    then have "unat (h_height (hdr b')) \<le> unat (ch_height ch)" by (simp add: le_unat_uoi)
    moreover have "unat (h_height (hdr b)) = Suc (unat (ch_height ch))"
      using accepted_next [OF a] shape unat_next [OF block.hyps(3)] by simp
    ultimately show ?thesis by auto
  qed
  have old: "BlockHash (en_crypto E) (fst bu) \<noteq> BlockHash (en_crypto E) b \<and> ?st (ch_db ch1) bu" if "bu \<in> set (zip bs us)" for bu
  proof (rule st(2))
    have "fst bu \<in> set bs" using set_zip_leftD [of "fst bu" "snd bu"] that by simp
    then show "h_height (hdr (fst bu)) \<noteq> h_height (hdr b)" by (rule low)
  qed (use that us(3) in \<open>auto simp: list_all_iff\<close>)
  have zip: "zip (bs @ [b]) (us @ [undo]) = zip bs us @ [(b, undo)]" using us(1) by simp
  have new: "BlockHash (en_crypto E) b \<notin> BlockHash (en_crypto E) ` set bs"
  proof
    assume "BlockHash (en_crypto E) b \<in> BlockHash (en_crypto E) ` set bs"
    then obtain i where "i < length bs" "BlockHash (en_crypto E) b = BlockHash (en_crypto E) (bs ! i)"
      by (auto simp: in_set_conv_nth)
    then show False using old [of "(bs ! i, us ! i)"] us(1) by (auto simp: in_set_zip)
  qed
  have "reverts_to ch0 (bs @ [b]) (us @ [undo]) ch'"
    unfolding reverts_to_def
  proof (intro allI impI)
    fix x txs assume "like x ch' \<and> list_all (?st (ch_db x)) (zip (bs @ [b]) (us @ [undo]))"
    then have x: "like x ch'" "list_all (?st (ch_db x)) (zip bs us)" "?st (ch_db x) (b, undo)" by (simp_all add: zip)
    from disconnect_like [OF ok fresh v bv c g ry, of x] x(1) obtain x1 where
      d: "disconnect_block E b undo x = (x1, None)" and l: "like x1 ch" and f: "ch_tip x1 = ch_tip x" "ch_height x1 = ch_height x"
      and view: "\<forall>k. \<not> utxo_space k \<and> k \<notin> range txKey \<and> k \<noteq> undoKey (BlockHash (en_crypto E) b) \<longrightarrow>
        view (ch_db x1) k = view (ch_db x) k"
      unfolding like_def db by auto
    have "list_all (?st (ch_db x1)) (zip bs us)"
      using x(2) old stored_frame [OF _ _ view] by (auto simp: list_all_iff)
    with us(4) l obtain x' where "revert_loop E (rev (map (\<lambda>b. h_height (hdr b)) bs)) (txs @ tl (b_txs b)) x1 =
        (x', Reverted ((txs @ tl (b_txs b)) @ concat (map (\<lambda>b. tl (b_txs b)) (rev bs))))"
      "like x' ch0" "ch_tip x' = ch_tip x1" "ch_height x' = ch_height x1" unfolding reverts_to_def by blast
    then show "\<exists>x'. revert_loop E (rev (map (\<lambda>b. h_height (hdr b)) (bs @ [b]))) txs x =
        (x', Reverted (txs @ concat (map (\<lambda>b. tl (b_txs b)) (rev (bs @ [b]))))) \<and>
        like x' ch0 \<and> ch_tip x' = ch_tip x \<and> ch_height x' = ch_height x"
      using d f stored_reads [OF x(3)] by simp
  qed
  moreover have "index_ok (ch_db ch')" unfolding db by (rule connect_index_ok [OF ok fresh v bv c])
  moreover have "list_all (?st (ch_db ch')) (zip (bs @ [b]) (us @ [undo]))"
    using old st(1) by (simp add: zip db list_all_iff)
  ultimately show ?case using us(1,2) new by (intro conjI exI [of _ "us @ [undo]"]) simp_all
next
  case (side bs ch b)
  then obtain us where us: "length us = length bs" "distinct (map (BlockHash (en_crypto E)) bs)"
    "list_all (stored_block (en_crypto E) (view (ch_db ch))) (zip bs us)" "reverts_to ch0 bs us ch"
    and ok: "index_ok (ch_db ch)" by blast
  have "reverts_to ch0 bs us (ch\<lparr>ch_db := StoreBlock D (en_crypto E) b (ch_db ch)\<rparr>)"
    using us(4) by (simp add: reverts_to_def like_def StoreBlock_utxos)
  moreover have "list_all (stored_block (en_crypto E) (view (StoreBlock D (en_crypto E) b (ch_db ch)))) (zip bs us)"
    using us(3) side.hyps(2) by (auto simp: list_all_iff intro: StoreBlock_stored)
  ultimately show ?case using us(1,2) ok by (auto simp: StoreBlock_utxos)
qed

section \<open>The other branch\<close>

abbreviation work :: "block list \<Rightarrow> nat" where
  "work bs \<equiv> sum_u64 (\<lambda>b. h_difficulty (hdr b)) bs"

lemma replay_block_sound:
  assumes "replay_block E b ch = (ch', r)" and s: "supply_sound D ch"
  shows "ch_tip ch' = ch_tip ch \<and> ch_height ch' = ch_height ch \<and> supply_sound D ch' \<and>
    (r = None \<longrightarrow> unat (ch_cumdiff ch') = unat (ch_cumdiff ch) + unat (h_difficulty (hdr b)) \<and>
       GetTip D (ch_db ch') = Inr (BlockHash (en_crypto E) b, h_height (hdr b), ch_supply ch') \<and>
       GetCumulativeDifficulty D (ch_db ch') = ch_cumdiff ch')"
proof (cases "validate_replay E b ch")
  case (Inl e)
  then show ?thesis using assms by (auto simp: replay_block_def)
next
  case (Inr n)
  then have v: "validateBlockState E ch b = Inr n" and bv: "Block_Validate (en_crypto E) b = None"
    by (auto simp: validate_replay_def check_Inr ValidateBlock_None)
  obtain ch1 r1 where c: "connect_block E b ch = (ch1, r1)" by fastforce
  from connect_block_accepted [OF v Block_Validate_distinct [OF bv] c] show ?thesis
  proof (elim disjE exE conjE)
    fix s' undo reward
    assume r1: "r1 = Inr (undo\<lparr>undo_reward := reward\<rparr>)"
      and ch1: "ch1 = ch\<lparr>ch_db := CommitBlock D (en_crypto E) b (undo\<lparr>undo_reward := reward\<rparr>) (ch_supply ch + reward)
                 (ch_cumdiff ch + h_difficulty (hdr b)) s',
               ch_supply := ch_supply ch + reward, ch_cumdiff := ch_cumdiff ch + h_difficulty (hdr b)\<rparr>"
      and le: "reward \<le> cap_reward (ch_max_supply ch) (ch_supply ch) (chain_subsidy ch (h_height (hdr b)))"
      and u: "unat (ch_supply ch + reward) = unat (ch_supply ch) + unat reward"
        "unat (ch_cumdiff ch + h_difficulty (hdr b)) = unat (ch_cumdiff ch) + unat (h_difficulty (hdr b))"
      and co: "coins s' \<le> coins (ch_db ch) + unat reward"
    have "supply_sound D ch1" using supply_sound_reward [OF s le u(1) co] by (simp add: supply_sound_def ch1 coins_CommitBlock)
    moreover have "ch_tip ch' = ch_tip ch1 \<and> ch_height ch' = ch_height ch1 \<and> ch_db ch' = ch_db ch1 \<and>
        ch_supply ch' = ch_supply ch1 \<and> ch_max_supply ch' = ch_max_supply ch1 \<and> ch_cumdiff ch' = ch_cumdiff ch1"
      using assms(1) Inr c r1 by (auto simp: replay_block_def add_registered_fields split: sum.splits)
    ultimately show ?thesis using u by (simp add: ch1 CommitBlock_reads supply_sound_def)
  qed (use assms Inr c in \<open>auto simp: replay_block_def\<close>)
qed

lemma replay_loop_sound:
  assumes "replay_loop E bs ch = (ch', r)" and "supply_sound D ch"
  shows "ch_tip ch' = ch_tip ch \<and> ch_height ch' = ch_height ch \<and> supply_sound D ch' \<and>
    (r = None \<longrightarrow> unat (ch_cumdiff ch') = unat (ch_cumdiff ch) + work bs \<and>
       (bs \<noteq> [] \<longrightarrow> GetTip D (ch_db ch') = Inr (BlockHash (en_crypto E) (last bs), h_height (hdr (last bs)), ch_supply ch') \<and>
          GetCumulativeDifficulty D (ch_db ch') = ch_cumdiff ch'))"
  using assms
proof (induction bs arbitrary: ch)
  case Nil
  then show ?case by auto
next
  case (Cons b bs)
  obtain ch1 r1 where r1: "replay_block E b ch = (ch1, r1)" by fastforce
  note one = replay_block_sound [OF this Cons.prems(2)]
  show ?case
  proof (cases r1)
    case None
    with Cons.prems(1) r1 have "replay_loop E bs ch1 = (ch', r)" by simp
    with Cons.IH [OF this] one None show ?thesis by (cases "bs = []") auto
  next
    case (Some e)
    then show ?thesis using Cons.prems(1) r1 one by auto
  qed
qed

lemma work_of_exact: "work bs < 2 ^ 64 \<Longrightarrow> unat (work_of bs) = work bs"
proof -
  have "unat w + work bs < 2 ^ 64 \<Longrightarrow> unat (fold (\<lambda>b w. w + h_difficulty (hdr b)) bs w) = unat w + work bs" for w
    by (induction bs arbitrary: w) (simp_all add: unat_add_u64)
  from this [of 0] show "work bs < 2 ^ 64 \<Longrightarrow> unat (work_of bs) = work bs" by (simp add: work_of_def)
qed

lemma load_blocks_exact:
  assumes "\<And>b. b \<in> set bs \<Longrightarrow> GetBlockByHeight (en_db E) (ch_db ch) (h_height (hdr b)) = Some b"
  shows "load_blocks E ch (map (\<lambda>b. h_height (hdr b)) bs) = Inr bs"
  using assms by (induction bs) (simp_all add: err_simps)

lemma collect_loop_ne: "collect_loop E ch h branch = Inr bs \<Longrightarrow> bs \<noteq> []"
proof (induction E ch h branch rule: collect_loop.induct)
  case (1 E ch h branch)
  from "1.prems" "1.IH" show ?case
    by (subst (asm) collect_loop.simps) (auto split: option.splits if_splits)
qed

text \<open>The database with a checkpoint is the same for coins and stored blocks.\<close>

lemma checkpoint_view: "k \<noteq> keyReorgCheckpoint \<Longrightarrow> view (PutReorgCheckpoint D n s) k = view s k"
  "k \<noteq> keyReorgCheckpoint \<Longrightarrow> view (DeleteReorgCheckpoint D s) k = view s k"
  by (simp_all add: PutReorgCheckpoint_def DeleteReorgCheckpoint_def put delete)

lemma checkpoint_deleted:
  "GetTip D (DeleteReorgCheckpoint D s) = GetTip D s" "GetReorgCheckpoint D (DeleteReorgCheckpoint D s) = None"
  "GetCumulativeDifficulty D (DeleteReorgCheckpoint D s) = GetCumulativeDifficulty D s"
proof -
  let ?s = "DeleteReorgCheckpoint D s"
  have k: "kv_get D ?s keyTipHash = kv_get D s keyTipHash" "kv_get D ?s keyHeight = kv_get D s keyHeight"
    "kv_get D ?s keySupply = kv_get D s keySupply" "kv_get D ?s keyCumDifficulty = kv_get D s keyCumDifficulty"
    "kv_get D ?s keyReorgCheckpoint = None"
    by (simp_all add: get checkpoint_view) (simp add: DeleteReorgCheckpoint_def delete)
  show "GetTip D ?s = GetTip D s" unfolding GetTip_def k ..
  show "GetReorgCheckpoint D ?s = None" by (simp add: GetReorgCheckpoint_def u64_at_def k)
  show "GetCumulativeDifficulty D ?s = GetCumulativeDifficulty D s" by (simp add: GetCumulativeDifficulty_def u64_at_def k)
qed

lemma like_checkpoint:
  assumes "index_ok (ch_db ch)"
  shows "like (ch\<lparr>ch_db := PutReorgCheckpoint D n (ch_db ch)\<rparr>) ch"
proof -
  have v: "view (PutReorgCheckpoint D n (ch_db ch)) k = view (ch_db ch) k" if "utxo_space k" for k
    using that by (intro checkpoint_view) auto
  then have "utxos (PutReorgCheckpoint D n (ch_db ch)) = utxos (ch_db ch)" by (rule utxos_cong)
  moreover from assms v have "index_ok (PutReorgCheckpoint D n (ch_db ch))" by (rule index_ok_cong)
  ultimately show ?thesis by (simp add: like_def)
qed

lemma stored_checkpoint:
  "stored_block (en_crypto E) (view (PutReorgCheckpoint D n s)) = stored_block (en_crypto E) (view s)"
  by (auto simp: stored_block_def checkpoint_view fun_eq_iff)

text \<open>The comparison of the two branches: the heights above the fork hold the blocks that were connected.\<close>

lemma Reorg_front:
  assumes g: "grown E ch0 bs ch" and ng: "\<not> chain_is_genesis ch0" and ok: "index_ok (ch_db ch0)"
    and br: "collectBranch E ch tip = Inr newBranch" and at: "h_height (hdr (hd newBranch)) = ch_height ch0 + 1"
    and mx: "ch_height ch0 \<noteq> max_u64"
  obtains b0 rest where "newBranch = b0 # rest" "h_height (hdr b0) - 1 = ch_height ch0"
    "heights_between (ch_height ch0) (ch_height ch) = map (\<lambda>b. h_height (hdr b)) bs"
    "load_blocks E ch (map (\<lambda>b. h_height (hdr b)) bs) = Inr bs" "ch_height ch0 + 1 \<noteq> 0"
proof -
  obtain b0 rest where nb: "newBranch = b0 # rest" "h_height (hdr b0) - 1 = ch_height ch0"
    using collect_loop_ne br at by (cases newBranch) (auto simp: collectBranch_def)
  from grown_reverts [OF g ng ok] obtain us where us: "length us = length bs"
    "list_all (stored_block (en_crypto E) (view (ch_db ch))) (zip bs us)" by blast
  have hs: "heights_between (ch_height ch0) (ch_height ch) = map (\<lambda>b. h_height (hdr b)) bs"
    unfolding heights_between_def using grown_shape [OF g ng] by simp
  have "GetBlockByHeight D (ch_db ch) (h_height (hdr b)) = Some b" if "b \<in> set bs" for b
  proof -
    from that obtain j where "j < length bs" "b = bs ! j" by (auto simp: in_set_conv_nth)
    then have "(b, us ! j) \<in> set (zip bs us)" using us(1) by (auto simp: in_set_zip)
    then show ?thesis using us(2) stored_reads(1) by (auto simp: list_all_iff)
  qed
  then have lb: "load_blocks E ch (map (\<lambda>b. h_height (hdr b)) bs) = Inr bs" by (intro load_blocks_exact) simp
  have nz: "ch_height ch0 + 1 \<noteq> 0" using unat_next [OF mx] by (metis nat.distinct(1) unsigned_0)
  show thesis by (rule that [OF nb hs lb nz])
qed

lemma Reorg_keeps:
  assumes "grown E ch0 bs ch" and "\<not> chain_is_genesis ch0" and "index_ok (ch_db ch0)"
    and "collectBranch E ch tip = Inr newBranch" and "h_height (hdr (hd newBranch)) = ch_height ch0 + 1"
    and "ch_height ch0 \<noteq> max_u64" and "work_of newBranch \<le> work_of bs"
  shows "Reorg E tip ch = (ch, None)"
  by (rule Reorg_front [OF assms(1-6)]) (use assms(4,7) in \<open>simp add: Reorg_def Let_def\<close>)

text \<open>Everything up to the replay, which starts with the coins and counters of the fork.\<close>

lemma Reorg_reverts:
  assumes g: "grown E ch0 bs ch" and ng: "\<not> chain_is_genesis ch0" and ok: "index_ok (ch_db ch0)"
    and br: "collectBranch E ch tip = Inr newBranch" and at: "h_height (hdr (hd newBranch)) = ch_height ch0 + 1"
    and mx: "ch_height ch0 \<noteq> max_u64" and more: "work_of newBranch > work_of bs"
  shows "\<exists>fork. like fork ch0 \<and> ch_tip fork = ch_tip ch \<and> ch_height fork = ch_height ch \<and>
    Reorg E tip ch = (case replay_loop E newBranch fork of
        (ch2, Some e) \<Rightarrow> (ch2, Some e)
      | (ch2, None) \<Rightarrow>
         (let ch3 = set_tip_block E (last newBranch) ch2;
              ch4 = ch3\<lparr>ch_db := DeleteReorgCheckpoint D (ch_db ch3)\<rparr>;
              toReturn = returned_txs (en_crypto E) newBranch (concat (map (\<lambda>b. tl (b_txs b)) (rev bs)));
              ch5 = (if toReturn = [] then ch4 else notify E (EvReverted toReturn) ch4)
          in (notify E EvReorg ch5, None)))"
proof -
  from Reorg_front [OF g ng ok br at mx] obtain b0 rest where nb: "newBranch = b0 # rest" "h_height (hdr b0) - 1 = ch_height ch0"
    and hs: "heights_between (ch_height ch0) (ch_height ch) = map (\<lambda>b. h_height (hdr b)) bs"
    and lb: "load_blocks E ch (map (\<lambda>b. h_height (hdr b)) bs) = Inr bs" and nz: "ch_height ch0 + 1 \<noteq> 0" .
  from grown_reverts [OF g ng ok] obtain us where us: "length us = length bs"
    "list_all (stored_block (en_crypto E) (view (ch_db ch))) (zip bs us)" "reverts_to ch0 bs us ch" and i: "index_ok (ch_db ch)"
    by blast
  define x where "x = ch\<lparr>ch_db := PutReorgCheckpoint D (ch_height ch0) (ch_db ch)\<rparr>"
  have "like x ch" unfolding x_def by (rule like_checkpoint [OF i])
  moreover have "list_all (stored_block (en_crypto E) (view (ch_db x))) (zip bs us)"
    using us(2) by (simp add: x_def stored_checkpoint)
  ultimately obtain fork where "revert_loop E (rev (map (\<lambda>b. h_height (hdr b)) bs)) [] x =
      (fork, Reverted (concat (map (\<lambda>b. tl (b_txs b)) (rev bs))))" "like fork ch0" "ch_tip fork = ch_tip x" "ch_height fork = ch_height x"
    using us(3) [unfolded reverts_to_def, rule_format, of x "[]"] by auto
  then show ?thesis using br more [folded not_le] nb hs lb nz unfolding x_def
    by (intro exI [of _ fork]) (simp add: Reorg_def Let_def del: replay_loop.simps last.simps split: prod.split option.split)
qed

text \<open>What a reorganisation ends with: the old chain, or the new branch on the state of the fork.\<close>

lemma Reorg_result:
  assumes g: "grown E ch0 bs ch" and ng: "\<not> chain_is_genesis ch0" and ok: "index_ok (ch_db ch0)"
    and sound: "supply_sound D ch0"
    and br: "collectBranch E ch tip = Inr newBranch" and at: "h_height (hdr (hd newBranch)) = ch_height ch0 + 1"
    and mx: "ch_height ch0 \<noteq> max_u64" and more: "work_of newBranch > work_of bs"
    and r: "Reorg E tip ch = (ch', r)"
  obtains fork ch2 where "like fork ch0" "replay_loop E newBranch fork = (ch2, r)"
    "utxos (ch_db ch') = utxos (ch_db ch2)" "ch_supply ch' = ch_supply ch2" "supply_sound D ch'"
    "r \<noteq> None \<Longrightarrow> ch_tip ch' = ch_tip ch \<and> ch_height ch' = ch_height ch"
    "r = None \<Longrightarrow> ch_tip ch' = BlockHash (en_crypto E) (last newBranch) \<and> ch_height ch' = h_height (hdr (last newBranch)) \<and>
       persisted D ch' \<and> ch_cumdiff ch' > ch_cumdiff ch"
proof -
  from Reorg_reverts [OF g ng ok br at mx more] obtain fork where f: "like fork ch0" "ch_tip fork = ch_tip ch"
      "ch_height fork = ch_height ch"
    and R: "Reorg E tip ch = (case replay_loop E newBranch fork of
        (ch2, Some e) \<Rightarrow> (ch2, Some e)
      | (ch2, None) \<Rightarrow>
         (let ch3 = set_tip_block E (last newBranch) ch2;
              ch4 = ch3\<lparr>ch_db := DeleteReorgCheckpoint D (ch_db ch3)\<rparr>;
              toReturn = returned_txs (en_crypto E) newBranch (concat (map (\<lambda>b. tl (b_txs b)) (rev bs)));
              ch5 = (if toReturn = [] then ch4 else notify E (EvReverted toReturn) ch4)
          in (notify E EvReorg ch5, None)))" by blast
  obtain ch2 r2 where l: "replay_loop E newBranch fork = (ch2, r2)" by fastforce
  have "supply_sound D fork" using sound f(1) by (simp add: supply_sound_def like_def Store_Get_utxos)
  note s = replay_loop_sound [OF l this]
  show thesis
  proof (cases r2)
    case (Some e)
    then show ?thesis using that [OF f(1), of ch2] l R r s f by simp
  next
    case None
    have ne: "newBranch \<noteq> []" using collect_loop_ne br by (auto simp: collectBranch_def)
    let ?s = "DeleteReorgCheckpoint D (ch_db ch2)"
    have ch': "r = None" "ch_db ch' = ?s" "ch_supply ch' = ch_supply ch2" "ch_cumdiff ch' = ch_cumdiff ch2"
      "ch_tip ch' = BlockHash (en_crypto E) (last newBranch)" "ch_height ch' = h_height (hdr (last newBranch))"
      "ch_max_supply ch' = ch_max_supply ch2"
      using r l None unfolding R by (auto simp: Let_def set_tip_block_fields)
    have v: "view ?s k = view (ch_db ch2) k" if "utxo_space k" for k using that by (intro checkpoint_view) auto
    then have u: "utxos ?s = utxos (ch_db ch2)" by (rule utxos_cong)
    have "persisted D ch'" using s None ne by (simp add: persisted_def ch' checkpoint_deleted)
    moreover have "unat (ch_cumdiff ch') = unat (ch_cumdiff ch0) + work newBranch"
      using s None f(1) by (simp add: ch' like_def)
    moreover have "unat (ch_cumdiff ch) = unat (ch_cumdiff ch0) + work bs" using grown_shape [OF g ng] by simp
    moreover have "unat (work_of newBranch) = work newBranch" "unat (work_of bs) = work bs"
      using calculation(2,3) unat_u64_less [of "ch_cumdiff ch'"] unat_u64_less [of "ch_cumdiff ch"]
      by (simp_all add: work_of_exact)
    ultimately have "persisted D ch' \<and> ch_cumdiff ch' > ch_cumdiff ch" using more by (simp add: word_less_nat_alt)
    moreover have "supply_sound D ch'" using s u by (simp add: supply_sound_def ch' Store_Get_utxos)
    ultimately show ?thesis using that [OF f(1), of ch2] l None u by (simp add: ch')
  qed
qed

end

text \<open>
  C3: A reorganisation is a switch of branches. Let a chain have grown from a fork state by any blocks
  whose outputs are new, with blocks of other branches stored meanwhile, and let another branch start
  at the fork. If that branch has no more work, nothing changes. Otherwise the coins, the supply, the
  work and the registrations are brought back to those of the fork, and the branch is validated and
  connected there: if it is valid, the chain has its tip and its coins, strictly more work than before,
  no more coins than the supply allows, and the database records it; if it is not, the chain stays where
  the invalid block was met, with the coins of the new branch under the tip of the old one.
\<close>

theorem reorg_switches_branch:
  assumes E: "E = env_on MemoryDB C reg hnd" and grown: "grown E ch0 bs ch"
    and fork: "\<not> chain_is_genesis ch0" "ch_height ch0 \<noteq> max_u64" "index_consistent (DAList.lookup (ch_db ch0))"
      "supply_sound MemoryDB ch0"
    and branch: "collectBranch E ch tip = Inr newBranch" "h_height (hdr (hd newBranch)) = ch_height ch0 + 1"
    and reorg: "Reorg E tip ch = (ch', r)"
  shows "if work_of newBranch \<le> work_of bs then ch' = ch \<and> r = None
    else \<exists>base ch2. Store_Get MemoryDB (ch_db base) = Store_Get MemoryDB (ch_db ch0) \<and> ch_supply base = ch_supply ch0 \<and>
      ch_cumdiff base = ch_cumdiff ch0 \<and> ch_registered base = ch_registered ch0 \<and>
      replay_loop E newBranch base = (ch2, r) \<and>
      Store_Get MemoryDB (ch_db ch') = Store_Get MemoryDB (ch_db ch2) \<and> ch_supply ch' = ch_supply ch2 \<and>
      supply_sound MemoryDB ch' \<and>
      (case r of
         None \<Rightarrow> ch_tip ch' = BlockHash C (last newBranch) \<and> ch_height ch' = h_height (hdr (last newBranch)) \<and>
           ch_cumdiff ch' > ch_cumdiff ch \<and> persisted MemoryDB ch'
       | Some e \<Rightarrow> ch_tip ch' = ch_tip ch \<and> ch_height ch' = ch_height ch)"
proof (cases "work_of newBranch \<le> work_of bs")
  case True
  then show ?thesis
    using root_chain.Reorg_keeps [OF grown [unfolded E] fork(1,3) branch [unfolded E] fork(2)] reorg E by simp
next
  case False
  then have more: "work_of newBranch > work_of bs" by simp
  have C: "en_crypto E = C" by (simp add: E env_on_def)
  from root_chain.Reorg_result [OF grown [unfolded E] fork(1,3,4) branch [unfolded E] fork(2) more reorg [unfolded E]]
  obtain base ch2 where "root_chain.like base ch0" "replay_loop E newBranch base = (ch2, r)"
    and "utxos_of (DAList.lookup (ch_db ch')) = utxos_of (DAList.lookup (ch_db ch2))" "ch_supply ch' = ch_supply ch2"
      "supply_sound MemoryDB ch'"
    and "r \<noteq> None \<Longrightarrow> ch_tip ch' = ch_tip ch \<and> ch_height ch' = ch_height ch"
      "r = None \<Longrightarrow> ch_tip ch' = BlockHash C (last newBranch) \<and> ch_height ch' = h_height (hdr (last newBranch)) \<and>
         persisted MemoryDB ch' \<and> ch_cumdiff ch' > ch_cumdiff ch"
    unfolding E [symmetric] C by blast
  then show ?thesis using False
    by (intro iffD2 [OF if_not_P] exI [of _ base] exI [of _ ch2])
      (auto simp: root_chain.like_def mem.Store_Get_utxos split: option.split)
qed

section \<open>A chain with two branches\<close>

text \<open>A hash that tells blocks apart by height and nonce; blocks with a coinbase only.\<close>

definition fork_crypto :: crypto where
  "fork_crypto = toy_crypto\<lparr>blake3_sum256 :=
     (\<lambda>bs. word_of_nat (Suc (unat (le_word (take 8 (drop 76 bs)) :: u64) + 256 * unat (le_word (take 8 (drop 92 bs)) :: u64))))\<rparr>"

definition fork_env :: "dbval memory_db env" where "fork_env = env_on MemoryDB fork_crypto None (\<lambda>_. None)"

definition fork_block :: "hash \<Rightarrow> u64 \<Rightarrow> u64 \<Rightarrow> block" where
  "fork_block prev height nonce = \<lparr>b_header = Some \<lparr>h_version = 1, h_prev = prev, h_merkle = TxHash fork_crypto demo_coinbase,
       h_timestamp = 100, h_height = height, h_difficulty = 1, h_nonce = nonce, h_sig = []\<rparr>,
     b_txs = [demo_coinbase]\<rparr>"

definition fork_base :: "dbval memory_db chain" where
  "fork_base = \<lparr>ch_db = PutBlock MemoryDB fork_crypto ((fork_block 0 0 0)\<lparr>b_txs := []\<rparr>) DAList.empty, ch_height = 0, ch_tip = 1,
     ch_supply = 0, ch_cumdiff = 0, ch_tip_time = 100, ch_engine = demo_engine, ch_max_supply = 1000,
     ch_block_reward = 20, ch_halving = 0, ch_validator_stake = 5, ch_allow_minting = True, ch_registered = 0,
     ch_genesis = 1, ch_log = []\<rparr>"

lemma fork_hash_header:
  "HeaderHash fork_crypto h = word_of_nat (Suc (unat (h_height h) + 256 * unat (h_nonce h)))"
  by (simp add: HeaderHash_def Hash_def fork_crypto_def HeaderSigningBytes_def le_word_le_bytes)

lemma fork_block_simps [simp]:
  "hdr (fork_block prev n k) = \<lparr>h_version = 1, h_prev = prev, h_merkle = TxHash fork_crypto demo_coinbase,
     h_timestamp = 100, h_height = n, h_difficulty = 1, h_nonce = k, h_sig = []\<rparr>"
  "b_txs (fork_block prev n k) = [demo_coinbase]"
  "b_header (fork_block prev n k) = Some \<lparr>h_version = 1, h_prev = prev, h_merkle = TxHash fork_crypto demo_coinbase,
     h_timestamp = 100, h_height = n, h_difficulty = 1, h_nonce = k, h_sig = []\<rparr>"
  "BlockHash fork_crypto (fork_block prev n k) = word_of_nat (Suc (unat n + 256 * unat k))"
  by (simp_all add: fork_block_def BlockHash_def fork_hash_header)

lemma fork_env_simps [simp]:
  "en_crypto fork_env = fork_crypto" "en_db fork_env = MemoryDB" "en_set fork_env = UtxoStore MemoryDB"
  "en_registration_ok fork_env = None" "en_handler fork_env ev = None"
  by (simp_all add: fork_env_def env_on_def)

lemma fork_block_valid: "Block_Validate fork_crypto (fork_block prev n k) = None"
  by (simp add: fork_block_def coinbase_block_valid)

abbreviation fork_root :: block where "fork_root \<equiv> (fork_block 0 0 0)\<lparr>b_txs := []\<rparr>"
abbreviation fork_first :: block where "fork_first \<equiv> fork_block 1 1 0"

lemma fork_root_hash: "BlockHash fork_crypto fork_root = 1" "h_height (hdr fork_root) = 0"
  by (simp_all add: BlockHash_def fork_hash_header fork_block_def)

lemma fork_base_view:
  "DAList.lookup (ch_db fork_base) k =
     (if k = heightKey 0 then Some (VBytes (hash_bytes 1)) else if k = blockKey 1 then Some (DBlock fork_root) else None)"
  by (simp add: fork_base_def mem.view_PutBlock fork_root_hash)

lemma fork_base_fields [simp]:
  "ch_height fork_base = 0" "ch_tip fork_base = 1" "ch_supply fork_base = 0" "ch_cumdiff fork_base = 0"
  "ch_engine fork_base = demo_engine" "ch_max_supply fork_base = 1000" "ch_registered fork_base = 0"
  "ch_block_reward fork_base = 20" "ch_halving fork_base = 0"
  by (simp_all add: fork_base_def)

lemma fork_base_empty: "utxos_of (DAList.lookup (ch_db fork_base)) = Map.empty" "index_consistent (DAList.lookup (ch_db fork_base))"
proof -
  have v: "DAList.lookup (ch_db fork_base) k = DAList.lookup DAList.empty k" if "utxo_space k" for k
    using that by (auto simp: fork_base_view)
  have e: "DAList.lookup DAList.empty = (Map.empty :: bytes \<rightharpoonup> dbval)" by (simp add: fun_eq_iff)
  from mem.index_ok_empty [OF e] v show "index_consistent (DAList.lookup (ch_db fork_base))" by (rule mem.index_ok_cong)
  have "utxos_of (DAList.lookup (ch_db fork_base)) = utxos_of (DAList.lookup (DAList.empty :: dbval memory_db))"
    using v by (rule mem.utxos_cong)
  then show "utxos_of (DAList.lookup (ch_db fork_base)) = Map.empty" by (simp add: utxos_of_def fun_eq_iff)
qed

lemma fork_base_sound: "supply_sound MemoryDB fork_base"
  by (simp add: supply_sound_def mem.Store_Get_utxos fork_base_empty total_value_def)

lemma fork_first_accepted: "accepted_header fork_env 100 fork_first fork_base"
proof -
  have "GetBlock MemoryDB (ch_db fork_base) 1 = Some fork_root" by (simp add: GetBlock_def mem.get fork_base_view)
  then show ?thesis
    using fork_block_valid
    by (simp add: accepted_header_def checkParentLink_def chain_is_genesis_def is_zero_hash_def HasBlock_def mem.has
        fork_base_view verifyDifficulty_def demo_engine_def VerifyDifficulty_def ExpectedDifficulty_def ValidateBlock_None
        Engine_VerifyHeader_def PoW_VerifyHeader_def pow_target_def maxUint256_def check_times_def checkSigningLimit_def
        fork_hash_header [unfolded HeaderHash_def])
qed

lemma fork_first_state: "validateBlockState fork_env fork_base fork_first = Inr 0"
proof -
  have "concat (map tx_inputs (b_txs fork_first)) = [\<lparr>in_prevout = zero_outpoint, in_sig = [1, 0, 0, 0, 0, 0, 0, 0], in_pubkey = []\<rparr>]"
    by (simp add: demo_coinbase_def)
  then have "checkCoinbaseMaturity U s fork_first = None" for U and s :: "dbval memory_db"
    unfolding checkCoinbaseMaturity_def by (simp add: check_maturity_input_def)
  moreover have "validateRegistrations fork_env fork_base fork_first = Inr 0"
    by (simp add: validateRegistrations_def demo_coinbase_def is_register_def demo_script_def)
  moreover have "cap_reward 1000 0 (chain_subsidy fork_base 1) = 20"
    by (simp add: chain_subsidy_def BlockSubsidy_def cap_reward_def)
  moreover have "isCoinbase demo_coinbase" "check_coinbase_outputs demo_coinbase = None" "TotalOutputValue demo_coinbase = Inr 20"
    by (simp_all add: demo_coinbase_def isCoinbase_def check_coinbase_outputs_def demo_script_def TotalOutputValue_def)
  ultimately show ?thesis
    by (simp add: validateBlockState_def check_extra_coinbase_def check_stake_amounts_def Let_def)
qed

definition fork_old :: "dbval memory_db chain" where
  "fork_old = fst (ProcessBlock fork_env 100 fork_first fork_base)"

lemma fork_first_connected: "ProcessBlock fork_env 100 fork_first fork_base = (fork_old, None)"
proof -
  have "computeBlockReward (en_set fork_env) s fork_first = 20" for s
    by (simp add: computeBlockReward_def) (simp add: demo_coinbase_def TotalOutputValue_def)
  moreover have "distinct (spent_outpoints (b_txs fork_first))" by (rule Block_Validate_distinct [OF fork_block_valid])
  then obtain s' undo where "applyBlockWithUndo fork_env fork_first (ch_db fork_base) = (s', Some undo)"
    using root_chain.applyBlock_accepted fork_first_state unfolding fork_env_def by blast
  ultimately obtain ch1 undo1 where c: "connect_block fork_env fork_first fork_base = (ch1, Inr undo1)" "ch_registered ch1 = 0"
    by (simp add: connect_block_def cap_reward_def Let_def)
  have "\<exists>ch. extend_tip fork_env fork_first fork_base = (ch, None)"
    by (simp add: extend_tip_def fork_first_state c addRegisteredSubChains_def Let_def)
  moreover have "ProcessBlock fork_env 100 fork_first fork_base = extend_tip fork_env fork_first fork_base"
    using fork_first_accepted by (auto simp: ProcessBlock_def accepted_header_def Let_def and_then_None)
  ultimately show ?thesis by (auto simp: fork_old_def)
qed

lemma fork_no_fork: "no_fork fork_env fork_first fork_base"
  using fork_first_accepted by (auto simp: no_fork_def accepted_header_def split: option.splits)

lemma fork_old_facts:
  "ch_height fork_old = 1" "ch_tip fork_old = 2" "ch_cumdiff fork_old = 1" "ch_genesis fork_old = 1"
  "DAList.lookup (ch_db fork_old) (heightKey 0) = Some (VBytes (hash_bytes 1))"
  "DAList.lookup (ch_db fork_old) (heightKey 1) = Some (VBytes (hash_bytes 2))"
  "DAList.lookup (ch_db fork_old) (blockKey h) = (if h = 2 then Some (DBlock fork_first) else if h = 1 then Some (DBlock fork_root) else None)"
proof -
  obtain s' undo undo' reward where a: "applyBlockWithUndo fork_env fork_first (ch_db fork_base) = (s', Some undo)"
    and db: "ch_db fork_old = CommitBlock MemoryDB fork_crypto fork_first undo' reward 1 s'"
    and f: "ch_height fork_old = 1" "ch_tip fork_old = 2" "ch_cumdiff fork_old = 1" "ch_genesis fork_old = 1"
  proof (rule root_chain.ProcessBlock_cases [OF fork_no_fork [unfolded fork_env_def] fork_first_connected [unfolded fork_env_def]])
    fix s' undo reward
    assume "applyBlockWithUndo (env_on MemoryDB fork_crypto None (\<lambda>_. None)) fork_first (ch_db fork_base) = (s', Some undo)"
      and "ch_db fork_old = CommitBlock MemoryDB (en_crypto (env_on MemoryDB fork_crypto None (\<lambda>_. None))) fork_first
          (undo\<lparr>undo_reward := reward\<rparr>) (ch_supply fork_base + reward) (ch_cumdiff fork_base + h_difficulty (hdr fork_first)) s'"
      and "ch_cumdiff fork_old = ch_cumdiff fork_base + h_difficulty (hdr fork_first)"
        "ch_tip fork_old = BlockHash (en_crypto (env_on MemoryDB fork_crypto None (\<lambda>_. None))) fork_first"
        "ch_height fork_old = h_height (hdr fork_first)" "ch_genesis fork_old = ch_genesis fork_base"
    then show thesis by (intro that) (simp_all flip: fork_env_def, simp_all add: fork_base_def)
  qed simp
  show "ch_height fork_old = 1" "ch_tip fork_old = 2" "ch_cumdiff fork_old = 1" "ch_genesis fork_old = 1" by (rule f)+
  have v: "DAList.lookup s' k = DAList.lookup (ch_db fork_base) k" if "\<not> utxo_space k" for k
    using root_chain.view_applyBlock [OF a [unfolded fork_env_def] that] .
  show "DAList.lookup (ch_db fork_old) (heightKey 0) = Some (VBytes (hash_bytes 1))"
    "DAList.lookup (ch_db fork_old) (heightKey 1) = Some (VBytes (hash_bytes 2))"
    "DAList.lookup (ch_db fork_old) (blockKey h) = (if h = 2 then Some (DBlock fork_first) else if h = 1 then Some (DBlock fork_root) else None)"
    by (auto simp: db mem.view_CommitBlock_cases v fork_base_view)
qed

abbreviation fork_side :: "block list" where "fork_side \<equiv> [fork_block 1 1 1, fork_block 258 2 1]"

definition fork_split :: "dbval memory_db chain" where
  "fork_split = fork_old\<lparr>ch_db := StoreBlock MemoryDB fork_crypto (fork_block 258 2 1)
     (StoreBlock MemoryDB fork_crypto (fork_block 1 1 1) (ch_db fork_old))\<rparr>"

lemma fork_split_block:
  "GetBlock MemoryDB (ch_db fork_split) h =
     (if h = 259 then Some (fork_block 258 2 1) else if h = 258 then Some (fork_block 1 1 1)
      else if h = 2 then Some fork_first else if h = 1 then Some fork_root else None)"
  by (simp add: GetBlock_def mem.get fork_split_def StoreBlock_def mem.put fork_old_facts)

lemma fork_split_height:
  "GetBlockByHeight MemoryDB (ch_db fork_split) 0 = Some fork_root"
  "GetBlockByHeight MemoryDB (ch_db fork_split) 1 = Some fork_first"
proof -
  have "kv_get MemoryDB (ch_db fork_split) (heightKey 0) = Some (VBytes (hash_bytes 1))"
    "kv_get MemoryDB (ch_db fork_split) (heightKey 1) = Some (VBytes (hash_bytes 2))"
    by (simp_all add: mem.get fork_split_def StoreBlock_def mem.put fork_old_facts)
  then show "GetBlockByHeight MemoryDB (ch_db fork_split) 0 = Some fork_root"
    "GetBlockByHeight MemoryDB (ch_db fork_split) 1 = Some fork_first"
    by (simp_all add: root_chain.GetBlockByHeight_via fork_split_block)
qed

lemma fork_collected: "collectBranch fork_env fork_split 259 = Inr fork_side"
proof -
  have "collect_loop fork_env fork_split 258 [fork_block 258 2 1] = Inr fork_side"
    by (subst collect_loop.simps) (simp add: fork_split_block fork_split_height MaxReorgDepth_def fork_root_hash)
  then show ?thesis unfolding collectBranch_def
    by (subst collect_loop.simps) (simp add: fork_split_block fork_split_height MaxReorgDepth_def)
qed

lemma fork_grown: "grown fork_env fork_base [fork_first] fork_split"
proof -
  have "fresh_outputs fork_crypto (Store_Get MemoryDB (ch_db fork_base)) fork_first"
    by (simp add: fresh_outputs_def mem.Store_Get_utxos fork_base_empty) (simp add: demo_coinbase_def)
  then have "grown fork_env fork_base ([] @ [fork_first]) fork_old"
    using fork_no_fork fork_first_connected by (intro grown.block [OF grown.start]) simp_all
  then have "grown fork_env fork_base [fork_first]
      (fork_old\<lparr>ch_db := StoreBlock (en_db fork_env) (en_crypto fork_env) (fork_block 1 1 1) (ch_db fork_old)\<rparr>)"
    by (intro grown.side) (simp_all add: HasBlock_def mem.has fork_old_facts)
  from grown.side [OF this, of "fork_block 258 2 1"] show ?thesis
    by (simp add: HasBlock_def mem.has StoreBlock_def mem.put fork_old_facts fork_split_def)
qed

theorem reorg_switches_branch_witness:
  "\<exists>ch' r. Reorg fork_env 259 fork_split = (ch', r) \<and> supply_sound MemoryDB ch' \<and>
     (case r of None \<Rightarrow> ch_tip ch' = 259 \<and> ch_height ch' = 2 \<and> ch_cumdiff ch' > 1 | Some e \<Rightarrow> ch_tip ch' = 2)"
proof -
  obtain ch' r where r: "Reorg fork_env 259 fork_split = (ch', r)" by fastforce
  have "ch_tip fork_split = 2" "ch_cumdiff fork_split = 1" by (simp_all add: fork_split_def fork_old_facts)
  moreover have "\<not> chain_is_genesis fork_base" by (simp add: chain_is_genesis_def is_zero_hash_def)
  moreover have "\<not> work_of fork_side \<le> work_of [fork_first]" by (simp add: work_of_def word_le_nat_alt)
  ultimately show ?thesis
    using reorg_switches_branch [OF fork_env_def fork_grown _ _ fork_base_empty(2) fork_base_sound fork_collected _ r] r
    by (auto split: option.splits)
qed

end
