(* ===== verification/Branches.thy ===== *)
theory Branches
  imports Switch
begin

text \<open>
  Chains with branches: what a chain goes through when blocks come in as forks, too, and
  reorganisations happen. The invariant is a path of blocks with the data to undo each of them;
  disconnecting takes the last block off the path, connecting adds one.
\<close>

section \<open>Runs with reorganisations\<close>

text \<open>
  Genesis, any blocks, and restarts. Two things are left out: a reorganisation that fails in the middle
  (it leaves the checkpoint, and the state between the branches is repaired only by the next start),
  and one that ends below the old height (the height index then keeps blocks of the old branch above
  the tip). The counter of heights does not wrap, and the genesis hash is not the zero hash.
\<close>

inductive chain_run :: "'s env \<Rightarrow> genesis \<Rightarrow> 's \<Rightarrow> 's chain \<Rightarrow> bool" for E gen s0 where
  genesis: "NewChain E eng s0 = Inr ch0 \<Longrightarrow> InitFromGenesis E gen ch0 = Inr ch \<Longrightarrow>
     ch_tip ch \<noteq> 0 \<Longrightarrow> chain_run E gen s0 ch"
| block: "chain_run E gen s0 ch \<Longrightarrow> ProcessBlock E now b ch = (ch', r) \<Longrightarrow> h_height (hdr b) \<noteq> max_u64 \<Longrightarrow>
     GetReorgCheckpoint (en_db E) (ch_db ch') = None \<Longrightarrow> ch_height ch \<le> ch_height ch' \<Longrightarrow> chain_run E gen s0 ch'"
| restart: "chain_run E gen s0 ch \<Longrightarrow> NewChain E eng (ch_db ch) = Inr ch1 \<Longrightarrow>
     chain_run E gen s0 (restart_rules gen ch1)"

text \<open>Two stored blocks that create an output of the same outpoint create it with the same value.\<close>

definition outputs_agree :: "('s, dbval) kvdb \<Rightarrow> crypto \<Rightarrow> 's \<Rightarrow> bool" where
  "outputs_agree D C s \<longleftrightarrow> (\<forall>h b k c x out out'. GetBlock D s h = Some b \<and> GetBlock D s k = Some c \<and>
     (x, out) \<in> set (created_list C (b_txs b)) \<and> (x, out') \<in> set (created_list C (b_txs c)) \<longrightarrow>
     out_value out = out_value out')"

lemma unat_of_nat_u64: "n < 2 ^ 64 \<Longrightarrow> unat (word_of_nat n :: u64) = n"
  by (simp add: unat_of_nat)

lemma of_nat_u64_inject: "m < 2 ^ 64 \<Longrightarrow> n < 2 ^ 64 \<Longrightarrow> (word_of_nat m :: u64) = word_of_nat n \<longleftrightarrow> m = n"
  using unat_of_nat_u64 by metis

lemma linked_chain_prefix:
  assumes "linked_chain C (bs @ cs)"
  shows "linked_chain C bs"
proof -
  have "h_height (hdr ((bs @ cs) ! i)) = word_of_nat i" if "i < length bs" for i
    using assms that by (simp add: linked_chain_def)
  then have "h_height (hdr (bs ! i)) = word_of_nat i" if "i < length bs" for i using that by (simp add: nth_append)
  moreover have "h_prev (hdr ((bs @ cs) ! Suc i)) = BlockHash C ((bs @ cs) ! i)" if "Suc i < length bs" for i
    using assms that by (simp add: linked_chain_def)
  then have "h_prev (hdr (bs ! Suc i)) = BlockHash C (bs ! i)" if "Suc i < length bs" for i using that by (simp add: nth_append)
  ultimately show ?thesis by (simp add: linked_chain_def)
qed

text \<open>A block that comes in as a fork is refused, or stored and perhaps switched to.\<close>

lemma ProcessBlock_fork:
  assumes "\<not> no_fork E b ch" and "ProcessBlock E now b ch = (ch', r)"
  obtains (refused) "ch' = ch" "r \<noteq> None"
  | (stored) "\<not> HasBlock (en_db E) (ch_db ch) (BlockHash (en_crypto E) b)" "checkParentLink E ch (hdr b) = Some ErrForkDetected"
      "check_times E now (hdr b) ch = None"
      "ch' = ch\<lparr>ch_db := StoreBlock (en_db E) (en_crypto E) b (ch_db ch)\<rparr> \<and> r = None \<or>
       Reorg E (BlockHash (en_crypto E) b) (ch\<lparr>ch_db := StoreBlock (en_db E) (en_crypto E) b (ch_db ch)\<rparr>) = (ch', r)"
proof -
  from assms(1) obtain h where h: "b_header b = Some h" "checkParentLink E ch h = Some ErrForkDetected"
    by (auto simp: no_fork_def split: option.splits)
  let ?x = "ch\<lparr>ch_db := StoreBlock (en_db E) (en_crypto E) b (ch_db ch)\<rparr>"
  let ?checks = "and_then (map_option ConsensusErr (ValidateBlock (en_crypto E) (en_db E) (ch_db ch) (ch_engine ch) b))
    (and_then (check_times E now h ch) None)"
  have P: "ProcessBlock E now b ch = (if HasBlock (en_db E) (ch_db ch) (BlockHash (en_crypto E) b) then (ch, Some ErrBlockKnown)
      else case and_then None ?checks of Some e \<Rightarrow> (ch, Some e)
        | None \<Rightarrow> if h_height h \<ge> ch_height ch \<or> is_pow ch then Reorg E (BlockHash (en_crypto E) b) ?x else (?x, None))"
    using h by (simp add: ProcessBlock_def Let_def split: option.split)
  show thesis
  proof (cases "HasBlock (en_db E) (ch_db ch) (BlockHash (en_crypto E) b) \<or> and_then None ?checks \<noteq> None")
    case True
    then have "\<exists>e. ProcessBlock E now b ch = (ch, Some e)" unfolding P by (cases "and_then None ?checks") (simp_all add: and_then_None)
    then show ?thesis using refused assms(2) by auto
  next
    case False
    then show ?thesis using stored h assms(2) unfolding P by (auto simp: and_then_None split: if_splits)
  qed
qed

context chain_env
begin

section \<open>The path of blocks\<close>

text \<open>Stored blocks: under their own hash, linked to a stored parent, one of them of height 0.\<close>

definition store_ok :: "block \<Rightarrow> 's \<Rightarrow> bool" where
  "store_ok g s \<longleftrightarrow> (\<forall>h b. GetBlock D s h = Some b \<longrightarrow> BlockHash (en_crypto E) b = h \<and> h_height (hdr b) \<noteq> max_u64 \<and>
     (if h_height (hdr b) = 0 then b = g
      else \<exists>p. GetBlock D s (h_prev (hdr b)) = Some p \<and> h_height (hdr b) = h_height (hdr p) + 1 \<and>
        h_timestamp (hdr p) \<le> h_timestamp (hdr b)))"

definition path_ok :: "block \<Rightarrow> 's chain \<Rightarrow> block list \<Rightarrow> bool" where
  "path_ok g ch bs \<longleftrightarrow> bs \<noteq> [] \<and> hd bs = g \<and> length bs < 2 ^ 64 \<and> linked_chain (en_crypto E) bs \<and>
     sorted (map (\<lambda>b. h_timestamp (hdr b)) bs) \<and> unat (ch_cumdiff ch) = work bs \<and> store_ok g (ch_db ch) \<and>
     (\<forall>i < length bs. kv_get D (ch_db ch) (heightKey (word_of_nat i)) = Some (VBytes (hash_bytes (BlockHash (en_crypto E) (bs ! i)))) \<and>
        GetBlock D (ch_db ch) (BlockHash (en_crypto E) (bs ! i)) = Some (bs ! i) \<and>
        (i > 0 \<longrightarrow> (\<exists>u. GetUndo D (ch_db ch) (BlockHash (en_crypto E) (bs ! i)) = Some (Some u))))"

lemma path_at:
  assumes "path_ok g ch bs" and "i < length bs"
  shows "kv_get D (ch_db ch) (heightKey (word_of_nat i)) = Some (VBytes (hash_bytes (BlockHash (en_crypto E) (bs ! i)))) \<and>
    GetBlock D (ch_db ch) (BlockHash (en_crypto E) (bs ! i)) = Some (bs ! i) \<and>
    (i > 0 \<longrightarrow> (\<exists>u. GetUndo D (ch_db ch) (BlockHash (en_crypto E) (bs ! i)) = Some (Some u)))"
  using assms by (simp add: path_ok_def)

lemma path_height: "path_ok g ch bs \<Longrightarrow> i < length bs \<Longrightarrow> h_height (hdr (bs ! i)) = word_of_nat i"
  by (simp add: path_ok_def linked_chain_def)

lemma path_distinct:
  assumes "path_ok g ch bs" and "i < length bs" "j < length bs"
    and "BlockHash (en_crypto E) (bs ! i) = BlockHash (en_crypto E) (bs ! j)"
  shows "i = j"
proof -
  have "Some (bs ! i) = GetBlock D (ch_db ch) (BlockHash (en_crypto E) (bs ! i))" using path_at [OF assms(1,2)] by argo
  also have "\<dots> = Some (bs ! j)" unfolding assms(4) using path_at [OF assms(1,3)] by argo
  finally have "word_of_nat i = (word_of_nat j :: u64)"
    using path_height [OF assms(1,2)] path_height [OF assms(1,3)] by simp
  then show ?thesis using assms(1-3) of_nat_u64_inject [of i j] by (simp add: path_ok_def)
qed

lemma path_read:
  assumes "path_ok g ch bs" and "i < length bs"
  shows "GetBlockByHeight D (ch_db ch) (word_of_nat i) = Some (bs ! i)"
  using assms GetBlockByHeight_via unfolding path_ok_def by metis

text \<open>What a change of the database may touch without harm to the stored blocks.\<close>

lemma GetBlock_cong: "view t (blockKey h) = view s (blockKey h) \<Longrightarrow> GetBlock D t h = GetBlock D s h"
  by (simp add: GetBlock_def get)

lemma store_ok_cong:
  assumes "store_ok g s" and "\<And>h. view t (blockKey h) = view s (blockKey h)"
  shows "store_ok g t"
  using assms(1) by (simp add: store_ok_def GetBlock_cong [OF assms(2)])

section \<open>Disconnecting\<close>

lemma disconnect_outcome:
  assumes "disconnect_block E b u x = (x', r)"
  shows "\<And>k. \<not> utxo_space k \<Longrightarrow> k \<notin> range txKey \<Longrightarrow> k \<noteq> undoKey (BlockHash (en_crypto E) b) \<Longrightarrow> view (ch_db x') k = view (ch_db x) k"
    and "ch_tip x' = ch_tip x" "ch_height x' = ch_height x" "ch_max_supply x' = ch_max_supply x" "ch_genesis x' = ch_genesis x"
    and "r = None \<Longrightarrow> utxos (ch_db x') = utxos (revertBlock E u (ch_db x))"
    and "r = None \<Longrightarrow> unat (ch_supply x') + unat (undo_reward u) = unat (ch_supply x)"
    and "r = None \<Longrightarrow> unat (ch_cumdiff x') + unat (h_difficulty (hdr b)) = unat (ch_cumdiff x)"
proof -
  let ?s = "revertBlock E u (ch_db x)" and ?h = "BlockHash (en_crypto E) b"
  have v: "view (DeleteUndo D ?h s) k = view s k" if "k \<noteq> undoKey ?h" for k s
    using that by (simp add: DeleteUndo_def delete)
  have sub: "unat (a - b) + unat b = unat a" if "\<not> b > a" for a b :: u64
    using that by (simp add: not_less word_le_nat_alt unat_sub_u64)
    have db: "ch_db x' = ?s \<and> r \<noteq> None \<or> ch_db x' = DeleteUndo D ?h ?s"
    using assms by (auto simp: disconnect_block_def Let_def removeRegisteredSubChains_def split: if_splits)
  show "view (ch_db x') k = view (ch_db x) k" if "\<not> utxo_space k" "k \<notin> range txKey" "k \<noteq> undoKey ?h" for k
    using db v [OF that(3)] view_revertBlock [OF that(1,2)] by auto
  show "ch_tip x' = ch_tip x" "ch_height x' = ch_height x" "ch_max_supply x' = ch_max_supply x" "ch_genesis x' = ch_genesis x"
    using assms by (auto simp: disconnect_block_def Let_def removeRegisteredSubChains_def split: if_splits)
  have "utxos (DeleteUndo D ?h ?s) = utxos ?s" by (rule utxos_cong) (auto intro: v)
  then show "r = None \<Longrightarrow> utxos (ch_db x') = utxos ?s" using db by auto
  show "r = None \<Longrightarrow> unat (ch_supply x') + unat (undo_reward u) = unat (ch_supply x)"
    "r = None \<Longrightarrow> unat (ch_cumdiff x') + unat (h_difficulty (hdr b)) = unat (ch_cumdiff x)"
    using assms by (auto simp: disconnect_block_def Let_def removeRegisteredSubChains_def sub split: if_splits)
qed

lemma path_pop:
  assumes p: "path_ok g x (bs @ [b])" and ne: "bs \<noteq> []" and d: "disconnect_block E b u x = (x', None)"
  shows "path_ok g x' bs"
proof -
  let ?C = "en_crypto E"
  have keep: "view (ch_db x') (heightKey n) = view (ch_db x) (heightKey n)" "view (ch_db x') (blockKey h) = view (ch_db x) (blockKey h)"
    "h \<noteq> BlockHash ?C b \<Longrightarrow> view (ch_db x') (undoKey h) = view (ch_db x) (undoKey h)" for n h
    by (auto intro!: disconnect_outcome(1) [OF d])
  have new: "BlockHash ?C (bs ! i) \<noteq> BlockHash ?C b" if "i < length bs" for i
    using path_distinct [OF p, of i "length bs"] that by (auto simp: nth_append)
  have at: "kv_get D (ch_db x') (heightKey (word_of_nat i)) = Some (VBytes (hash_bytes (BlockHash ?C (bs ! i)))) \<and>
        GetBlock D (ch_db x') (BlockHash ?C (bs ! i)) = Some (bs ! i) \<and>
        (i > 0 \<longrightarrow> (\<exists>u. GetUndo D (ch_db x') (BlockHash ?C (bs ! i)) = Some (Some u)))" if i: "i < length bs" for i
  proof -
    have "kv_get D (ch_db x) (heightKey (word_of_nat i)) = Some (VBytes (hash_bytes (BlockHash ?C (bs ! i)))) \<and>
        GetBlock D (ch_db x) (BlockHash ?C (bs ! i)) = Some (bs ! i) \<and>
        (i > 0 \<longrightarrow> (\<exists>u. GetUndo D (ch_db x) (BlockHash ?C (bs ! i)) = Some (Some u)))"
      using path_at [OF p, of i] i by (simp add: nth_append)
    then show ?thesis using keep new [OF i] by (simp add: GetBlock_def GetUndo_def get)
  qed
  have "linked_chain ?C bs" using p linked_chain_prefix by (auto simp: path_ok_def)
  moreover have "unat (ch_cumdiff x') = work bs"
    using disconnect_outcome(8) [OF d] p by (simp add: path_ok_def)
  moreover have "store_ok g (ch_db x')" using p keep by (auto simp: path_ok_def intro: store_ok_cong)
  ultimately show ?thesis using p ne at by (simp add: path_ok_def sorted_append)
qed

section \<open>Connecting\<close>

text \<open>A block that comes next on a path.\<close>

definition comes_next :: "'s chain \<Rightarrow> block list \<Rightarrow> block \<Rightarrow> bool" where
  "comes_next x bs b \<longleftrightarrow> h_prev (hdr b) = BlockHash (en_crypto E) (last bs) \<and> h_height (hdr b) = word_of_nat (length bs) \<and>
     Suc (length bs) < 2 ^ 64 \<and> h_timestamp (hdr (last bs)) \<le> h_timestamp (hdr b) \<and>
     GetBlock D (ch_db x) (BlockHash (en_crypto E) b) \<in> {None, Some b}"

lemma connect_reads:
  assumes v: "validateBlockState E x b = Inr n" and bv: "Block_Validate (en_crypto E) b = None"
    and c: "connect_block E b x = (x1, Inr u)"
  shows "\<And>h. GetBlock D (ch_db x1) h = (if h = BlockHash (en_crypto E) b then Some b else GetBlock D (ch_db x) h)"
    and "\<And>m. kv_get D (ch_db x1) (heightKey m) =
      (if m = h_height (hdr b) then Some (VBytes (hash_bytes (BlockHash (en_crypto E) b))) else kv_get D (ch_db x) (heightKey m))"
    and "\<And>h. GetUndo D (ch_db x1) h = (if h = BlockHash (en_crypto E) b then Some (Some u) else GetUndo D (ch_db x) h)"
    and "view (ch_db x1) keyReorgCheckpoint = view (ch_db x) keyReorgCheckpoint"
    and "unat (ch_cumdiff x1) = unat (ch_cumdiff x) + unat (h_difficulty (hdr b))"
    and "GetTip D (ch_db x1) = Inr (BlockHash (en_crypto E) b, h_height (hdr b), ch_supply x1)"
    and "GetCumulativeDifficulty D (ch_db x1) = ch_cumdiff x1"
proof -
  from connect_block_accepted [OF v Block_Validate_distinct [OF bv] c] obtain s' undo0 where
    ap: "applyBlockWithUndo E b (ch_db x) = (s', Some undo0)"
    and db: "ch_db x1 = CommitBlock D (en_crypto E) b u (ch_supply x1) (ch_cumdiff x1) s'" by auto
  show "GetTip D (ch_db x1) = Inr (BlockHash (en_crypto E) b, h_height (hdr b), ch_supply x1)"
    "GetCumulativeDifficulty D (ch_db x1) = ch_cumdiff x1" unfolding db by (simp_all add: CommitBlock_reads)
  note out = view_applyBlock [OF ap]
  have "GetBlock D s' h = GetBlock D (ch_db x) h" for h by (intro GetBlock_cong out) simp
  then show "GetBlock D (ch_db x1) h = (if h = BlockHash (en_crypto E) b then Some b else GetBlock D (ch_db x) h)" for h
    by (simp add: db CommitBlock_reads)
  show "kv_get D (ch_db x1) (heightKey m) =
      (if m = h_height (hdr b) then Some (VBytes (hash_bytes (BlockHash (en_crypto E) b))) else kv_get D (ch_db x) (heightKey m))" for m
    by (auto simp: db get view_CommitBlock_cases out)
  show "GetUndo D (ch_db x1) h = (if h = BlockHash (en_crypto E) b then Some (Some u) else GetUndo D (ch_db x) h)" for h
    by (auto simp: db GetUndo_def get view_CommitBlock_cases out)
  show "view (ch_db x1) keyReorgCheckpoint = view (ch_db x) keyReorgCheckpoint"
    by (auto simp: db view_CommitBlock_cases out)
  show "unat (ch_cumdiff x1) = unat (ch_cumdiff x) + unat (h_difficulty (hdr b))"
    using connect_block_accepted [OF v Block_Validate_distinct [OF bv] c] by auto
qed

lemma comes_next_new:
  assumes p: "path_ok g x bs" and nx: "comes_next x bs b" and i: "i < length bs"
  shows "BlockHash (en_crypto E) (bs ! i) \<noteq> BlockHash (en_crypto E) b"
proof
  assume eq: "BlockHash (en_crypto E) (bs ! i) = BlockHash (en_crypto E) b"
  have "GetBlock D (ch_db x) (BlockHash (en_crypto E) (bs ! i)) = Some (bs ! i)" using path_at [OF p i] by argo
  then have "bs ! i = b" using nx unfolding eq comes_next_def by auto
  then have "word_of_nat i = (word_of_nat (length bs) :: u64)" using path_height [OF p i] nx by (simp add: comes_next_def)
  then show False using of_nat_u64_inject [of i "length bs"] i nx by (simp add: comes_next_def)
qed

lemma store_ok_push:
  assumes p: "path_ok g x bs" and nx: "comes_next x bs b"
    and r: "\<And>h. GetBlock D t h = (if h = BlockHash (en_crypto E) b then Some b else GetBlock D (ch_db x) h)"
  shows "store_ok g t"
proof -
  have ok: "store_ok g (ch_db x)" and ne: "length bs - 1 < length bs" "bs \<noteq> []" using p by (auto simp: path_ok_def)
  have last: "last bs = bs ! (length bs - 1)" using ne by (simp add: last_conv_nth)
  have "word_of_nat (length bs) = word_of_nat (length bs - 1) + (1 :: u64)" using ne(2) by (cases bs) simp_all
  then have lower: "h_height (hdr b) = h_height (hdr (last bs)) + 1"
    using path_height [OF p ne(1)] nx unfolding last comes_next_def by simp
  have u: "unat (h_height (hdr b)) = length bs" using nx by (simp add: comes_next_def unat_of_nat_u64)
  have parent: "GetBlock D t (h_prev (hdr b)) = Some (last bs)"
    using path_at [OF p ne(1)] comes_next_new [OF p nx ne(1)] nx last by (simp add: r comes_next_def)
  have top: "h_height (hdr b) \<noteq> max_u64 \<and> h_height (hdr b) \<noteq> 0"
    using u nx ne(2) unat_max_u64 by (auto simp: comes_next_def)
  have up: "GetBlock D t h = Some c" if "GetBlock D (ch_db x) h = Some c" for h c
    using that nx by (auto simp: r comes_next_def)
  show ?thesis
    unfolding store_ok_def
  proof (intro allI impI)
    fix h c assume c: "GetBlock D t h = Some c"
    show "BlockHash (en_crypto E) c = h \<and> h_height (hdr c) \<noteq> max_u64 \<and>
       (if h_height (hdr c) = 0 then c = g else \<exists>p. GetBlock D t (h_prev (hdr c)) = Some p \<and>
          h_height (hdr c) = h_height (hdr p) + 1 \<and> h_timestamp (hdr p) \<le> h_timestamp (hdr c))"
    proof (cases "h = BlockHash (en_crypto E) b")
      case True
      then have "c = b" using c by (simp add: r)
      then show ?thesis using True top parent lower nx by (auto simp: comes_next_def)
    next
      case False
      then have "GetBlock D (ch_db x) h = Some c" using c by (simp add: r)
      then show ?thesis using ok up unfolding store_ok_def by meson
    qed
  qed
qed

lemma path_push:
  assumes p: "path_ok g x bs" and nx: "comes_next x bs b"
    and v: "validateBlockState E x b = Inr n" and bv: "Block_Validate (en_crypto E) b = None"
    and c: "connect_block E b x = (x1, Inr u)"
  shows "path_ok g x1 (bs @ [b])"
proof -
  let ?C = "en_crypto E"
  note r = connect_reads [OF v bv c]
  have ne: "bs \<noteq> []" using p by (simp add: path_ok_def)
  have at: "kv_get D (ch_db x1) (heightKey (word_of_nat i)) = Some (VBytes (hash_bytes (BlockHash ?C ((bs @ [b]) ! i)))) \<and>
        GetBlock D (ch_db x1) (BlockHash ?C ((bs @ [b]) ! i)) = Some ((bs @ [b]) ! i) \<and>
        (i > 0 \<longrightarrow> (\<exists>u. GetUndo D (ch_db x1) (BlockHash ?C ((bs @ [b]) ! i)) = Some (Some u)))" if i: "i < length (bs @ [b])" for i
  proof (cases "i < length bs")
    case True
    have "(word_of_nat i :: u64) \<noteq> h_height (hdr b)"
      using True nx of_nat_u64_inject [of i "length bs"] by (simp add: comes_next_def)
    then show ?thesis using path_at [OF p True] comes_next_new [OF p nx True] True by (simp add: r nth_append)
  next
    case False
    then have "i = length bs" using i by simp
    then show ?thesis using nx by (simp add: r comes_next_def)
  qed
  have "linked_chain ?C (bs @ [b])"
    using p nx by (intro linked_chain_snoc) (auto simp: path_ok_def comes_next_def)
  moreover have "sorted (map (\<lambda>b. h_timestamp (hdr b)) (bs @ [b]))"
    using p nx ne sorted_snoc [of "map (\<lambda>b. h_timestamp (hdr b)) bs" "h_timestamp (hdr b)"]
    by (simp add: path_ok_def comes_next_def last_map)
  moreover have "store_ok g (ch_db x1)" by (rule store_ok_push [OF p nx r(1)])
  moreover have "unat (ch_cumdiff x1) = work (bs @ [b])" using p r(5) by (simp add: path_ok_def)
  ultimately show ?thesis using p nx ne at by (simp add: path_ok_def comes_next_def)
qed

lemma path_ok_cong: "path_ok g x bs \<Longrightarrow> ch_db y = ch_db x \<Longrightarrow> ch_cumdiff y = ch_cumdiff x \<Longrightarrow> path_ok g y bs"
  by (simp add: path_ok_def)

end

section \<open>The coins along the path\<close>

text \<open>Outputs stored under their own outpoint, with the value that belongs to it.\<close>

definition coins_agree :: "(outpoint \<Rightarrow> u64) \<Rightarrow> (outpoint \<rightharpoonup> utxo) \<Rightarrow> bool" where
  "coins_agree val m \<longleftrightarrow> (\<forall>x u. m x = Some u \<longrightarrow> u_outpoint u = x \<and> u_value u = val x)"

definition block_agrees :: "crypto \<Rightarrow> (outpoint \<Rightarrow> u64) \<Rightarrow> transaction list \<Rightarrow> bool" where
  "block_agrees C val ts \<longleftrightarrow> (\<forall>(x, out) \<in> set (created_list C ts). out_value out = val x)"

lemma block_agrees_Cons:
  "block_agrees C val (t # ts) \<longleftrightarrow> block_agrees C val [t] \<and> block_agrees C val ts"
  by (auto simp: block_agrees_def)

text \<open>An undo record between two sets of outpoints and two supplies.\<close>

definition undoes :: "(outpoint \<Rightarrow> u64) \<Rightarrow> outpoint set \<times> nat \<Rightarrow> undo_data \<Rightarrow> outpoint set \<times> nat \<Rightarrow> bool" where
  "undoes val after u before \<longleftrightarrow>
     (\<forall>v \<in> set (undo_spent u). u_value v = val (u_outpoint v) \<and> u_outpoint v \<in> fst before) \<and>
     fst after \<subseteq> fst before \<union> set (undo_created u) \<and> snd after = snd before + unat (undo_reward u)"

context utxo_set
begin

lemma agree_put:
  "coins_agree val (us_get U s) \<Longrightarrow> u_value u = val (u_outpoint u) \<Longrightarrow> coins_agree val (us_get U (us_put U u s))"
  by (simp add: coins_agree_def get_put)

lemma agree_delete: "coins_agree val (us_get U s) \<Longrightarrow> coins_agree val (us_get U (us_delete U x s))"
  by (simp add: coins_agree_def get_delete)

lemma dom_put: "dom (us_get U (us_put U u s)) = insert (u_outpoint u) (dom (us_get U s))"
  by (simp add: get_put)

lemma dom_delete: "dom (us_get U (us_delete U x s)) = dom (us_get U s) - {x}"
  by (simp add: get_delete)

lemma agree_puts:
  "coins_agree val (us_get U s) \<Longrightarrow> \<forall>u \<in> set us. u_value u = val (u_outpoint u) \<Longrightarrow>
     coins_agree val (us_get U (fold (us_put U) us s)) \<and>
     dom (us_get U (fold (us_put U) us s)) \<subseteq> dom (us_get U s) \<union> u_outpoint ` set us"
proof (induction us arbitrary: s)
  case Nil
  then show ?case by simp
next
  case (Cons u us)
  from Cons.IH [OF agree_put [OF Cons.prems(1)], of u] Cons.prems(2) show ?case by (simp add: dom_put)
qed

lemma agree_deletes:
  "coins_agree val (us_get U s) \<Longrightarrow> coins_agree val (us_get U (fold (us_delete U) xs s))"
  by (induction xs arbitrary: s) (simp_all add: agree_delete)

lemma agree_spend:
  assumes "spend_undo U is spent s = (s', Some spent')" and "coins_agree val (us_get U s)"
  shows "coins_agree val (us_get U s') \<and> dom (us_get U s') \<subseteq> dom (us_get U s) \<and>
    (\<exists>sp. spent' = spent @ sp \<and> (\<forall>v \<in> set sp. u_value v = val (u_outpoint v) \<and>
       u_outpoint v \<in> set (filter (\<lambda>x. x \<noteq> zero_outpoint) (map in_prevout is))))"
  using assms
proof (induction "is" arbitrary: spent s)
  case Nil
  then show ?case by simp
next
  case (Cons i "is")
  show ?case
  proof (cases "is_coinbase_input i")
    case True
    with Cons.IH [of spent s] Cons.prems show ?thesis by fastforce
  next
    case False
    with Cons.prems(1) obtain u where u: "us_get U s (in_prevout i) = Some u"
      and r: "spend_undo U is (spent @ [u]) (us_delete U (in_prevout i) s) = (s', Some spent')"
      by (auto split: option.splits)
    from Cons.IH [OF r agree_delete [OF Cons.prems(2)]] obtain sp where
      sp: "coins_agree val (us_get U s')" "dom (us_get U s') \<subseteq> dom (us_get U s) - {in_prevout i}"
        "spent' = (spent @ [u]) @ sp" "\<forall>v \<in> set sp. u_value v = val (u_outpoint v) \<and>
          u_outpoint v \<in> set (filter (\<lambda>x. x \<noteq> zero_outpoint) (map in_prevout is))"
      unfolding dom_delete by blast
    have "u_outpoint u = in_prevout i" "u_value u = val (in_prevout i)"
      using Cons.prems(2) u by (auto simp: coins_agree_def)
    then have "\<forall>v \<in> set (u # sp). u_value v = val (u_outpoint v) \<and>
        u_outpoint v \<in> set (filter (\<lambda>x. x \<noteq> zero_outpoint) (map in_prevout (i # is)))"
      using sp(4) False by auto
    then show ?thesis using sp(1-3) by (intro conjI exI [of _ "u # sp"]) auto
  qed
qed

lemma agree_create:
  assumes "coins_agree val (us_get U s)" and "block_agrees C val [t]"
  shows "coins_agree val (us_get U (create_outputs U (TxHash C t) n cb lk (tx_outputs t) s)) \<and>
    dom (us_get U (create_outputs U (TxHash C t) n cb lk (tx_outputs t) s)) \<subseteq>
      dom (us_get U s) \<union> fst ` set (created_list C [t])"
proof -
  let ?us = "map (output_utxo (TxHash C t) n cb lk) (List.enumerate 0 (tx_outputs t))"
  have "u_value u = val (u_outpoint u)" if "u \<in> set ?us" for u
    using that assms(2) by (force simp: output_utxo_def block_agrees_def)
  moreover have "u_outpoint ` set ?us = fst ` set (created_list C [t])" using created_outpoints by (metis set_map)
  ultimately show ?thesis using agree_puts [OF assms(1), of ?us] by (simp add: create_outputs_def)
qed

lemma agree_apply:
  assumes "en_set E = U" and "coins_agree val (us_get U s)" and "block_agrees (en_crypto E) val (map snd ets)"
    and "apply_txs E height ets undo s = (s', Some undo')"
  shows "\<exists>sp cr. undo_spent undo' = undo_spent undo @ sp \<and> undo_created undo' = undo_created undo @ cr \<and>
    (\<forall>v \<in> set sp. u_value v = val (u_outpoint v) \<and> u_outpoint v \<in> set (spent_outpoints (map snd ets))) \<and>
    dom (us_get U s') \<subseteq> dom (us_get U s) \<union> set cr \<and> coins_agree val (us_get U s')"
  using assms(2-4)
proof (induction ets arbitrary: undo s)
  case Nil
  then show ?case by simp
next
  case (Cons kt ets)
  obtain k t where kt: "kt = (k, t)" by (cases kt)
  let ?C = "en_crypto E"
  let ?sp = "filter (\<lambda>x. x \<noteq> zero_outpoint) (map in_prevout (tx_inputs t))"
  let ?cr = "map (\<lambda>i. Outpoint (TxHash ?C t) (word_of_nat i)) [0..<length (tx_outputs t)]"
  let ?lk = "stake_lock U height (tx_inputs t) s"
  from Cons.prems(3) kt assms(1) obtain s1 spent where
    sp: "spend_undo U (tx_inputs t) (undo_spent undo) s = (s1, Some spent)" and
    ap: "apply_txs E height ets
        (undo\<lparr>undo_txhashes := undo_txhashes undo @ [TxHash ?C t], undo_spent := spent,
           undo_created := undo_created undo @ ?cr\<rparr>)
        (create_outputs U (TxHash ?C t) height (k = 0 \<and> height > 0) ?lk (tx_outputs t) s1) = (s', Some undo')"
    by (auto simp: Let_def split: prod.splits option.splits)
  from agree_spend [OF sp Cons.prems(1)] obtain sp1 where s1: "coins_agree val (us_get U s1)"
    "dom (us_get U s1) \<subseteq> dom (us_get U s)" "spent = undo_spent undo @ sp1"
    "\<forall>v \<in> set sp1. u_value v = val (u_outpoint v) \<and> u_outpoint v \<in> set ?sp" by blast
  have b: "block_agrees ?C val [t]" "block_agrees ?C val (map snd ets)"
    using Cons.prems(2) kt block_agrees_Cons [of ?C val t "map snd ets"] by simp_all
  note c = agree_create [OF s1(1) b(1), of height "k = 0 \<and> height > 0" ?lk]
  have "map fst (created_list ?C [t]) = ?cr" using created_list_fst [of ?C t "[]"] by simp
  then have cr: "fst ` set (created_list ?C [t]) = set ?cr" by (metis set_map)
  let ?s2 = "create_outputs U (TxHash ?C t) height (k = 0 \<and> height > 0) ?lk (tx_outputs t) s1"
  from Cons.IH [OF conjunct1 [OF c] b(2) ap]
  have "\<exists>sp2 cr2. undo_spent undo' = spent @ sp2 \<and> undo_created undo' = (undo_created undo @ ?cr) @ cr2 \<and>
    (\<forall>v \<in> set sp2. u_value v = val (u_outpoint v) \<and> u_outpoint v \<in> set (spent_outpoints (map snd ets))) \<and>
    dom (us_get U s') \<subseteq> dom (us_get U ?s2) \<union> set cr2 \<and> coins_agree val (us_get U s')" by simp
  then obtain sp2 cr2 where two:
    "undo_spent undo' = spent @ sp2" "undo_created undo' = (undo_created undo @ ?cr) @ cr2"
    "\<forall>v \<in> set sp2. u_value v = val (u_outpoint v) \<and> u_outpoint v \<in> set (spent_outpoints (map snd ets))"
    "dom (us_get U s') \<subseteq> dom (us_get U ?s2) \<union> set cr2" "coins_agree val (us_get U s')" by blast
  have "dom (us_get U s') \<subseteq> dom (us_get U s) \<union> set (?cr @ cr2)" using two(4) c s1(2) unfolding cr set_append by blast
  moreover have "\<forall>v \<in> set (sp1 @ sp2). u_value v = val (u_outpoint v) \<and> u_outpoint v \<in> set (spent_outpoints (map snd (kt # ets)))"
    using s1(4) two(3) kt by auto
  ultimately show ?case using two(1,2,5) s1(3) by (intro exI [of _ "sp1 @ sp2"] exI [of _ "?cr @ cr2"]) simp
qed

text \<open>The value of a set of coins is the sum over its outpoints.\<close>

lemma total_agree: "coins_agree val (us_get U s) \<Longrightarrow> total s = (\<Sum>x \<in> dom (us_get U s). unat (val x))"
  unfolding total_value_def by (rule sum.cong) (auto simp: coins_agree_def)

end

context chain_env
begin

lemma get_utxos: "us_get (UtxoStore D) = utxos"
  by (simp add: UtxoStore_def Store_Get_utxos fun_eq_iff)

text \<open>The undo records lead down from block to block; each step has enough supply.\<close>

definition ledger :: "(outpoint \<Rightarrow> u64) \<Rightarrow> (nat \<Rightarrow> outpoint set \<times> nat) \<Rightarrow> 's chain \<Rightarrow> block list \<Rightarrow> bool" where
  "ledger val L x bs \<longleftrightarrow> coins_agree val (utxos (ch_db x)) \<and> dom (utxos (ch_db x)) \<subseteq> fst (L (length bs - 1)) \<and>
     unat (ch_supply x) = snd (L (length bs - 1)) \<and>
     (\<forall>i < length bs. finite (fst (L i)) \<and> (\<Sum>a \<in> fst (L i). unat (val a)) \<le> snd (L i) \<and>
        (ch_max_supply x \<noteq> 0 \<longrightarrow> snd (L i) \<le> unat (ch_max_supply x))) \<and>
     (\<forall>i u. i > 0 \<and> i < length bs \<and> GetUndo D (ch_db x) (BlockHash (en_crypto E) (bs ! i)) = Some (Some u) \<longrightarrow>
        undoes val (L i) u (L (i - 1)))"

lemma ledger_sound:
  assumes "ledger val L x bs" and "bs \<noteq> []"
  shows "supply_sound D x"
proof -
  let ?A = "fst (L (length bs - 1))"
  have i: "length bs - 1 < length bs" using assms(2) by simp
  have f: "finite ?A" "(\<Sum>a \<in> ?A. unat (val a)) \<le> unat (ch_supply x)" "dom (utxos (ch_db x)) \<subseteq> ?A"
    and m: "ch_max_supply x \<noteq> 0 \<longrightarrow> unat (ch_supply x) \<le> unat (ch_max_supply x)"
    using assms(1) i unfolding ledger_def by auto
  have "coins (ch_db x) = (\<Sum>a \<in> dom (utxos (ch_db x)). unat (val a))"
    using set.total_agree [of val "ch_db x"] assms(1) by (simp add: get_utxos ledger_def Store_Get_utxos)
  also have "\<dots> \<le> (\<Sum>a \<in> ?A. unat (val a))" using f by (intro sum_mono2) auto
  finally show ?thesis using f m by (simp add: supply_sound_def word_le_nat_alt)
qed

lemma revert_agree:
  assumes "coins_agree val (utxos s)" and "\<forall>v \<in> set (undo_spent u). u_value v = val (u_outpoint v)"
  shows "coins_agree val (utxos (revertBlock E u s)) \<and>
    dom (utxos (revertBlock E u s)) \<subseteq> (dom (utxos s) - set (undo_created u)) \<union> u_outpoint ` set (undo_spent u)"
proof -
  let ?s1 = "fold (us_delete (UtxoStore D)) (rev (undo_created u)) s"
  have 1: "coins_agree val (utxos ?s1)" using set.agree_deletes [of val s] assms(1) unfolding get_utxos by blast
  have "utxos ?s1 = (\<lambda>x. if x \<in> set (undo_created u) then None else utxos s x)"
    using set.get_deletes [of "rev (undo_created u)" s] unfolding get_utxos by simp
  then have d: "dom (utxos ?s1) = dom (utxos s) - set (undo_created u)" by (auto split: if_splits)
  have "utxos (revertBlock E u s) = utxos (fold (us_put (UtxoStore D)) (undo_spent u) ?s1)"
    unfolding revertBlock_def Let_def en_set en_db by (rule utxos_cong) (rule delete_tx_indexes)
  then show ?thesis using set.agree_puts [of val ?s1 "undo_spent u"] 1 assms(2) unfolding get_utxos d by auto
qed

lemma ledger_pop:
  assumes p: "path_ok g x (bs @ [b])" and ne: "bs \<noteq> []" and l: "ledger val L x (bs @ [b])"
    and u: "GetUndo D (ch_db x) (BlockHash (en_crypto E) b) = Some (Some u)" and d: "disconnect_block E b u x = (x', None)"
  shows "ledger val L x' bs"
proof -
  let ?n = "length bs" and ?C = "en_crypto E"
  note o = disconnect_outcome [OF d]
  have undo: "GetUndo D (ch_db x') (BlockHash ?C (bs ! i)) = GetUndo D (ch_db x) (BlockHash ?C ((bs @ [b]) ! i))" if i: "i < ?n" for i
  proof -
    have "BlockHash ?C (bs ! i) \<noteq> BlockHash ?C b"
      using path_distinct [OF p, of i ?n] i by (auto simp: nth_append)
    then have "view (ch_db x') (undoKey (BlockHash ?C (bs ! i))) = view (ch_db x) (undoKey (BlockHash ?C (bs ! i)))"
      by (intro o(1)) auto
    then show ?thesis using i by (simp add: GetUndo_def get nth_append)
  qed
  have un: "undoes val (L ?n) u (L (?n - 1))" using l u ne by (auto simp: ledger_def dest!: spec [of _ ?n])
  have top: "coins_agree val (utxos (ch_db x))" "dom (utxos (ch_db x)) \<subseteq> fst (L ?n)" "unat (ch_supply x) = snd (L ?n)"
    using l by (simp_all add: ledger_def)
  from revert_agree [OF top(1), of u] un have "coins_agree val (utxos (ch_db x'))"
    "dom (utxos (ch_db x')) \<subseteq> (dom (utxos (ch_db x)) - set (undo_created u)) \<union> u_outpoint ` set (undo_spent u)"
    by (simp_all add: o undoes_def)
  moreover have "u_outpoint ` set (undo_spent u) \<subseteq> fst (L (?n - 1))" using un by (auto simp: undoes_def)
  moreover have "fst (L ?n) \<subseteq> fst (L (?n - 1)) \<union> set (undo_created u)" using un by (simp add: undoes_def)
  ultimately have "coins_agree val (utxos (ch_db x'))" "dom (utxos (ch_db x')) \<subseteq> fst (L (?n - 1))"
    using top(2) by blast+
  moreover have "unat (ch_supply x') = snd (L (?n - 1))" using o(7) un top(3) by (simp add: undoes_def)
  moreover have "undoes val (L i) w (L (i - 1))"
    if "i > 0" "i < ?n" "GetUndo D (ch_db x') (BlockHash ?C (bs ! i)) = Some (Some w)" for i w
    using l that unfolding undo [OF that(2)] by (simp add: ledger_def)
  ultimately show ?thesis using l ne by (simp add: ledger_def o(4))
qed

lemma ledger_push:
  assumes p: "path_ok g x bs" and nx: "comes_next x bs b"
    and v: "validateBlockState E x b = Inr n" and bv: "Block_Validate (en_crypto E) b = None"
    and c: "connect_block E b x = (x1, Inr u)"
    and l: "ledger val L x bs" and a: "block_agrees (en_crypto E) val (b_txs b)"
  shows "ledger val (L(length bs := (dom (utxos (ch_db x1)), unat (ch_supply x1)))) x1 (bs @ [b])"
proof -
  let ?C = "en_crypto E" and ?n = "length bs"
  have ne: "bs \<noteq> []" using p by (simp add: path_ok_def)
  note s = ledger_sound [OF l ne]
  from connect_block_accepted [OF v Block_Validate_distinct [OF bv] c] obtain s' undo0 reward where
    ap: "applyBlockWithUndo E b (ch_db x) = (s', Some undo0)" and u: "u = undo0\<lparr>undo_reward := reward\<rparr>"
    and x1: "ch_db x1 = CommitBlock D ?C b u (ch_supply x + reward) (ch_cumdiff x + h_difficulty (hdr b)) s'"
      "ch_supply x1 = ch_supply x + reward" "ch_max_supply x1 = ch_max_supply x"
    and r: "reward \<le> cap_reward (ch_max_supply x) (ch_supply x) (chain_subsidy x (h_height (hdr b)))"
      "unat (ch_supply x + reward) = unat (ch_supply x) + unat reward" "coins s' \<le> coins (ch_db x) + unat reward" by auto
  note sound = supply_sound_reward [OF s r]
  from v obtain cb rest fees totalFees where b: "b_txs b = cb # rest" "isCoinbase cb"
    and f: "validate_fees E (ch_db x) 0 rest = Inr (fees, totalFees)" by (rule validateBlockState_Inr)
  have ex: "z \<in> dom (utxos (ch_db x))" if "z \<in> set (spent_outpoints (b_txs b))" for z
    using that accepted_inputs_exist [OF f, of z] unfolding b(1) spent_outpoints_coinbase [OF b(2)]
    by (auto simp: Store_Get_utxos)
  have top: "coins_agree val (utxos (ch_db x))" "dom (utxos (ch_db x)) \<subseteq> fst (L (?n - 1))" "unat (ch_supply x) = snd (L (?n - 1))"
    using l by (simp_all add: ledger_def)
  have "map snd (List.enumerate 0 (b_txs b)) = b_txs b" by simp
  then obtain sp cr where one: "undo_spent undo0 = undo_spent empty_undo @ sp" "undo_created undo0 = undo_created empty_undo @ cr"
    "\<forall>v \<in> set sp. u_value v = val (u_outpoint v) \<and> u_outpoint v \<in> set (spent_outpoints (b_txs b))"
    "dom (utxos s') \<subseteq> dom (utxos (ch_db x)) \<union> set cr" "coins_agree val (utxos s')"
    using set.agree_apply [OF en_set, of val "ch_db x" "List.enumerate 0 (b_txs b)" "h_height (hdr b)" empty_undo s' undo0]
      ap top(1) a unfolding applyBlockWithUndo_def get_utxos by auto
  have ut: "utxos (ch_db x1) = utxos s'" by (simp add: x1 CommitBlock_reads)
  let ?top = "(dom (utxos s'), unat (ch_supply x1))"
  let ?L = "L(?n := ?top)"
  have "u_outpoint w \<in> fst (L (?n - 1))" if "w \<in> set sp" for w
    using that one(3) ex top(2) by blast
  moreover have "fst ?top \<subseteq> fst (L (?n - 1)) \<union> set cr" using one(4) top(2) by auto
  ultimately have un: "undoes val ?top u (L (?n - 1))"
    using one(1-3) top(3) r(2) x1(2) by (simp add: undoes_def u empty_undo_def)
  have "coins s' = (\<Sum>y \<in> dom (utxos s'). unat (val y))"
    using set.total_agree [of val s'] one(5) by (simp add: get_utxos Store_Get_utxos)
  then have "finite (fst ?top) \<and> (\<Sum>y \<in> fst ?top. unat (val y)) \<le> snd ?top \<and>
      (ch_max_supply x \<noteq> 0 \<longrightarrow> snd ?top \<le> unat (ch_max_supply x))"
    using sound finite_utxos by (simp add: x1 word_le_nat_alt)
  moreover have "undoes val (?L i) w (?L (i - 1))"
    if i: "i > 0" "i < length (bs @ [b])" and w: "GetUndo D (ch_db x1) (BlockHash ?C ((bs @ [b]) ! i)) = Some (Some w)" for i w
  proof (cases "i < ?n")
    case True
    then have "GetUndo D (ch_db x) (BlockHash ?C (bs ! i)) = Some (Some w)"
      using w comes_next_new [OF p nx True] by (simp add: connect_reads [OF v bv c] nth_append)
    then have "undoes val (L i) w (L (i - 1))" using l i True by (simp add: ledger_def)
    moreover have "i - 1 \<noteq> ?n" using True by linarith
    ultimately show ?thesis using True by simp
  next
    case False
    then have "i = ?n" using i by simp
    then have "w = u" using w by (simp add: connect_reads [OF v bv c])
    moreover have "?n - 1 \<noteq> ?n" using i \<open>i = ?n\<close> by linarith
    ultimately show ?thesis using un \<open>i = ?n\<close> by simp
  qed
  ultimately show ?thesis using l one(5) unfolding ut by (auto simp: ledger_def less_Suc_eq x1(3) ut)
qed

section \<open>Between the branches\<close>

text \<open>The invariant of the database and the counters, whatever the tip in memory.\<close>

definition mid :: "(outpoint \<Rightarrow> u64) \<Rightarrow> block \<Rightarrow> 's chain \<Rightarrow> block list \<Rightarrow> bool" where
  "mid val g x bs \<longleftrightarrow> path_ok g x bs \<and>
     ((\<forall>h b. GetBlock D (ch_db x) h = Some b \<longrightarrow> block_agrees (en_crypto E) val (b_txs b)) \<longrightarrow> (\<exists>L. ledger val L x bs))"

text \<open>What is left alone meanwhile.\<close>

definition same_rest :: "'s chain \<Rightarrow> 's chain \<Rightarrow> bool" where
  "same_rest x y \<longleftrightarrow> ch_tip y = ch_tip x \<and> ch_height y = ch_height x \<and> ch_genesis y = ch_genesis x \<and>
     ch_max_supply y = ch_max_supply x \<and> view (ch_db y) keyReorgCheckpoint = view (ch_db x) keyReorgCheckpoint"

lemma same_rest_trans: "same_rest x y \<Longrightarrow> same_rest y z \<Longrightarrow> same_rest x z"
  by (simp add: same_rest_def)

lemma mid_frame:
  assumes m: "mid val g x bs"
    and v: "\<And>k. utxo_space k \<or> k \<in> range blockKey \<or> k \<in> range heightKey \<or> k \<in> range undoKey \<Longrightarrow> view (ch_db y) k = view (ch_db x) k"
    and f: "ch_cumdiff y = ch_cumdiff x" "ch_supply y = ch_supply x" "ch_max_supply y = ch_max_supply x"
  shows "mid val g y bs"
proof -
  have r: "kv_get D (ch_db y) (heightKey n) = kv_get D (ch_db x) (heightKey n)" "GetBlock D (ch_db y) h = GetBlock D (ch_db x) h"
    "GetUndo D (ch_db y) h = GetUndo D (ch_db x) h" for n h
    by (simp_all add: get v GetBlock_def GetUndo_def)
  have "utxos (ch_db y) = utxos (ch_db x)" by (rule utxos_cong) (simp add: v)
  moreover have "store_ok g (ch_db y) = store_ok g (ch_db x)" by (simp add: store_ok_def r)
  ultimately show ?thesis using m by (simp add: mid_def path_ok_def ledger_def r f)
qed

lemma mid_pop:
  assumes m: "mid val g x (bs @ [b])" and ne: "bs \<noteq> []"
    and u: "GetUndo D (ch_db x) (BlockHash (en_crypto E) b) = Some (Some u)" and d: "disconnect_block E b u x = (x', None)"
  shows "mid val g x' bs"
proof -
  have p: "path_ok g x (bs @ [b])" using m by (simp add: mid_def)
  have "GetBlock D (ch_db x') h = GetBlock D (ch_db x) h" for h
    by (intro GetBlock_cong disconnect_outcome(1) [OF d]) auto
  then show ?thesis using m path_pop [OF p ne d] ledger_pop [OF p ne _ u d] unfolding mid_def by metis
qed

lemma mid_push:
  assumes m: "mid val g x bs" and nx: "comes_next x bs b"
    and v: "validateBlockState E x b = Inr n" and bv: "Block_Validate (en_crypto E) b = None"
    and c: "connect_block E b x = (x1, Inr u)"
  shows "mid val g x1 (bs @ [b])"
proof -
  have p: "path_ok g x bs" using m by (simp add: mid_def)
  have up: "GetBlock D (ch_db x1) h = Some a" if "GetBlock D (ch_db x) h = Some a" for h a
    using that nx by (auto simp: connect_reads [OF v bv c] comes_next_def)
  moreover have "GetBlock D (ch_db x1) (BlockHash (en_crypto E) b) = Some b" by (simp add: connect_reads [OF v bv c])
  ultimately show ?thesis
    using m path_push [OF p nx v bv c] ledger_push [OF p nx v bv c] unfolding mid_def by metis
qed

lemma revert_pops:
  assumes "mid val g x (pre @ suf)" and "pre \<noteq> []"
    and "revert_loop E (rev (map word_of_nat [length pre..<length (pre @ suf)])) txs x = (x', res)"
  shows "same_rest x x' \<and> res \<noteq> UndoMissing \<and> (\<forall>h. GetBlock D (ch_db x') h = GetBlock D (ch_db x) h) \<and>
    (\<forall>n. view (ch_db x') (heightKey n) = view (ch_db x) (heightKey n)) \<and> (\<forall>ts. res = Reverted ts \<longrightarrow> mid val g x' pre)"
  using assms(1,3)
proof (induction suf arbitrary: x txs rule: rev_induct)
  case Nil
  then show ?case by (auto simp: same_rest_def)
next
  case (snoc b suf)
  let ?bs = "pre @ suf"
  have m: "mid val g x (?bs @ [b])" and ne: "?bs \<noteq> []" using snoc.prems(1) assms(2) by simp_all
  then have p: "path_ok g x (?bs @ [b])" by (simp add: mid_def)
  have l: "length ?bs < length (?bs @ [b])" by simp
  have hs: "rev (map word_of_nat [length pre..<length (pre @ suf @ [b])]) =
      word_of_nat (length ?bs) # rev (map word_of_nat [length pre..<length ?bs])" by simp
  have b: "GetBlockByHeight D (ch_db x) (word_of_nat (length ?bs)) = Some b"
    using path_read [OF p l] by simp
  have "length ?bs > 0" using ne by simp
  then obtain u where u: "GetUndo D (ch_db x) (BlockHash (en_crypto E) b) = Some (Some u)"
    using path_at [OF p l] by (auto simp: nth_append)
  obtain x1 r1 where d: "disconnect_block E b u x = (x1, r1)" by fastforce
  note o = disconnect_outcome [OF d]
  have same: "same_rest x x1" "\<And>h. GetBlock D (ch_db x1) h = GetBlock D (ch_db x) h"
    "\<And>n. view (ch_db x1) (heightKey n) = view (ch_db x) (heightKey n)"
    by (auto simp: same_rest_def o(2-5) intro!: o(1) GetBlock_cong)
  show ?case
  proof (cases r1)
    case (Some e)
    then have "x' = x1 \<and> res = RevertFailed e" using snoc.prems(2) b u d unfolding hs by simp
    then show ?thesis using same by simp
  next
    case None
    then have "revert_loop E (rev (map word_of_nat [length pre..<length ?bs])) (txs @ tl (b_txs b)) x1 = (x', res)"
      using snoc.prems(2) b u d unfolding hs by simp
    from snoc.IH [OF mid_pop [OF m ne u d [unfolded None]] this] show ?thesis
      using same same_rest_trans [OF same(1)] by simp
  qed
qed

text \<open>A list of blocks, each linked to the one before, the first to a given hash.\<close>

fun linked_from :: "hash \<Rightarrow> block list \<Rightarrow> bool" where
  "linked_from h [] \<longleftrightarrow> True"
| "linked_from h (c # cs) \<longleftrightarrow> h_prev (hdr c) = h \<and> linked_from (BlockHash (en_crypto E) c) cs"

lemma stored_comes_next:
  assumes p: "path_ok g x bs" and l: "h_prev (hdr b) = BlockHash (en_crypto E) (last bs)"
    and s: "GetBlock D (ch_db x) (BlockHash (en_crypto E) b) = Some b" and z: "h_height (hdr b) \<noteq> 0"
  shows "comes_next x bs b"
proof -
  have ne: "length bs - 1 < length bs" "bs \<noteq> []" and small: "length bs < 2 ^ 64" and ok: "store_ok g (ch_db x)"
    using p by (auto simp: path_ok_def)
  have last: "last bs = bs ! (length bs - 1)" using ne by (simp add: last_conv_nth)
  from ok s z obtain q where q: "GetBlock D (ch_db x) (h_prev (hdr b)) = Some q" "h_height (hdr b) = h_height (hdr q) + 1"
    "h_timestamp (hdr q) \<le> h_timestamp (hdr b)" and m: "h_height (hdr b) \<noteq> max_u64"
    using ok [unfolded store_ok_def, rule_format, OF s] by auto
  have "q = last bs" using path_at [OF p ne(1)] q(1) unfolding l last by simp
  moreover have "word_of_nat (length bs) = word_of_nat (length bs - 1) + (1 :: u64)" using ne(2) by (cases bs) simp_all
  ultimately have h: "h_height (hdr b) = word_of_nat (length bs)" using path_height [OF p ne(1)] q(2) last by simp
  then have "unat (h_height (hdr b)) = length bs" using unat_of_nat_u64 [OF small] by simp
  then have "length bs \<noteq> 2 ^ 64 - 1" using m unat_max_u64 by (auto simp: word_unat_eq_iff)
  then show ?thesis using l s h q(3) \<open>q = last bs\<close> small by (simp add: comes_next_def)
qed

definition committed :: "'s chain \<Rightarrow> block \<Rightarrow> bool" where
  "committed x b \<longleftrightarrow> GetTip D (ch_db x) = Inr (BlockHash (en_crypto E) b, h_height (hdr b), ch_supply x) \<and>
     GetCumulativeDifficulty D (ch_db x) = ch_cumdiff x"

lemma connect_same_rest:
  assumes v: "validateBlockState E x b = Inr n" and bv: "Block_Validate (en_crypto E) b = None"
    and c: "connect_block E b x = (y, Inr u)"
  shows "same_rest x y"
  using connect_block_accepted [OF v Block_Validate_distinct [OF bv] c] connect_reads(4) [OF v bv c]
  by (auto simp: same_rest_def)

lemma replay_pushes:
  assumes "mid val g x bs" and "linked_from (BlockHash (en_crypto E) (last bs)) nb"
    and "\<forall>c \<in> set nb. GetBlock D (ch_db x) (BlockHash (en_crypto E) c) = Some c \<and> h_height (hdr c) \<noteq> 0"
    and "replay_loop E nb x = (x', r)"
  shows "same_rest x x' \<and> (r = None \<longrightarrow> mid val g x' (bs @ nb) \<and> (nb \<noteq> [] \<longrightarrow> committed x' (last nb)) \<and>
    (\<forall>n. unat n \<ge> length (bs @ nb) \<longrightarrow> view (ch_db x') (heightKey n) = view (ch_db x) (heightKey n)))"
  using assms
proof (induction nb arbitrary: x bs)
  case Nil
  then show ?case by (simp add: same_rest_def)
next
  case (Cons b nb)
  have p: "path_ok g x bs" using Cons.prems(1) by (simp add: mid_def)
  obtain x1 r1 where r1: "replay_block E b x = (x1, r1)" by fastforce
  show ?case
  proof (cases r1)
    case (Some e)
    then have "x' = x1" "r = Some e" using Cons.prems(4) r1 by auto
    moreover have "same_rest x x1"
    proof (cases "validate_replay E b x")
      case (Inl e)
      then show ?thesis using r1 by (auto simp: replay_block_def same_rest_def)
    next
      case (Inr n)
      then have v: "validateBlockState E x b = Inr n" and bv: "Block_Validate (en_crypto E) b = None"
        by (auto simp: validate_replay_def check_Inr ValidateBlock_None)
      obtain y ry where c: "connect_block E b x = (y, ry)" by fastforce
      note a = connect_block_accepted [OF v Block_Validate_distinct [OF bv] c]
      show ?thesis
      proof (cases ry)
        case (Inl e)
        then show ?thesis using a c r1 \<open>validate_replay E b x = Inr n\<close> by (auto simp: replay_block_def same_rest_def)
      next
        case ry: (Inr u)
        have "same_rest x y" by (rule connect_same_rest [OF v bv c [unfolded ry]])
        moreover have "x1 = y"
          using r1 Inr c ry Some by (simp add: replay_block_def split: sum.splits)
        ultimately show ?thesis by simp
      qed
    qed
    ultimately show ?thesis by simp
  next
    case None
    then have r: "replay_loop E nb x1 = (x', r)" using Cons.prems(4) r1 by simp
    from r1 None obtain n y u where v': "validate_replay E b x = Inr n" and c: "connect_block E b x = (y, Inr u)"
      and x1: "ch_db x1 = ch_db y" "ch_cumdiff x1 = ch_cumdiff y" "ch_supply x1 = ch_supply y" "ch_max_supply x1 = ch_max_supply y"
        "ch_tip x1 = ch_tip y" "ch_height x1 = ch_height y" "ch_genesis x1 = ch_genesis y"
      by (auto simp: replay_block_def addRegisteredSubChains_def split: sum.splits prod.splits if_splits)
    then have v: "validateBlockState E x b = Inr n" and bv: "Block_Validate (en_crypto E) b = None"
      by (auto simp: validate_replay_def check_Inr ValidateBlock_None)
    have nx: "comes_next x bs b" using Cons.prems(2,3) by (intro stored_comes_next [OF p]) simp_all
    have "mid val g y (bs @ [b])" by (rule mid_push [OF Cons.prems(1) nx v bv c])
    then have m: "mid val g x1 (bs @ [b])" by (rule mid_frame) (simp_all add: x1)
    have same: "same_rest x x1"
      using connect_same_rest [OF v bv c] by (simp add: same_rest_def x1)
    have stored: "\<forall>a \<in> set nb. GetBlock D (ch_db x1) (BlockHash (en_crypto E) a) = Some a \<and> h_height (hdr a) \<noteq> 0"
    proof
      fix a assume "a \<in> set nb"
      then have a: "GetBlock D (ch_db x) (BlockHash (en_crypto E) a) = Some a" "h_height (hdr a) \<noteq> 0"
        and b: "GetBlock D (ch_db x) (BlockHash (en_crypto E) b) = Some b" using Cons.prems(3) by simp_all
      have "b = a" if "BlockHash (en_crypto E) a = BlockHash (en_crypto E) b" using a(1) b unfolding that by simp
      then show "GetBlock D (ch_db x1) (BlockHash (en_crypto E) a) = Some a \<and> h_height (hdr a) \<noteq> 0"
        using a unfolding x1(1) connect_reads(1) [OF v bv c] by (simp split: if_split)
    qed
    have "linked_from (BlockHash (en_crypto E) (last (bs @ [b]))) nb" using Cons.prems(2) by simp
    note ih = Cons.IH [OF m this stored r]
    have "view (ch_db x1) (heightKey m) = view (ch_db x) (heightKey m)" if "unat m \<ge> length (bs @ b # nb)" for m
    proof -
      have "unat (h_height (hdr b)) = length bs" using nx by (simp add: comes_next_def unat_of_nat_u64)
      then have "m \<noteq> h_height (hdr b)" using that by auto
      then show ?thesis using connect_reads(2) [OF v bv c, of m] by (simp add: x1 get)
    qed
    moreover have "committed x1 b" by (simp add: committed_def x1 connect_reads [OF v bv c])
    then have "committed x' (last (b # nb))" if "r = None" using ih r that by (cases nb) simp_all
    ultimately show ?thesis using ih same_rest_trans [OF same] by simp
  qed
qed

section \<open>Switching\<close>

text \<open>A collected branch hangs on a block of the height index.\<close>

definition side_block :: "'s chain \<Rightarrow> block \<Rightarrow> bool" where
  "side_block x c \<longleftrightarrow> GetBlock D (ch_db x) (BlockHash (en_crypto E) c) = Some c \<and> h_height (hdr c) \<noteq> 0"

lemma collect_result:
  assumes "collect_loop E x h branch = Inr nb" and "store_ok g (ch_db x)" and "GetBlockByHeight D (ch_db x) 0 = Some g"
    and "linked_from h branch" "\<forall>c \<in> set branch. side_block x c"
    and "\<forall>c. GetBlock D (ch_db x) h = Some c \<longrightarrow> h_height (hdr c) \<noteq> 0"
  shows "\<exists>m. nb \<noteq> [] \<and> GetBlockByHeight D (ch_db x) (h_height (hdr (hd nb)) - 1) = Some m \<and>
    linked_from (BlockHash (en_crypto E) m) nb \<and> (\<forall>c \<in> set nb. side_block x c) \<and>
    BlockHash (en_crypto E) (last nb) = (if branch = [] then h else BlockHash (en_crypto E) (last branch))"
  using assms
proof (induction "Suc MaxReorgDepth - length branch" arbitrary: h branch rule: less_induct)
  case less
  note keyed = less.prems(2) [unfolded store_ok_def, rule_format]
  from less.prems(1) obtain b where b: "GetBlock D (ch_db x) h = Some b"
    and deep: "length (b # branch) \<le> MaxReorgDepth"
    by (subst (asm) collect_loop.simps) (auto split: option.splits if_splits)
  have side: "side_block x b" "BlockHash (en_crypto E) b = h" using keyed [OF b] b less.prems(6) by (auto simp: side_block_def)
  let ?found = "case GetBlockByHeight D (ch_db x) (h_height (hdr b) - 1) of
    None \<Rightarrow> False | Some m \<Rightarrow> BlockHash (en_crypto E) m = h_prev (hdr b)"
  have step: "collect_loop E x h branch = (if ?found then Inr (b # branch) else collect_loop E x (h_prev (hdr b)) (b # branch))"
    using b deep side(1) by (subst collect_loop.simps) (simp add: side_block_def)
  show ?case
  proof (cases ?found)
    case True
    then obtain m where "GetBlockByHeight D (ch_db x) (h_height (hdr b) - 1) = Some m"
      "BlockHash (en_crypto E) m = h_prev (hdr b)" by (auto split: option.splits)
    moreover have "nb = b # branch" using less.prems(1) True unfolding step by simp
    ultimately show ?thesis using less.prems(4,5) side by simp
  next
    case False
    have nz: "h_height (hdr c) \<noteq> 0" if c: "GetBlock D (ch_db x) (h_prev (hdr b)) = Some c" for c
    proof
      assume "h_height (hdr c) = 0"
      then have "c = g" "BlockHash (en_crypto E) c = h_prev (hdr b)" using keyed [OF c] by auto
      moreover from this have "h_height (hdr b) - 1 = 0" using keyed [OF b] side(1) c \<open>h_height (hdr c) = 0\<close>
        by (auto simp: side_block_def)
      ultimately show False using False less.prems(3) by simp
    qed
    have loop: "collect_loop E x (h_prev (hdr b)) (b # branch) = Inr nb" using less.prems(1) False unfolding step by simp
    have "Suc MaxReorgDepth - length (b # branch) < Suc MaxReorgDepth - length branch" using deep by simp
    from less.hyps [OF this loop less.prems(2,3)] less.prems(4,5) nz side show ?thesis by auto
  qed
qed

text \<open>The tip in memory is that of the path, the database records it, and no index entry is above it.\<close>

definition at_tip :: "'s chain \<Rightarrow> block list \<Rightarrow> bool" where
  "at_tip x bs \<longleftrightarrow> length bs = Suc (unat (ch_height x)) \<and> BlockHash (en_crypto E) (last bs) = ch_tip x \<and>
     ch_tip_time x = h_timestamp (hdr (last bs)) \<and> ch_genesis x = BlockHash (en_crypto E) (hd bs) \<and> persisted D x \<and>
     (\<forall>n. unat n > unat (ch_height x) \<longrightarrow> view (ch_db x) (heightKey n) = None)"

lemma same_rest_checkpoint:
  assumes "same_rest (x\<lparr>ch_db := PutReorgCheckpoint D n s\<rparr>) y"
  shows "GetReorgCheckpoint D (ch_db y) = Some n"
proof -
  have "view (ch_db y) keyReorgCheckpoint = Some (VBytes (be_bytes 8 n))"
    using assms by (simp add: same_rest_def PutReorgCheckpoint_def put)
  then show ?thesis by (simp add: GetReorgCheckpoint_def u64_at_def get)
qed

lemma mid_checkpoint:
  "mid val g x bs \<Longrightarrow> mid val g (x\<lparr>ch_db := PutReorgCheckpoint D n (ch_db x)\<rparr>) bs"
  by (rule mid_frame) (auto intro: checkpoint_view)

text \<open>Where the branch starts: on a block of the path.\<close>

lemma fork_on_path:
  assumes p: "path_ok g x bs" and t: "at_tip x bs" and b: "side_block x b"
    and c: "collectBranch E x (BlockHash (en_crypto E) b) = Inr nb"
  shows "\<exists>k. 0 < k \<and> k \<le> length bs \<and> nb \<noteq> [] \<and> h_height (hdr (hd nb)) - 1 = word_of_nat (k - 1) \<and>
    linked_from (BlockHash (en_crypto E) (last (take k bs))) nb \<and> (\<forall>c \<in> set nb. side_block x c) \<and>
    BlockHash (en_crypto E) (last nb) = BlockHash (en_crypto E) b"
proof -
  have ok: "store_ok g (ch_db x)" and ne: "0 < length bs" and small: "length bs < 2 ^ 64" and hd: "hd bs = g"
    using p by (auto simp: path_ok_def)
  have g: "GetBlockByHeight D (ch_db x) 0 = Some g" using path_read [OF p ne] ne hd by (simp add: hd_conv_nth)
  from collect_result [OF c [unfolded collectBranch_def] ok g] b obtain m where m: "nb \<noteq> []"
    "GetBlockByHeight D (ch_db x) (h_height (hdr (hd nb)) - 1) = Some m" "linked_from (BlockHash (en_crypto E) m) nb"
    "\<forall>c \<in> set nb. side_block x c" "BlockHash (en_crypto E) (last nb) = BlockHash (en_crypto E) b"
    by (auto simp: side_block_def)
  let ?f = "h_height (hdr (hd nb)) - 1"
  let ?k = "Suc (unat ?f)"
  have "\<not> unat ?f > unat (ch_height x)" using t m(2) by (auto simp: at_tip_def GetBlockByHeight_def get)
  then have k: "?k \<le> length bs" using t by (simp add: at_tip_def)
  have "GetBlockByHeight D (ch_db x) ?f = Some (bs ! unat ?f)" using path_read [OF p, of "unat ?f"] k by simp
  then have "m = bs ! unat ?f" using m(2) by simp
  moreover have "last (take ?k bs) = bs ! unat ?f" using k by (simp add: take_Suc_conv_app_nth)
  ultimately show ?thesis using m k by (intro exI [of _ ?k]) simp
qed

lemma Reorg_switch:
  assumes m: "mid val g x bs" and t: "at_tip x bs" and b: "side_block x b"
    and r: "Reorg E (BlockHash (en_crypto E) b) x = (x', r)"
    and ck: "GetReorgCheckpoint D (ch_db x') = None" and up: "unat (ch_height x) \<le> unat (ch_height x')"
  shows "x' = x \<or> r = None \<and> ch_max_supply x' = ch_max_supply x \<and>
    (\<exists>k nb. 0 < k \<and> nb \<noteq> [] \<and> mid val g x' (take k bs @ nb) \<and> at_tip x' (take k bs @ nb))"
proof (cases "collectBranch E x (BlockHash (en_crypto E) b)")
  case (Inl e)
  then show ?thesis using r by (simp add: Reorg_def)
next
  case (Inr nb)
  have p: "path_ok g x bs" using m by (simp add: mid_def)
  from fork_on_path [OF p t b Inr] obtain k where k: "0 < k" "k \<le> length bs" "h_height (hdr (hd nb)) - 1 = word_of_nat (k - 1)"
    and nb: "nb \<noteq> []" "linked_from (BlockHash (en_crypto E) (last (take k bs))) nb" "\<forall>c \<in> set nb. side_block x c" by blast
  from nb(1) obtain b0 rest where b0: "nb = b0 # rest" by (cases nb) auto
  let ?f = "h_height (hdr b0) - 1" and ?pre = "take k bs"
  have small: "length bs < 2 ^ 64" and len: "length bs = Suc (unat (ch_height x))"
    using p t by (simp_all add: path_ok_def at_tip_def)
  have "?f = word_of_nat (k - 1)" using k(3) unfolding b0 list.sel .
  then have f: "unat ?f = k - 1" using k(2) small by (metis unat_of_nat_u64 diff_le_self le_less_trans)
  have nz: "?f + 1 \<noteq> 0" using nb(3) by (simp add: b0 side_block_def)
  let ?x0 = "x\<lparr>ch_db := PutReorgCheckpoint D ?f (ch_db x)\<rparr>"
  have pre: "?pre \<noteq> []" "?pre @ drop k bs = bs" "length ?pre = k" using k by auto
  have hs: "heights_between ?f (ch_height x) = map word_of_nat [length ?pre..<length (?pre @ drop k bs)]"
    using k f len by (simp add: heights_between_def)
  have m0: "mid val g ?x0 (?pre @ drop k bs)" unfolding pre(2) by (rule mid_checkpoint [OF m])
  obtain x1 res where rl: "revert_loop E (rev (heights_between ?f (ch_height x))) [] ?x0 = (x1, res)" by fastforce
  note rv = revert_pops [OF m0 pre(1) rl [unfolded hs]]
  note ck1 = same_rest_checkpoint [OF conjunct1 [OF rv]]
  show ?thesis
  proof (cases "load_blocks E x (heights_between ?f (ch_height x))")
    case (Inl e)
    then show ?thesis using r Inr b0 nz by (simp add: Reorg_def Let_def)
  next
    case (Inr old)
    show ?thesis
    proof (cases "work_of nb \<le> work_of old")
      case True
      then show ?thesis using r \<open>collectBranch E x _ = Inr nb\<close> Inr b0 nz by (simp add: Reorg_def Let_def)
    next
      case False
      have R: "Reorg E (BlockHash (en_crypto E) b) x = (case res of
          RevertFailed e \<Rightarrow> (x1, Some e) | UndoMissing \<Rightarrow> rebuildReorg E nb ?f x1
        | Reverted txs \<Rightarrow> (case replay_loop E nb x1 of (ch2, Some e) \<Rightarrow> (ch2, Some e) | (ch2, None) \<Rightarrow>
            (let ch3 = set_tip_block E (last nb) ch2; ch4 = ch3\<lparr>ch_db := DeleteReorgCheckpoint D (ch_db ch3)\<rparr>;
                 toReturn = returned_txs (en_crypto E) nb txs;
                 ch5 = (if toReturn = [] then ch4 else notify E (EvReverted toReturn) ch4)
             in (notify E EvReorg ch5, None))))"
        using \<open>collectBranch E x _ = Inr nb\<close> Inr False rl nz unfolding b0
        by (simp add: Reorg_def Let_def del: replay_loop.simps last.simps split: prod.split option.split revert_result.split)
      show ?thesis
      proof (cases res)
        case (RevertFailed e)
        then show ?thesis using r ck ck1 unfolding R by simp
      next
        case UndoMissing
        then show ?thesis using rv by simp
      next
        case (Reverted txs)
        then have m1: "mid val g x1 ?pre" using rv by blast
        obtain x2 r2 where l: "replay_loop E nb x1 = (x2, r2)" by fastforce
        have "GetBlock D (ch_db ?x0) h = GetBlock D (ch_db x) h" for h
          by (intro GetBlock_cong) (simp add: checkpoint_view)
        then have st: "\<forall>c \<in> set nb. GetBlock D (ch_db x1) (BlockHash (en_crypto E) c) = Some c \<and> h_height (hdr c) \<noteq> 0"
          using rv nb(3) by (simp add: side_block_def)
        note rp = replay_pushes [OF m1 nb(2) st l]
        have "GetReorgCheckpoint D (ch_db x2) = Some ?f"
          using same_rest_checkpoint same_rest_trans [OF conjunct1 [OF rv] conjunct1 [OF rp]] by blast
        then have "r2 = None" using r ck l Reverted unfolding R by (cases r2) auto
        let ?s = "DeleteReorgCheckpoint D (ch_db x2)" and ?bs = "?pre @ nb"
        have x': "r = None" "ch_db x' = ?s" "ch_supply x' = ch_supply x2" "ch_cumdiff x' = ch_cumdiff x2"
          "ch_max_supply x' = ch_max_supply x2" "ch_genesis x' = ch_genesis x2" "ch_tip_time x' = h_timestamp (hdr (last nb))"
          "ch_tip x' = BlockHash (en_crypto E) (last nb)" "ch_height x' = h_height (hdr (last nb))"
          using r l \<open>r2 = None\<close> Reverted unfolding R by (auto simp: Let_def set_tip_block_def)
        have m2: "mid val g x2 ?bs" and co: "committed x2 (last nb)" using rp \<open>r2 = None\<close> nb(1) by blast+
        have m': "mid val g x' ?bs" by (rule mid_frame [OF m2]) (auto simp: x' intro: checkpoint_view)
        then have p': "path_ok g x' ?bs" by (simp add: mid_def)
        have lst: "last ?bs = last nb" "hd ?bs = hd bs" using nb(1) k pre(1) by (simp_all add: hd_append)
        moreover have "?bs \<noteq> []" using nb(1) by simp
        ultimately have top: "?bs ! (length ?bs - 1) = last nb" by (metis last_conv_nth)
        have "length ?bs - 1 < length ?bs" using nb(1) by simp
        from path_height [OF p' this] have "h_height (hdr (last nb)) = word_of_nat (length ?bs - 1)" unfolding top .
        moreover have "length ?bs < 2 ^ 64" using p' by (simp add: path_ok_def)
        ultimately have h: "unat (ch_height x') = length ?bs - 1" unfolding x' by (simp add: unat_of_nat_u64)
        have "view ?s (heightKey n) = None" if n: "unat n > unat (ch_height x')" for n
        proof -
          have "view ?s (heightKey n) = view (ch_db x2) (heightKey n)" by (rule checkpoint_view) auto
          also have "\<dots> = view (ch_db x1) (heightKey n)" using rp \<open>r2 = None\<close> n h by simp
          also have "\<dots> = view (ch_db x) (heightKey n)" using rv by (simp add: checkpoint_view)
          also have "\<dots> = None" using t n up by (simp add: at_tip_def)
          finally show ?thesis .
        qed
        moreover have "persisted D x'" using co by (simp add: persisted_def x' checkpoint_deleted committed_def)
        moreover have "ch_genesis x2 = ch_genesis x" "ch_max_supply x2 = ch_max_supply x"
          using rv rp by (simp_all add: same_rest_def)
        moreover have "length ?bs = Suc (unat (ch_height x'))" using h nb(1) by simp
        ultimately have "at_tip x' ?bs" using t by (simp add: at_tip_def lst x')
        then show ?thesis using m' x'(1,5) \<open>ch_max_supply x2 = ch_max_supply x\<close> k(1) nb(1) by auto
      qed
    qed
  qed
qed

section \<open>One block\<close>

lemma path_main:
  assumes p: "path_ok g x bs" and t: "at_tip x bs"
  shows "main_path D (en_crypto E) x bs"
proof -
  have "\<forall>i < length bs. GetBlockByHeight D (ch_db x) (word_of_nat i) = Some (bs ! i) \<and>
      kv_get D (ch_db x) (heightKey (word_of_nat i)) = Some (VBytes (hash_bytes (BlockHash (en_crypto E) (bs ! i)))) \<and>
      GetBlock D (ch_db x) (BlockHash (en_crypto E) (bs ! i)) = Some (bs ! i)"
    using path_at [OF p] path_read [OF p] by blast
  with p t show ?thesis unfolding path_ok_def at_tip_def main_path_def by blast
qed

lemma path_not_empty:
  assumes "path_ok g x bs" and "at_tip x bs" and "BlockHash (en_crypto E) g \<noteq> 0"
  shows "\<not> chain_is_genesis x"
proof
  assume "chain_is_genesis x"
  then have z: "ch_height x = 0" "ch_tip x = 0" by (simp_all add: chain_is_genesis_def is_zero_hash_def)
  then have "length bs = Suc 0" using assms(2) by (simp add: at_tip_def)
  then have "bs = [g]" using assms(1) by (cases bs) (auto simp: path_ok_def)
  then show False using assms(2,3) z by (simp add: at_tip_def)
qed

lemma extend_tip_connected:
  assumes "Block_Validate (en_crypto E) b = None" and "extend_tip E b ch = (ch', r)"
  shows "ch' = ch \<or> (\<exists>n u ch1. validateBlockState E ch b = Inr n \<and> connect_block E b ch = (ch1, Inr u) \<and>
    ch_db ch' = ch_db ch1 \<and> ch_supply ch' = ch_supply ch1 \<and> ch_cumdiff ch' = ch_cumdiff ch1 \<and>
    ch_max_supply ch' = ch_max_supply ch1 \<and> ch_genesis ch' = ch_genesis ch1 \<and> ch_height ch' = h_height (hdr b) \<and>
    ch_tip ch' = BlockHash (en_crypto E) b \<and> ch_tip_time ch' = h_timestamp (hdr b))"
proof (cases "validateBlockState E ch b")
  case (Inl e)
  then show ?thesis using assms(2) by (simp add: extend_tip_def)
next
  case (Inr n)
  obtain ch1 r1 where c: "connect_block E b ch = (ch1, r1)" by fastforce
  show ?thesis
  proof (cases r1)
    case (Inl e)
    then have "ch1 = ch" using connect_block_accepted [OF Inr Block_Validate_distinct [OF assms(1)] c] by auto
    then show ?thesis using assms(2) Inr c Inl by (simp add: extend_tip_def)
  next
    case r1: (Inr u)
    have "ch_db ch' = ch_db ch1 \<and> ch_supply ch' = ch_supply ch1 \<and> ch_cumdiff ch' = ch_cumdiff ch1 \<and>
        ch_max_supply ch' = ch_max_supply ch1 \<and> ch_genesis ch' = ch_genesis ch1 \<and> ch_height ch' = h_height (hdr b) \<and>
        ch_tip ch' = BlockHash (en_crypto E) b \<and> ch_tip_time ch' = h_timestamp (hdr b)"
      using assms(2) Inr c r1
      by (auto simp: extend_tip_def Let_def addRegisteredSubChains_def set_tip_block_def split: if_splits)
    then show ?thesis using Inr c r1 by blast
  qed
qed

lemma extend_step:
  assumes m: "mid val g ch bs" and t: "at_tip ch bs" and g: "BlockHash (en_crypto E) g \<noteq> 0"
    and nf: "no_fork E b ch" and pb: "ProcessBlock E now b ch = (ch', r)" and mx: "h_height (hdr b) \<noteq> max_u64"
  shows "ch' = ch \<or> ch_max_supply ch' = ch_max_supply ch \<and> mid val g ch' (bs @ [b]) \<and> at_tip ch' (bs @ [b])"
proof (cases "accepted_header E now b ch \<and> extend_tip E b ch = (ch', r)")
  case False
  then show ?thesis using ProcessBlock_no_fork [OF nf pb] by blast
next
  case True
  then have a: "accepted_header E now b ch" and bv: "Block_Validate (en_crypto E) b = None"
    by (auto simp: accepted_header_def ValidateBlock_None)
  have p: "path_ok g ch bs" using m by (simp add: mid_def)
  have ne: "bs \<noteq> []" "length bs - 1 < length bs" and small: "length bs < 2 ^ 64" and len: "length bs = Suc (unat (ch_height ch))"
    and lt: "BlockHash (en_crypto E) (last bs) = ch_tip ch"
    using p t by (auto simp: path_ok_def at_tip_def)
  note nx = accepted_next [OF a path_not_empty [OF p t g]]
  have "ch_height ch \<noteq> max_u64" using len small unat_max_u64 by auto
  then have uh: "unat (h_height (hdr b)) = length bs" using nx len unat_next by simp
  then have "length bs \<noteq> 2 ^ 64 - 1" using mx unat_max_u64 by (auto simp: word_unat_eq_iff)
  moreover have hn: "h_height (hdr b) = word_of_nat (length bs)" unfolding uh [symmetric] by simp
  moreover have "GetBlock D (ch_db ch) (h_prev (hdr b)) = Some (last bs)"
    using path_at [OF p ne(2)] nx lt ne by (simp add: last_conv_nth)
  then have "h_timestamp (hdr (last bs)) \<le> h_timestamp (hdr b)"
    using a uh ne by (auto simp: accepted_header_def check_times_def word_gt_0 unat_eq_0 split: if_splits)
  moreover have "GetBlock D (ch_db ch) (BlockHash (en_crypto E) b) = None"
    using a by (simp add: accepted_header_def HasBlock_def has GetBlock_def get)
  ultimately have cn: "comes_next ch bs b" using nx lt small by (simp add: comes_next_def)
  from extend_tip_connected [OF bv conjunct2 [OF True]] show ?thesis
  proof (elim disjE exE conjE)
    fix n u ch1
    assume v: "validateBlockState E ch b = Inr n" and c: "connect_block E b ch = (ch1, Inr u)"
      and f: "ch_db ch' = ch_db ch1" "ch_supply ch' = ch_supply ch1" "ch_cumdiff ch' = ch_cumdiff ch1"
        "ch_max_supply ch' = ch_max_supply ch1" "ch_genesis ch' = ch_genesis ch1" "ch_height ch' = h_height (hdr b)"
        "ch_tip ch' = BlockHash (en_crypto E) b" "ch_tip_time ch' = h_timestamp (hdr b)"
    note s = connect_same_rest [OF v bv c]
    note r = connect_reads [OF v bv c]
    have "mid val g ch1 (bs @ [b])" by (rule mid_push [OF m cn v bv c])
    then have "mid val g ch' (bs @ [b])" by (rule mid_frame) (simp_all add: f)
    moreover have "view (ch_db ch1) (heightKey n) = None" if n: "unat n > unat (h_height (hdr b))" for n
    proof -
      have "n \<noteq> h_height (hdr b)" using n by auto
      then have "view (ch_db ch1) (heightKey n) = view (ch_db ch) (heightKey n)" using r(2) [of n] by (simp add: get)
      then show ?thesis using t n uh len by (simp add: at_tip_def)
    qed
    moreover have "persisted D ch'"
      using t s r(6,7) by (simp add: persisted_def f same_rest_def at_tip_def GetReorgCheckpoint_def u64_at_def get)
    ultimately show ?thesis using t s ne uh by (simp add: at_tip_def f same_rest_def hd_append)
  qed simp
qed

text \<open>A block that comes in as a fork is stored, which changes nothing of the path.\<close>

lemma fork_stored:
  assumes m: "mid val g ch bs" and t: "at_tip ch bs" and new: "\<not> HasBlock D (ch_db ch) (BlockHash (en_crypto E) b)"
    and fork: "checkParentLink E ch (hdr b) = Some ErrForkDetected" and time: "check_times E now (hdr b) ch = None"
    and mx: "h_height (hdr b) \<noteq> max_u64"
  defines "x \<equiv> ch\<lparr>ch_db := StoreBlock D (en_crypto E) b (ch_db ch)\<rparr>"
  shows "mid val g x bs \<and> at_tip x bs \<and> side_block x b"
proof -
  let ?h = "BlockHash (en_crypto E) b"
  have p: "path_ok g ch bs" using m by (simp add: mid_def)
  then have ok: "store_ok g (ch_db ch)" by (simp add: path_ok_def)
  have none: "GetBlock D (ch_db ch) ?h = None" using new by (simp add: HasBlock_def has GetBlock_def get)
  have f: "ch_cumdiff x = ch_cumdiff ch" "ch_supply x = ch_supply ch" "ch_max_supply x = ch_max_supply ch" by (simp_all add: x_def)
  have r: "GetBlock D (ch_db x) h = (if h = ?h then Some b else GetBlock D (ch_db ch) h)" for h
    by (simp add: x_def GetBlock_def get StoreBlock_def put)
  from fork obtain q where q: "GetBlock D (ch_db ch) (h_prev (hdr b)) = Some q" "h_height (hdr b) = h_height (hdr q) + 1"
    by (auto simp: checkParentLink_def split: if_splits option.splits)
  have "h_height (hdr q) \<noteq> max_u64" using ok q(1) by (simp add: store_ok_def)
  then have u: "unat (h_height (hdr b)) = Suc (unat (h_height (hdr q)))" using q(2) unat_next by simp
  then have nz: "h_height (hdr b) \<noteq> 0" by auto
  have tq: "h_timestamp (hdr q) \<le> h_timestamp (hdr b)"
    using time q(1) nz by (auto simp: check_times_def word_gt_0 split: if_splits)
  have up: "GetBlock D (ch_db x) h = Some c" if "GetBlock D (ch_db ch) h = Some c" for h c
    using that none by (auto simp: r)
  have "store_ok g (ch_db x)"
    unfolding store_ok_def
  proof (intro allI impI)
    fix h c assume c: "GetBlock D (ch_db x) h = Some c"
    show "BlockHash (en_crypto E) c = h \<and> h_height (hdr c) \<noteq> max_u64 \<and>
       (if h_height (hdr c) = 0 then c = g else \<exists>p. GetBlock D (ch_db x) (h_prev (hdr c)) = Some p \<and>
          h_height (hdr c) = h_height (hdr p) + 1 \<and> h_timestamp (hdr p) \<le> h_timestamp (hdr c))"
    proof (cases "h = ?h")
      case True
      then have "c = b" using c by (simp add: r)
      then show ?thesis using True mx nz up [OF q(1)] q(2) tq by auto
    next
      case False
      then have "GetBlock D (ch_db ch) h = Some c" using c by (simp add: r)
      then show ?thesis using ok up unfolding store_ok_def by meson
    qed
  qed
  moreover have v: "view (ch_db x) k = view (ch_db ch) k" if "k \<notin> range blockKey" for k
    using that by (auto simp: x_def intro: StoreBlock_view)
  moreover have ks: "heightKey n \<notin> range blockKey" "undoKey h \<notin> range blockKey" "keyTipHash \<notin> range blockKey"
    "keyHeight \<notin> range blockKey" "keySupply \<notin> range blockKey" "keyCumDifficulty \<notin> range blockKey"
    "keyReorgCheckpoint \<notin> range blockKey" for n h by auto
  then have w: "kv_get D (ch_db x) (heightKey n) = kv_get D (ch_db ch) (heightKey n)" "GetUndo D (ch_db x) h = GetUndo D (ch_db ch) h" for n h
    by (simp_all add: get GetUndo_def v)
  moreover have "GetBlock D (ch_db x) (BlockHash (en_crypto E) (bs ! i)) = Some (bs ! i)" if "i < length bs" for i
    using up path_at [OF p that] by blast
  ultimately have p': "path_ok g x bs" using p by (simp add: path_ok_def f)
  have "utxos (ch_db x) = utxos (ch_db ch)" by (simp add: x_def StoreBlock_utxos)
  then have "ledger val L ch bs \<Longrightarrow> ledger val L x bs" for L by (simp add: ledger_def w f)
  then have "mid val g x bs" using m p' up unfolding mid_def by blast
  moreover have kk: "kv_get D (ch_db x) keyTipHash = kv_get D (ch_db ch) keyTipHash"
    "kv_get D (ch_db x) keyHeight = kv_get D (ch_db ch) keyHeight" "kv_get D (ch_db x) keySupply = kv_get D (ch_db ch) keySupply"
    "kv_get D (ch_db x) keyCumDifficulty = kv_get D (ch_db ch) keyCumDifficulty"
    "kv_get D (ch_db x) keyReorgCheckpoint = kv_get D (ch_db ch) keyReorgCheckpoint" by (simp_all add: get v ks)
  have "persisted D x = persisted D ch"
    unfolding persisted_def GetTip_def GetCumulativeDifficulty_def GetReorgCheckpoint_def u64_at_def kk by (simp add: x_def)
  then have "at_tip x bs" using t by (simp add: at_tip_def v ks) (simp add: x_def)
  ultimately show ?thesis using nz by (simp add: side_block_def r)
qed

lemma block_step:
  assumes m: "mid val g ch bs" and t: "at_tip ch bs" and g: "BlockHash (en_crypto E) g \<noteq> 0"
    and pb: "ProcessBlock E now b ch = (ch', r)" and mx: "h_height (hdr b) \<noteq> max_u64"
    and ck: "GetReorgCheckpoint D (ch_db ch') = None" and up: "ch_height ch \<le> ch_height ch'"
  shows "ch_max_supply ch' = ch_max_supply ch \<and> (\<exists>bs'. mid val g ch' bs' \<and> at_tip ch' bs')"
proof (cases "no_fork E b ch")
  case True
  from extend_step [OF m t g True pb mx] show ?thesis using m t by blast
next
  case False
  then show ?thesis using pb
  proof (cases rule: ProcessBlock_fork)
    case refused
    then show ?thesis using m t by blast
  next
    case stored
    let ?x = "ch\<lparr>ch_db := StoreBlock D (en_crypto E) b (ch_db ch)\<rparr>"
    have x: "mid val g ?x bs" "at_tip ?x bs" "side_block ?x b"
      using fork_stored [OF m t _ stored(2,3) mx] stored(1) by simp_all
    have up': "unat (ch_height ?x) \<le> unat (ch_height ch')" using up by (simp add: word_le_nat_alt)
    from stored(4) consider "ch' = ?x" | "Reorg E (BlockHash (en_crypto E) b) ?x = (ch', r)" by auto
    then show ?thesis
    proof cases
      case 1
      then show ?thesis using x by auto
    next
      case 2
      from Reorg_switch [OF x 2 ck up'] show ?thesis using x by auto
    qed
  qed
qed

section \<open>Genesis and restarts\<close>

lemma genesis_mid:
  assumes s0: "view s0 = Map.empty" and n: "NewChain E eng s0 = Inr ch0" and i: "InitFromGenesis E gen ch0 = Inr ch"
    and d: "distinct (map fst (gen_alloc gen))" and gv: "Genesis_Validate gen = None"
  shows "\<exists>g. BlockHash (en_crypto E) g = ch_tip ch \<and> at_tip ch [g] \<and> mid val g ch [g] \<and>
    ch_max_supply ch = cr_max_supply (pc_consensus (gen_protocol gen))"
proof -
  note n0 = NewChain_empty [OF s0 n]
  from InitFromGenesis_fields [OF i d] obtain b h cb where b: "b = \<lparr>b_header = Some h, b_txs = [cb]\<rparr>"
    "h_height h = 0" "h_difficulty h = 0"
    and db: "ch_db ch = SetTip D (BlockHash (en_crypto E) b) 0 (ch_supply ch) (PutBlock D (en_crypto E) b
        (create_outputs (UtxoStore D) (TxHash (en_crypto E) cb) 0 False 0 (tx_outputs cb) (ch_db ch0)))"
    and f: "ch_tip ch = BlockHash (en_crypto E) b" "ch_height ch = 0" "ch_tip_time ch = h_timestamp h"
      "ch_genesis ch = BlockHash (en_crypto E) b" "ch_cumdiff ch = ch_cumdiff ch0"
      "ch_max_supply ch = cr_max_supply (pc_consensus (gen_protocol gen))" by blast
  let ?C = "en_crypto E" and ?db = "ch_db ch"
  let ?s1 = "create_outputs (UtxoStore D) (TxHash ?C cb) 0 False 0 (tx_outputs cb) (ch_db ch0)"
  have other: "view ?db k = None" if "\<not> utxo_space k" "k \<notin> {keyTipHash, keyHeight, keySupply}"
    "k \<noteq> heightKey 0" "k \<noteq> blockKey (BlockHash ?C b)" "k \<notin> range txKey" for k
    using that s0 n0 b by (auto simp: db SetTip_def put view_PutBlock view_create_outputs)
  have only: "GetBlock D ?db k = (if k = BlockHash ?C b then Some b else None)" for k
  proof (cases "k = BlockHash ?C b")
    case True
    have "GetBlock D ?db (BlockHash ?C b) = Some b"
      using b by (auto simp: db SetTip_def put get view_PutBlock GetBlock_def)
    then show ?thesis using True by simp
  next
    case False
    then have "view ?db (blockKey k) = None" by (intro other) auto
    then show ?thesis using False by (simp add: GetBlock_def get)
  qed
  have at: "kv_get D ?db (heightKey 0) = Some (VBytes (hash_bytes (BlockHash ?C b)))"
    using b by (auto simp: db SetTip_def put get view_PutBlock)
  have "store_ok b ?db" unfolding store_ok_def by (auto simp: only b)
  then have p: "path_ok b ch [b]"
    using f n0 b at by (simp add: path_ok_def linked_chain_def only)
  have "persisted D ch" using genesis_path [OF s0 n i d] by blast
  moreover have "view ?db (heightKey k) = None" if "unat k > 0" for k
    using that by (intro other) auto
  ultimately have t: "at_tip ch [b]" using f b by (simp add: at_tip_def)
  have e: "utxos (ch_db ch0) = Map.empty" using s0 n0 by (simp add: utxos_of_def fun_eq_iff)
  have ut: "utxos ?db = utxos ?s1" by (simp add: db utxos_SetTip utxos_PutBlock)
  have "ledger val (\<lambda>i. (dom (utxos ?db), unat (ch_supply ch))) ch [b]" if a: "block_agrees ?C val (b_txs b)"
  proof -
    have "coins_agree val (utxos (ch_db ch0))" by (simp add: coins_agree_def e)
    then have ag: "coins_agree val (utxos ?db)"
      using set.agree_create [of val "ch_db ch0" ?C cb 0 False 0] a b unfolding get_utxos ut by simp
    moreover have "supply_sound D ch"
      using supply_sound_genesis [OF _ i d gv] s0 n0 by simp
    moreover have "coins ?db = (\<Sum>x \<in> dom (utxos ?db). unat (val x))"
      using set.total_agree [of val ?db] ag by (simp add: get_utxos Store_Get_utxos)
    ultimately show ?thesis using finite_utxos by (simp add: ledger_def supply_sound_def word_le_nat_alt)
  qed
  then have "mid val b ch [b]" using p only by (auto simp: mid_def)
  then show ?thesis using t f by auto
qed

lemma restart_mid:
  assumes m: "mid val g ch bs" and t: "at_tip ch bs" and n: "NewChain E eng (ch_db ch) = Inr ch1"
    and mx: "ch_max_supply ch = cr_max_supply (pc_consensus (gen_protocol gen))"
  shows "mid val g (restart_rules gen ch1) bs \<and> at_tip (restart_rules gen ch1) bs"
proof -
  have p: "path_ok g ch bs" using m by (simp add: mid_def)
  have "persisted D ch" using t by (simp add: at_tip_def)
  note f = NewChain_persisted [OF this path_main [OF p t] n]
  have "mid val g (restart_rules gen ch1) bs" by (rule mid_frame [OF m]) (simp_all add: f mx)
  moreover have "at_tip (restart_rules gen ch1) bs" using t by (simp add: at_tip_def f persisted_def)
  ultimately show ?thesis ..
qed

text \<open>The invariant of every run.\<close>

lemma chain_run_invariant:
  assumes "chain_run E gen s0 ch" and s0: "view s0 = Map.empty" and d: "distinct (map fst (gen_alloc gen))"
    and v: "Genesis_Validate gen = None"
  shows "ch_max_supply ch = cr_max_supply (pc_consensus (gen_protocol gen)) \<and>
    (\<exists>g bs. BlockHash (en_crypto E) g \<noteq> 0 \<and> mid val g ch bs \<and> at_tip ch bs)"
  using assms(1)
proof induction
  case (genesis eng ch0 ch)
  from genesis_mid [OF s0 genesis(1,2) d v] genesis(3) show ?case by metis
next
  case (block ch now b ch' r)
  then obtain g bs where g: "BlockHash (en_crypto E) g \<noteq> 0" and m: "mid val g ch bs" and t: "at_tip ch bs" by blast
  from block_step [OF m t g block.hyps(2,3) block.hyps(4) [unfolded en_db] block.hyps(5)] block.IH g show ?case by metis
next
  case (restart ch eng ch1)
  then obtain g bs where g: "BlockHash (en_crypto E) g \<noteq> 0" and m: "mid val g ch bs" and t: "at_tip ch bs" by blast
  from restart_mid [OF m t restart.hyps(2)] restart.IH g show ?case by auto
qed

lemma chain_run_sound:
  assumes r: "chain_run E gen s0 ch" and s0: "view s0 = Map.empty" and d: "distinct (map fst (gen_alloc gen))"
    and v: "Genesis_Validate gen = None" and o: "outputs_agree D (en_crypto E) (ch_db ch)"
  shows "supply_sound D ch"
proof -
  let ?P = "\<lambda>x w. \<exists>h b out. GetBlock D (ch_db ch) h = Some b \<and> (x, out) \<in> set (created_list (en_crypto E) (b_txs b)) \<and> w = out_value out"
  define val where "val x = (SOME w. ?P x w)" for x
  have val: "out_value out = val x"
    if "GetBlock D (ch_db ch) h = Some b" "(x, out) \<in> set (created_list (en_crypto E) (b_txs b))" for h b x out
  proof -
    have "?P x (out_value out)" using that by blast
    then have "?P x (val x)" unfolding val_def by (rule someI)
    then show ?thesis using o that unfolding outputs_agree_def by metis
  qed
  from chain_run_invariant [OF r s0 d v, of val] obtain g bs where m: "mid val g ch bs" by blast
  have "\<forall>h b. GetBlock D (ch_db ch) h = Some b \<longrightarrow> block_agrees (en_crypto E) val (b_txs b)"
    using val by (auto simp: block_agrees_def)
  then obtain L where "ledger val L ch bs" using m unfolding mid_def by blast
  moreover have "bs \<noteq> []" using m by (simp add: mid_def path_ok_def)
  ultimately show ?thesis by (rule ledger_sound)
qed

lemma chain_run_path:
  assumes "chain_run E gen s0 ch" and "view s0 = Map.empty" and "distinct (map fst (gen_alloc gen))"
    and "Genesis_Validate gen = None"
  obtains bs where "main_path D (en_crypto E) ch bs" "persisted D ch" "\<not> chain_is_genesis ch"
    "\<And>n. unat n > unat (ch_height ch) \<Longrightarrow> GetBlockByHeight D (ch_db ch) n = None"
proof -
  from chain_run_invariant [OF assms] obtain g bs where g: "BlockHash (en_crypto E) g \<noteq> 0"
    and m: "mid (\<lambda>_. 0) g ch bs" and t: "at_tip ch bs" by blast
  have p: "path_ok g ch bs" using m by (simp add: mid_def)
  have "GetBlockByHeight D (ch_db ch) n = None" if "unat n > unat (ch_height ch)" for n
    using t that by (simp add: at_tip_def GetBlockByHeight_def get)
  then show thesis using that path_main [OF p t] path_not_empty [OF p t g] t by (simp add: at_tip_def)
qed

section \<open>Reorganisations that fail\<close>

text \<open>Nothing on the way removes the checkpoint.\<close>

lemma revert_keeps_checkpoint:
  "revert_loop E ns txs x = (y, r) \<Longrightarrow> view (ch_db y) keyReorgCheckpoint = view (ch_db x) keyReorgCheckpoint"
proof (induction ns arbitrary: txs x)
  case Nil
  then show ?case by simp
next
  case (Cons n ns)
  have d: "view (ch_db x') keyReorgCheckpoint = view (ch_db x) keyReorgCheckpoint" if "disconnect_block E b u x = (x', r')" for b u x' r'
    by (rule disconnect_outcome(1) [OF that]) auto
  show ?case using Cons.prems Cons.IH d by (fastforce split: option.splits prod.splits)
qed

lemma connect_keeps_checkpoint:
  assumes "connect_block E b x = (y, r)"
  shows "view (ch_db y) keyReorgCheckpoint = view (ch_db x) keyReorgCheckpoint"
proof -
  obtain s' u where a: "applyBlockWithUndo E b (ch_db x) = (s', u)" by fastforce
  have "view s' keyReorgCheckpoint = view (ch_db x) keyReorgCheckpoint" by (rule view_applyBlock [OF a]) simp
  then show ?thesis using assms a
    by (auto simp: connect_block_def Let_def view_CommitBlock_cases split: if_splits option.splits)
qed

lemma replay_keeps_checkpoint:
  "replay_loop E bs x = (y, r) \<Longrightarrow> view (ch_db y) keyReorgCheckpoint = view (ch_db x) keyReorgCheckpoint"
proof (induction bs arbitrary: x)
  case Nil
  then show ?case by simp
next
  case (Cons b bs)
  have "view (ch_db x') keyReorgCheckpoint = view (ch_db x) keyReorgCheckpoint" if "replay_block E b x = (x', r')" for x' r'
  proof -
    obtain z rz where c: "connect_block E b x = (z, rz)" by fastforce
    have "ch_db x' = ch_db x \<or> ch_db x' = ch_db z"
      using that c by (auto simp: replay_block_def add_registered_fields(1) split: sum.splits)
    then show ?thesis using connect_keeps_checkpoint [OF c] by auto
  qed
  then show ?case using Cons.prems Cons.IH by (fastforce split: option.splits prod.splits)
qed

lemma old_branch_db: "ch_db (old_branch_events E ns x) = ch_db x"
  by (induction ns arbitrary: x) (auto split: option.splits)

lemma rebuild_keeps_checkpoint:
  "rebuild_reorg_loop E f ns supply0 cd x = (y, r) \<Longrightarrow> view (ch_db y) keyReorgCheckpoint = view (ch_db x) keyReorgCheckpoint"
proof (induction ns arbitrary: supply0 cd x)
  case Nil
  then show ?case by simp
next
  case (Cons n ns)
  have undo: "view (PutUndo D h u s) keyReorgCheckpoint = view s keyReorgCheckpoint" for h u s
    by (auto simp: PutUndo_def put)
  have ap: "view s' keyReorgCheckpoint = view (ch_db x) keyReorgCheckpoint"
    if "applyBlockWithUndo E b (ch_db x) = (s', u)" for b s' u
    by (rule view_applyBlock [OF that]) simp
  show ?case using Cons.prems
    by (auto simp: Let_def undo ap add_registered_fields(1) dest!: Cons.IH split: option.splits sum.splits prod.splits if_splits)
qed

lemma rebuildReorg_error:
  assumes "rebuildReorg E nb f x = (y, Some e)"
  shows "view (ch_db y) keyReorgCheckpoint = view (ch_db x) keyReorgCheckpoint"
proof -
  let ?x0 = "old_branch_events E (rev (heights_between f (ch_height x))) x"
  let ?x1 = "?x0\<lparr>ch_db := us_clear (en_set E) (fold (PutBlock D (en_crypto E)) nb (ch_db ?x0)), ch_registered := 0\<rparr>"
  obtain z rz where l: "rebuild_reorg_loop E f (heights_to (h_height (hdr (last nb)))) 0 0 ?x1 = (z, rz)" by fastforce
  have "view (fold (PutBlock D (en_crypto E)) bs s) keyReorgCheckpoint = view s keyReorgCheckpoint" for bs s
    by (induction bs arbitrary: s) (auto simp: view_PutBlock)
  then have "view (ch_db ?x1) keyReorgCheckpoint = view (ch_db x) keyReorgCheckpoint"
    by (simp add: UtxoStore_def view_outside old_branch_db)
  moreover have "y = z" using assms l by (auto simp: rebuildReorg_def Let_def split: sum.splits)
  ultimately show ?thesis using rebuild_keeps_checkpoint [OF l] by simp
qed

lemma Reorg_error:
  assumes "Reorg E h ch = (ch', Some e)"
  shows "ch' = ch \<or> GetReorgCheckpoint D (ch_db ch') \<noteq> None"
proof -
  have ck: "GetReorgCheckpoint D (ch_db y) \<noteq> None"
    if "view (ch_db y) keyReorgCheckpoint = view (PutReorgCheckpoint D n s) keyReorgCheckpoint" for y :: "'s chain" and n s
  proof -
    have "view (ch_db y) keyReorgCheckpoint = Some (VBytes (be_bytes 8 n))" using that by (simp add: PutReorgCheckpoint_def put)
    then show ?thesis by (simp add: GetReorgCheckpoint_def u64_at_def get)
  qed
  show ?thesis
  proof (cases "collectBranch E ch h")
    case (Inl x)
    then show ?thesis using assms by (simp add: Reorg_def)
  next
    case (Inr nb)
    show ?thesis
    proof (cases nb)
      case Nil
      then show ?thesis using assms Inr by (simp add: Reorg_def)
    next
      case (Cons b0 bs)
      let ?f = "h_height (hdr b0) - 1"
      let ?olds = "if ?f + 1 = 0 then heights_to (ch_height ch) else heights_between ?f (ch_height ch)"
      let ?x = "ch\<lparr>ch_db := PutReorgCheckpoint D ?f (ch_db ch)\<rparr>"
      obtain x1 res where rl: "revert_loop E (rev (heights_between ?f (ch_height ch))) [] ?x = (x1, res)" by fastforce
      have x1: "view (ch_db x1) keyReorgCheckpoint = view (PutReorgCheckpoint D ?f (ch_db ch)) keyReorgCheckpoint"
        using revert_keeps_checkpoint [OF rl] by simp
      obtain x2 r2 where rp: "replay_loop E nb x1 = (x2, r2)" by fastforce
      consider "ch' = ch" | "res = RevertFailed e" "ch' = x1" | "res = UndoMissing" "rebuildReorg E nb ?f x1 = (ch', Some e)"
        | txs where "res = Reverted txs" "ch' = x2"
      proof (cases "load_blocks E ch ?olds")
        case (Inl y)
        then show ?thesis using that(1) assms \<open>collectBranch E ch h = Inr nb\<close> Cons by (simp add: Reorg_def Let_def)
      next
        case (Inr old)
        show ?thesis
        proof (cases "work_of nb \<le> work_of old")
          case True
          then show ?thesis using assms \<open>collectBranch E ch h = Inr nb\<close> Cons Inr by (simp add: Reorg_def Let_def)
        next
          case False
          have "(case res of RevertFailed e \<Rightarrow> (x1, Some e) | UndoMissing \<Rightarrow> rebuildReorg E nb ?f x1
            | Reverted txs \<Rightarrow> (case replay_loop E nb x1 of (ch2, Some e) \<Rightarrow> (ch2, Some e) | (ch2, None) \<Rightarrow>
                (let ch3 = set_tip_block E (last nb) ch2; ch4 = ch3\<lparr>ch_db := DeleteReorgCheckpoint D (ch_db ch3)\<rparr>;
                     toReturn = returned_txs (en_crypto E) nb txs;
                     ch5 = (if toReturn = [] then ch4 else notify E (EvReverted toReturn) ch4)
                 in (notify E EvReorg ch5, None)))) = (ch', Some e)"
            using assms \<open>collectBranch E ch h = Inr nb\<close> Inr False rl unfolding Cons
            by (simp add: Reorg_def Let_def del: replay_loop.simps last.simps split: prod.splits option.splits revert_result.splits)
          then show ?thesis using that rp by (auto simp: Let_def split: revert_result.splits option.splits)
        qed
      qed
      then show ?thesis
      proof cases
        case 2
        then show ?thesis using ck x1 by blast
      next
        case 3
        from rebuildReorg_error [OF 3(2)] x1 show ?thesis by (intro disjI2 ck) (rule trans)
      next
        case (4 txs)
        from replay_keeps_checkpoint [OF rp] x1 4 show ?thesis by (intro disjI2 ck) simp
      qed simp
    qed
  qed
qed

end

end
