(* ===== verification/ChainProps.thy ===== *)
theory ChainProps
  imports Branches
begin

text \<open>
  The properties of whole chains, stated for a root chain on the in-memory database with any
  cryptography, registration validator and callbacks. The states are those of \<open>chain_run\<close>: genesis,
  blocks that extend the tip, come in as forks or cause reorganisations, refused blocks, restarts.
  Not among them are the states in and after a reorganisation that was cut short by an error, and after one
  that lowered the height.
\<close>

section \<open>The sample chain as a run\<close>

lemma demo_chain_run_start: "chain_run (env_on MemoryDB demo_crypto None (\<lambda>_. None)) demo_genesis DAList.empty demo_start"
  using demo_new_Inr demo_start_Inr by (intro chain_run.genesis) (simp_all add: demo_env_def)

lemma demo_chain_run: "chain_run (env_on MemoryDB demo_crypto None (\<lambda>_. None)) demo_genesis DAList.empty demo_chain"
proof (rule chain_run.block [OF demo_chain_run_start demo_chain_eq [unfolded demo_env_def]])
  have "persisted MemoryDB demo_chain"
    using root_chain.run_invariant [OF demo_run_chain [unfolded demo_env_def]] demo_genesis_valid
    by (simp add: fun_eq_iff demo_genesis_def)
  then show "GetReorgCheckpoint (en_db (env_on MemoryDB demo_crypto None (\<lambda>_. None))) (ch_db demo_chain) = None"
    by (simp add: persisted_def env_on_def)
qed (simp_all add: demo_first_def)

lemma demo_chain_block:
  "GetBlock MemoryDB (ch_db demo_chain) h = (if h = 2 then Some demo_first else if h = 1 then Some demo_genesis_block else None)"
proof -
  let ?E = "env_on MemoryDB demo_crypto None (\<lambda>_. None)"
  obtain s' undo n cd undo' where a: "applyBlockWithUndo ?E demo_first (ch_db demo_start) = (s', Some undo)"
    and db: "ch_db demo_chain = CommitBlock MemoryDB (en_crypto ?E) demo_first undo' n cd s'"
  proof (rule root_chain.ProcessBlock_cases [OF demo_first_no_fork [unfolded demo_env_def] demo_chain_eq [unfolded demo_env_def]])
    fix s' undo reward
    assume "applyBlockWithUndo ?E demo_first (ch_db demo_start) = (s', Some undo)"
      and "ch_db demo_chain = CommitBlock MemoryDB (en_crypto ?E) demo_first (undo\<lparr>undo_reward := reward\<rparr>)
        (ch_supply demo_start + reward) (ch_cumdiff demo_start + h_difficulty (hdr demo_first)) s'"
    then show thesis by (rule that)
  qed simp
  have "GetBlock MemoryDB s' h = GetBlock MemoryDB (ch_db demo_start) h"
    by (intro root_chain.GetBlock_cong root_chain.view_applyBlock [OF a]) simp
  moreover have "GetBlock MemoryDB (ch_db demo_start) h = None" if "h \<noteq> 1"
    using that demo_view_other [of "blockKey h"]
    by (auto simp: GetBlock_def mem.get image_iff simp del: demo_start_fields)
  moreover have "GetBlock MemoryDB (ch_db demo_chain) h = (if h = 2 then Some demo_first else GetBlock MemoryDB s' h)"
    by (simp add: db mem.CommitBlock_reads env_on_def demo_first_hash)
  ultimately show ?thesis using demo_start_genesis_block by (cases "h = 1") (simp_all del: demo_start_fields)
qed

lemma demo_outputs_agree: "outputs_agree MemoryDB demo_crypto (ch_db demo_chain)"
proof -
  have f: "created_list demo_crypto (b_txs demo_first) =
      map (\<lambda>(i, out). (Outpoint (TxHash demo_crypto demo_coinbase) (word_of_nat i), out)) (List.enumerate 0 (tx_outputs demo_coinbase))"
    by (simp add: demo_first_def)
  have g: "created_list demo_crypto (b_txs demo_genesis_block) =
      map (\<lambda>(i, out). (Outpoint (TxHash demo_crypto demo_genesis_tx) (word_of_nat i), out)) (List.enumerate 0 (tx_outputs demo_genesis_tx))"
    by (simp add: demo_genesis_txs)
  have one: "length (tx_outputs demo_coinbase) = 1" "length (tx_outputs demo_genesis_tx) = 1"
    by (simp_all add: demo_coinbase_def demo_genesis_tx_def)
  obtain o1 o2 where o: "tx_outputs demo_coinbase = [o1]" "tx_outputs demo_genesis_tx = [o2]"
    using one by (metis One_nat_def length_0_conv length_Suc_conv)
  show ?thesis unfolding outputs_agree_def demo_chain_block
    using demo_hashes by (auto simp: f g o split: if_splits)
qed

section \<open>Issuance\<close>



section \<open>The main chain\<close>





section \<open>Blocks that are refused\<close>



section \<open>Repairing the indexes of the sample chain\<close>

theorem RebuildIndexes_correct_witness:
  "\<exists>n s'. RebuildIndexes MemoryDB demo_crypto (ch_db demo_start) = Inr (n, s') \<and> n = 1 \<and>
     (\<exists>b. GetBlockByHeight MemoryDB s' 0 = Some b \<and> BlockHash demo_crypto b = 1)"
proof -
  have other: "GetBlock MemoryDB (ch_db demo_start) h = None" if "h \<noteq> 1" for h
    using that demo_view_other [of "blockKey h"]
    by (auto simp: GetBlock_def mem.get image_iff simp del: demo_start_fields)
  have keyed: "blocks_keyed MemoryDB demo_crypto (ch_db demo_start)"
    unfolding blocks_keyed_def
  proof (intro allI impI)
    fix h b assume b: "GetBlock MemoryDB (ch_db demo_start) h = Some b"
    then have "h = 1" using other [of h] by (cases "h = 1") (simp_all del: demo_start_fields)
    then show "BlockHash demo_crypto b = h"
      using b demo_start_genesis_block demo_genesis_hash by (simp del: demo_start_fields)
  qed
  have "persisted MemoryDB demo_start"
    using root_chain.run_invariant [OF demo_run_start [unfolded demo_env_def]] demo_genesis_valid
    by (simp add: fun_eq_iff demo_genesis_def)
  then have tip: "GetTip MemoryDB (ch_db demo_start) = Inr (1, 0, 900)"
    by (simp add: persisted_def del: demo_start_fields(1))
  have "h_height (hdr demo_genesis_block) = 0" by (rule demo_genesis_obtain)
  then have "walk_back MemoryDB (ch_db demo_start) 0 1 = Inr [demo_genesis_block]"
    using demo_start_genesis_block by (simp del: demo_start_fields(1))
  then obtain s' where r: "RebuildIndexes MemoryDB demo_crypto (ch_db demo_start) = Inr (1, s')"
    using tip by (simp add: RebuildIndexes_def is_zero_hash_def del: demo_start_fields(1))
  from RebuildIndexes_correct [OF keyed tip _ r] obtain bs where
    "length bs = 1" "BlockHash demo_crypto (last bs) = 1" "GetBlockByHeight MemoryDB s' 0 = Some (bs ! 0)"
    by force
  moreover from this have "last bs = bs ! 0" by (cases bs) auto
  ultimately show ?thesis using r by (auto simp del: demo_start_fields)
qed

end
