(* ===== verification/Registration.thy ===== *)
theory Registration
  imports Chain
begin

text \<open>
  Registration of sub-chains (\<open>internal/subchain\<close>): the registration data and its rules, the
  chain id, the registry with its persistence, the filters, and anchors.
\<close>

section \<open>Anchors\<close>

definition AnchorDataSize :: nat where "AnchorDataSize = 72"

record anchor =
  an_chain_id :: hash
  an_state_root :: hash
  an_height :: u64

definition EncodeAnchorData :: "anchor \<Rightarrow> bytes" where
  "EncodeAnchorData a = hash_bytes (an_chain_id a) @ hash_bytes (an_state_root a) @ be_bytes 8 (an_height a)"

definition DecodeAnchorData :: "bytes \<Rightarrow> anchor option" where
  "DecodeAnchorData bs =
     (if length bs \<noteq> AnchorDataSize then None
      else Some \<lparr>an_chain_id = be_word (take 32 bs), an_state_root = be_word (take 32 (drop 32 bs)),
                 an_height = be_word (take 8 (drop 64 bs))\<rparr>)"

section \<open>Registration data\<close>

text \<open>The two regular expressions.\<close>

definition alnum_upper :: "char \<Rightarrow> bool" where
  "alnum_upper c \<longleftrightarrow> (CHR ''A'' \<le> c \<and> c \<le> CHR ''Z'') \<or> (CHR ''0'' \<le> c \<and> c \<le> CHR ''9'')"

definition name_char :: "char \<Rightarrow> bool" where
  "name_char c \<longleftrightarrow> alnum_upper c \<or> (CHR ''a'' \<le> c \<and> c \<le> CHR ''z'') \<or> c = CHR '' '' \<or> c = CHR ''-''"

definition namePattern :: "string \<Rightarrow> bool" where
  "namePattern s \<longleftrightarrow> 1 \<le> length s \<and> length s \<le> 64 \<and> list_all name_char s"

definition symbolPattern :: "string \<Rightarrow> bool" where
  "symbolPattern s \<longleftrightarrow> 2 \<le> length s \<and> length s \<le> 10 \<and> list_all alnum_upper s"

datatype registration_error =
    BadName | BadSymbol | NoValidators | BadValidatorKey | PoWNotAllowed | NoInitialDifficulty
  | BadDifficultyAdjust | BadConsensusType | RegBlockTime | RegBlockReward | RegMaxSupply
  | RegMinFeeRate | RulesNil | NotRegistration | SubChainsDisabled | DepositTooLow
  | BadRegistrationJSON | RegistrationCountOverflow | MaxPerParentReached

definition check_validator_key :: "string \<Rightarrow> registration_error option" where
  "check_validator_key v =
     (case hex_decode v of
        None \<Rightarrow> Some BadValidatorKey
      | Some b \<Rightarrow> if length b \<noteq> 33 then Some BadValidatorKey else None)"

definition check_consensus :: "registration_data \<Rightarrow> subchain_rules \<Rightarrow> registration_error option" where
  "check_consensus d rules =
     (case rd_consensus d of
        ConsensusPoA \<Rightarrow>
          if rd_validators d = [] then Some NoValidators
          else first_error check_validator_key (rd_validators d)
      | ConsensusPoW \<Rightarrow>
          if \<not> sr_allow_pow rules then Some PoWNotAllowed
          else if rd_initial_difficulty d = 0 then Some NoInitialDifficulty
          else if rd_difficulty_adjust d < 0 then Some BadDifficultyAdjust
          else if rd_difficulty_adjust d > 0 \<and> rd_difficulty_adjust d < 10 then Some BadDifficultyAdjust
          else None
      | UnknownConsensus _ \<Rightarrow> Some BadConsensusType)"

definition ValidateRegistrationData :: "registration_data \<Rightarrow> subchain_rules \<Rightarrow> registration_error option" where
  "ValidateRegistrationData d rules =
     (if \<not> namePattern (rd_name d) then Some BadName
      else if \<not> symbolPattern (rd_symbol d) then Some BadSymbol
      else and_then (check_consensus d rules)
       (if rd_block_time d < 1 then Some RegBlockTime
        else if rd_block_reward d = 0 then Some RegBlockReward
        else if rd_max_supply d = 0 then Some RegMaxSupply
        else if rd_max_supply d < rd_block_reward d then Some RegMaxSupply
        else if rd_min_fee_rate d = 0 then Some RegMinFeeRate
        else None))"

definition DeriveChainID :: "crypto \<Rightarrow> hash \<Rightarrow> u32 \<Rightarrow> hash" where
  "DeriveChainID C txHash outputIndex = Hash C (hash_bytes txHash @ be_bytes 4 outputIndex)"

text \<open>
  \<open>ParseRegistrationData\<close> is \<open>json.Unmarshal\<close> on the script data, a parameter of the model:
  \<open>None\<close> is an error. A registration output is checked against the rules of the parent
  (\<open>None\<close> is nil), the registrations that exist and those earlier in the same block.
\<close>

definition ValidateRegistrationTx ::
  "(bytes \<Rightarrow> registration_data option) \<Rightarrow> txout \<Rightarrow> subchain_rules option \<Rightarrow> u64 \<Rightarrow> u64 \<Rightarrow>
   registration_error option" where
  "ValidateRegistrationTx unmarshal out rulesp existing pending =
     (case rulesp of
        None \<Rightarrow> Some RulesNil
      | Some rules \<Rightarrow>
          if sc_type (out_script out) \<noteq> ScriptTypeRegister then Some NotRegistration
          else if \<not> sr_enabled rules then Some SubChainsDisabled
          else if out_value out < sr_min_deposit rules then Some DepositTooLow
          else case unmarshal (sc_data (out_script out)) of
                 None \<Rightarrow> Some BadRegistrationJSON
               | Some rd \<Rightarrow>
                   and_then (ValidateRegistrationData rd rules)
                    (if sr_max_per_parent rules > 0 then
                       (if existing > max_u64 - pending then Some RegistrationCountOverflow
                        else if existing + pending \<ge> word_of_int (sr_max_per_parent rules) then Some MaxPerParentReached
                        else None)
                     else None))"

definition NewRegistrationValidator ::
  "(bytes \<Rightarrow> registration_data option) \<Rightarrow> subchain_rules option \<Rightarrow> txout \<Rightarrow> u64 \<Rightarrow> u64 \<Rightarrow> bool" where
  "NewRegistrationValidator unmarshal rules out existing pending \<longleftrightarrow>
     ValidateRegistrationTx unmarshal out rules existing pending = None"

section \<open>The registry\<close>

type_synonym registry = "(hash, sub_chain) alist"

datatype registry_error = AlreadyRegistered | RegistryUnmarshal

definition Register :: "sub_chain \<Rightarrow> registry \<Rightarrow> registry_error + registry" where
  "Register sc r =
     (if DAList.lookup r (su_id sc) \<noteq> None then Inl AlreadyRegistered
      else Inr (DAList.update (su_id sc) sc r))"

definition Registry_Get :: "registry \<Rightarrow> hash \<Rightarrow> sub_chain option" where
  "Registry_Get r i = DAList.lookup r i"

definition Unregister :: "hash \<Rightarrow> registry \<Rightarrow> registry" where
  "Unregister i r = DAList.delete i r"

definition Registry_Has :: "registry \<Rightarrow> hash \<Rightarrow> bool" where
  "Registry_Has r i \<longleftrightarrow> DAList.lookup r i \<noteq> None"

definition Registry_List :: "registry \<Rightarrow> sub_chain list" where
  "Registry_List r = map snd (DAList.impl_of r)"

definition Registry_Count :: "registry \<Rightarrow> nat" where
  "Registry_Count r = length (DAList.impl_of r)"

definition ValidateAnchor :: "anchor \<Rightarrow> registry \<Rightarrow> bool" where
  "ValidateAnchor a r \<longleftrightarrow> Registry_Has r (an_chain_id a)"

definition prefixRegistry :: bytes where "prefixRegistry = [114, 47]" \<comment> \<open>\<open>r/\<close>\<close>

definition registryKey :: "hash \<Rightarrow> bytes" where
  "registryKey i = prefixRegistry @ hash_bytes i"

definition SaveTo :: "('s, dbval) kvdb \<Rightarrow> registry \<Rightarrow> 's \<Rightarrow> 's" where
  "SaveTo D r s = fold (\<lambda>sc. kv_put D (registryKey (su_id sc)) (DSubChain sc)) (Registry_List r) s"

definition DeleteFrom :: "('s, dbval) kvdb \<Rightarrow> hash \<Rightarrow> 's \<Rightarrow> 's" where
  "DeleteFrom D i = kv_delete D (registryKey i)"

definition LoadRegistry :: "('s, dbval) kvdb \<Rightarrow> 's \<Rightarrow> registry_error + registry" where
  "LoadRegistry D s =
     foldE (\<lambda>r (k, v). case v of DSubChain sc \<Rightarrow> Inr (DAList.update (su_id sc) sc r) | _ \<Rightarrow> Inl RegistryUnmarshal)
       DAList.empty (kv_items D s prefixRegistry)"

section \<open>Filters\<close>

datatype sync_mode = SyncNone | SyncList | SyncOther string

record sync_filter =
  sf_mode :: sync_mode
  sf_ids :: "hash list"

text \<open>Ids that are no 32 bytes of hex are skipped.\<close>

definition parse_ids :: "string list \<Rightarrow> hash list" where
  "parse_ids hs = concat (map (\<lambda>h. case hex_decode h of
      None \<Rightarrow> [] | Some b \<Rightarrow> if length b \<noteq> 32 then [] else [be_word b]) hs)"

definition NewSyncFilter :: "sync_mode \<Rightarrow> string list \<Rightarrow> sync_filter" where
  "NewSyncFilter mode hexIDs =
     \<lparr>sf_mode = mode, sf_ids = (if mode = SyncList then parse_ids hexIDs else [])\<rparr>"

definition ShouldSync :: "sync_filter option \<Rightarrow> hash \<Rightarrow> bool" where
  "ShouldSync f i =
     (case f of
        None \<Rightarrow> True
      | Some sf \<Rightarrow>
         (case sf_mode sf of SyncNone \<Rightarrow> False | SyncList \<Rightarrow> i \<in> set (sf_ids sf) | SyncOther _ \<Rightarrow> True))"

definition NewMineFilter :: "string list \<Rightarrow> hash list" where
  "NewMineFilter hexIDs = parse_ids hexIDs"

definition ShouldMine :: "hash list option \<Rightarrow> hash \<Rightarrow> bool" where
  "ShouldMine f i = (case f of None \<Rightarrow> False | Some ids \<Rightarrow> if ids = [] then False else i \<in> set ids)"

section \<open>Round trips\<close>

text \<open>
  Anchors round-trip: decoding the encoding of an anchor gives the anchor back, and only
  the 72-byte encodings decode.
\<close>

theorem anchor_roundtrip:
  "DecodeAnchorData (EncodeAnchorData a) = Some a \<and>
   (DecodeAnchorData bs = Some a \<longleftrightarrow> bs = EncodeAnchorData a)"
proof -
  have dec: "DecodeAnchorData (EncodeAnchorData a) = Some a"
    by (simp add: DecodeAnchorData_def EncodeAnchorData_def AnchorDataSize_def enc_length be_word_be_bytes)
  moreover have "bs = EncodeAnchorData a" if d: "DecodeAnchorData bs = Some a"
  proof -
    from d have l: "length bs = 72" and a: "a = \<lparr>an_chain_id = be_word (take 32 bs),
        an_state_root = be_word (take 32 (drop 32 bs)), an_height = be_word (take 8 (drop 64 bs))\<rparr>"
      by (auto simp: DecodeAnchorData_def AnchorDataSize_def split: if_splits)
    have "EncodeAnchorData a = take 32 bs @ take 32 (drop 32 bs) @ take 8 (drop 64 bs)"
      using l by (simp add: a EncodeAnchorData_def be_bytes_be_word)
    also have "\<dots> = take 32 bs @ take 32 (drop 32 bs) @ drop 32 (drop 32 bs)" using l by simp
    also have "\<dots> = bs" by (simp only: append_take_drop_id)
    finally show ?thesis by simp
  qed
  ultimately show ?thesis by blast
qed

text \<open>The registry is keyed by the ids of its entries.\<close>

definition registry_ok :: "registry \<Rightarrow> bool" where
  "registry_ok r \<longleftrightarrow> (\<forall>i sc. DAList.lookup r i = Some sc \<longrightarrow> su_id sc = i)"

lemma registryKey_inject [simp]: "registryKey i = registryKey j \<longleftrightarrow> i = j"
  by (simp add: registryKey_def)

lemma Registry_List_lookup: "sc \<in> set (Registry_List r) \<longleftrightarrow> (\<exists>i. DAList.lookup r i = Some sc)"
  by (force simp: Registry_List_def impl_of_lookup [symmetric])

lemma registry_ok_empty [simp]: "registry_ok DAList.empty"
  by (simp add: registry_ok_def)

lemma registry_ok_update [simp]: "registry_ok r \<Longrightarrow> registry_ok (DAList.update (su_id sc) sc r)"
  by (simp add: registry_ok_def lookup_update_fun)

lemma registry_ok_delete [simp]: "registry_ok r \<Longrightarrow> registry_ok (DAList.delete i r)"
  by (simp add: registry_ok_def DAList.lookup_delete)

text \<open>The entries in a database are those of the registry.\<close>

definition registry_stored :: "registry \<Rightarrow> (bytes \<rightharpoonup> dbval) \<Rightarrow> bool" where
  "registry_stored r m \<longleftrightarrow>
     (\<forall>k v. prefix prefixRegistry k \<and> m k = Some v \<longrightarrow>
        (\<exists>i sc. k = registryKey i \<and> v = DSubChain sc \<and> DAList.lookup r i = Some sc)) \<and>
     (\<forall>i sc. DAList.lookup r i = Some sc \<longrightarrow> m (registryKey i) = Some (DSubChain sc))"

context doc_store
begin

lemma view_SaveTo:
  assumes "registry_ok r"
  shows "view (SaveTo D r s) k =
    (if \<exists>i sc. DAList.lookup r i = Some sc \<and> k = registryKey i
     then Some (DSubChain (the (DAList.lookup r (THE i. k = registryKey i)))) else view s k)"
proof -
  have *: "view (fold (\<lambda>sc. kv_put D (registryKey (su_id sc)) (DSubChain sc)) scs s) k =
      (if \<exists>sc \<in> set scs. k = registryKey (su_id sc)
       then Some (DSubChain (the (DAList.lookup r (THE i. k = registryKey i)))) else view s k)"
    if "set scs \<subseteq> set (Registry_List r)" for scs
    using that
  proof (induction scs arbitrary: s)
    case Nil
    then show ?case by simp
  next
    case (Cons sc scs)
    have "DAList.lookup r (su_id sc) = Some sc"
      using Cons.prems assms by (auto simp: Registry_List_lookup registry_ok_def)
    then show ?case using Cons by (auto simp: put)
  qed
  have "(\<exists>sc \<in> set (Registry_List r). k = registryKey (su_id sc)) \<longleftrightarrow>
      (\<exists>i sc. DAList.lookup r i = Some sc \<and> k = registryKey i)"
    using assms unfolding Bex_def Registry_List_lookup registry_ok_def by metis
  then show ?thesis using * [OF order_refl] by (simp add: SaveTo_def)
qed

lemma get_SaveTo:
  assumes "registry_ok r"
  shows "view (SaveTo D r s) (registryKey i) =
    (case DAList.lookup r i of Some sc \<Rightarrow> Some (DSubChain sc) | None \<Rightarrow> view s (registryKey i))"
  by (auto simp: view_SaveTo [OF assms] split: option.splits)

lemma SaveTo_other: "registry_ok r \<Longrightarrow> k \<notin> range registryKey \<Longrightarrow> view (SaveTo D r s) k = view s k"
  by (auto simp: view_SaveTo)

lemma LoadRegistry_stored:
  assumes "registry_ok r" and "registry_stored r (view s)"
  shows "\<exists>r'. LoadRegistry D s = Inr r' \<and> DAList.lookup r' = DAList.lookup r"
proof -
  let ?f = "\<lambda>r (k :: bytes, v). case v of DSubChain sc \<Rightarrow> Inr (DAList.update (su_id sc) sc r) | _ \<Rightarrow> Inl RegistryUnmarshal"
  have *: "\<exists>r'. foldE ?f r0 kvs = Inr r' \<and>
      (\<forall>i. DAList.lookup r' i = (if registryKey i \<in> fst ` set kvs then DAList.lookup r i else DAList.lookup r0 i))"
    if "set kvs \<subseteq> set (kv_items D s prefixRegistry)" for kvs r0
    using that
  proof (induction kvs arbitrary: r0)
    case Nil
    then show ?case by simp
  next
    case (Cons kv kvs)
    obtain k v where kv: "kv = (k, v)" by (cases kv)
    then have "prefix prefixRegistry k \<and> view s k = Some v" using Cons.prems by (simp add: items)
    with assms(2) obtain i sc where e: "k = registryKey i" "v = DSubChain sc" "DAList.lookup r i = Some sc"
      unfolding registry_stored_def by blast
    then have "su_id sc = i" using assms(1) by (simp add: registry_ok_def)
    then show ?case using Cons kv e by (force simp: lookup_update_fun)
  qed
  then obtain r' where r': "LoadRegistry D s = Inr r'"
    "DAList.lookup r' i = (if registryKey i \<in> fst ` set (kv_items D s prefixRegistry) then DAList.lookup r i else None)" for i
    using * [OF order_refl, of DAList.empty] unfolding LoadRegistry_def DAList.lookup_empty by blast
  have "DAList.lookup r' i = DAList.lookup r i" for i
  proof (cases "DAList.lookup r i")
    case (Some sc)
    then have "view s (registryKey i) = Some (DSubChain sc)" using assms(2) by (simp add: registry_stored_def)
    then have "(registryKey i, DSubChain sc) \<in> set (kv_items D s prefixRegistry)" by (simp add: items registryKey_def)
    then have "registryKey i \<in> fst ` set (kv_items D s prefixRegistry)" by force
    then show ?thesis using r'(2) by simp
  qed (simp add: r'(2))
  then show ?thesis using r'(1) by blast
qed

lemma SaveTo_stored:
  assumes ok: "registry_ok r" and sub: "\<And>k v. prefix prefixRegistry k \<Longrightarrow> view s k = Some v \<Longrightarrow>
    \<exists>i. k = registryKey i \<and> DAList.lookup r i \<noteq> None"
  shows "registry_stored r (view (SaveTo D r s))"
proof -
  have "\<exists>i sc. k = registryKey i \<and> v = DSubChain sc \<and> DAList.lookup r i = Some sc"
    if k: "prefix prefixRegistry k" and v: "view (SaveTo D r s) k = Some v" for k v
  proof (cases "\<exists>i sc. DAList.lookup r i = Some sc \<and> k = registryKey i")
    case True
    then show ?thesis using v by (auto simp: view_SaveTo [OF ok])
  next
    case False
    then have "view s k = Some v" using v unfolding view_SaveTo [OF ok] by (simp only: if_False)
    then show ?thesis using sub [OF k] False by (metis option.collapse)
  qed
  then show ?thesis by (auto simp: registry_stored_def get_SaveTo [OF ok])
qed

end

end
