(* ===== verification/FeeRate.thy ===== *)
theory FeeRate
  imports Prelude
begin

text \<open>
  The fee rate of the mempool (\<open>internal/mempool/pool.go\<close>): a quotient of two integers in
  Go's \<open>float64\<close>. A nonnegative double between \<open>2 ^ -63\<close> and \<open>2 ^ 64\<close> is a multiple of
  \<open>2 ^ -120\<close>; the model represents it by that multiple and writes the rounding of IEEE 754
  (53 significant bits, to nearest, ties to even) out.
\<close>

section \<open>Rounding\<close>

text \<open>The quotient of two integers, rounded to the nearest integer, ties to even.\<close>

definition round_even :: "nat \<Rightarrow> nat \<Rightarrow> nat" where
  "round_even n d =
     (let q = n div d; r = n mod d
      in if 2 * r < d \<or> (2 * r = d \<and> even q) then q else q + 1)"

text \<open>The quotient rounded to 53 significant bits; quotients below \<open>2 ^ 53\<close> to an integer.\<close>

function round53 :: "nat \<Rightarrow> nat \<Rightarrow> nat" where
  "round53 n d = (if d = 0 \<or> n < 2 ^ 53 * d then round_even n d else 2 * round53 n (2 * d))"
  by pat_completeness auto
termination by (relation "measure (\<lambda>(n, d). n - d)") auto

declare round53.simps [simp del]

definition float_scale :: nat where "float_scale = 2 ^ 120"

definition MaxFloat64 :: nat where "MaxFloat64 = (2 ^ 53 - 1) * 2 ^ 971 * float_scale"

text \<open>\<open>float64(fee) / float64(size)\<close>, for a nonzero size.\<close>

definition float_quotient :: "nat \<Rightarrow> nat \<Rightarrow> nat" where
  "float_quotient fee sz = round53 (float_scale * round53 fee 1) (round53 sz 1)"

section \<open>Rounding is monotone\<close>

lemma round_even_mono:
  assumes "0 < d" "0 < e" and le: "n * e \<le> m * d"
  shows "round_even n d \<le> round_even m e"
proof -
  have q: "n div d \<le> m div e"
    using div_le_mono [OF le, of "d * e"] assms(1,2) by (simp add: mult.commute [of d e])
  show ?thesis
  proof (cases "n div d = m div e")
    case False
    then have "n div d + 1 \<le> m div e" using q by simp
    moreover have "round_even n d \<le> n div d + 1" "m div e \<le> round_even m e" by (simp_all add: round_even_def Let_def)
    ultimately show ?thesis by simp
  next
    case True
    define q r s where "q = n div d" and "r = n mod d" and "s = m mod e"
    have "n = d * q + r" unfolding q_def r_def by simp
    moreover have "m = e * q + s" unfolding q_def s_def True by simp
    ultimately have rs: "r * e \<le> s * d" using le by (simp add: algebra_simps)
    have up: "2 * r * e \<le> d * e" if "2 * s \<le> e" 
    proof -
      have "2 * (r * e) \<le> 2 * (s * d)" using rs by simp
      also have "\<dots> \<le> e * d" using mult_right_mono [OF that, of d] by (simp add: mult.assoc)
      finally show ?thesis by (simp add: mult.assoc mult.commute)
    qed
    have "2 * r < d \<or> 2 * r = d \<and> even q" if "2 * s < e \<or> 2 * s = e \<and> even q"
      using that
    proof
      assume "2 * s < e"
      then have "2 * (s * d) < e * d" using assms(1) by simp
      moreover have "2 * (r * e) \<le> 2 * (s * d)" using rs by simp
      ultimately have "(2 * r) * e < d * e" by (simp only: mult.assoc mult.commute [of e d])
      then show ?thesis by simp
    next
      assume "2 * s = e \<and> even q"
      then show ?thesis using up assms(2) by auto
    qed
    then show ?thesis using True by (auto simp: round_even_def Let_def q_def r_def s_def)
  qed
qed

lemma round_even_exact: "0 < d \<Longrightarrow> round_even (k * d) d = k"
  by (simp add: round_even_def)

lemma round53_exact: "k < 2 ^ 53 \<Longrightarrow> round53 k 1 = k"
  using round_even_exact [of 1 k] by (simp add: round53.simps [of k "Suc 0"])

lemma round53_large:
  assumes "0 < d"
  shows "2 ^ 53 * d \<le> n \<Longrightarrow> 2 ^ 53 \<le> round53 n d"
  using assms
proof (induction n d rule: round53.induct)
  case (1 n d)
  show ?case
  proof (cases "n < 2 ^ 53 * (2 * d)")
    case True
    have "round_even (2 ^ 52 * (2 * d)) (2 * d) \<le> round_even n (2 * d)"
      using 1 by (intro round_even_mono) (simp_all add: algebra_simps)
    then have "2 ^ 52 \<le> round_even n (2 * d)" using round_even_exact [of "2 * d" "2 ^ 52"] 1 by simp
    then show ?thesis using 1 True by (simp add: round53.simps [of n d] round53.simps [of n "2 * d"])
  next
    case False
    then show ?thesis using 1 by (simp add: round53.simps [of n d])
  qed
qed

lemma round53_small:
  assumes "0 < d" and "n < 2 ^ 53 * d"
  shows "round53 n d \<le> 2 ^ 53"
proof -
  have "round_even n d \<le> round_even (2 ^ 53 * d) d" using assms by (intro round_even_mono) simp_all
  then show ?thesis using assms round_even_exact [of d "2 ^ 53"] by (simp add: round53.simps [of n d])
qed

lemma round53_mono:
  assumes "0 < d" "0 < e" and "n * e \<le> m * d"
  shows "round53 n d \<le> round53 m e"
  using assms
proof (induction m e arbitrary: n d rule: round53.induct)
  case (1 m e)
  show ?case
  proof (cases "n < 2 ^ 53 * d")
    case small: True
    show ?thesis
    proof (cases "m < 2 ^ 53 * e")
      case True
      then show ?thesis using 1 small round_even_mono [of d e n m]
        by (simp add: round53.simps [of n d] round53.simps [of m e])
    next
      case False
      then show ?thesis using round53_small [OF _ small] round53_large [of e m] 1 by simp
    qed
  next
    case False
    have "2 ^ 53 * d * e \<le> m * d" using False 1 by (metis le_trans mult_le_mono1 not_less)
    then have "2 ^ 53 * e \<le> m" using 1 by (simp add: mult.commute mult.left_commute)
    then have m: "\<not> (e = 0 \<or> m < 2 ^ 53 * e)" using 1 by simp
    have "round53 n (2 * d) \<le> round53 m (2 * e)" using 1 by (intro "1.IH" [OF m]) simp_all
    then show ?thesis using False m 1 by (simp add: round53.simps [of n d] round53.simps [of m e])
  qed
qed

text \<open>
  So the rate orders transactions by their exact rate: a transaction that pays less per byte
  never has the higher rate.
\<close>

lemma round53_pos: "0 < n \<Longrightarrow> 0 < round53 n 1"
  using round53_mono [of 1 1 1 n] round53_exact [of 1] by simp

lemma float_quotient_mono:
  assumes "0 < m" "0 < n" and "round53 a 1 * round53 n 1 \<le> round53 b 1 * round53 m 1"
  shows "float_quotient a m \<le> float_quotient b n"
  unfolding float_quotient_def
proof (rule round53_mono)
  show "0 < round53 m 1" "0 < round53 n 1" using assms(1,2) round53_pos by auto
  show "float_scale * round53 a 1 * round53 n 1 \<le> float_scale * round53 b 1 * round53 m 1"
    using mult_left_mono [OF assms(3), of float_scale] by (simp add: mult.assoc)
qed

lemma float_quotient_exact_mono:
  assumes "0 < m" "0 < n" "a < 2 ^ 53" "b < 2 ^ 53" "m < 2 ^ 53" "n < 2 ^ 53" and "a * n \<le> b * m"
  shows "float_quotient a m \<le> float_quotient b n"
  using assms round53_exact by (intro float_quotient_mono) simp_all

lemma float_quotient_fee_mono:
  assumes "0 < m" and "a \<le> b"
  shows "float_quotient a m \<le> float_quotient b m"
  using assms round53_mono [of 1 1 a b] by (intro float_quotient_mono) simp_all

lemma round53_power: "0 < d \<Longrightarrow> round53 (2 ^ (52 + j) * d) d = 2 ^ (52 + j)"
proof (induction j arbitrary: d)
  case 0
  then show ?case using round_even_exact [of d "2 ^ 52"] by (simp add: round53.simps [of _ d])
next
  case (Suc j)
  then have "round53 (2 ^ (52 + j) * (2 * d)) (2 * d) = 2 ^ (52 + j)" by simp
  moreover have "\<not> 2 ^ (52 + Suc j) * d < 2 ^ 53 * d" using Suc.prems by (simp add: power_add)
  moreover have "2 ^ (52 + j) * (2 * d) = 2 ^ (52 + Suc j) * d" by (simp add: power_add)
  ultimately show ?case using Suc.prems by (subst round53.simps) simp
qed

lemma float_quotient_bound:
  assumes "a < 2 ^ 64" and "0 < m"
  shows "float_quotient a m < MaxFloat64"
proof -
  have p: "round53 (2 ^ 64) 1 = 2 ^ 64" using round53_power [of 1 12] by simp
  have "round53 a 1 \<le> round53 (2 ^ 64) 1" using assms by (intro round53_mono) simp_all
  then have "round53 a 1 * 1 \<le> round53 (2 ^ 64) 1 * round53 m 1"
    using round53_pos [OF assms(2)] by (intro mult_le_mono) simp_all
  then have "round53 a 1 * round53 1 1 \<le> round53 (2 ^ 64) 1 * round53 m 1"
    using round53_exact [of 1] by (simp only: one_less_power)
  then have "float_quotient a m \<le> float_quotient (2 ^ 64) 1"
    using assms by (intro float_quotient_mono) simp_all
  also have "\<dots> = round53 (2 ^ 184) 1"
    unfolding float_quotient_def p using round53_exact [of 1] by (simp add: float_scale_def)
  also have "\<dots> = 2 ^ 184" using round53_power [of 1 132] by simp
  also have "\<dots> < MaxFloat64" by (simp add: MaxFloat64_def float_scale_def)
  finally show ?thesis .
qed

end
