(* ===== verification/Mempool.thy ===== *)
theory Mempool
  imports FeeRate Token
begin

text \<open>
  The mempool (\<open>internal/mempool\<close>): pending transactions with their fees, the index of the
  outpoints they spend, admission, eviction, selection for a block, and the policy check.
\<close>

section \<open>State\<close>

text \<open>The fee rate is the double of \<^theory_text>\<open>FeeRate\<close>, as a multiple of \<open>2 ^ -120\<close>.\<close>

record mempool_entry =
  me_tx :: transaction
  me_hash :: hash
  me_fee :: u64
  me_rate :: nat

text \<open>
  The pool's own fields. Whether the optional collaborators (\<open>utxoSet\<close> with \<open>heightFn\<close>, and
  \<open>tokenInputs\<close>) are set is a field; what they answer at the time of a call is in the view.
\<close>

record pool =
  po_txs :: "(hash, mempool_entry) alist"
  po_spends :: "(outpoint, hash) alist"
  po_max_size :: int
  po_min_fee_rate :: u64
  po_has_utxo_set :: bool
  po_maturity :: u64
  po_has_tokens :: bool
  po_allow_minting :: bool
  po_mint_fee :: u64
  po_stake_amount :: u64

record pool_view =
  pv_provider :: utxo_provider
  pv_get :: "outpoint \<Rightarrow> utxo option"
  pv_height :: u64
  pv_tokens :: "outpoint \<Rightarrow> token_data option"

text \<open>
  Go iterates over a map in an unspecified order: a parameter \<open>order\<close> that permutes the list of
  bindings. \<open>sort.Slice\<close> is not stable; a stable sort of an arbitrary permutation has the same
  possible results.
\<close>

type_synonym iteration = "(hash \<times> mempool_entry) list \<Rightarrow> (hash \<times> mempool_entry) list"

definition bindings :: "iteration \<Rightarrow> pool \<Rightarrow> (hash \<times> mempool_entry) list" where
  "bindings order p = order (DAList.impl_of (po_txs p))"

definition Pool_New :: "int \<Rightarrow> pool" where
  "Pool_New maxSize =
     \<lparr>po_txs = DAList.empty, po_spends = DAList.empty,
      po_max_size = (if maxSize \<le> 0 then 5000 else maxSize), po_min_fee_rate = 0,
      po_has_utxo_set = False, po_maturity = 0, po_has_tokens = False, po_allow_minting = True,
      po_mint_fee = 0, po_stake_amount = 0\<rparr>"

definition SetMinFeeRate :: "u64 \<Rightarrow> pool \<Rightarrow> pool" where
  "SetMinFeeRate r p = p\<lparr>po_min_fee_rate := r\<rparr>"

definition MinFeeRate :: "pool \<Rightarrow> u64" where "MinFeeRate p = po_min_fee_rate p"

definition SetTokenValidator :: "bool \<Rightarrow> pool \<Rightarrow> pool" where
  "SetTokenValidator present p = p\<lparr>po_has_tokens := present\<rparr>"

definition SetMintFee :: "u64 \<Rightarrow> pool \<Rightarrow> pool" where
  "SetMintFee fee p = p\<lparr>po_mint_fee := fee\<rparr>"

definition SetMintingAllowed :: "bool \<Rightarrow> pool \<Rightarrow> pool" where
  "SetMintingAllowed b p = p\<lparr>po_allow_minting := b\<rparr>"

definition SetStakeAmount :: "u64 \<Rightarrow> pool \<Rightarrow> pool" where
  "SetStakeAmount a p = p\<lparr>po_stake_amount := a\<rparr>"

definition SetCoinbaseMaturity :: "u64 \<Rightarrow> bool \<Rightarrow> pool \<Rightarrow> pool" where
  "SetCoinbaseMaturity m present p = p\<lparr>po_maturity := m, po_has_utxo_set := present\<rparr>"

section \<open>Removal\<close>

definition live_prevouts :: "transaction \<Rightarrow> outpoint list" where
  "live_prevouts t = filter (\<lambda>x. x \<noteq> zero_outpoint) (map in_prevout (tx_inputs t))"

definition removeLocked :: "hash \<Rightarrow> pool \<Rightarrow> pool" where
  "removeLocked h p =
     (case DAList.lookup (po_txs p) h of
        None \<Rightarrow> p
      | Some e \<Rightarrow> p\<lparr>po_spends := fold DAList.delete (live_prevouts (me_tx e)) (po_spends p),
                   po_txs := DAList.delete h (po_txs p)\<rparr>)"

definition Pool_Remove :: "hash \<Rightarrow> pool \<Rightarrow> pool" where "Pool_Remove = removeLocked"

definition RemoveConfirmed :: "crypto \<Rightarrow> transaction list \<Rightarrow> pool \<Rightarrow> pool" where
  "RemoveConfirmed C ts p = fold (\<lambda>t. removeLocked (TxHash C t)) ts p"

section \<open>Queries\<close>

definition Pool_Has :: "pool \<Rightarrow> hash \<Rightarrow> bool" where
  "Pool_Has p h \<longleftrightarrow> DAList.lookup (po_txs p) h \<noteq> None"

definition Pool_Get :: "pool \<Rightarrow> hash \<Rightarrow> transaction option" where
  "Pool_Get p h = map_option me_tx (DAList.lookup (po_txs p) h)"

definition GetFee :: "pool \<Rightarrow> hash \<Rightarrow> u64" where
  "GetFee p h = (case DAList.lookup (po_txs p) h of None \<Rightarrow> 0 | Some e \<Rightarrow> me_fee e)"

definition Pool_Count :: "pool \<Rightarrow> nat" where
  "Pool_Count p = length (DAList.impl_of (po_txs p))"

definition Hashes :: "iteration \<Rightarrow> pool \<Rightarrow> hash list" where
  "Hashes order p = map fst (bindings order p)"

definition findLowestFeeRate :: "iteration \<Rightarrow> pool \<Rightarrow> hash \<times> nat" where
  "findLowestFeeRate order p =
     fold (\<lambda>(h, e) (lh, lr). if me_rate e < lr then (h, me_rate e) else (lh, lr))
       (bindings order p) (0, MaxFloat64)"

text \<open>Highest rate first.\<close>

definition SelectForBlock :: "iteration \<Rightarrow> nat \<Rightarrow> pool \<Rightarrow> transaction list" where
  "SelectForBlock order limit p =
     take limit (map me_tx (sort_key (\<lambda>e. - int (me_rate e)) (map snd (bindings order p))))"

section \<open>Admission\<close>

datatype pool_error =
    ErrAlreadyExists | ErrConflict outpoint hash | ErrCoinbaseNotMature | OutputLocked
  | ErrValidation tx_error | ErrMintingDisabled | ErrTokens token_error | ErrMintFee
  | ErrStakeAmount | ErrFeeTooLow | ErrPoolFull

definition check_conflict :: "pool \<Rightarrow> input \<Rightarrow> pool_error option" where
  "check_conflict p i =
     (if is_coinbase_input i then None
      else map_option (ErrConflict (in_prevout i)) (DAList.lookup (po_spends p) (in_prevout i)))"

definition check_mature :: "pool \<Rightarrow> pool_view \<Rightarrow> input \<Rightarrow> pool_error option" where
  "check_mature p V i =
     (if is_coinbase_input i then None
      else case pv_get V (in_prevout i) of
             None \<Rightarrow> None
           | Some u \<Rightarrow>
               if u_coinbase u \<and> pv_height V - u_height u < po_maturity p then Some ErrCoinbaseNotMature
               else if u_locked_until u > 0 \<and> pv_height V < u_locked_until u then Some OutputLocked
               else None)"

definition check_stake_out :: "pool \<Rightarrow> txout \<Rightarrow> pool_error option" where
  "check_stake_out p out =
     (if sc_type (out_script out) = ScriptTypeStake \<and> out_value out \<noteq> po_stake_amount p
      then Some ErrStakeAmount else None)"

definition fee_rate :: "u64 \<Rightarrow> nat \<Rightarrow> nat" where
  "fee_rate fee sz = (if sz > 0 then float_quotient (unat fee) sz else 0)"

text \<open>All checks of \<open>Add\<close> before the capacity check; the result is the fee.\<close>

definition admit :: "crypto \<Rightarrow> pool_view \<Rightarrow> transaction \<Rightarrow> pool \<Rightarrow> pool_error + u64" where
  "admit C V t p =
     (if DAList.lookup (po_txs p) (TxHash C t) \<noteq> None then Inl ErrAlreadyExists
      else check (first_error (check_conflict p) (tx_inputs t))
       (check (if po_maturity p > 0 \<and> po_has_utxo_set p then first_error (check_mature p V) (tx_inputs t) else None)
         (case ValidateWithUTXOs C (pv_provider V) t of
            Inl e \<Rightarrow> Inl (ErrValidation e)
          | Inr fee \<Rightarrow>
              if HasMintOutput t \<and> \<not> po_allow_minting p then Inl ErrMintingDisabled
              else check (if po_has_tokens p then map_option ErrTokens (ValidateTokens C t (pv_tokens V)) else None)
               (if po_mint_fee p > 0 \<and> fee < po_mint_fee p \<and> HasMintOutput t then Inl ErrMintFee
                else check (if po_stake_amount p > 0 then first_error (check_stake_out p) (tx_outputs t) else None)
                 (if po_min_fee_rate p > 0 \<and> fee < po_min_fee_rate p * word_of_nat (length (SigningBytes t))
                  then Inl ErrFeeTooLow else Inr fee)))))"

definition insert_entry :: "mempool_entry \<Rightarrow> pool \<Rightarrow> pool" where
  "insert_entry e p =
     p\<lparr>po_txs := DAList.update (me_hash e) e (po_txs p),
       po_spends := fold (\<lambda>x. DAList.update x (me_hash e)) (live_prevouts (me_tx e)) (po_spends p)\<rparr>"

definition Pool_Add ::
  "crypto \<Rightarrow> iteration \<Rightarrow> pool_view \<Rightarrow> transaction \<Rightarrow> pool \<Rightarrow> pool \<times> (pool_error + u64)" where
  "Pool_Add C order V t p =
     (case admit C V t p of
        Inl err \<Rightarrow> (p, Inl err)
      | Inr fee \<Rightarrow>
          (let rate = fee_rate fee (length (SigningBytes t));
               e = \<lparr>me_tx = t, me_hash = TxHash C t, me_fee = fee, me_rate = rate\<rparr>
           in if int (Pool_Count p) \<ge> po_max_size p
              then let (lowestHash, lowestRate) = findLowestFeeRate order p
                   in if rate \<le> lowestRate then (p, Inl ErrPoolFull)
                      else (insert_entry e (removeLocked lowestHash p), Inr fee)
              else (insert_entry e p, Inr fee)))"

section \<open>Eviction\<close>

text \<open>The loop over the entries in ascending order of rate.\<close>

fun evict_loop :: "mempool_entry list \<Rightarrow> nat \<Rightarrow> pool \<Rightarrow> pool \<times> nat" where
  "evict_loop [] evicted p = (p, evicted)"
| "evict_loop (e # es) evicted p =
     (if int (Pool_Count p) > po_max_size p then evict_loop es (evicted + 1) (removeLocked (me_hash e) p)
      else (p, evicted))"

definition Evict :: "iteration \<Rightarrow> pool \<Rightarrow> pool \<times> nat" where
  "Evict order p =
     (if int (Pool_Count p) \<le> po_max_size p then (p, 0)
      else evict_loop (sort_key me_rate (map snd (bindings order p))) 0 p)"

section \<open>Policy\<close>

datatype policy_error = TxTooLarge | TooManyInputs | TooManyOutputs | ScriptDataTooLarge

definition DefaultMaxTxSize :: int where "DefaultMaxTxSize = 100000"

definition Policy_Check :: "int \<Rightarrow> transaction \<Rightarrow> policy_error option" where
  "Policy_Check maxTxSize t =
     (if maxTxSize > 0 \<and> int (length (SigningBytes t)) > maxTxSize then Some TxTooLarge
      else if length (tx_inputs t) > MaxTxInputs then Some TooManyInputs
      else if length (tx_outputs t) > MaxTxOutputs then Some TooManyOutputs
      else first_error (\<lambda>out. if length (sc_data (out_script out)) > MaxScriptData
                              then Some ScriptDataTooLarge else None) (tx_outputs t))"

section \<open>The invariant of the pool\<close>

text \<open>
  Every entry is a structurally valid transaction under its own hash, with the rate of its
  fee; the index maps an outpoint to the one entry that spends it; the pool is within its size.
\<close>

definition entry_ok :: "crypto \<Rightarrow> hash \<Rightarrow> mempool_entry \<Rightarrow> bool" where
  "entry_ok C h e \<longleftrightarrow> me_hash e = h \<and> TxHash C (me_tx e) = h \<and> Validate (me_tx e) = None \<and>
     me_rate e = fee_rate (me_fee e) (length (SigningBytes (me_tx e)))"

definition pool_ok :: "crypto \<Rightarrow> pool \<Rightarrow> bool" where
  "pool_ok C p \<longleftrightarrow>
     (\<forall>h e. DAList.lookup (po_txs p) h = Some e \<longrightarrow> entry_ok C h e) \<and>
     (\<forall>x h. DAList.lookup (po_spends p) x = Some h \<longleftrightarrow>
        (\<exists>e. DAList.lookup (po_txs p) h = Some e \<and> x \<in> set (live_prevouts (me_tx e)))) \<and>
     0 < po_max_size p \<and> int (Pool_Count p) \<le> po_max_size p"

lemma lookup_delete_fun: "DAList.lookup (DAList.delete k m) = (DAList.lookup m)(k := None)"
  by (rule ext) (simp add: DAList.lookup_delete)

lemma lookup_deletes: "DAList.lookup (fold DAList.delete xs m) x = (if x \<in> set xs then None else DAList.lookup m x)"
  by (induction xs arbitrary: m) (auto simp: lookup_delete_fun)

lemma lookup_updates:
  "DAList.lookup (fold (\<lambda>x. DAList.update x v) xs m) x = (if x \<in> set xs then Some v else DAList.lookup m x)"
  by (induction xs arbitrary: m) (auto simp: lookup_update_fun)

lemma finite_lookup: "finite (dom (DAList.lookup m))"
  by (simp add: DAList.lookup.rep_eq finite_dom_map_of)

lemma length_impl_of: "length (DAList.impl_of m) = card (dom (DAList.lookup m))"
proof -
  have "card (dom (DAList.lookup m)) = card (set (map fst (DAList.impl_of m)))"
    by (simp add: DAList.lookup.rep_eq dom_map_of_conv_image_fst)
  also have "\<dots> = length (map fst (DAList.impl_of m))" by (rule distinct_card) (rule DAList.impl_of_distinct)
  finally show ?thesis by simp
qed

lemma Pool_Count_card: "Pool_Count p = card (dom (DAList.lookup (po_txs p)))"
  by (simp add: Pool_Count_def length_impl_of)

text \<open>Two entries never spend the same outpoint.\<close>

lemma pool_ok_conflict_free:
  assumes "pool_ok C p" and "DAList.lookup (po_txs p) h = Some e" and "DAList.lookup (po_txs p) h' = Some e'"
    and "x \<in> set (live_prevouts (me_tx e))" and "x \<in> set (live_prevouts (me_tx e'))"
  shows "h = h'"
  using assms unfolding pool_ok_def by (metis option.inject)

lemma pool_ok_New: "pool_ok C (Pool_New n)"
  by (simp add: pool_ok_def Pool_New_def Pool_Count_def DAList.empty.rep_eq)

lemma removeLocked_txs: "DAList.lookup (po_txs (removeLocked h p)) = (DAList.lookup (po_txs p))(h := None)"
  by (auto simp: removeLocked_def lookup_delete_fun fun_eq_iff split: option.splits)

lemma removeLocked_config [simp]:
  "po_max_size (removeLocked h p) = po_max_size p" "po_maturity (removeLocked h p) = po_maturity p"
  "po_min_fee_rate (removeLocked h p) = po_min_fee_rate p" "po_has_utxo_set (removeLocked h p) = po_has_utxo_set p"
  "po_has_tokens (removeLocked h p) = po_has_tokens p" "po_allow_minting (removeLocked h p) = po_allow_minting p"
  "po_mint_fee (removeLocked h p) = po_mint_fee p" "po_stake_amount (removeLocked h p) = po_stake_amount p"
  by (simp_all add: removeLocked_def split: option.splits)

lemma Pool_Count_remove_le: "Pool_Count (removeLocked h p) \<le> Pool_Count p"
  unfolding Pool_Count_card removeLocked_txs by (rule card_mono) (auto simp: finite_lookup)

lemma Pool_Count_remove:
  "DAList.lookup (po_txs p) h \<noteq> None \<Longrightarrow> Pool_Count (removeLocked h p) + 1 = Pool_Count p"
proof -
  assume "DAList.lookup (po_txs p) h \<noteq> None"
  then have "h \<in> dom (DAList.lookup (po_txs p))" by auto
  then have "card (dom (DAList.lookup (po_txs p)) - {h}) + 1 = card (dom (DAList.lookup (po_txs p)))"
    using finite_lookup by (metis Suc_eq_plus1 card_Suc_Diff1)
  then show ?thesis by (simp add: Pool_Count_card removeLocked_txs)
qed

lemma pool_ok_remove:
  assumes "pool_ok C p"
  shows "pool_ok C (removeLocked h p)"
proof (cases "DAList.lookup (po_txs p) h")
  case None
  then show ?thesis using assms by (simp add: removeLocked_def)
next
  case (Some e)
  have spends: "DAList.lookup (po_spends (removeLocked h p)) x =
      (if x \<in> set (live_prevouts (me_tx e)) then None else DAList.lookup (po_spends p) x)" for x
    by (simp add: removeLocked_def Some lookup_deletes)
  have "DAList.lookup (po_spends (removeLocked h p)) x = Some h' \<longleftrightarrow>
      (\<exists>e'. DAList.lookup (po_txs (removeLocked h p)) h' = Some e' \<and> x \<in> set (live_prevouts (me_tx e')))" for x h'
  proof (cases "x \<in> set (live_prevouts (me_tx e))")
    case True
    then show ?thesis using pool_ok_conflict_free [OF assms Some _ True] by (auto simp: spends removeLocked_txs)
  next
    case False
    then show ?thesis using assms Some unfolding spends removeLocked_txs pool_ok_def by auto
  qed
  moreover have "\<forall>h' e'. DAList.lookup (po_txs (removeLocked h p)) h' = Some e' \<longrightarrow> entry_ok C h' e'"
    using assms by (auto simp: pool_ok_def removeLocked_txs)
  ultimately show ?thesis
    using assms Pool_Count_remove_le [of h p] by (simp add: pool_ok_def)
qed

lemma pool_ok_insert:
  assumes ok: "pool_ok C p" and e: "entry_ok C (me_hash e) e" "DAList.lookup (po_txs p) (me_hash e) = None"
    and free: "\<And>x. x \<in> set (live_prevouts (me_tx e)) \<Longrightarrow> DAList.lookup (po_spends p) x = None"
    and room: "int (Pool_Count p) < po_max_size p"
  shows "pool_ok C (insert_entry e p)"
proof -
  have t: "DAList.lookup (po_txs (insert_entry e p)) = (DAList.lookup (po_txs p))(me_hash e \<mapsto> e)"
    by (simp add: insert_entry_def lookup_update_fun)
  have s: "DAList.lookup (po_spends (insert_entry e p)) x =
      (if x \<in> set (live_prevouts (me_tx e)) then Some (me_hash e) else DAList.lookup (po_spends p) x)" for x
    by (simp add: insert_entry_def lookup_updates)
  have "card (dom (DAList.lookup (po_txs (insert_entry e p)))) = Suc (card (dom (DAList.lookup (po_txs p))))"
    using e(2) finite_lookup by (simp add: t card_insert_disjoint domIff)
  then have "int (Pool_Count (insert_entry e p)) \<le> po_max_size p" using room by (simp add: Pool_Count_card)
  moreover have "DAList.lookup (po_spends (insert_entry e p)) x = Some h \<longleftrightarrow>
      (\<exists>e'. DAList.lookup (po_txs (insert_entry e p)) h = Some e' \<and> x \<in> set (live_prevouts (me_tx e')))" for x h
  proof (cases "x \<in> set (live_prevouts (me_tx e))")
    case True
    have "\<not> (\<exists>e'. DAList.lookup (po_txs p) h = Some e' \<and> x \<in> set (live_prevouts (me_tx e')))"
      using free [OF True] ok unfolding pool_ok_def by (metis option.distinct(1))
    then show ?thesis using True by (auto simp: s t)
  next
    case False
    then show ?thesis using ok e(2) unfolding s t pool_ok_def by auto
  qed
  moreover have "po_max_size (insert_entry e p) = po_max_size p" by (simp add: insert_entry_def)
  ultimately show ?thesis using ok e(1) by (auto simp: pool_ok_def t)
qed

section \<open>The lowest rate\<close>

text \<open>An iteration visits every binding once.\<close>

definition fair :: "iteration \<Rightarrow> bool" where
  "fair order \<longleftrightarrow> (\<forall>xs. mset (order xs) = mset xs)"

lemma fair_bindings:
  assumes "fair order"
  shows "set (bindings order p) = {(h, e). DAList.lookup (po_txs p) h = Some e}"
    and "distinct (map fst (bindings order p))" and "length (bindings order p) = Pool_Count p"
proof -
  have m: "mset (bindings order p) = mset (DAList.impl_of (po_txs p))" using assms by (simp add: fair_def bindings_def)
  then show "set (bindings order p) = {(h, e). DAList.lookup (po_txs p) h = Some e}"
    unfolding mset_eq_setD [OF m] using impl_of_lookup [where m = "po_txs p"] by blast
  have "mset (map fst (bindings order p)) = mset (map fst (DAList.impl_of (po_txs p)))" using m by simp
  then show "distinct (map fst (bindings order p))"
    using DAList.impl_of_distinct mset_eq_imp_distinct_iff by blast
  show "length (bindings order p) = Pool_Count p" using m mset_eq_length by (fastforce simp: Pool_Count_def)
qed

lemma fee_rate_bound: "fee_rate fee sz < MaxFloat64"
proof (cases "sz > 0")
  case True
  then show ?thesis using float_quotient_bound [of "unat fee" sz] unat_u64_less by (simp add: fee_rate_def)
qed (simp add: fee_rate_def MaxFloat64_def float_scale_def)

lemma fold_lowest:
  assumes "fold (\<lambda>(h, e) (lh, lr). if me_rate e < lr then (h, me_rate e) else (lh, lr)) bs (h0, r0) = (h, r)"
  shows "((h, r) = (h0, r0) \<or> (\<exists>e. (h, e) \<in> set bs \<and> r = me_rate e)) \<and> r \<le> r0 \<and> (\<forall>(h', e) \<in> set bs. r \<le> me_rate e)"
  using assms
proof (induction bs arbitrary: h0 r0)
  case Nil
  then show ?case by simp
next
  case (Cons b bs)
  obtain k e where b: "b = (k, e)" by (cases b)
  show ?case
  proof (cases "me_rate e < r0")
    case True
    then show ?thesis using Cons.IH [of k "me_rate e"] Cons.prems b by auto
  next
    case False
    then show ?thesis using Cons.IH [of h0 r0] Cons.prems b by auto
  qed
qed

lemma findLowestFeeRate_lowest:
  assumes ok: "pool_ok C p" and fair: "fair order" and "0 < Pool_Count p" and f: "findLowestFeeRate order p = (h, r)"
  shows "\<exists>e. DAList.lookup (po_txs p) h = Some e \<and> r = me_rate e \<and>
    (\<forall>h' e'. DAList.lookup (po_txs p) h' = Some e' \<longrightarrow> r \<le> me_rate e')"
proof -
  note b = fair_bindings [OF fair, of p]
  have l: "((h, r) = (0, MaxFloat64) \<or> (\<exists>e. (h, e) \<in> set (bindings order p) \<and> r = me_rate e)) \<and>
      (\<forall>(h', e) \<in> set (bindings order p). r \<le> me_rate e)"
    using fold_lowest [OF f [unfolded findLowestFeeRate_def]] by blast
  from assms(3) b(3) obtain h1 e1 where "(h1, e1) \<in> set (bindings order p)" by (cases "bindings order p") auto
  then have "r \<le> me_rate e1" "me_rate e1 < MaxFloat64"
  proof -
    have "DAList.lookup (po_txs p) h1 = Some e1" using \<open>(h1, e1) \<in> set (bindings order p)\<close> b(1) by simp
    then have "entry_ok C h1 e1" using ok by (simp add: pool_ok_def)
    then show "me_rate e1 < MaxFloat64" by (simp add: entry_ok_def fee_rate_bound)
    show "r \<le> me_rate e1" using l \<open>(h1, e1) \<in> set (bindings order p)\<close> by blast
  qed
  then have "r \<noteq> MaxFloat64" by simp
  then show ?thesis using l b(1) by auto
qed

section \<open>What admission establishes\<close>

lemma admit_Inr:
  assumes "admit C V t p = Inr fee"
  shows "DAList.lookup (po_txs p) (TxHash C t) = None"
    and "\<And>x. x \<in> set (live_prevouts t) \<Longrightarrow> DAList.lookup (po_spends p) x = None"
    and "ValidateWithUTXOs C (pv_provider V) t = Inr fee"
    and "po_has_tokens p \<Longrightarrow> ValidateTokens C t (pv_tokens V) = None"
    and "HasMintOutput t \<Longrightarrow> po_allow_minting p \<and> po_mint_fee p \<le> fee"
proof -
  from assms show "DAList.lookup (po_txs p) (TxHash C t) = None" by (auto simp: admit_def split: if_splits)
  from assms have c: "first_error (check_conflict p) (tx_inputs t) = None"
    by (auto simp: admit_def err_simps split: if_splits)
  then show "DAList.lookup (po_spends p) x = None" if "x \<in> set (live_prevouts t)" for x
    using that by (fastforce simp: live_prevouts_def first_error_None check_conflict_def split: if_splits)
  from assms show "ValidateWithUTXOs C (pv_provider V) t = Inr fee"
    by (auto simp: admit_def err_simps split: if_splits sum.splits)
  from assms show "po_has_tokens p \<Longrightarrow> ValidateTokens C t (pv_tokens V) = None"
    by (auto simp: admit_def err_simps split: if_splits sum.splits)
  from assms show "HasMintOutput t \<Longrightarrow> po_allow_minting p \<and> po_mint_fee p \<le> fee"
    by (auto simp: admit_def err_simps not_less split: if_splits sum.splits)
qed

text \<open>The three ways in which \<open>Add\<close> ends.\<close>

lemma Pool_Add_cases:
  assumes ok: "pool_ok C p" and fair: "fair order" and a: "Pool_Add C order V t p = (p', r)"
  obtains (refused) e where "r = Inl e" "p' = p"
  | (added) fee where "admit C V t p = Inr fee" "r = Inr fee"
      "p' = insert_entry \<lparr>me_tx = t, me_hash = TxHash C t, me_fee = fee,
         me_rate = fee_rate fee (length (SigningBytes t))\<rparr> p"
      "int (Pool_Count p) < po_max_size p"
  | (replaced) fee h e where "admit C V t p = Inr fee" "r = Inr fee" "DAList.lookup (po_txs p) h = Some e"
      "me_rate e < fee_rate fee (length (SigningBytes t))"
      "\<And>h' e'. DAList.lookup (po_txs p) h' = Some e' \<Longrightarrow> me_rate e \<le> me_rate e'"
      "p' = insert_entry \<lparr>me_tx = t, me_hash = TxHash C t, me_fee = fee,
         me_rate = fee_rate fee (length (SigningBytes t))\<rparr> (removeLocked h p)"
proof (cases "admit C V t p")
  case (Inl e)
  then have "r = Inl e" "p' = p" using a by (auto simp: Pool_Add_def)
  then show ?thesis by (rule refused)
next
  case (Inr fee)
  show ?thesis
  proof (cases "int (Pool_Count p) \<ge> po_max_size p")
    case False
    then have "r = Inr fee" "p' = insert_entry \<lparr>me_tx = t, me_hash = TxHash C t, me_fee = fee,
         me_rate = fee_rate fee (length (SigningBytes t))\<rparr> p"
      using a Inr by (simp_all add: Pool_Add_def Let_def)
    with Inr False show ?thesis by (intro added) simp_all
  next
    case True
    obtain h r' where l: "findLowestFeeRate order p = (h, r')" by fastforce
    have "0 < Pool_Count p" using ok True by (simp add: pool_ok_def)
    from findLowestFeeRate_lowest [OF ok fair this l] obtain e where
      e: "DAList.lookup (po_txs p) h = Some e" "r' = me_rate e"
        "\<And>h' e'. DAList.lookup (po_txs p) h' = Some e' \<Longrightarrow> r' \<le> me_rate e'" by blast
    show ?thesis
    proof (cases "fee_rate fee (length (SigningBytes t)) \<le> r'")
      case True
      then have "r = Inl ErrPoolFull" "p' = p"
        using a Inr l \<open>int (Pool_Count p) \<ge> po_max_size p\<close> by (simp_all add: Pool_Add_def Let_def)
      then show ?thesis by (rule refused)
    next
      case False
      then show ?thesis using a Inr l \<open>int (Pool_Count p) \<ge> po_max_size p\<close> e
        by (intro replaced [of fee h e]) (auto simp: Pool_Add_def Let_def)
    qed
  qed
qed

lemma pool_ok_Add:
  assumes ok: "pool_ok C p" and "fair order" and "Pool_Add C order V t p = (p', r)"
  shows "pool_ok C p'"
  using assms
proof (cases rule: Pool_Add_cases)
  case (refused e)
  then show ?thesis using ok by simp
next
  case (added fee)
  note a = admit_Inr [OF added(1)]
  show ?thesis unfolding added(3)
    by (rule pool_ok_insert [OF ok])
       (use a(1,2) added(4) ValidateWithUTXOs_Validate [OF a(3)] in \<open>simp_all add: entry_ok_def\<close>)
next
  case (replaced fee h e)
  note a = admit_Inr [OF replaced(1)]
  have ok': "pool_ok C (removeLocked h p)" by (rule pool_ok_remove [OF ok])
  have "DAList.lookup (po_spends (removeLocked h p)) x = None" if "x \<in> set (live_prevouts t)" for x
    using a(2) [OF that] by (simp add: removeLocked_def replaced(3) lookup_deletes)
  moreover have "int (Pool_Count (removeLocked h p)) < po_max_size p"
    using Pool_Count_remove [of p h] replaced(3) ok by (simp add: pool_ok_def)
  ultimately show ?thesis unfolding replaced(6)
    by (intro pool_ok_insert [OF ok'])
       (use a(1) ValidateWithUTXOs_Validate [OF a(3)] in \<open>simp_all add: entry_ok_def removeLocked_txs\<close>)
qed

section \<open>Selection\<close>

lemma spent_outpoints_live: "spent_outpoints ts = concat (map live_prevouts ts)"
  by (induction ts) (simp_all add: live_prevouts_def)

lemma live_prevouts_distinct: "Validate t = None \<Longrightarrow> distinct (live_prevouts t)"
  by (simp add: live_prevouts_def Validate_distinct)

definition by_rate :: "iteration \<Rightarrow> pool \<Rightarrow> mempool_entry list" where
  "by_rate order p = sort_key (\<lambda>e. - int (me_rate e)) (map snd (bindings order p))"

lemma SelectForBlock_by_rate: "SelectForBlock order limit p = map me_tx (take limit (by_rate order p))"
  by (simp add: SelectForBlock_def by_rate_def take_map)

lemma by_rate_entries:
  assumes ok: "pool_ok C p" and fair: "fair order"
  shows "set (by_rate order p) = ran (DAList.lookup (po_txs p))"
    and "distinct (map me_hash (by_rate order p))"
    and "length (by_rate order p) = Pool_Count p"
    and "e \<in> set (by_rate order p) \<Longrightarrow> DAList.lookup (po_txs p) (me_hash e) = Some e \<and> entry_ok C (me_hash e) e"
proof -
  note b = fair_bindings [OF fair, of p]
  show s: "set (by_rate order p) = ran (DAList.lookup (po_txs p))"
    by (auto simp: by_rate_def b(1) ran_def image_iff)
  show "length (by_rate order p) = Pool_Count p" by (simp add: by_rate_def b(3))
  have "map me_hash (map snd (bindings order p)) = map fst (bindings order p)"
    unfolding map_map by (rule map_cong [OF refl]) (use ok b(1) in \<open>auto simp: pool_ok_def entry_ok_def\<close>)
  with b(2) have "distinct (map me_hash (map snd (bindings order p)))" by (simp only:)
  moreover have "mset (map me_hash (by_rate order p)) = mset (map me_hash (map snd (bindings order p)))"
    by (simp add: by_rate_def multiset.map_comp)
  ultimately show "distinct (map me_hash (by_rate order p))" using mset_eq_imp_distinct_iff by blast
  show "DAList.lookup (po_txs p) (me_hash e) = Some e \<and> entry_ok C (me_hash e) e" if "e \<in> set (by_rate order p)"
    using that ok unfolding s by (auto simp: ran_def pool_ok_def entry_ok_def)
qed

lemma distinct_live:
  assumes ok: "pool_ok C p" and "distinct (map me_hash es)"
    and "\<And>e. e \<in> set es \<Longrightarrow> DAList.lookup (po_txs p) (me_hash e) = Some e \<and> entry_ok C (me_hash e) e"
  shows "distinct (concat (map (\<lambda>e. live_prevouts (me_tx e)) es))"
  using assms(2,3)
proof (induction es)
  case Nil
  then show ?case by simp
next
  case (Cons e es)
  have "x \<notin> set (live_prevouts (me_tx e'))" if "x \<in> set (live_prevouts (me_tx e))" "e' \<in> set es" for x e'
  proof
    assume "x \<in> set (live_prevouts (me_tx e'))"
    then have "me_hash e = me_hash e'"
      using pool_ok_conflict_free [OF ok, of "me_hash e" e "me_hash e'" e' x] Cons.prems(2) that by simp
    then show False using Cons.prems(1) that(2) by auto
  qed
  moreover have "distinct (live_prevouts (me_tx e))"
    using Cons.prems(2) [of e] by (simp add: entry_ok_def live_prevouts_distinct)
  ultimately show ?case using Cons by auto
qed

text \<open>The rate of a pending transaction (0 if there is none).\<close>

definition pool_rate :: "pool \<Rightarrow> hash \<Rightarrow> nat" where
  "pool_rate p h = (case DAList.lookup (po_txs p) h of None \<Rightarrow> 0 | Some e \<Rightarrow> me_rate e)"

lemma SelectForBlock_sound:
  assumes ok: "pool_ok C p" and fair: "fair order"
  shows "distinct (map (TxHash C) (SelectForBlock order limit p))"
    and "distinct (spent_outpoints (SelectForBlock order limit p))"
    and "length (SelectForBlock order limit p) = min limit (Pool_Count p)"
    and "\<And>t. t \<in> set (SelectForBlock order limit p) \<Longrightarrow> Pool_Get p (TxHash C t) = Some t \<and> Validate t = None"
proof -
  note b = by_rate_entries [OF ok fair]
  let ?es = "take limit (by_rate order p)"
  have e: "DAList.lookup (po_txs p) (me_hash e) = Some e \<and> entry_ok C (me_hash e) e" if "e \<in> set ?es" for e
    using that by (intro b(4)) (rule in_set_takeD)
  have d: "distinct (map me_hash ?es)" using b(2) by (simp add: take_map [symmetric] distinct_take)
  have "map (TxHash C) (map me_tx ?es) = map me_hash ?es"
    unfolding map_map by (rule map_cong [OF refl]) (use e in \<open>auto simp: entry_ok_def\<close>)
  with d show "distinct (map (TxHash C) (SelectForBlock order limit p))" by (simp only: SelectForBlock_by_rate)
  show "distinct (spent_outpoints (SelectForBlock order limit p))"
    using distinct_live [OF ok d e] by (simp add: SelectForBlock_by_rate spent_outpoints_live comp_def)
  show "length (SelectForBlock order limit p) = min limit (Pool_Count p)"
    by (simp add: SelectForBlock_by_rate b(3) min.commute)
  show "Pool_Get p (TxHash C t) = Some t \<and> Validate t = None" if "t \<in> set (SelectForBlock order limit p)" for t
    using that e by (auto simp: SelectForBlock_by_rate Pool_Get_def entry_ok_def)
qed

lemma SelectForBlock_best:
  assumes ok: "pool_ok C p" and fair: "fair order"
  shows "sorted (rev (map (\<lambda>t. pool_rate p (TxHash C t)) (SelectForBlock order limit p)))"
    and "\<And>t h. t \<in> set (SelectForBlock order limit p) \<Longrightarrow> Pool_Has p h \<Longrightarrow>
      h \<notin> TxHash C ` set (SelectForBlock order limit p) \<Longrightarrow> pool_rate p h \<le> pool_rate p (TxHash C t)"
proof -
  note b = by_rate_entries [OF ok fair]
  let ?L = "by_rate order p"
  have rate: "pool_rate p (TxHash C (me_tx e)) = me_rate e" if "e \<in> set ?L" for e
    using b(4) [OF that] by (auto simp: pool_rate_def entry_ok_def)
  have "sorted (map (\<lambda>e. - int (me_rate e)) ?L)" unfolding by_rate_def by simp
  then have nth: "me_rate (?L ! j) \<le> me_rate (?L ! i)" if "i \<le> j" "j < length ?L" for i j
    using that by (auto simp: sorted_iff_nth_mono)
  have r: "pool_rate p (TxHash C (SelectForBlock order limit p ! i)) = me_rate (?L ! i)" if "i < min limit (length ?L)" for i
    using that rate [of "?L ! i"] by (simp add: SelectForBlock_by_rate)
  show "sorted (rev (map (\<lambda>t. pool_rate p (TxHash C t)) (SelectForBlock order limit p)))"
    unfolding sorted_rev_iff_nth_mono
    using nth r by (auto simp: SelectForBlock_by_rate)
  show "pool_rate p h \<le> pool_rate p (TxHash C t)"
    if t: "t \<in> set (SelectForBlock order limit p)" and h: "Pool_Has p h" "h \<notin> TxHash C ` set (SelectForBlock order limit p)" for t h
  proof -
    from t obtain i where i: "i < min limit (length ?L)" "t = SelectForBlock order limit p ! i"
      by (auto simp: in_set_conv_nth SelectForBlock_by_rate)
    from h(1) obtain e where e: "DAList.lookup (po_txs p) h = Some e" by (auto simp: Pool_Has_def)
    then have "e \<in> set ?L" by (auto simp: b(1) ran_def)
    then obtain j where j: "j < length ?L" "e = ?L ! j" by (auto simp: in_set_conv_nth)
    have eh: "TxHash C (me_tx e) = h" using ok e by (auto simp: pool_ok_def entry_ok_def)
    have "limit \<le> j"
    proof (rule ccontr)
      assume "\<not> limit \<le> j"
      then have "e \<in> set (take limit ?L)" using j by (auto simp: in_set_conv_nth)
      then show False using h(2) eh by (auto simp: SelectForBlock_by_rate)
    qed
    then have "me_rate (?L ! j) \<le> me_rate (?L ! i)" using i j by (intro nth) auto
    then show ?thesis using r [OF i(1)] i(2) e j(2) by (simp add: pool_rate_def)
  qed
qed

section \<open>Every history of a pool\<close>

text \<open>The states that a pool reaches by its operations, whatever the chain answers meanwhile.\<close>

inductive pool_run :: "crypto \<Rightarrow> pool \<Rightarrow> bool" for C :: crypto where
  new: "pool_run C (Pool_New n)"
| add: "pool_run C p \<Longrightarrow> fair order \<Longrightarrow> pool_run C (fst (Pool_Add C order V t p))"
| remove: "pool_run C p \<Longrightarrow> pool_run C (Pool_Remove h p)"
| confirmed: "pool_run C p \<Longrightarrow> pool_run C (RemoveConfirmed C ts p)"
| evict: "pool_run C p \<Longrightarrow> fair order \<Longrightarrow> pool_run C (fst (Evict order p))"
| configure: "pool_run C p \<Longrightarrow>
    p' \<in> {SetMinFeeRate r p, SetTokenValidator b p, SetMintFee r p, SetMintingAllowed b p,
           SetStakeAmount r p, SetCoinbaseMaturity r b p} \<Longrightarrow> pool_run C p'"

lemma pool_run_ok: "pool_run C p \<Longrightarrow> pool_ok C p"
proof (induction rule: pool_run.induct)
  case (new n)
  show ?case by (rule pool_ok_New)
next
  case (add p order V t)
  then show ?case using pool_ok_Add by (metis prod.collapse)
next
  case (remove p h)
  then show ?case by (simp add: Pool_Remove_def pool_ok_remove)
next
  case (confirmed p ts)
  have "pool_ok C (fold (\<lambda>t. removeLocked (TxHash C t)) ts q)" if "pool_ok C q" for q
    using that by (induction ts arbitrary: q) (simp_all add: pool_ok_remove)
  then show ?case using confirmed by (simp add: RemoveConfirmed_def)
next
  case (evict p order)
  then show ?case by (simp add: Evict_def pool_ok_def)
next
  case (configure p p' r b)
  then show ?case
    by (auto simp: pool_ok_def Pool_Count_def SetMinFeeRate_def SetTokenValidator_def SetMintFee_def
        SetMintingAllowed_def SetStakeAmount_def SetCoinbaseMaturity_def)
qed

text \<open>
  C8: The pool is consistent. After any sequence of operations, every pending transaction is
  filed under its own hash, is structurally valid and has its inputs in the conflict index;
  no outpoint is spent by two pending transactions, the index names nothing else, and the
  pool never exceeds its size (so that \<open>Evict\<close> never finds anything to do).
\<close>

theorem mempool_consistent:
  assumes "pool_run C p"
  shows "(\<forall>h t. Pool_Get p h = Some t \<longrightarrow> TxHash C t = h \<and> Validate t = None \<and>
      (\<forall>x \<in> set (live_prevouts t). DAList.lookup (po_spends p) x = Some h)) \<and>
    (\<forall>x h. DAList.lookup (po_spends p) x = Some h \<longrightarrow> (\<exists>t. Pool_Get p h = Some t \<and> x \<in> set (live_prevouts t))) \<and>
    int (Pool_Count p) \<le> po_max_size p \<and> Evict order p = (p, 0)"
  using pool_run_ok [OF assms]
  by (auto simp: pool_ok_def entry_ok_def Pool_Get_def Evict_def)

text \<open>A pool with one transaction.\<close>

definition demo_view :: pool_view where
  "demo_view = \<lparr>pv_provider = demo_provider, pv_get = (\<lambda>x. None), pv_height = 5, pv_tokens = (\<lambda>x. None)\<rparr>"

definition demo_pool :: pool where
  "demo_pool = fst (Pool_Add toy_crypto (\<lambda>bs. bs) demo_view demo_tx (Pool_New 0))"

lemma fair_id [simp]: "fair (\<lambda>bs. bs)"
  by (simp add: fair_def)

lemma demo_pool_run: "pool_run toy_crypto demo_pool"
  unfolding demo_pool_def by (intro pool_run.intros) simp

lemma Pool_New_lookup [simp]:
  "DAList.lookup (po_txs (Pool_New n)) h = None" "DAList.lookup (po_spends (Pool_New n)) x = None"
  "Pool_Count (Pool_New n) = 0"
  by (simp_all add: Pool_New_def Pool_Count_def DAList.empty.rep_eq)

lemma demo_admit: "admit toy_crypto demo_view demo_tx (Pool_New 0) = Inr 10"
proof -
  have "check_conflict (Pool_New 0) i = None" for i by (simp add: check_conflict_def)
  moreover have "\<not> HasMintOutput demo_tx" by (simp add: HasMintOutput_def demo_tx_defs)
  ultimately show ?thesis
    using demo_tx_valid by (simp add: admit_def demo_view_def first_error_None [THEN iffD2] Pool_New_def check_def
        DAList.lookup_empty)
qed

lemma Pool_New_size [simp]: "0 < po_max_size (Pool_New n)"
  by (simp add: Pool_New_def)

lemma demo_pool_Add: "Pool_Add toy_crypto (\<lambda>bs. bs) demo_view demo_tx (Pool_New 0) = (demo_pool, Inr 10)"
  and demo_pool_Get: "Pool_Get demo_pool (TxHash toy_crypto demo_tx) = Some demo_tx"
  using demo_admit
  by (simp_all add: demo_pool_def Pool_Add_def Let_def Pool_Get_def insert_entry_def lookup_update_fun not_le [THEN iffD2])

theorem mempool_consistent_witness:
  "DAList.lookup (po_spends demo_pool) (Outpoint 7 0) = Some (TxHash toy_crypto demo_tx)"
proof -
  have "Outpoint 7 0 \<in> set (live_prevouts demo_tx)" by (simp add: live_prevouts_def demo_tx_defs zero_outpoint_def)
  then show ?thesis using mempool_consistent [OF demo_pool_run] demo_pool_Get by blast
qed

text \<open>
  C9: Admission. A refused transaction leaves the pool as it was. An admitted one pays exactly
  what its inputs bring minus what its outputs take, is filed with that fee, meets the mint
  rules, and displaces at most one other transaction: only when the pool is full, only one
  that pays a lower rate, and one that pays the lowest; everything else stays.
\<close>

theorem Pool_Add_outcome:
  assumes "pool_run C p" and "fair order" and "Pool_Add C order V t p = (p', r)"
  shows "case r of
      Inl e \<Rightarrow> p' = p
    | Inr fee \<Rightarrow>
        sum_u64 (input_value (pv_provider V)) (tx_inputs t) = sum_u64 out_value (tx_outputs t) + unat fee \<and>
        GetFee p' (TxHash C t) = fee \<and>
        (HasMintOutput t \<longrightarrow> po_allow_minting p \<and> po_mint_fee p \<le> fee) \<and>
        (\<exists>victim. (\<forall>h. Pool_Get p' h = (if h = TxHash C t then Some t else if victim = Some h then None else Pool_Get p h)) \<and>
           (\<forall>h. victim = Some h \<longrightarrow> int (Pool_Count p) = po_max_size p \<and> pool_rate p h < pool_rate p' (TxHash C t) \<and>
              (\<forall>h'. Pool_Has p h' \<longrightarrow> pool_rate p h \<le> pool_rate p h')))"
proof -
  have ok: "pool_ok C p" by (rule pool_run_ok [OF assms(1)])
  from ok assms(2,3) show ?thesis
  proof (cases rule: Pool_Add_cases)
    case (refused e)
    then show ?thesis by simp
  next
    case (added fee)
    note a = admit_Inr [OF added(1)]
    have "\<exists>victim :: hash option. (\<forall>h. Pool_Get p' h =
        (if h = TxHash C t then Some t else if victim = Some h then None else Pool_Get p h)) \<and> victim = None"
      by (simp add: added(3) Pool_Get_def insert_entry_def lookup_update_fun)
    moreover have "GetFee p' (TxHash C t) = fee" by (simp add: added(3) GetFee_def insert_entry_def lookup_update_fun)
    ultimately show ?thesis using accepted_transaction(1) [OF a(3)] a(5) added(2) by auto
  next
    case (replaced fee h e)
    note a = admit_Inr [OF replaced(1)]
    have "int (Pool_Count p) = po_max_size p"
    proof (rule ccontr)
      assume "int (Pool_Count p) \<noteq> po_max_size p"
      then have "int (Pool_Count p) < po_max_size p" using ok by (simp add: pool_ok_def)
      then have "DAList.lookup (po_txs p') h = Some e"
        using assms(3) replaced(1,3) a(1) by (auto simp: Pool_Add_def Let_def insert_entry_def lookup_update_fun)
      moreover have "h \<noteq> TxHash C t" using a(1) replaced(3) by auto
      ultimately show False by (simp add: replaced(6) insert_entry_def lookup_update_fun removeLocked_txs)
    qed
    moreover have "pool_rate p h < pool_rate p' (TxHash C t)" "GetFee p' (TxHash C t) = fee"
      using replaced(3,4) by (simp_all add: replaced(6) pool_rate_def GetFee_def insert_entry_def lookup_update_fun)
    moreover have "pool_rate p h \<le> pool_rate p h'" if "Pool_Has p h'" for h'
      using that replaced(3,5) by (auto simp: pool_rate_def Pool_Has_def)
    moreover have "Pool_Get p' h' = (if h' = TxHash C t then Some t else if Some h = Some h' then None else Pool_Get p h')" for h'
      by (auto simp: replaced(6) Pool_Get_def insert_entry_def lookup_update_fun removeLocked_txs)
    ultimately show ?thesis using accepted_transaction(1) [OF a(3)] a(5) replaced(2)
      by (auto intro!: exI [of _ "Some h"])
  qed
qed

theorem Pool_Add_outcome_witness:
  "sum_u64 (input_value demo_provider) (tx_inputs demo_tx) = sum_u64 out_value (tx_outputs demo_tx) + 10 \<and>
   GetFee demo_pool (TxHash toy_crypto demo_tx) = 10"
  using Pool_Add_outcome [OF pool_run.new fair_id demo_pool_Add] by (simp add: demo_view_def)

text \<open>
  C10: Selection. The transactions selected for a block are pending ones, each once and
  without a common input, as many as the limit allows, by descending fee rate, and none left
  behind pays a higher rate than one that is selected.
\<close>

theorem SelectForBlock_correct:
  assumes "pool_run C p" and "fair order" and "ts = SelectForBlock order limit p"
  shows "distinct (map (TxHash C) ts) \<and> distinct (spent_outpoints ts) \<and> length ts = min limit (Pool_Count p) \<and>
    (\<forall>t \<in> set ts. Pool_Get p (TxHash C t) = Some t) \<and>
    sorted (rev (map (\<lambda>t. pool_rate p (TxHash C t)) ts)) \<and>
    (\<forall>t \<in> set ts. \<forall>h. Pool_Has p h \<and> h \<notin> TxHash C ` set ts \<longrightarrow> pool_rate p h \<le> pool_rate p (TxHash C t))"
  using SelectForBlock_sound [OF pool_run_ok [OF assms(1)] assms(2)]
    SelectForBlock_best [OF pool_run_ok [OF assms(1)] assms(2)] unfolding assms(3) by blast

theorem SelectForBlock_correct_witness:
  "\<exists>t. SelectForBlock (\<lambda>bs. bs) 499 demo_pool = [t] \<and> Pool_Get demo_pool (TxHash toy_crypto t) = Some t"
proof -
  have "dom (DAList.lookup (po_txs (Pool_New 0))) = {}" by (simp add: dom_def)
  then have "Pool_Count demo_pool = 1"
    using demo_admit by (simp add: demo_pool_def Pool_Add_def Let_def not_le [THEN iffD2])
       (simp add: Pool_Count_card insert_entry_def lookup_update_fun)
  then have "length (SelectForBlock (\<lambda>bs. bs) 499 demo_pool) = 1"
    using SelectForBlock_correct [OF demo_pool_run fair_id refl, of 499] by simp
  then obtain t where t: "SelectForBlock (\<lambda>bs. bs) 499 demo_pool = [t]" by (auto simp: length_Suc_conv)
  then show ?thesis using SelectForBlock_correct [OF demo_pool_run fair_id refl, of 499] by auto
qed

end
