(* ===== verification/Miner.thy ===== *)
theory Miner
  imports Mempool Undo
begin

text \<open>
  Block production (\<open>internal/miner\<close>): the coinbase, the reward within the supply cap, the
  choice and order of the transactions, preparation and sealing by the consensus engine.
\<close>

section \<open>Interfaces\<close>

text \<open>What the miner reads from the chain (\<open>ChainState\<close>) and from the mempool (\<open>MempoolSelector\<close>).\<close>

record chain_state =
  cs_height :: u64
  cs_tip :: hash
  cs_tip_time :: u64

record mempool_selector =
  sel_transactions :: "nat \<Rightarrow> transaction list"
  sel_fee :: "hash \<Rightarrow> u64"

definition chain_state_of :: "'s chain \<Rightarrow> chain_state" where
  "chain_state_of ch = \<lparr>cs_height = ch_height ch, cs_tip = ch_tip ch, cs_tip_time = ch_tip_time ch\<rparr>"

definition pool_selector :: "iteration \<Rightarrow> pool \<Rightarrow> mempool_selector" where
  "pool_selector order p = \<lparr>sel_transactions = (\<lambda>limit. SelectForBlock order limit p), sel_fee = GetFee p\<rparr>"

section \<open>The miner\<close>

text \<open>\<open>mi_supply\<close> is the answer of the supply function, if there is one.\<close>

record miner =
  mi_addr :: address
  mi_reward :: u64
  mi_halving :: u64
  mi_max_supply :: u64
  mi_supply :: "u64 option"
  mi_max_txs :: nat

definition Miner_New :: "address \<Rightarrow> u64 \<Rightarrow> u64 \<Rightarrow> u64 option \<Rightarrow> miner" where
  "Miner_New addr reward maxSupply supply_now =
     \<lparr>mi_addr = addr, mi_reward = reward, mi_halving = 0, mi_max_supply = maxSupply,
      mi_supply = supply_now, mi_max_txs = MaxBlockTxs\<rparr>"

definition SetHalvingInterval :: "u64 \<Rightarrow> miner \<Rightarrow> miner" where
  "SetHalvingInterval n m = m\<lparr>mi_halving := n\<rparr>"

definition BuildCoinbase :: "address \<Rightarrow> u64 \<Rightarrow> u64 \<Rightarrow> transaction" where
  "BuildCoinbase addr reward height =
     \<lparr>tx_version = 1,
      tx_inputs = [\<lparr>in_prevout = zero_outpoint, in_sig = le_bytes 8 height, in_pubkey = []\<rparr>],
      tx_outputs = [\<lparr>out_value = reward, out_script = \<lparr>sc_type = ScriptTypeP2PKH, sc_data = addr_bytes addr\<rparr>,
        out_token = None\<rparr>],
      tx_locktime = 0\<rparr>"

definition capped_reward :: "miner \<Rightarrow> u64 \<Rightarrow> u64" where
  "capped_reward m height =
     (let reward = BlockSubsidy (mi_reward m) (mi_halving m) height
      in case mi_supply m of
           Some supply_now \<Rightarrow>
             if mi_max_supply m > 0 then
               (if supply_now \<ge> mi_max_supply m then 0
                else if reward > mi_max_supply m - supply_now then mi_max_supply m - supply_now else reward)
             else reward
         | None \<Rightarrow> reward)"

text \<open>The header and the transactions before the engine sees them.\<close>

definition selected_txs :: "mempool_selector option \<Rightarrow> miner \<Rightarrow> transaction list" where
  "selected_txs pool m = (case pool of None \<Rightarrow> [] | Some S \<Rightarrow> sel_transactions S (mi_max_txs m - 1))"

definition total_fees :: "crypto \<Rightarrow> mempool_selector option \<Rightarrow> transaction list \<Rightarrow> u64" where
  "total_fees C pool ts = (case pool of None \<Rightarrow> 0 | Some S \<Rightarrow> sum_list (map (\<lambda>t. sel_fee S (TxHash C t)) ts))"

definition block_template ::
  "crypto \<Rightarrow> chain_state \<Rightarrow> mempool_selector option \<Rightarrow> miner \<Rightarrow> u64 \<Rightarrow> header \<times> transaction list" where
  "block_template C cs pool m timestamp =
     (let ts = (if timestamp \<le> cs_tip_time cs then cs_tip_time cs + 1 else timestamp);
          selected = selected_txs pool m;
          fees = total_fees C pool selected;
          reward = capped_reward m (cs_height cs + 1);
          txs = BuildCoinbase (mi_addr m) (reward + fees) (cs_height cs + 1) # sort_key (TxHash C) selected
      in (\<lparr>h_version = CurrentVersion, h_prev = cs_tip cs, h_merkle = ComputeMerkleRoot C (map (TxHash C) txs),
           h_timestamp = ts, h_height = cs_height cs + 1, h_difficulty = 0, h_nonce = 0, h_sig = []\<rparr>, txs))"

text \<open>\<open>done\<close> is the cancellation that a proof-of-work search sees.\<close>

definition produceBlock ::
  "crypto \<Rightarrow> (u64 \<Rightarrow> bool) \<Rightarrow> engine \<Rightarrow> chain_state \<Rightarrow> mempool_selector option \<Rightarrow> miner \<Rightarrow> u64 \<Rightarrow>
   consensus_error + block" where
  "produceBlock C cancel e cs pool m timestamp =
     (let (h, txs) = block_template C cs pool m timestamp
      in bindE (Engine_Prepare C e h) (\<lambda>h1.
           case e of
             EnginePoW _ \<Rightarrow>
               (case SealWithCancel C cancel \<lparr>b_header = Some h1, b_txs = txs\<rparr> of
                  Inl er \<Rightarrow> Inl (PowErr er) | Inr b \<Rightarrow> Inr b)
           | EnginePoA _ \<Rightarrow>
               bindE (Engine_Seal C e h1) (\<lambda>h2. Inr \<lparr>b_header = Some h2, b_txs = txs\<rparr>)))"

section \<open>What a produced block contains\<close>

lemma SealWithCancel_Inr:
  assumes "SealWithCancel C cancel \<lparr>b_header = Some h1, b_txs = txs\<rparr> = Inr b"
  shows "\<exists>n. b = \<lparr>b_header = Some (h1\<lparr>h_nonce := n\<rparr>), b_txs = txs\<rparr> \<and> PoW_VerifyHeader C (h1\<lparr>h_nonce := n\<rparr>) = None"
proof -
  from assms obtain n where d: "h_difficulty h1 \<noteq> 0" and b: "b = \<lparr>b_header = Some (h1\<lparr>h_nonce := n\<rparr>), b_txs = txs\<rparr>"
    and lp: "seal_loop C (signingPrefix h1) (pow_target (h_difficulty h1)) cancel 0 = Inr n"
    by (auto simp: SealWithCancel_def sealSingle_def err_simps split: if_splits)
  show ?thesis using seal_loop_Inr [OF lp] meets_VerifyHeader [OF d] b by auto
qed

lemma produceBlock_Inr:
  assumes "produceBlock C cancel e cs pool m timestamp = Inr b"
    and "block_template C cs pool m timestamp = (h, txs)"
  shows "\<exists>h'. b = \<lparr>b_header = Some h', b_txs = txs\<rparr> \<and> h_prev h' = h_prev h \<and> h_merkle h' = h_merkle h \<and>
    h_height h' = h_height h \<and> h_timestamp h' = h_timestamp h \<and> h_version h' = h_version h \<and>
    (\<forall>p. e = EnginePoW p \<longrightarrow> PoW_VerifyHeader C h' = None)"
proof (cases e)
  case (EnginePoW p)
  have "Engine_Prepare C e h = Inr (PoW_Prepare p h)" by (simp add: EnginePoW Engine_Prepare_def)
  then have "SealWithCancel C cancel \<lparr>b_header = Some (PoW_Prepare p h), b_txs = txs\<rparr> = Inr b"
    using assms EnginePoW by (auto simp: produceBlock_def split: sum.splits)
  from SealWithCancel_Inr [OF this] obtain n where
    n: "b = \<lparr>b_header = Some ((PoW_Prepare p h)\<lparr>h_nonce := n\<rparr>), b_txs = txs\<rparr>"
      "PoW_VerifyHeader C ((PoW_Prepare p h)\<lparr>h_nonce := n\<rparr>) = None" by blast
  have "h_prev (PoW_Prepare p h) = h_prev h \<and> h_merkle (PoW_Prepare p h) = h_merkle h \<and>
      h_height (PoW_Prepare p h) = h_height h \<and> h_timestamp (PoW_Prepare p h) = h_timestamp h \<and>
      h_version (PoW_Prepare p h) = h_version h"
    by (simp add: PoW_Prepare_def split: option.splits)
  then show ?thesis using n by auto
next
  case (EnginePoA p)
  then obtain h1 h2 where "PoA_Prepare C p h = Inr h1" "PoA_Seal C p h1 = Inr h2"
    "b = \<lparr>b_header = Some h2, b_txs = txs\<rparr>"
    using assms by (auto simp: produceBlock_def Engine_Prepare_def Engine_Seal_def err_simps split: sum.splits)
  then show ?thesis using EnginePoA
    by (auto simp: PoA_Prepare_def PoA_Seal_def split: option.splits sum.splits)
qed

section \<open>Produced blocks are well formed\<close>

lemma check_tx_order_sorted:
  assumes "distinct hs" and "sorted hs"
  shows "check_tx_order (h # hs) = None"
  unfolding check_tx_order_def first_error_None
proof
  fix i assume i: "i \<in> set [2..<length (h # hs)]"
  then have "hs ! (i - 2) \<le> hs ! (i - 1)" using assms(2) by (auto intro!: sorted_nth_mono)
  moreover have "hs ! (i - 2) \<noteq> hs ! (i - 1)" using assms(1) i by (auto simp: nth_eq_iff_index_eq)
  ultimately have "hs ! (i - 2) < hs ! (i - 1)" by simp
  moreover have "(h # hs) ! (i - 1) = hs ! (i - 2)" "(h # hs) ! i = hs ! (i - 1)"
    using i by (auto simp: nth_Cons' numeral_2_eq_2)
  ultimately show "(if (h # hs) ! (i - 1) \<ge> (h # hs) ! i then Some ErrBadTxOrder else None) = None" by simp
qed

lemma BuildCoinbase_valid: "reward \<noteq> 0 \<Longrightarrow> Validate (BuildCoinbase addr reward height) = None"
  using unat_u64_less [of reward]
  by (simp add: BuildCoinbase_def Validate_None output_ok_def validateOutputScript_def MaxScriptData_def enc_length)

lemma BuildCoinbase_coinbase: "isCoinbase (BuildCoinbase addr reward height)"
  by (simp add: BuildCoinbase_def isCoinbase_def)

lemma spent_outpoints_perm: "mset ts = mset us \<Longrightarrow> mset (spent_outpoints ts) = mset (spent_outpoints us)"
proof -
  have "mset (spent_outpoints ts) = sum_mset (image_mset (\<lambda>t. mset (live_prevouts t)) (mset ts))" for ts
    by (induction ts) (simp_all add: spent_outpoints_live)
  then show "mset ts = mset us \<Longrightarrow> mset (spent_outpoints ts) = mset (spent_outpoints us)" by simp
qed

text \<open>No transaction but the coinbase has a coinbase input.\<close>

definition no_stray_input :: "transaction \<Rightarrow> bool" where
  "no_stray_input t \<longleftrightarrow> (\<forall>i \<in> set (tx_inputs t). in_prevout i \<noteq> zero_outpoint)"

lemma Block_Validate_template:
  assumes txs: "block_template C cs pool m timestamp = (h, txs)"
    and h': "h_merkle h' = h_merkle h" "h_version h' = h_version h" "h_timestamp h' = h_timestamp h"
    and sel: "selected_txs pool m = ts" "distinct (map (TxHash C) ts)" "distinct (spent_outpoints ts)"
      "length ts < MaxBlockTxs" "\<And>t. t \<in> set ts \<Longrightarrow> Validate t = None \<and> no_stray_input t"
    and time: "cs_tip_time cs < max_u64"
    and pays: "capped_reward m (cs_height cs + 1) + total_fees C pool ts \<noteq> 0"
    and size: "block_size h' txs \<le> MaxBlockSize"
  shows "Block_Validate C \<lparr>b_header = Some h', b_txs = txs\<rparr> = None"
proof -
  let ?cb = "BuildCoinbase (mi_addr m) (capped_reward m (cs_height cs + 1) + total_fees C pool ts) (cs_height cs + 1)"
  let ?rest = "sort_key (TxHash C) ts"
  have t: "txs = ?cb # ?rest" and m: "h_merkle h = ComputeMerkleRoot C (map (TxHash C) txs)"
    and v: "h_version h = CurrentVersion"
    and ti: "h_timestamp h = (if timestamp \<le> cs_tip_time cs then cs_tip_time cs + 1 else timestamp)"
    using txs sel(1) by (auto simp: block_template_def Let_def)
  have "cs_tip_time cs + 1 \<noteq> 0" using time by (metis add_eq_0_iff less_irrefl minus_equation_iff)
  moreover have "timestamp \<noteq> 0" if "\<not> timestamp \<le> cs_tip_time cs" using that by auto
  ultimately have nz: "h_timestamp h' \<noteq> 0" unfolding h'(3) ti by auto
  have d: "distinct (map (TxHash C) ?rest)"
  proof -
    have "mset (map (TxHash C) ?rest) = mset (map (TxHash C) ts)" by simp
    then show ?thesis using sel(2) mset_eq_imp_distinct_iff by blast
  qed
  have "mset (spent_outpoints ?rest) = mset (spent_outpoints ts)" by (rule spent_outpoints_perm) simp
  then have "distinct (spent_outpoints ?rest)" using sel(3) mset_eq_imp_distinct_iff by blast
  then have "check_block_inputs [] (concat (map tx_inputs txs)) = None"
    unfolding check_block_inputs_None t
    using spent_outpoints_coinbase [OF BuildCoinbase_coinbase] by (simp add: spent_outpoints_def)
  moreover have "check_single_coinbase ?rest = None"
    using sel(5) by (auto simp: check_single_coinbase_def first_error_None no_stray_input_def)
  moreover have "check_tx_order (map (TxHash C) txs) = None" using d by (simp add: t check_tx_order_sorted)
  moreover have "first_error validate_tx_in_block txs = None"
    using sel(5) BuildCoinbase_valid [OF pays] by (simp add: t first_error_None validate_tx_in_block_def)
  ultimately show ?thesis
    using nz m v h' sel(4) size BuildCoinbase_coinbase
    by (simp add: Block_Validate_def t CurrentVersion_def MaxVersion_def Let_def)
qed

section \<open>Produced blocks satisfy the state rules\<close>

lemma validate_fees_defined:
  assumes "\<And>t. t \<in> set ts \<Longrightarrow> ValidateWithUTXOs (en_crypto E) (chain_provider E s) t = Inr (f t)"
    and "unat tf + sum_u64 f ts < 2 ^ 64"
  shows "validate_fees E s tf ts = Inr (map f ts, tf + sum_list (map f ts))"
  using assms
proof (induction ts arbitrary: tf)
  case Nil
  then show ?case by simp
next
  case (Cons t ts)
  have "\<not> tf > max_u64 - f t" "unat (tf + f t) = unat tf + unat (f t)"
    using Cons.prems(2) by (simp_all add: u64_simps)
  with Cons show ?case by (simp add: bindE_def add.assoc)
qed

lemma unat_sum_list_u64: "sum_u64 f ts < 2 ^ 64 \<Longrightarrow> unat (sum_list (map f ts)) = sum_u64 f ts"
proof (induction ts)
  case Nil
  then show ?case by simp
next
  case (Cons t ts)
  then have "unat (sum_list (map f ts)) = sum_u64 f ts" by simp
  then show ?case using Cons.prems by (simp add: unat_add_u64)
qed

lemma sum_u64_perm: "mset ts = mset us \<Longrightarrow> sum_u64 f ts = sum_u64 f us"
proof -
  have "sum_u64 f ts = sum_mset (image_mset (\<lambda>t. unat (f t)) (mset ts))" for ts by (induction ts) simp_all
  then show "mset ts = mset us \<Longrightarrow> sum_u64 f ts = sum_u64 f us" by simp
qed

lemma sum_list_perm: "mset ts = mset us \<Longrightarrow> sum_list (map f ts) = (sum_list (map f us) :: u64)"
  by (metis mset_map sum_mset_sum_list)

text \<open>A pending transaction that the chain would accept in its next block, with its fee.\<close>

definition tx_ready :: "'s env \<Rightarrow> 's chain \<Rightarrow> transaction \<Rightarrow> u64 \<Rightarrow> bool" where
  "tx_ready E ch t fee \<longleftrightarrow>
     ValidateWithUTXOs (en_crypto E) (chain_provider E (ch_db ch)) t = Inr fee \<and> no_stray_input t \<and>
     (\<forall>i \<in> set (tx_inputs t). check_maturity_input (en_set E) (ch_db ch) (ch_height ch + 1) i = None) \<and>
     check_token_rules E ch (t, fee) = None \<and> check_stake_amounts ch [t] = None \<and>
     (\<forall>out \<in> set (tx_outputs t). \<not> is_register out)"

text \<open>The miner is configured with the parameters of its chain.\<close>

definition miner_matches :: "miner \<Rightarrow> 's chain \<Rightarrow> bool" where
  "miner_matches m ch \<longleftrightarrow> mi_reward m = ch_block_reward ch \<and> mi_halving m = ch_halving ch \<and>
     mi_max_supply m = ch_max_supply ch \<and> mi_supply m = Some (ch_supply ch)"

lemma capped_reward_matches: "miner_matches m ch \<Longrightarrow>
    capped_reward m height = cap_reward (ch_max_supply ch) (ch_supply ch) (chain_subsidy ch height)"
  by (simp add: miner_matches_def capped_reward_def cap_reward_def chain_subsidy_def Let_def)

lemma no_registrations:
  "(\<And>out. out \<in> set outs \<Longrightarrow> \<not> is_register out) \<Longrightarrow> validate_registrations E n k outs = Inr k"
  by (induction outs) simp_all

lemma check_token_rules_all:
  "(\<And>t. t \<in> set ts \<Longrightarrow> check_token_rules E ch (t, f t) = None) \<Longrightarrow>
     first_error (check_token_rules E ch) (zip ts (map f ts)) = None"
  by (induction ts) (simp_all add: first_error_None)

lemma check_stake_amounts_all:
  "(\<And>t. t \<in> set ts \<Longrightarrow> check_stake_amounts ch [t] = None) \<Longrightarrow> check_stake_amounts ch ts = None"
  unfolding check_stake_amounts_def by (cases "ch_validator_stake ch > 0") (simp_all add: first_error_None)

lemma template_fees:
  assumes fee: "\<And>t. t \<in> set ts \<Longrightarrow> tx_ready E ch t (f t)" and room: "sum_u64 f ts < 2 ^ 64"
  shows "validate_fees E (ch_db ch) 0 (sort_key k ts) = Inr (map f (sort_key k ts), sum_list (map f ts))"
proof -
  have perm: "mset (sort_key k ts) = mset ts" by simp
  show ?thesis
    using validate_fees_defined [of "sort_key k ts" E "ch_db ch" f 0] fee room sum_u64_perm [OF perm, of f] sum_list_perm [OF perm, of f]
    by (auto simp: tx_ready_def)
qed

lemma validateBlockState_template:
  assumes t: "block_template (en_crypto E) (chain_state_of ch) pool m timestamp = (h, txs)" "selected_txs pool m = ts"
    and fee: "\<And>t. t \<in> set ts \<Longrightarrow> tx_ready E ch t (f t)" and f: "total_fees (en_crypto E) pool ts = sum_list (map f ts)"
    and m: "miner_matches m ch" and h': "h_height h' = h_height h"
    and room: "unat (capped_reward m (ch_height ch + 1)) + sum_u64 f ts < 2 ^ 64"
  shows "validateBlockState E ch \<lparr>b_header = Some h', b_txs = txs\<rparr> = Inr 0"
proof -
  let ?r = "capped_reward m (ch_height ch + 1)" and ?fees = "sum_list (map f ts)"
  let ?cb = "BuildCoinbase (mi_addr m) (?r + ?fees) (ch_height ch + 1)" and ?rest = "sort_key (TxHash (en_crypto E)) ts"
  let ?b = "\<lparr>b_header = Some h', b_txs = txs\<rparr>"
  have txs: "txs = ?cb # ?rest" and hh: "h_height h' = ch_height ch + 1"
    using t h' f by (auto simp: block_template_def Let_def chain_state_of_def)
  have fees: "validate_fees E (ch_db ch) 0 ?rest = Inr (map f ?rest, ?fees)"
    using template_fees fee room by fastforce
  have exact: "unat (?r + ?fees) = unat ?r + unat ?fees"
    using room unat_sum_list_u64 [of f ts] by (simp add: unat_add_u64)
  have minted: "(if ?r + ?fees > ?fees then ?r + ?fees - ?fees else 0) \<le> ?r"
    by simp
  have total: "TotalOutputValue ?cb = Inr (?r + ?fees)"
    by (simp add: TotalOutputValue_def BuildCoinbase_def)
  have out: "\<not> is_register out" if "out \<in> set (concat (map tx_outputs txs))" for out
    using that fee by (auto simp: txs tx_ready_def BuildCoinbase_def is_register_def)
  have "checkCoinbaseMaturity (en_set E) (ch_db ch) ?b = None"
    using fee by (auto simp: checkCoinbaseMaturity_def first_error_None txs hh tx_ready_def BuildCoinbase_def
        check_maturity_input_def)
  moreover have "check_stake_amounts ch ?rest = None"
    by (rule check_stake_amounts_all) (use fee in \<open>auto simp: tx_ready_def\<close>)
  moreover have "check_extra_coinbase ?rest = None"
    using fee by (auto simp: check_extra_coinbase_def first_error_None tx_ready_def no_stray_input_def)
  moreover have "first_error (check_token_rules E ch) (zip ?rest (map f ?rest)) = None"
    by (rule check_token_rules_all) (use fee in \<open>auto simp: tx_ready_def\<close>)
  moreover have "check_coinbase_outputs ?cb = None"
    by (simp add: check_coinbase_outputs_def BuildCoinbase_def)
  moreover have "validateRegistrations E ch ?b = Inr 0"
    unfolding validateRegistrations_def by (rule no_registrations) (use out in auto)
  ultimately show ?thesis
    using fees minted total BuildCoinbase_coinbase capped_reward_matches [OF m, of "ch_height ch + 1"]
    by (simp add: validateBlockState_def txs hh check_def bindE_def Let_def)
qed

text \<open>
  The difficulty of the next block. The node gives the engine of a sub-chain this function when the
  difficulty is adjusted at all; the engine of a chain without adjustment keeps the initial one. (A
  division by zero panics in the code; the result 0 here is one that sealing refuses.)
\<close>

definition difficulty_fn :: "'s env \<Rightarrow> 's chain \<Rightarrow> pow \<Rightarrow> u64 \<Rightarrow> u64" where
  "difficulty_fn E ch w height =
     (if height \<le> 1 then pow_initial w
      else case GetBlockByHeight (en_db E) (ch_db ch) (height - 1) of
             None \<Rightarrow> pow_initial w
           | Some prev \<Rightarrow>
               (case ExpectedDifficulty w height (h_difficulty (hdr prev)) (getBlockTimestamp E ch) of
                  None \<Rightarrow> 0 | Some d \<Rightarrow> d))"

definition difficulty_wired :: "'s env \<Rightarrow> 's chain \<Rightarrow> pow \<Rightarrow> block \<Rightarrow> bool" where
  "difficulty_wired E ch w prev \<longleftrightarrow>
     (if pow_adjust w > 0 then pow_difficulty_fn w = Some (difficulty_fn E ch w)
      else pow_difficulty_fn w = None \<and> h_difficulty (hdr prev) \<in> {0, pow_initial w})"

lemma prepared_difficulty:
  assumes w: "difficulty_wired E ch w prev" and e: "ch_engine ch = EnginePoW w"
    and prev: "GetBlockByHeight (en_db E) (ch_db ch) (h_height h - 1) = Some prev"
    and d: "h_difficulty (PoW_Prepare w h) \<noteq> 0"
    and h': "h_height h' = h_height h" "h_difficulty h' = h_difficulty (PoW_Prepare w h)"
  shows "verifyDifficulty E ch h' = None"
proof (cases "h_height h > 1")
  case False
  then have "h_difficulty (PoW_Prepare w h) = pow_initial w"
    using w by (auto simp: PoW_Prepare_def difficulty_wired_def difficulty_fn_def split: if_splits)
  then show ?thesis using False by (simp add: verifyDifficulty_def e h' VerifyDifficulty_def ExpectedDifficulty_def)
next
  case high: True
  show ?thesis
  proof (cases "pow_adjust w > 0")
    case True
    then have "h_difficulty (PoW_Prepare w h) = difficulty_fn E ch w (h_height h)"
      using w by (simp add: PoW_Prepare_def difficulty_wired_def)
    then obtain x where "ExpectedDifficulty w (h_height h) (h_difficulty (hdr prev)) (getBlockTimestamp E ch) = Some x"
      "h_difficulty (PoW_Prepare w h) = x"
      using high prev d by (auto simp: difficulty_fn_def not_le [symmetric] split: option.splits)
    then show ?thesis using high prev by (simp add: verifyDifficulty_def e h' VerifyDifficulty_def)
  next
    case False
    then have "h_difficulty (PoW_Prepare w h) = pow_initial w" "h_difficulty (hdr prev) \<in> {0, pow_initial w}"
      "\<not> ShouldAdjust w (h_height h)" using w by (auto simp: PoW_Prepare_def difficulty_wired_def ShouldAdjust_def)
    then show ?thesis using high prev by (auto simp: verifyDifficulty_def e h' VerifyDifficulty_def ExpectedDifficulty_def)
  qed
qed

lemma produceBlock_difficulty:
  assumes "produceBlock C cancel (EnginePoW w) cs pool m timestamp = Inr b"
    and "block_template C cs pool m timestamp = (h, txs)"
  shows "h_difficulty (hdr b) = h_difficulty (PoW_Prepare w h) \<and> h_difficulty (PoW_Prepare w h) \<noteq> 0"
proof -
  have s: "SealWithCancel C cancel \<lparr>b_header = Some (PoW_Prepare w h), b_txs = txs\<rparr> = Inr b"
    using assms by (auto simp: produceBlock_def Engine_Prepare_def split: sum.splits)
  moreover from SealWithCancel_Inr [OF this] have "h_difficulty (hdr b) = h_difficulty (PoW_Prepare w h)" by auto
  moreover have "h_difficulty (PoW_Prepare w h) \<noteq> 0" using s by (auto simp: SealWithCancel_def)
  ultimately show ?thesis by simp
qed

text \<open>A block that passed all checks and trips no counter guard extends the tip.\<close>

context chain_env
begin

lemma accepted_extends:
  assumes a: "accepted_header E now b ch" and v: "validateBlockState E ch b = Inr 0"
    and s: "unat (ch_supply ch) + unat (computeBlockReward (en_set E) (ch_db ch) b) < 2 ^ 64"
    and d: "unat (ch_cumdiff ch) + unat (h_difficulty (hdr b)) < 2 ^ 64"
  shows "\<exists>ch'. ProcessBlock E now b ch = (ch', None) \<and> ch_tip ch' = BlockHash (en_crypto E) b \<and>
    ch_height ch' = h_height (hdr b) \<and> ch_supply ch' = ch_supply ch + computeBlockReward (en_set E) (ch_db ch) b"
proof -
  let ?r = "computeBlockReward (en_set E) (ch_db ch) b"
  have bv: "Block_Validate (en_crypto E) b = None" using a by (simp add: accepted_header_def ValidateBlock_None)
  have le: "cap_reward (ch_max_supply ch) (ch_supply ch) ?r \<le> ?r" by (auto simp: cap_reward_def)
  have "\<not> cap_reward (ch_max_supply ch) (ch_supply ch) ?r > max_u64 - ch_supply ch"
    using s le by (simp add: add_guard word_le_nat_alt)
  moreover have "\<not> h_difficulty (hdr b) > max_u64 - ch_cumdiff ch" using d by (simp add: add_guard)
  moreover obtain s' undo where "applyBlockWithUndo E b (ch_db ch) = (s', Some undo)"
    using applyBlock_accepted [OF v Block_Validate_distinct [OF bv]] by blast
  ultimately obtain ch1 u where c: "connect_block E b ch = (ch1, Inr u)"
    by (simp add: connect_block_def Let_def)
  have sup1: "ch_supply ch1 = ch_supply ch + ?r"
    using connect_block_accepted [OF v Block_Validate_distinct [OF bv] c] by auto
  have "\<exists>ch'. extend_tip E b ch = (ch', None) \<and> ch_tip ch' = BlockHash (en_crypto E) b \<and>
      ch_height ch' = h_height (hdr b) \<and> ch_supply ch' = ch_supply ch1"
    by (simp add: extend_tip_def v c Let_def addRegisteredSubChains_def set_tip_block_def)
  moreover have "ProcessBlock E now b ch = extend_tip E b ch"
    using a by (auto simp: ProcessBlock_def accepted_header_def Let_def and_then_None)
  ultimately show ?thesis using sup1 by simp
qed

end


text \<open>
  C23: A stray input stops the miner. Admission to the mempool ignores an input that names the
  zero outpoint, but a block may contain such an input in its coinbase only: while a pending
  transaction of this kind is selected, every block produced is invalid.
\<close>

theorem stray_input_stalls_miner:
  assumes "t \<in> set (selected_txs pool m)" and "i \<in> set (tx_inputs t)" and "in_prevout i = zero_outpoint"
    and b: "produceBlock C cancel e cs pool m timestamp = Inr b"
  shows "Block_Validate C b \<noteq> None"
proof
  obtain h txs where tm: "block_template C cs pool m timestamp = (h, txs)" by fastforce
  then have "set (tl txs) = set (selected_txs pool m)" "txs \<noteq> []" by (auto simp: block_template_def Let_def)
  moreover obtain h' where "b = \<lparr>b_header = Some h', b_txs = txs\<rparr>" using produceBlock_Inr [OF b tm] by blast
  moreover assume "Block_Validate C b = None"
  ultimately have "check_single_coinbase (tl txs) = None" "t \<in> set (tl txs)"
    using assms(1) by (auto simp: Block_Validate_def err_simps Let_def split: list.splits)
  then show False using assms(2,3) by (auto simp: check_single_coinbase_def first_error_None split: if_splits)
qed

text \<open>
  Without issuance there are no empty blocks. When the reward is 0, because the maximum
  supply is reached or the subsidy has halved away, and no fees are paid, the coinbase has an
  output of value 0, which no valid transaction has: the block produced is invalid.
\<close>

theorem exhausted_supply_stalls_miner:
  assumes "capped_reward m (cs_height cs + 1) + total_fees C pool (selected_txs pool m) = 0"
    and b: "produceBlock C cancel e cs pool m timestamp = Inr b"
  shows "Block_Validate C b \<noteq> None"
proof
  obtain h txs where tm: "block_template C cs pool m timestamp = (h, txs)" by fastforce
  let ?cb = "BuildCoinbase (mi_addr m) 0 (cs_height cs + 1)"
  have "?cb \<in> set txs" using tm assms(1) by (auto simp: block_template_def Let_def)
  moreover obtain h' where "b = \<lparr>b_header = Some h', b_txs = txs\<rparr>" using produceBlock_Inr [OF b tm] by blast
  moreover assume "Block_Validate C b = None"
  ultimately have "Validate ?cb = None"
    by (auto simp: Block_Validate_def err_simps Let_def validate_tx_in_block_def first_error_None split: list.splits)
  then show False by (simp add: Validate_None BuildCoinbase_def output_ok_def)
qed

section \<open>A sample miner\<close>

lemma demo_produce: "\<exists>b. produceBlock C (\<lambda>_. False) demo_engine cs pool m timestamp = Inr b"
proof -
  obtain h txs where t: "block_template C cs pool m timestamp = (h, txs)" by fastforce
  have "meets C pre (pow_target 1) 0" for pre
    using unsigned_less [of "Hash C (pre @ le_bytes 8 (0 :: u64))", where 'a = nat]
    by (simp add: meets_def pow_target_def maxUint256_def)
  then have "seal_loop C pre (pow_target 1) (\<lambda>_. False) 0 = Inr 0" for pre
    by (simp add: seal_loop.simps [of C pre "pow_target 1" "\<lambda>_. False" 0])
  then show ?thesis
    by (simp add: produceBlock_def t demo_engine_def Engine_Prepare_def PoW_Prepare_def SealWithCancel_def
        sealSingle_def bindE_def)
qed

definition demo_miner :: miner where
  "demo_miner = Miner_New 0xaa 20 1000 (Some 900)"

lemma demo_start_height_block: "GetBlockByHeight MemoryDB (ch_db demo_start) 0 = Some demo_genesis_block"
proof -
  obtain bs where m: "main_path MemoryDB demo_crypto demo_start bs"
    using root_chain.run_invariant [OF demo_run_start [unfolded demo_env_def]] demo_genesis_valid
    by (auto simp: fun_eq_iff demo_genesis_def env_on_def)
  then have l: "length bs = 1" by (simp add: main_path_def del: demo_start_fields(1))
  then have "last bs = bs ! 0" by (cases bs) auto
  then have "BlockHash demo_crypto (bs ! 0) = 1" using m by (simp add: main_path_def del: demo_start_fields(1))
  moreover have "GetBlockByHeight MemoryDB (ch_db demo_start) (word_of_nat 0) = Some (bs ! 0) \<and>
      GetBlock MemoryDB (ch_db demo_start) (BlockHash demo_crypto (bs ! 0)) = Some (bs ! 0)"
    using m l unfolding main_path_def by fastforce
  ultimately show ?thesis using demo_start_genesis_block by (simp del: demo_start_fields(1))
qed

lemma demo_genesis_difficulty: "h_difficulty (hdr demo_genesis_block) = 0"
proof -
  obtain cb where e: "demo_genesis_block = \<lparr>b_header = Some \<lparr>h_version = CurrentVersion, h_prev = 0,
      h_merkle = ComputeMerkleRoot demo_crypto [TxHash demo_crypto cb], h_timestamp = gen_timestamp demo_genesis,
      h_height = 0, h_difficulty = 0, h_nonce = 0, h_sig = []\<rparr>, b_txs = [cb]\<rparr>"
    using demo_genesis_Inr by (auto simp: CreateGenesisBlock_def bindE_Inr eq_commute [of _ demo_genesis_block])
  show ?thesis by (simp add: e)
qed

lemma demo_select_empty: "SelectForBlock (\<lambda>bs. bs) n (Pool_New 0) = []"
  using SelectForBlock_sound(3) [OF pool_ok_New fair_id, of n 0] by simp


definition demo_stray_tx :: transaction where
  "demo_stray_tx = demo_tx\<lparr>tx_inputs := [demo_input, \<lparr>in_prevout = zero_outpoint, in_sig = [], in_pubkey = []\<rparr>]\<rparr>"

lemma demo_stray_admit: "admit toy_crypto demo_view demo_stray_tx (Pool_New 0) = Inr 10"
proof -
  have "Validate demo_stray_tx = None"
    by (simp add: demo_stray_tx_def demo_tx_defs Validate_None output_ok_def validateOutputScript_def MaxScriptData_def)
  moreover have "VerifySignatures toy_crypto demo_stray_tx = None"
    by (simp add: VerifySignatures_def demo_stray_tx_def demo_tx_defs VerifySignature_def toy_crypto_def)
  ultimately have "ValidateWithUTXOs toy_crypto demo_provider demo_stray_tx = Inr 10"
    using demo_key_address by (simp add: ValidateWithUTXOs_def)
      (simp add: demo_stray_tx_def demo_tx_defs demo_provider_def check_unlock_def TotalOutputValue_def check_def)
  moreover have "check_conflict (Pool_New 0) i = None" for i by (simp add: check_conflict_def)
  moreover have "\<not> HasMintOutput demo_stray_tx" by (simp add: HasMintOutput_def demo_stray_tx_def demo_tx_defs)
  ultimately show ?thesis
    by (simp add: admit_def demo_view_def first_error_None [THEN iffD2] Pool_New_def check_def DAList.lookup_empty)
qed

theorem stray_input_stalls_miner_witness:
  "\<exists>p b. Pool_Add toy_crypto (\<lambda>bs. bs) demo_view demo_stray_tx (Pool_New 0) = (p, Inr 10) \<and>
     produceBlock toy_crypto (\<lambda>_. False) demo_engine (chain_state_of demo_start) (Some (pool_selector (\<lambda>bs. bs) p))
       demo_miner 1770734110 = Inr b \<and> Block_Validate toy_crypto b \<noteq> None"
proof -
  let ?p = "fst (Pool_Add toy_crypto (\<lambda>bs. bs) demo_view demo_stray_tx (Pool_New 0))"
  have a: "Pool_Add toy_crypto (\<lambda>bs. bs) demo_view demo_stray_tx (Pool_New 0) = (?p, Inr 10)"
    using demo_stray_admit by (simp add: Pool_Add_def Let_def not_le [THEN iffD2])
  have run: "pool_run toy_crypto ?p" by (intro pool_run.intros) simp
  have l: "DAList.lookup (po_txs ?p) h = (if h = TxHash toy_crypto demo_stray_tx then
      Some \<lparr>me_tx = demo_stray_tx, me_hash = h, me_fee = 10, me_rate = fee_rate 10 (length (SigningBytes demo_stray_tx))\<rparr>
      else None)" for h
    using demo_stray_admit by (simp add: Pool_Add_def Let_def not_le [THEN iffD2] insert_entry_def lookup_update_fun)
  have "dom (DAList.lookup (po_txs ?p)) = {TxHash toy_crypto demo_stray_tx}" by (auto simp: l dom_def)
  then have "length (SelectForBlock (\<lambda>bs. bs) 499 ?p) = 1"
    using SelectForBlock_sound(3) [OF pool_run_ok [OF run] fair_id, of 499] by (simp add: Pool_Count_card)
  then obtain t where t: "SelectForBlock (\<lambda>bs. bs) 499 ?p = [t]" by (auto simp: length_Suc_conv)
  then have "Pool_Get ?p (TxHash toy_crypto t) = Some t"
    using SelectForBlock_sound(4) [OF pool_run_ok [OF run] fair_id, of t 499] by simp
  then have "t = demo_stray_tx" by (auto simp: Pool_Get_def l split: if_splits)
  then have s: "demo_stray_tx \<in> set (selected_txs (Some (pool_selector (\<lambda>bs. bs) ?p)) demo_miner)"
    using t by (simp add: selected_txs_def pool_selector_def demo_miner_def Miner_New_def MaxBlockTxs_def)
  obtain b where b: "produceBlock toy_crypto (\<lambda>_. False) demo_engine (chain_state_of demo_start)
      (Some (pool_selector (\<lambda>bs. bs) ?p)) demo_miner 1770734110 = Inr b" using demo_produce by blast
  have "Block_Validate toy_crypto b \<noteq> None"
    by (rule stray_input_stalls_miner [OF s _ _ b, of "\<lparr>in_prevout = zero_outpoint, in_sig = [], in_pubkey = []\<rparr>"])
       (simp_all add: demo_stray_tx_def)
  then show ?thesis using a b by blast
qed

theorem exhausted_supply_stalls_miner_witness:
  "\<exists>b. produceBlock demo_crypto (\<lambda>_. False) demo_engine (chain_state_of demo_start) None
     (Miner_New 0xaa 20 1000 (Some 1000)) 1770734110 = Inr b \<and> Block_Validate demo_crypto b \<noteq> None"
proof -
  obtain b where b: "produceBlock demo_crypto (\<lambda>_. False) demo_engine (chain_state_of demo_start) None
     (Miner_New 0xaa 20 1000 (Some 1000)) 1770734110 = Inr b" using demo_produce by blast
  have "capped_reward (Miner_New 0xaa 20 1000 (Some 1000)) (cs_height (chain_state_of demo_start) + 1) = 0"
    by (simp add: Miner_New_def capped_reward_def Let_def)
  then show ?thesis using exhausted_supply_stalls_miner [OF _ b] b by (simp add: total_fees_def selected_txs_def)
qed

end
