(* ===== verification/SubChains.thy ===== *)
theory SubChains
  imports Registration Miner
begin

text \<open>
  Sub-chains (\<open>internal/subchain\<close>): spawning a chain with its engine and mempool behind a key
  prefix of the parent database, and the manager that reacts to registrations and their
  reversal, and restores the chains at start-up.
\<close>

section \<open>Spawning\<close>

text \<open>The adapter over a UTXO set that the mempool of a sub-chain reads (\<open>internal/miner\<close>).\<close>

definition UTXOAdapter :: "'s utxo_set_ops \<Rightarrow> 's \<Rightarrow> utxo_provider" where
  "UTXOAdapter U s =
     \<lparr>GetUTXO = (\<lambda>x. case us_get U s x of None \<Rightarrow> None | Some u \<Rightarrow> Some (u_value u, u_script u)),
      HasUTXO = us_has U s\<rparr>"

text \<open>The prefix \<open>sc/<hex of the id>/\<close>.\<close>

definition chain_prefix :: "hash \<Rightarrow> bytes" where
  "chain_prefix i = ascii ''sc/'' @ ascii (hex_encode (hash_bytes i)) @ ascii ''/''"

datatype spawn_error =
    NilRegistration | DecodeValidator | NewPoAFailed poa_error | NewPoWFailed pow_error
  | UnsupportedConsensus | CreateChain chain_error | InitGenesis chain_error

definition buildGenesis :: "hash \<Rightarrow> registration_data \<Rightarrow> u64 \<Rightarrow> genesis" where
  "buildGenesis i reg createdAt =
     \<lparr>gen_chain_id = hash_string i, gen_chain_name = rd_name reg, gen_symbol = rd_symbol reg,
      gen_timestamp = createdAt, gen_extra_data = [], gen_alloc = [],
      gen_protocol = \<lparr>
        pc_consensus = \<lparr>cr_type = rd_consensus reg, cr_block_time = rd_block_time reg,
          cr_validators = rd_validators reg, cr_initial_difficulty = rd_initial_difficulty reg,
          cr_difficulty_adjust = rd_difficulty_adjust reg, cr_block_reward = rd_block_reward reg,
          cr_max_supply = rd_max_supply reg, cr_halving_interval = 0,
          cr_min_fee_rate = rd_min_fee_rate reg, cr_validator_stake = rd_validator_stake reg\<rparr>,
        pc_subchain = \<lparr>sr_enabled = False, sr_max_depth = 0, sr_max_per_parent = 0, sr_anchor_interval = 0,
          sr_require_anchors = False, sr_anchor_timeout = 0, sr_min_deposit = 0, sr_allow_pow = False,
          sr_default_consensus = UnknownConsensus []\<rparr>,
        pc_token = \<lparr>tr_max_tokens_per_utxo = 1, tr_allow_minting = True\<rparr>\<rparr>\<rparr>"

fun decode_validators :: "string list \<Rightarrow> bytes list option" where
  "decode_validators [] = Some []"
| "decode_validators (v # vs) =
     (case hex_decode v of None \<Rightarrow> None | Some b \<Rightarrow> map_option ((#) b) (decode_validators vs))"

definition buildEngine :: "registration_data \<Rightarrow> spawn_error + engine" where
  "buildEngine reg =
     (case rd_consensus reg of
        ConsensusPoA \<Rightarrow>
          (case decode_validators (rd_validators reg) of
             None \<Rightarrow> Inl DecodeValidator
           | Some vs \<Rightarrow> (case NewPoA vs (rd_block_time reg) of Inl e \<Rightarrow> Inl (NewPoAFailed e) | Inr p \<Rightarrow> Inr (EnginePoA p)))
      | ConsensusPoW \<Rightarrow>
          (case NewPoW (rd_initial_difficulty reg) (rd_difficulty_adjust reg) (rd_block_time reg) of
             Inl e \<Rightarrow> Inl (NewPoWFailed e) | Inr p \<Rightarrow> Inr (EnginePoW p))
      | UnknownConsensus _ \<Rightarrow> Inl UnsupportedConsensus)"

text \<open>
  What \<open>Spawn\<close> returns. The database and the UTXO store of the sub-chain are those of
  \<open>sub_env\<close>; the state of the shared parent database after spawning is \<open>ch_db\<close> of the chain.
\<close>

record 's spawned =
  sp_chain :: "'s chain"
  sp_pool :: pool
  sp_engine :: engine
  sp_genesis :: genesis

definition sub_env ::
  "crypto \<Rightarrow> (bytes \<Rightarrow> registration_data option) \<Rightarrow> ('s, dbval) kvdb \<Rightarrow> hash \<Rightarrow> genesis \<Rightarrow> 's env" where
  "sub_env C unmarshal D i gen =
     env_on (PrefixDB D (chain_prefix i)) C
       (Some (NewRegistrationValidator unmarshal (Some (pc_subchain (gen_protocol gen))))) (\<lambda>_. None)"

text \<open>The stake checker on the sub-chain's own UTXO store.\<close>

definition with_stake_checker :: "registration_data \<Rightarrow> engine \<Rightarrow> engine" where
  "with_stake_checker reg e =
     (case e of
        EnginePoA p \<Rightarrow> if rd_validator_stake reg > 0 then EnginePoA (p\<lparr>poa_min_stake := Some (rd_validator_stake reg)\<rparr>) else e
      | EnginePoW p \<Rightarrow> e)"

definition spawn_pool :: "registration_data \<Rightarrow> genesis \<Rightarrow> pool" where
  "spawn_pool reg gen =
     (let p = SetMintingAllowed (tr_allow_minting (pc_token (gen_protocol gen)))
                (SetCoinbaseMaturity CoinbaseMaturity True (SetMinFeeRate (rd_min_fee_rate reg) (Pool_New 0)))
      in if rd_validator_stake reg > 0 then SetStakeAmount (rd_validator_stake reg) p else p)"

definition Spawn ::
  "crypto \<Rightarrow> (bytes \<Rightarrow> registration_data option) \<Rightarrow> ('s, dbval) kvdb \<Rightarrow> hash \<Rightarrow> registration_data option \<Rightarrow>
   u64 \<Rightarrow> 's \<Rightarrow> spawn_error + 's spawned" where
  "Spawn C unmarshal D i regp createdAt s =
     (case regp of
        None \<Rightarrow> Inl NilRegistration
      | Some reg \<Rightarrow>
         (let gen = buildGenesis i reg createdAt; E = sub_env C unmarshal D i gen in
          bindE (buildEngine reg) (\<lambda>e0.
            let e = with_stake_checker reg e0 in
            case NewChain E e s of
              Inl er \<Rightarrow> Inl (CreateChain er)
            | Inr ch0 \<Rightarrow>
               (let ch1 = SetTokenRules (pc_token (gen_protocol gen))
                            (SetConsensusRules (pc_consensus (gen_protocol gen)) ch0);
                    result = (\<lambda>ch. \<lparr>sp_chain = ch, sp_pool = spawn_pool reg gen, sp_engine = e, sp_genesis = gen\<rparr>)
                in if chain_is_genesis ch1 then
                     (case InitFromGenesis E gen ch1 of Inl er \<Rightarrow> Inl (InitGenesis er) | Inr ch \<Rightarrow> Inr (result ch))
                   else Inr (result ch1)))))"

section \<open>The manager\<close>

text \<open>
  The calls of the spawn and stop handlers are a log, made when a handler is installed. The
  parent database is shared by the manager, the root chain and the sub-chains; \<open>mg_db\<close> is its
  state. (When \<open>Spawn\<close> fails, a repair of the sub-chain that \<open>chain.New\<close> began stays on disk;
  the model leaves the database as it was.)
\<close>

datatype manager_event = SpawnCalled hash | StopCalled hash

record 's manager =
  mg_db :: 's
  mg_registry :: registry
  mg_chains :: "(hash, 's spawned) alist"
  mg_log :: "manager_event list"

record 's manager_config =
  mc_crypto :: crypto
  mc_unmarshal :: "bytes \<Rightarrow> registration_data option"
  mc_db :: "('s, dbval) kvdb"
  mc_parent :: hash
  mc_rules :: subchain_rules
  mc_filter :: "sync_filter option"
  mc_spawn_handler :: bool
  mc_stop_handler :: bool

datatype manager_error =
    InvalidRegistration registration_error | ParseRegistration | SubChainExists
  | RegisterFailed registry_error | SpawnFailed spawn_error | LoadFailed registry_error

definition NewManager :: "('s, dbval) kvdb option \<Rightarrow> subchain_rules option \<Rightarrow> 's \<Rightarrow> 's manager option" where
  "NewManager dbp rulesp s =
     (if dbp = None \<or> rulesp = None then None
      else Some \<lparr>mg_db = s, mg_registry = DAList.empty, mg_chains = DAList.empty, mg_log = []\<rparr>)"

text \<open>Spawning as the manager does it, at a registration and at start-up.\<close>

definition spawn_into ::
  "'s manager_config \<Rightarrow> hash \<Rightarrow> registration_data \<Rightarrow> u64 \<Rightarrow> 's manager \<Rightarrow> 's manager \<times> manager_error option" where
  "spawn_into M i reg createdAt m =
     (case Spawn (mc_crypto M) (mc_unmarshal M) (mc_db M) i (Some reg) createdAt (mg_db m) of
        Inl e \<Rightarrow> (m, Some (SpawnFailed e))
      | Inr sp \<Rightarrow>
          (m\<lparr>mg_db := ch_db (sp_chain sp), mg_chains := DAList.update i sp (mg_chains m),
             mg_log := mg_log m @ (if mc_spawn_handler M then [SpawnCalled i] else [])\<rparr>, None))"

definition HandleRegistration ::
  "'s manager_config \<Rightarrow> hash \<Rightarrow> u32 \<Rightarrow> u64 \<Rightarrow> bytes \<Rightarrow> u64 \<Rightarrow> 's manager \<Rightarrow> 's manager \<times> manager_error option" where
  "HandleRegistration M txHash outputIndex value scriptData height m =
     (let out = \<lparr>out_value = value, out_script = \<lparr>sc_type = ScriptTypeRegister, sc_data = scriptData\<rparr>, out_token = None\<rparr>;
          cnt = word_of_nat (Registry_Count (mg_registry m))
      in case ValidateRegistrationTx (mc_unmarshal M) out (Some (mc_rules M)) cnt 0 of
           Some e \<Rightarrow> (m, Some (InvalidRegistration e))
         | None \<Rightarrow>
            (case mc_unmarshal M scriptData of
               None \<Rightarrow> (m, Some ParseRegistration)
             | Some rd \<Rightarrow>
                (let i = DeriveChainID (mc_crypto M) txHash outputIndex in
                 if Registry_Has (mg_registry m) i then (m, Some SubChainExists)
                 else case Register \<lparr>su_id = i, su_parent = mc_parent M, su_name = rd_name rd,
                             su_symbol = rd_symbol rd, su_created_at = height, su_registration_tx = txHash,
                             su_output_index = outputIndex, su_registration = rd\<rparr> (mg_registry m) of
                        Inl e \<Rightarrow> (m, Some (RegisterFailed e))
                      | Inr r \<Rightarrow>
                         (let m1 = m\<lparr>mg_registry := r, mg_db := SaveTo (mc_db M) r (mg_db m)\<rparr>
                          in if \<not> ShouldSync (mc_filter M) i then (m1, None)
                             else spawn_into M i rd height m1))))"

definition HandleDeregistration :: "'s manager_config \<Rightarrow> hash \<Rightarrow> u32 \<Rightarrow> 's manager \<Rightarrow> 's manager" where
  "HandleDeregistration M txHash outputIndex m =
     (let i = DeriveChainID (mc_crypto M) txHash outputIndex;
          m1 = m\<lparr>mg_log := mg_log m @ (if mc_stop_handler M then [StopCalled i] else [])\<rparr>;
          m2 = (case DAList.lookup (mg_chains m1) i of
                  None \<Rightarrow> m1
                | Some sp \<Rightarrow> m1\<lparr>mg_db := PrefixDB_DeleteAll (mc_db M) (chain_prefix i) (mg_db m1),
                               mg_chains := DAList.delete i (mg_chains m1)\<rparr>)
      in m2\<lparr>mg_registry := Unregister i (mg_registry m2), mg_db := DeleteFrom (mc_db M) i (mg_db m2)\<rparr>)"

definition GetChain :: "'s manager \<Rightarrow> hash \<Rightarrow> 's spawned option" where
  "GetChain m i = DAList.lookup (mg_chains m) i"

definition ListChains :: "'s manager \<Rightarrow> sub_chain list" where
  "ListChains m = Registry_List (mg_registry m)"

definition Manager_Count :: "'s manager \<Rightarrow> nat" where
  "Manager_Count m = Registry_Count (mg_registry m)"

definition SyncedCount :: "'s manager \<Rightarrow> nat" where
  "SyncedCount m = length (DAList.impl_of (mg_chains m))"

text \<open>Re-spawning in the order in which Go iterates over the loaded registry.\<close>

fun restore_loop :: "'s manager_config \<Rightarrow> sub_chain list \<Rightarrow> 's manager \<Rightarrow> 's manager \<times> manager_error option" where
  "restore_loop M [] m = (m, None)"
| "restore_loop M (sc # scs) m =
     (let m1 = m\<lparr>mg_registry := DAList.update (su_id sc) sc (mg_registry m)\<rparr>
      in if \<not> ShouldSync (mc_filter M) (su_id sc) then restore_loop M scs m1
         else case spawn_into M (su_id sc) (su_registration sc) (su_created_at sc) m1 of
                (m2, Some e) \<Rightarrow> (m2, Some e)
              | (m2, None) \<Rightarrow> restore_loop M scs m2)"

definition RestoreChains ::
  "'s manager_config \<Rightarrow> (sub_chain list \<Rightarrow> sub_chain list) \<Rightarrow> 's manager \<Rightarrow> 's manager \<times> manager_error option" where
  "RestoreChains M order m =
     (case LoadRegistry (mc_db M) (mg_db m) of
        Inl e \<Rightarrow> (m, Some (LoadFailed e))
      | Inr loaded \<Rightarrow> restore_loop M (order (Registry_List loaded)) m)"

section \<open>Key spaces\<close>

lemma length_chain_prefix: "length (chain_prefix i) = 68"
  by (simp add: chain_prefix_def length_hex_encode enc_length)

lemma chain_prefix_inject [simp]: "chain_prefix i = chain_prefix j \<longleftrightarrow> i = j"
proof
  assume "chain_prefix i = chain_prefix j"
  then have "hex_encode (hash_bytes i) = hex_encode (hash_bytes j)" by (simp add: chain_prefix_def)
  then show "i = j" by (metis hex_roundtrip hash_bytes_inject option.inject)
qed simp

lemma chain_spaces_disjoint: "i \<noteq> j \<Longrightarrow> \<not> prefix (chain_prefix i) (chain_prefix j @ k)"
  by (auto simp: prefix_def append_eq_append_conv length_chain_prefix dest!: append_eq_append_conv [THEN iffD1, rotated])

lemma chain_prefix_start: "prefix (chain_prefix i) k \<Longrightarrow> take 3 k = [115, 99, 47]"
  by (auto simp: prefix_def chain_prefix_def ascii_def)

lemma outside_chain_prefix: "take 3 k \<noteq> [115, 99, 47] \<Longrightarrow> \<not> prefix (chain_prefix i) k"
  using chain_prefix_start by blast

lemma root_keys_outside:
  "\<not> prefix (chain_prefix i) (registryKey j)" "\<not> prefix (chain_prefix i) (blockKey h)"
  "\<not> prefix (chain_prefix i) (heightKey n)" "\<not> prefix (chain_prefix i) (txKey h)"
  "\<not> prefix (chain_prefix i) (undoKey h)" "\<not> prefix (chain_prefix i) (tokenKey h)"
  "k \<in> {keyTipHash, keyHeight, keySupply, keyCumDifficulty, keyReorgCheckpoint} \<Longrightarrow> \<not> prefix (chain_prefix i) k"
  by (rule outside_chain_prefix, force simp: registryKey_def prefixRegistry_def chain_keys tokenKey_def prefixToken_def)+

lemma utxo_space_outside: "utxo_space k \<Longrightarrow> \<not> prefix (chain_prefix i) k"
  by (rule outside_chain_prefix) (auto simp: utxo_space_def prefixUTXO_def prefixAddr_def prefixStake_def prefix_def)

section \<open>Spawning stays within its key space\<close>

context doc_store
begin

lemma outside_put: "\<not> prefix p k \<Longrightarrow> view (kv_put (PrefixDB D p) k' v s) k = view s k"
  by (auto simp: PrefixDB_def prefixed_def put)

lemma outside_delete: "\<not> prefix p k \<Longrightarrow> view (kv_delete (PrefixDB D p) k' s) k = view s k"
  by (auto simp: PrefixDB_def prefixed_def delete)

lemma outside_Store_Put: "\<not> prefix p k \<Longrightarrow> view (Store_Put (PrefixDB D p) u s) k = view s k"
  by (simp add: Store_Put_def Let_def outside_put split: option.split)

lemma outside_Store_Delete: "\<not> prefix p k \<Longrightarrow> view (Store_Delete (PrefixDB D p) x s) k = view s k"
  by (simp add: Store_Delete_def Let_def outside_delete split: option.split)

lemma outside_create_outputs:
  "\<not> prefix p k \<Longrightarrow> view (create_outputs (UtxoStore (PrefixDB D p)) h n cb lk outs s) k = view s k"
proof -
  assume "\<not> prefix p k"
  then have "view (fold (Store_Put (PrefixDB D p)) us s) k = view s k" for us
    by (induction us arbitrary: s) (simp_all add: outside_Store_Put)
  then show ?thesis by (simp add: create_outputs_def UtxoStore_def)
qed

lemma outside_spend_inputs: "\<not> prefix p k \<Longrightarrow> view (spend_inputs (UtxoStore (PrefixDB D p)) is s) k = view s k"
  by (induction "is" arbitrary: s) (simp_all add: UtxoStore_def outside_Store_Delete)

lemma outside_applyBlock:
  "en_set E = UtxoStore (PrefixDB D p) \<Longrightarrow> \<not> prefix p k \<Longrightarrow> view (applyBlock E b s) k = view s k"
proof -
  assume e: "en_set E = UtxoStore (PrefixDB D p)" and k: "\<not> prefix p k"
  have "view (fold (\<lambda>(j, t) s. create_outputs (en_set E) (TxHash (en_crypto E) t) (h_height (hdr b))
      (j = 0 \<and> h_height (hdr b) > 0) 0 (tx_outputs t) (spend_inputs (en_set E) (tx_inputs t) s)) jts s) k = view s k" for jts
    by (induction jts arbitrary: s) (auto simp: e k outside_create_outputs outside_spend_inputs)
  then show ?thesis by (simp add: applyBlock_def)
qed

lemma outside_PutBlock: "\<not> prefix p k \<Longrightarrow> view (PutBlock (PrefixDB D p) C b s) k = view s k"
proof -
  assume k: "\<not> prefix p k"
  have "view (fold (\<lambda>t. kv_put (PrefixDB D p) (f t) v) ts s) k = view s k" for ts s and f :: "transaction \<Rightarrow> bytes" and v
    by (induction ts arbitrary: s) (simp_all add: outside_put [OF k])
  then show ?thesis by (simp add: PutBlock_def Let_def outside_put [OF k])
qed

lemma outside_InitFromGenesis:
  assumes "en_set E = UtxoStore (PrefixDB D p)" and "en_db E = PrefixDB D p" and "\<not> prefix p k"
    and "InitFromGenesis E gen ch = Inr ch'"
  shows "view (ch_db ch') k = view (ch_db ch) k"
proof -
  from assms(4) obtain a b n where "ch_db ch' = SetTip (PrefixDB D p) a 0 n (PutBlock (PrefixDB D p) (en_crypto E) b
      (applyBlock E b (ch_db ch)))"
    by (cases "CreateGenesisBlock (en_crypto E) gen")
      (auto simp: InitFromGenesis_def err_simps Let_def assms(2) eq_commute [of _ ch'] split: if_splits)
  then show ?thesis
    using assms(3) by (simp add: SetTip_def outside_put outside_PutBlock outside_applyBlock [OF assms(1)])
qed

end

section \<open>A spawned chain\<close>

lemma first_error_validators:
  "first_error check_validator_key vs = None \<Longrightarrow> \<exists>bs. decode_validators vs = Some bs \<and> length bs = length vs \<and>
     (\<forall>b \<in> set bs. length b = 33)"
  by (induction vs) (auto simp: and_then_None check_validator_key_def split: option.splits if_splits)

lemma buildEngine_defined:
  assumes "ValidateRegistrationData reg rules = None"
  shows "\<exists>e. buildEngine reg = Inr e"
proof (cases "rd_consensus reg")
  case ConsensusPoA
  then have "rd_validators reg \<noteq> []" "first_error check_validator_key (rd_validators reg) = None" "rd_block_time reg \<ge> 1"
    using assms by (auto simp: ValidateRegistrationData_def check_consensus_def err_simps split: if_splits)
  then show ?thesis using first_error_validators [of "rd_validators reg"] ConsensusPoA
    by (auto simp: buildEngine_def NewPoA_def Let_def)
next
  case ConsensusPoW
  then have "rd_initial_difficulty reg \<noteq> 0"
    using assms by (auto simp: ValidateRegistrationData_def check_consensus_def err_simps split: if_splits)
  then show ?thesis using ConsensusPoW by (simp add: buildEngine_def NewPoW_def)
next
  case (UnknownConsensus c)
  then show ?thesis using assms by (auto simp: ValidateRegistrationData_def check_consensus_def err_simps split: if_splits)
qed

lemma buildGenesis_valid:
  assumes "ValidateRegistrationData reg rules = None"
  shows "Genesis_Validate (buildGenesis i reg h) = None"
proof -
  have "length (hash_string i) = 64" by (simp add: hash_string_def length_hex_encode enc_length)
  then have "hash_string i \<noteq> []" by auto
  moreover have "rd_block_time reg \<ge> 1" "rd_block_reward reg \<noteq> 0"
    using assms by (auto simp: ValidateRegistrationData_def err_simps split: if_splits)
  moreover have "check_consensus_type (pc_consensus (gen_protocol (buildGenesis i reg h))) = None"
    using assms by (auto simp: ValidateRegistrationData_def check_consensus_def err_simps check_consensus_type_def
        buildGenesis_def split: consensus_type.splits if_splits)
  moreover have "check_subchain_rules (pc_subchain (gen_protocol (buildGenesis i reg h))) = None"
    by (simp add: buildGenesis_def check_subchain_rules_def)
  ultimately show ?thesis
    by (simp add: Genesis_Validate_def Let_def and_then_None) (simp add: buildGenesis_def)
qed

lemma InitFromGenesis_rules:
  "InitFromGenesis E gen (SetTokenRules tr (SetConsensusRules cr ch)) = InitFromGenesis E gen ch"
  by (cases ch) (simp add: InitFromGenesis_def SetTokenRules_def SetConsensusRules_def chain_is_genesis_def
      bindE_def Let_def split: sum.split)

lemma chain_is_genesis_rules [simp]:
  "chain_is_genesis (SetTokenRules tr (SetConsensusRules cr ch)) = chain_is_genesis ch"
  by (simp add: SetTokenRules_def SetConsensusRules_def chain_is_genesis_def)

text \<open>Spawning into an empty key space is the start of a chain.\<close>

lemma Spawn_fresh:
  assumes s: "\<And>k. DAList.lookup s (chain_prefix i @ k) = None"
    and sp: "Spawn C unmarshal MemoryDB i (Some reg) h s = Inr sp"
  shows "\<exists>eng ch0. NewChain (sub_env C unmarshal MemoryDB i (buildGenesis i reg h)) eng s = Inr ch0 \<and>
      InitFromGenesis (sub_env C unmarshal MemoryDB i (buildGenesis i reg h)) (buildGenesis i reg h) ch0 = Inr (sp_chain sp)"
    and "\<not> prefix (chain_prefix i) k \<Longrightarrow> DAList.lookup (ch_db (sp_chain sp)) k = DAList.lookup s k"
    and "sp_pool sp = spawn_pool reg (buildGenesis i reg h)" and "sp_genesis sp = buildGenesis i reg h"
proof -
  let ?gen = "buildGenesis i reg h"
  let ?E = "sub_env C unmarshal MemoryDB i ?gen"
  have e: "(\<lambda>k. DAList.lookup s (chain_prefix i @ k)) = Map.empty" using s by (simp add: fun_eq_iff)
  from sp obtain e0 where e0: "buildEngine reg = Inr e0" by (auto simp: Spawn_def Let_def bindE_Inr)
  with sp obtain ch0 where ch0: "NewChain ?E (with_stake_checker reg e0) s = Inr ch0"
    by (cases "NewChain ?E (with_stake_checker reg e0) s") (simp_all add: Spawn_def Let_def bindE_def)
  have f: "ch_db ch0 = s" "chain_is_genesis ch0"
    using sub_chain.NewChain_empty [OF e ch0 [unfolded sub_env_def]] by (auto simp: chain_is_genesis_def is_zero_hash_def)
  then have r: "(case InitFromGenesis ?E ?gen ch0 of Inl er \<Rightarrow> Inl (InitGenesis er) | Inr ch \<Rightarrow>
      Inr \<lparr>sp_chain = ch, sp_pool = spawn_pool reg ?gen, sp_engine = with_stake_checker reg e0, sp_genesis = ?gen\<rparr>) = Inr sp"
    using sp e0 ch0 by (simp add: Spawn_def Let_def bindE_def InitFromGenesis_rules)
  from r have i: "InitFromGenesis ?E ?gen ch0 = Inr (sp_chain sp)" and p: "sp_pool sp = spawn_pool reg ?gen" "sp_genesis sp = ?gen"
    by (auto split: sum.splits)
  show "\<exists>eng ch0. NewChain ?E eng s = Inr ch0 \<and> InitFromGenesis ?E ?gen ch0 = Inr (sp_chain sp)" using ch0 i by blast
  show "sp_pool sp = spawn_pool reg ?gen" "sp_genesis sp = ?gen" by (rule p)+
  show "DAList.lookup (ch_db (sp_chain sp)) k = DAList.lookup s k" if "\<not> prefix (chain_prefix i) k"
    using mem.outside_InitFromGenesis [OF _ _ that i] f(1) by (simp add: sub_env_def env_on_def)
qed

context chain_env
begin

lemma NewChain_total: "view s0 = Map.empty \<Longrightarrow> \<exists>ch0. NewChain E eng s0 = Inr ch0"
proof -
  assume e: "view s0 = Map.empty"
  have "kv_items D s0 p = []" for p using items [where s = s0 and p = p] e by (cases "kv_items D s0 p") auto
  then show ?thesis
    by (auto simp: NewChain_def Let_def GetTip_def get e UtxoStore_def Store_items_def GetReorgCheckpoint_def
        bindE_def u64_at_def)
qed

end

lemma InitFromGenesis_total:
  "gen_alloc gen = [] \<Longrightarrow> chain_is_genesis ch0 \<Longrightarrow> \<exists>ch. InitFromGenesis E gen ch0 = Inr ch"
  by (simp add: InitFromGenesis_def CreateGenesisBlock_def buildCoinbaseTx_def bindE_def Let_def)

lemma Spawn_total:
  assumes "ValidateRegistrationData reg rules = None" and s: "\<And>k. DAList.lookup s (chain_prefix i @ k) = None"
  shows "\<exists>sp. Spawn C unmarshal MemoryDB i (Some reg) h s = Inr sp"
proof -
  let ?E = "sub_env C unmarshal MemoryDB i (buildGenesis i reg h)"
  have e: "(\<lambda>k. DAList.lookup s (chain_prefix i @ k)) = Map.empty" using s by (simp add: fun_eq_iff)
  obtain e0 where e0: "buildEngine reg = Inr e0" using buildEngine_defined [OF assms(1)] by blast
  obtain ch0 where ch0: "NewChain ?E (with_stake_checker reg e0) s = Inr ch0"
    using sub_chain.NewChain_total [OF e] unfolding sub_env_def by blast
  then have "chain_is_genesis ch0"
    using sub_chain.NewChain_empty [OF e ch0 [unfolded sub_env_def]] by (simp add: chain_is_genesis_def is_zero_hash_def)
  moreover have "gen_alloc (buildGenesis i reg h) = []" by (simp add: buildGenesis_def)
  ultimately obtain ch where "InitFromGenesis ?E (buildGenesis i reg h) ch0 = Inr ch"
    using InitFromGenesis_total by blast
  then show ?thesis
    using e0 ch0 \<open>chain_is_genesis ch0\<close> by (simp add: Spawn_def Let_def bindE_def InitFromGenesis_rules)
qed

text \<open>
  C11: Spawning and issuance of a sub-chain. For registration data that passed validation and an
  unused id, spawning succeeds, writes nothing outside the key space of the sub-chain, and
  (unless the genesis block hashes to zero) yields the start of a run of the chain code on that
  key space; and in every state such a run reaches, the coins of the sub-chain are bounded by
  its supply counter and the counter by the maximum supply that was registered.
\<close>

theorem spawned_chain_sound:
  assumes v: "ValidateRegistrationData reg rules = None"
    and s: "\<And>k. DAList.lookup s (chain_prefix i @ k) = None"
  shows "(\<exists>sp. Spawn C unmarshal MemoryDB i (Some reg) h s = Inr sp \<and>
      sp_genesis sp = buildGenesis i reg h \<and>
      (\<forall>k. \<not> prefix (chain_prefix i) k \<longrightarrow> DAList.lookup (ch_db (sp_chain sp)) k = DAList.lookup s k) \<and>
      (ch_tip (sp_chain sp) \<noteq> 0 \<longrightarrow>
        run (sub_env C unmarshal MemoryDB i (buildGenesis i reg h)) (buildGenesis i reg h) s (sp_chain sp))) \<and>
    (\<forall>ch. run (sub_env C unmarshal MemoryDB i (buildGenesis i reg h)) (buildGenesis i reg h) s ch \<longrightarrow>
      total_value (Store_Get (PrefixDB MemoryDB (chain_prefix i)) (ch_db ch)) \<le> unat (ch_supply ch) \<and>
      (rd_max_supply reg \<noteq> 0 \<longrightarrow> ch_supply ch \<le> rd_max_supply reg))"
proof (intro conjI allI impI)
  let ?gen = "buildGenesis i reg h"
  let ?E = "sub_env C unmarshal MemoryDB i ?gen"
  obtain sp where sp: "Spawn C unmarshal MemoryDB i (Some reg) h s = Inr sp" using Spawn_total [OF v s] by blast
  obtain eng ch0 where n: "NewChain ?E eng s = Inr ch0" "InitFromGenesis ?E ?gen ch0 = Inr (sp_chain sp)"
    using Spawn_fresh(1) [OF s sp] by blast
  have "run ?E ?gen s (sp_chain sp)" if "ch_tip (sp_chain sp) \<noteq> 0" using run.genesis [OF n that] .
  then show "\<exists>sp. Spawn C unmarshal MemoryDB i (Some reg) h s = Inr sp \<and> sp_genesis sp = ?gen \<and>
      (\<forall>k. \<not> prefix (chain_prefix i) k \<longrightarrow> DAList.lookup (ch_db (sp_chain sp)) k = DAList.lookup s k) \<and>
      (ch_tip (sp_chain sp) \<noteq> 0 \<longrightarrow> run ?E ?gen s (sp_chain sp))"
    using sp Spawn_fresh(2) [OF s sp] Spawn_fresh(4) [OF s sp] by blast
  fix ch assume r: "run ?E ?gen s ch"
  have "(\<lambda>k. DAList.lookup s (chain_prefix i @ k)) = Map.empty" using s by (simp add: fun_eq_iff)
  moreover have "gen_alloc ?gen = []" "cr_max_supply (pc_consensus (gen_protocol ?gen)) = rd_max_supply reg"
    by (simp_all add: buildGenesis_def)
  ultimately have "supply_sound (PrefixDB MemoryDB (chain_prefix i)) ch \<and> ch_max_supply ch = rd_max_supply reg"
    using sub_chain.run_invariant [OF r [unfolded sub_env_def] _ _ buildGenesis_valid [OF v]] by simp
  then show "total_value (Store_Get (PrefixDB MemoryDB (chain_prefix i)) (ch_db ch)) \<le> unat (ch_supply ch)"
    and "rd_max_supply reg \<noteq> 0 \<Longrightarrow> ch_supply ch \<le> rd_max_supply reg" by (auto simp: supply_sound_def)
qed

text \<open>A registration for the concrete runs: a proof-of-work sub-chain of at most 1000 coins.\<close>

definition demo_registration :: registration_data where
  "demo_registration =
     \<lparr>rd_name = ''Demo'', rd_symbol = ''DMO'', rd_consensus = ConsensusPoW, rd_block_time = 10,
      rd_block_reward = 50, rd_max_supply = 1000, rd_min_fee_rate = 1, rd_validators = [],
      rd_initial_difficulty = 1, rd_difficulty_adjust = 0, rd_validator_stake = 0\<rparr>"

definition demo_rules :: subchain_rules where
  "demo_rules = \<lparr>sr_enabled = True, sr_max_depth = 3, sr_max_per_parent = 10, sr_anchor_interval = 10,
     sr_require_anchors = False, sr_anchor_timeout = 0, sr_min_deposit = 100, sr_allow_pow = True,
     sr_default_consensus = ConsensusPoA\<rparr>"

lemma demo_registration_valid: "ValidateRegistrationData demo_registration demo_rules = None"
  by code_simp

theorem spawned_chain_sound_witness:
  "\<exists>sp. Spawn demo_crypto (\<lambda>_. None) MemoryDB 7 (Some demo_registration) 5 DAList.empty = Inr sp \<and>
    sp_genesis sp = buildGenesis 7 demo_registration 5"
  using spawned_chain_sound [OF demo_registration_valid, where s = DAList.empty and i = 7
      and C = demo_crypto and unmarshal = "\<lambda>_. None" and h = 5] by auto

section \<open>A registration taken back\<close>

context doc_store
begin

lemma view_DeleteFrom: "view (DeleteFrom D i s) = (view s)(registryKey i := None)"
  by (auto simp: DeleteFrom_def delete)

lemma SaveTo_undone:
  assumes ok: "registry_ok r" and st: "registry_stored r (view s)" and new: "DAList.lookup r (su_id sc) = None"
    and k: "k \<noteq> registryKey (su_id sc)"
  shows "view (SaveTo D (DAList.update (su_id sc) sc r) s) k = view s k"
proof (cases "\<exists>j. k = registryKey j")
  case True
  then obtain j where j: "k = registryKey j" "j \<noteq> su_id sc" using k by auto
  then show ?thesis
    using get_SaveTo [OF registry_ok_update [OF ok, of sc], of s j] st
    by (auto simp: lookup_update_fun registry_stored_def split: option.splits)
next
  case False
  then have "k \<notin> range registryKey" by blast
  then show ?thesis by (rule SaveTo_other [OF registry_ok_update [OF ok]])
qed

lemma registry_key_unused:
  "registry_stored r (view s) \<Longrightarrow> DAList.lookup r i = None \<Longrightarrow> view s (registryKey i) = None"
proof (rule ccontr)
  assume st: "registry_stored r (view s)" and n: "DAList.lookup r i = None" and "view s (registryKey i) \<noteq> None"
  then obtain v where "view s (registryKey i) = Some v" by blast
  moreover have "prefix prefixRegistry (registryKey i)" by (simp add: registryKey_def)
  ultimately obtain j sc where "registryKey i = registryKey j" "DAList.lookup r j = Some sc"
    using st unfolding registry_stored_def by blast
  then show False using n by simp
qed

end

text \<open>The four ways a registration can end.\<close>

lemma HandleRegistration_cases:
  assumes "HandleRegistration M txHash n value scriptData height m = (m', r)"
    and "DAList.lookup (mg_registry m) i = None" and i: "i = DeriveChainID (mc_crypto M) txHash n"
  obtains (refused) "m' = m"
  | (registered) rg sc where "rg = DAList.update i sc (mg_registry m)" "su_id sc = i"
      "m' = m\<lparr>mg_registry := rg, mg_db := SaveTo (mc_db M) rg (mg_db m)\<rparr>"
  | (spawned) rg sc sp rd log where "rg = DAList.update i sc (mg_registry m)" "su_id sc = i"
      "Spawn (mc_crypto M) (mc_unmarshal M) (mc_db M) i (Some rd) height (SaveTo (mc_db M) rg (mg_db m)) = Inr sp"
      "m' = m\<lparr>mg_registry := rg, mg_db := ch_db (sp_chain sp), mg_chains := DAList.update i sp (mg_chains m), mg_log := log\<rparr>"
proof -
  let ?out = "\<lparr>out_value = value, out_script = \<lparr>sc_type = ScriptTypeRegister, sc_data = scriptData\<rparr>, out_token = None\<rparr>"
  let ?v = "ValidateRegistrationTx (mc_unmarshal M) ?out (Some (mc_rules M)) (word_of_nat (Registry_Count (mg_registry m))) 0"
  show ?thesis
  proof (cases "?v = None \<and> mc_unmarshal M scriptData \<noteq> None")
    case False
    then have "m' = m" using assms(1) by (auto simp: HandleRegistration_def Let_def split: option.splits)
    then show ?thesis by (rule refused)
  next
    case True
    then obtain rd where rd: "?v = None" "mc_unmarshal M scriptData = Some rd" by blast
    define sc where "sc = \<lparr>su_id = i, su_parent = mc_parent M, su_name = rd_name rd, su_symbol = rd_symbol rd,
      su_created_at = height, su_registration_tx = txHash, su_output_index = n, su_registration = rd\<rparr>"
    define rg where "rg = DAList.update i sc (mg_registry m)"
    let ?m1 = "m\<lparr>mg_registry := rg, mg_db := SaveTo (mc_db M) rg (mg_db m)\<rparr>"
    have id: "su_id sc = i" by (simp add: sc_def)
    have "Register sc (mg_registry m) = Inr rg"
      using assms(2) by (simp add: Register_def rg_def id)
    then have e: "(m', r) = (if \<not> ShouldSync (mc_filter M) i then (?m1, None) else spawn_into M i rd height ?m1)"
      using assms(1,2) rd by (simp add: HandleRegistration_def Let_def Registry_Has_def i [symmetric] sc_def)
    show ?thesis
    proof (cases "Spawn (mc_crypto M) (mc_unmarshal M) (mc_db M) i (Some rd) height (SaveTo (mc_db M) rg (mg_db m))")
      case (Inl err)
      then have "m' = ?m1" using e by (simp add: spawn_into_def split: if_splits)
      then show ?thesis using registered [OF rg_def id] by blast
    next
      case (Inr sp)
      show ?thesis
      proof (cases "ShouldSync (mc_filter M) i")
        case True
        then show ?thesis using e Inr by (intro spawned [OF rg_def id Inr]) (simp add: spawn_into_def)
      next
        case False
        then show ?thesis using e registered [OF rg_def id] by simp
      qed
    qed
  qed
qed

lemma HandleDeregistration_fields:
  fixes M :: "dbval memory_db manager_config"
  assumes "mc_db M = MemoryDB" and "i = DeriveChainID (mc_crypto M) txHash n"
  shows "mg_registry (HandleDeregistration M txHash n m) = DAList.delete i (mg_registry m)"
    and "DAList.lookup (mg_chains (HandleDeregistration M txHash n m)) = (DAList.lookup (mg_chains m))(i := None)"
    and "DAList.lookup (mg_db (HandleDeregistration M txHash n m)) k =
      (if k = registryKey i \<or> DAList.lookup (mg_chains m) i \<noteq> None \<and> prefix (chain_prefix i) k then None
       else DAList.lookup (mg_db m) k)"
  using assms
  by (auto simp: HandleDeregistration_def Let_def Unregister_def mem.view_DeleteFrom mem.view_DeleteAll
      DAList.lookup_delete fun_eq_iff split: option.split)

text \<open>
  C12: A registration that a reorganisation takes back leaves no trace. For a registry that is
  what the database holds and an id not in use, handling a registration transaction (refused,
  filtered out, failing to spawn, or spawning the sub-chain) and then its reversal gives back
  every document of the database, the registry and the running chains.
\<close>

theorem registration_reversed:
  fixes M :: "dbval memory_db manager_config"
  assumes M: "mc_db M = MemoryDB" and ok: "registry_ok (mg_registry m)"
    and st: "registry_stored (mg_registry m) (DAList.lookup (mg_db m))"
    and i: "i = DeriveChainID (mc_crypto M) txHash n" and new: "\<not> Registry_Has (mg_registry m) i" "GetChain m i = None"
    and e: "\<And>k. DAList.lookup (mg_db m) (chain_prefix i @ k) = None"
    and h: "HandleRegistration M txHash n value scriptData height m = (m', r)"
  shows "DAList.lookup (mg_db (HandleDeregistration M txHash n m')) = DAList.lookup (mg_db m) \<and>
    DAList.lookup (mg_registry (HandleDeregistration M txHash n m')) = DAList.lookup (mg_registry m) \<and>
    DAList.lookup (mg_chains (HandleDeregistration M txHash n m')) = DAList.lookup (mg_chains m)"
proof -
  note d = HandleDeregistration_fields [OF M i]
  have nr: "DAList.lookup (mg_registry m) i = None" and nc: "DAList.lookup (mg_chains m) i = None"
    using new by (simp_all add: Registry_Has_def GetChain_def)
  have nk: "DAList.lookup (mg_db m) (registryKey i) = None" by (rule mem.registry_key_unused [OF st nr])
  have np: "DAList.lookup (mg_db m) k = None" if "prefix (chain_prefix i) k" for k
    using that e by (auto simp: prefix_def)
  from h nr i show ?thesis
  proof (cases rule: HandleRegistration_cases)
    case refused
    then show ?thesis using nr nc nk by (simp add: d DAList.lookup_delete fun_eq_iff)
  next
    case (registered rg sc)
    then show ?thesis
      using nr nc nk mem.SaveTo_undone [OF ok st, of sc] M
      by (auto simp: d DAList.lookup_delete lookup_update_fun fun_eq_iff)
  next
    case (spawned rg sc sp rd log)
    let ?s = "SaveTo MemoryDB rg (mg_db m)"
    have sv: "DAList.lookup ?s k = DAList.lookup (mg_db m) k" if "k \<noteq> registryKey i" for k
      using mem.SaveTo_undone [OF ok st, of sc k] nr spawned(1,2) that by simp
    have "DAList.lookup ?s (chain_prefix i @ k) = None" for k
      using sv [of "chain_prefix i @ k"] e root_keys_outside(1) [of i i] by (metis prefixI)
    note fr = Spawn_fresh(2) [OF this spawned(3) [unfolded M]]
    then show ?thesis
      using nr nc nk np sv spawned(1,2,4) M
      by (auto simp: d DAList.lookup_delete lookup_update_fun fun_eq_iff)
  qed
qed

definition demo_manager :: "dbval memory_db manager_config" where
  "demo_manager =
     \<lparr>mc_crypto = demo_crypto, mc_unmarshal = (\<lambda>_. Some demo_registration), mc_db = MemoryDB, mc_parent = 0,
      mc_rules = demo_rules, mc_filter = None, mc_spawn_handler = True, mc_stop_handler = True\<rparr>"

theorem registration_reversed_witness:
  "\<exists>m. NewManager (Some MemoryDB) (Some demo_rules) DAList.empty = Some m \<and>
    DAList.lookup (mg_db (HandleDeregistration demo_manager 3 0
      (fst (HandleRegistration demo_manager 3 0 500 [1] 9 m)))) = Map.empty"
proof -
  define m :: "dbval memory_db manager" where
    "m = \<lparr>mg_db = DAList.empty, mg_registry = DAList.empty, mg_chains = DAList.empty, mg_log = []\<rparr>"
  obtain m' r where h: "HandleRegistration demo_manager 3 0 500 [1] 9 m = (m', r)" by fastforce
  have "DAList.lookup (mg_db (HandleDeregistration demo_manager 3 0 m')) = DAList.lookup (mg_db m)"
    using registration_reversed [OF _ _ _ refl _ _ _ h]
    by (simp add: m_def demo_manager_def registry_stored_def Registry_Has_def GetChain_def)
  then show ?thesis using h by (simp add: NewManager_def m_def DAList.lookup_empty fun_eq_iff)
qed

section \<open>The registry across restarts\<close>

text \<open>
  The registry survives a restart. Saving a registry into a database whose registry
  documents belong to it, and loading it again, gives the same registry; the documents under
  all other keys (blocks, UTXOs, sub-chains) are untouched by the save.
\<close>

theorem registry_persists:
  assumes ok: "registry_ok r"
    and sub: "\<And>i. DAList.lookup s (registryKey i) \<noteq> None \<Longrightarrow> Registry_Has r i"
    and keys: "\<And>k. prefix prefixRegistry k \<Longrightarrow> DAList.lookup s k \<noteq> None \<Longrightarrow> k \<in> range registryKey"
  shows "(\<exists>r'. LoadRegistry MemoryDB (SaveTo MemoryDB r s) = Inr r' \<and> Registry_Get r' = Registry_Get r) \<and>
    (\<forall>k. k \<notin> range registryKey \<longrightarrow> DAList.lookup (SaveTo MemoryDB r s) k = DAList.lookup s k)"
proof (intro conjI allI impI)
  have "\<exists>i. k = registryKey i \<and> DAList.lookup r i \<noteq> None" if "prefix prefixRegistry k" "DAList.lookup s k = Some v" for k v
    using that keys [of k] sub by (auto simp: Registry_Has_def)
  from mem.SaveTo_stored [OF ok this] have "registry_stored r (DAList.lookup (SaveTo MemoryDB r s))" .
  from mem.LoadRegistry_stored [OF ok this]
  show "\<exists>r'. LoadRegistry MemoryDB (SaveTo MemoryDB r s) = Inr r' \<and> Registry_Get r' = Registry_Get r"
    by (simp add: Registry_Get_def fun_eq_iff)
qed (rule mem.SaveTo_other [OF ok])

definition demo_sub_chain :: sub_chain where
  "demo_sub_chain =
     \<lparr>su_id = 7, su_parent = 0, su_name = ''Demo'', su_symbol = ''DMO'', su_created_at = 5,
      su_registration_tx = 3, su_output_index = 0, su_registration = demo_registration\<rparr>"

theorem registry_persists_witness:
  "\<exists>r'. LoadRegistry MemoryDB (SaveTo MemoryDB (DAList.update 7 demo_sub_chain DAList.empty) DAList.empty) = Inr r' \<and>
     Registry_Get r' 7 = Some demo_sub_chain"
proof -
  have "registry_ok (DAList.update 7 demo_sub_chain DAList.empty)"
    using registry_ok_update [of DAList.empty demo_sub_chain] by (simp add: demo_sub_chain_def)
  from registry_persists [OF this, of DAList.empty] show ?thesis
    by (auto simp: Registry_Get_def fun_eq_iff)
qed

end
