(* ===== verification/Peers.thy ===== *)
theory Peers
  imports Utxo Block
begin

text \<open>
  What a node remembers about its peers (\<open>internal/p2p\<close>): offence scores and bans with their
  persistence, the store of known peers, and the messages peers exchange that are checked
  without the network library: handshakes and signed heartbeats.
\<close>

section \<open>Peer identities\<close>

text \<open>
  Peer ids belong to libp2p: their text form and its parser are parameters. The code relies on
  the parser reading back what the id prints.
\<close>

record 'p peer_ids =
  pid_string :: "'p \<Rightarrow> string"
  pid_decode :: "string \<Rightarrow> 'p option"

definition ids_readable :: "'p peer_ids \<Rightarrow> bool" where
  "ids_readable P \<longleftrightarrow> (\<forall>p. pid_decode P (pid_string P p) = Some p)"

section \<open>The ban store\<close>

definition banKeyPrefix :: bytes where "banKeyPrefix = ascii ''ban/''"

definition banKeyFromString :: "string \<Rightarrow> bytes" where
  "banKeyFromString i = banKeyPrefix @ ascii i"

definition banKey :: "'p peer_ids \<Rightarrow> 'p \<Rightarrow> bytes" where
  "banKey P p = banKeyFromString (pid_string P p)"

text \<open>The time is that of the clock, in Unix seconds.\<close>

definition IsExpired :: "int \<Rightarrow> ban_record \<Rightarrow> bool" where
  "IsExpired now r \<longleftrightarrow> br_expires_at r > 0 \<and> now \<ge> br_expires_at r"

definition BanStore_Get :: "'p peer_ids \<Rightarrow> ('s, dbval) kvdb \<Rightarrow> 'p \<Rightarrow> 's \<Rightarrow> ban_record option" where
  "BanStore_Get P D p s = (case kv_get D s (banKey P p) of Some (DBan r) \<Rightarrow> Some r | _ \<Rightarrow> None)"

definition BanStore_Put :: "('s, dbval) kvdb \<Rightarrow> ban_record \<Rightarrow> 's \<Rightarrow> 's" where
  "BanStore_Put D r = kv_put D (banKeyFromString (br_id r)) (DBan r)"

definition BanStore_Delete :: "'p peer_ids \<Rightarrow> ('s, dbval) kvdb \<Rightarrow> 'p \<Rightarrow> 's \<Rightarrow> 's" where
  "BanStore_Delete P D p = kv_delete D (banKey P p)"

text \<open>A callback over all records that never stops; corrupt documents are skipped.\<close>

definition BanStore_ForEach :: "('s, dbval) kvdb \<Rightarrow> 's \<Rightarrow> (ban_record \<Rightarrow> 'a \<Rightarrow> 'a) \<Rightarrow> 'a \<Rightarrow> 'a" where
  "BanStore_ForEach D s f a =
     fold (\<lambda>(k, v) a. case v of DBan r \<Rightarrow> f r a | _ \<Rightarrow> a) (kv_items D s banKeyPrefix) a"

definition BanStore_PruneAll :: "('s, dbval) kvdb \<Rightarrow> 's \<Rightarrow> 's \<times> nat" where
  "BanStore_PruneAll D s =
     (let ks = map fst (kv_items D s banKeyPrefix) in (fold (kv_delete D) ks s, length ks))"

definition prunable_ban :: "int \<Rightarrow> dbval \<Rightarrow> bool" where
  "prunable_ban now v = (case v of DBan r \<Rightarrow> IsExpired now r | _ \<Rightarrow> True)"

definition BanStore_PruneExpired :: "('s, dbval) kvdb \<Rightarrow> int \<Rightarrow> 's \<Rightarrow> 's \<times> nat" where
  "BanStore_PruneExpired D now s =
     (let ks = map fst (filter (\<lambda>(k, v). prunable_ban now v) (kv_items D s banKeyPrefix))
      in (fold (kv_delete D) ks s, length ks))"

section \<open>The ban manager\<close>

definition BanThreshold :: int where "BanThreshold = 100"
definition BanDuration :: int where "BanDuration = 24 * 60 * 60"
definition PenaltyInvalidBlock :: int where "PenaltyInvalidBlock = 50"
definition PenaltyInvalidTx :: int where "PenaltyInvalidTx = 20"
definition PenaltyHandshakeFail :: int where "PenaltyHandshakeFail = 100"

text \<open>
  \<open>bm_db\<close> is the state of the database behind the store, \<open>bm_disconnected\<close> the peers that the
  manager asked the node to disconnect, the latest first.
\<close>

record ('p, 's) ban_manager =
  bm_scores :: "('p, int) alist"
  bm_bans :: "('p, ban_record) alist"
  bm_db :: 's
  bm_disconnected :: "'p list"

record ('p, 's) ban_config =
  bc_ids :: "'p peer_ids"
  bc_store :: "('s, dbval) kvdb option"
  bc_node :: bool

definition NewBanManager :: "'s \<Rightarrow> ('p, 's) ban_manager" where
  "NewBanManager s = \<lparr>bm_scores = DAList.empty, bm_bans = DAList.empty, bm_db = s, bm_disconnected = []\<rparr>"

definition in_store :: "('p, 's) ban_config \<Rightarrow> (('s, dbval) kvdb \<Rightarrow> 's \<Rightarrow> 's) \<Rightarrow> ('p, 's) ban_manager \<Rightarrow> ('p, 's) ban_manager" where
  "in_store B f m = (case bc_store B of None \<Rightarrow> m | Some D \<Rightarrow> m\<lparr>bm_db := f D (bm_db m)\<rparr>)"

definition LoadBans :: "('p, 's) ban_config \<Rightarrow> int \<Rightarrow> ('p, 's) ban_manager \<Rightarrow> ('p, 's) ban_manager" where
  "LoadBans B now m =
     (case bc_store B of
        None \<Rightarrow> m
      | Some D \<Rightarrow>
          (let s = fst (BanStore_PruneExpired D now (bm_db m))
           in m\<lparr>bm_db := s,
                bm_bans := BanStore_ForEach D s
                  (\<lambda>r bans. if IsExpired now r then bans
                     else case pid_decode (bc_ids B) (br_id r) of None \<Rightarrow> bans | Some p \<Rightarrow> DAList.update p r bans)
                  (bm_bans m)\<rparr>))"

definition score :: "('p, 's) ban_manager \<Rightarrow> 'p \<Rightarrow> int" where
  "score m p = (case DAList.lookup (bm_scores m) p of None \<Rightarrow> 0 | Some n \<Rightarrow> n)"

definition banned :: "int \<Rightarrow> ('p, 's) ban_manager \<Rightarrow> 'p \<Rightarrow> bool" where
  "banned now m p = (case DAList.lookup (bm_bans m) p of None \<Rightarrow> False | Some r \<Rightarrow> \<not> IsExpired now r)"

definition RecordOffense ::
  "('p, 's) ban_config \<Rightarrow> int \<Rightarrow> 'p \<Rightarrow> int \<Rightarrow> string \<Rightarrow> ('p, 's) ban_manager \<Rightarrow> ('p, 's) ban_manager" where
  "RecordOffense B now p penalty reason m =
     (if banned now m p then m
      else let n = score m p + penalty in
        if n < BanThreshold then m\<lparr>bm_scores := DAList.update p n (bm_scores m)\<rparr>
        else let r = \<lparr>br_id = pid_string (bc_ids B) p, br_reason = reason, br_score = n,
                      br_banned_at = now, br_expires_at = now + BanDuration\<rparr>;
                 m1 = m\<lparr>bm_bans := DAList.update p r (bm_bans m), bm_scores := DAList.delete p (bm_scores m)\<rparr>;
                 m2 = in_store B (\<lambda>D. BanStore_Put D r) m1
             in if bc_node B then m2\<lparr>bm_disconnected := p # bm_disconnected m2\<rparr> else m2)"

definition IsBanned :: "('p, 's) ban_config \<Rightarrow> int \<Rightarrow> 'p \<Rightarrow> ('p, 's) ban_manager \<Rightarrow> ('p, 's) ban_manager \<times> bool" where
  "IsBanned B now p m =
     (case DAList.lookup (bm_bans m) p of
        None \<Rightarrow> (m, False)
      | Some r \<Rightarrow>
          if IsExpired now r
          then (in_store B (\<lambda>D. BanStore_Delete (bc_ids B) D p) (m\<lparr>bm_bans := DAList.delete p (bm_bans m)\<rparr>), False)
          else (m, True))"

definition Unban :: "('p, 's) ban_config \<Rightarrow> 'p \<Rightarrow> ('p, 's) ban_manager \<Rightarrow> ('p, 's) ban_manager" where
  "Unban B p m =
     in_store B (\<lambda>D. BanStore_Delete (bc_ids B) D p)
       (m\<lparr>bm_bans := DAList.delete p (bm_bans m), bm_scores := DAList.delete p (bm_scores m)\<rparr>)"

definition BanList :: "int \<Rightarrow> ('p, 's) ban_manager \<Rightarrow> ban_record list" where
  "BanList now m = filter (\<lambda>r. \<not> IsExpired now r) (map snd (DAList.impl_of (bm_bans m)))"

definition pruneExpired :: "('p, 's) ban_config \<Rightarrow> int \<Rightarrow> ('p, 's) ban_manager \<Rightarrow> ('p, 's) ban_manager" where
  "pruneExpired B now m =
     (let expired = map fst (filter (\<lambda>(p, r). IsExpired now r) (DAList.impl_of (bm_bans m)))
      in in_store B (\<lambda>D s. fst (BanStore_PruneExpired D now s))
           (m\<lparr>bm_bans := fold DAList.delete expired (bm_bans m)\<rparr>))"

text \<open>The connection gater asks the ban manager in both directions.\<close>

definition InterceptPeerDial :: "('p, 's) ban_config \<Rightarrow> int \<Rightarrow> 'p \<Rightarrow> ('p, 's) ban_manager \<Rightarrow> bool" where
  "InterceptPeerDial B now p m = (\<not> snd (IsBanned B now p m))"

definition InterceptSecured :: "('p, 's) ban_config \<Rightarrow> int \<Rightarrow> 'p \<Rightarrow> ('p, 's) ban_manager \<Rightarrow> bool" where
  "InterceptSecured B now p m = (\<not> snd (IsBanned B now p m))"

section \<open>Known peers\<close>

definition peerKeyPrefix :: bytes where "peerKeyPrefix = ascii ''peer/''"

definition peerKeyFromString :: "string \<Rightarrow> bytes" where
  "peerKeyFromString i = peerKeyPrefix @ ascii i"

definition peerKey :: "'p peer_ids \<Rightarrow> 'p \<Rightarrow> bytes" where
  "peerKey P p = peerKeyFromString (pid_string P p)"

definition maxPersistedPeers :: nat where "maxPersistedPeers = 500"

definition PeerStore_Count :: "('s, dbval) kvdb \<Rightarrow> 's \<Rightarrow> nat" where
  "PeerStore_Count D s = length (kv_items D s peerKeyPrefix)"

definition PeerStore_Save :: "('s, dbval) kvdb \<Rightarrow> peer_record \<Rightarrow> 's \<Rightarrow> 's" where
  "PeerStore_Save D r s =
     (let key = peerKeyFromString (pr_id r)
      in if \<not> kv_has D s key \<and> PeerStore_Count D s \<ge> maxPersistedPeers then s
         else kv_put D key (DPeer r) s)"

datatype peer_load_error = PeerNotFound | PeerCorrupt

definition PeerStore_Load :: "'p peer_ids \<Rightarrow> ('s, dbval) kvdb \<Rightarrow> 'p \<Rightarrow> 's \<Rightarrow> peer_load_error + peer_record" where
  "PeerStore_Load P D p s =
     (case kv_get D s (peerKey P p) of
        None \<Rightarrow> Inl PeerNotFound
      | Some v \<Rightarrow> (case v of DPeer r \<Rightarrow> Inr r | _ \<Rightarrow> Inl PeerCorrupt))"

definition PeerStore_LoadAll :: "('s, dbval) kvdb \<Rightarrow> 's \<Rightarrow> peer_record list" where
  "PeerStore_LoadAll D s =
     concat (map (\<lambda>(k, v). case v of DPeer r \<Rightarrow> [r] | _ \<Rightarrow> []) (kv_items D s peerKeyPrefix))"

definition PeerStore_Delete :: "'p peer_ids \<Rightarrow> ('s, dbval) kvdb \<Rightarrow> 'p \<Rightarrow> 's \<Rightarrow> 's" where
  "PeerStore_Delete P D p = kv_delete D (peerKey P p)"

definition stale_peer :: "int \<Rightarrow> dbval \<Rightarrow> bool" where
  "stale_peer cutoff v = (case v of DPeer r \<Rightarrow> pr_last_seen r < cutoff | _ \<Rightarrow> True)"

definition PeerStore_PruneStale :: "('s, dbval) kvdb \<Rightarrow> int \<Rightarrow> int \<Rightarrow> 's \<Rightarrow> 's \<times> nat" where
  "PeerStore_PruneStale D now threshold s =
     (let cutoff = now - threshold;
          ks = map fst (filter (\<lambda>(k, v). stale_peer cutoff v) (kv_items D s peerKeyPrefix))
      in (fold (kv_delete D) ks s, length ks))"

section \<open>Handshake and heartbeat\<close>

record handshake_message =
  hs_version :: u32
  hs_genesis :: hash
  hs_network :: string
  hs_best_height :: u64

definition ProtocolVersion :: u32 where "ProtocolVersion = 2"
definition MinProtocolVersion :: u32 where "MinProtocolVersion = 2"

datatype handshake_error = GenesisMismatch | VersionTooLow

definition validateHandshake :: "hash \<Rightarrow> handshake_message \<Rightarrow> handshake_error option" where
  "validateHandshake genesisHash msg =
     (if hs_genesis msg \<noteq> genesisHash then Some GenesisMismatch
      else if hs_version msg < MinProtocolVersion then Some VersionTooLow
      else None)"

definition buildHandshakeMessage :: "hash \<Rightarrow> string \<Rightarrow> u64 option \<Rightarrow> handshake_message" where
  "buildHandshakeMessage genesisHash networkID height =
     \<lparr>hs_version = ProtocolVersion, hs_genesis = genesisHash, hs_network = networkID,
      hs_best_height = (case height of None \<Rightarrow> 0 | Some h \<Rightarrow> h)\<rparr>"

text \<open>What a node does about the handshake message of a peer; seeds are never penalised.\<close>

definition on_handshake ::
  "('p, 's) ban_config \<Rightarrow> int \<Rightarrow> hash \<Rightarrow> bool \<Rightarrow> 'p \<Rightarrow> handshake_message \<Rightarrow> string \<Rightarrow>
   ('p, 's) ban_manager \<Rightarrow> ('p, 's) ban_manager \<times> bool" where
  "on_handshake B now genesisHash seed p msg reason m =
     (case validateHandshake genesisHash msg of
        None \<Rightarrow> (m, True)
      | Some e \<Rightarrow> (if seed then m else RecordOffense B now p PenaltyHandshakeFail reason m, False))"

record heartbeat_message =
  hb_pubkey :: bytes
  hb_height :: u64
  hb_timestamp :: "64 word"
  hb_signature :: bytes

definition HeartbeatSigningBytes :: "bytes \<Rightarrow> u64 \<Rightarrow> 64 word \<Rightarrow> bytes" where
  "HeartbeatSigningBytes pubKey height timestamp = pubKey @ le_bytes 8 height @ le_bytes 8 timestamp"

definition VerifyHeartbeat :: "crypto \<Rightarrow> heartbeat_message \<Rightarrow> bool" where
  "VerifyHeartbeat C msg \<longleftrightarrow>
     length (hb_pubkey msg) = 33 \<and> length (hb_signature msg) \<noteq> 0 \<and>
     VerifySignature C (hash_bytes (Hash C (HeartbeatSigningBytes (hb_pubkey msg) (hb_height msg) (hb_timestamp msg))))
       (hb_signature msg) (hb_pubkey msg)"

section \<open>Bans and their documents\<close>

text \<open>
  Histories of a ban manager that starts on a store without ban documents. Time does not go
  backwards; a restart reads the bans back from the store.
\<close>

inductive ban_run :: "('p, 's) ban_config \<Rightarrow> int \<Rightarrow> ('p, 's) ban_manager \<Rightarrow> bool" for B where
  start: "0 \<le> t \<Longrightarrow> (\<And>D. bc_store B = Some D \<Longrightarrow> kv_items D s banKeyPrefix = []) \<Longrightarrow> ban_run B t (NewBanManager s)"
| later: "ban_run B t m \<Longrightarrow> t \<le> t' \<Longrightarrow> ban_run B t' m"
| offence: "ban_run B t m \<Longrightarrow> ban_run B t (RecordOffense B t p penalty reason m)"
| query: "ban_run B t m \<Longrightarrow> ban_run B t (fst (IsBanned B t p m))"
| unban: "ban_run B t m \<Longrightarrow> ban_run B t (Unban B p m)"
| prune: "ban_run B t m \<Longrightarrow> ban_run B t (pruneExpired B t m)"
| restart: "ban_run B t m \<Longrightarrow> ban_run B t (LoadBans B t (NewBanManager (bm_db m)))"

definition ban_ok :: "'p peer_ids \<Rightarrow> int \<Rightarrow> 'p \<Rightarrow> ban_record \<Rightarrow> bool" where
  "ban_ok P t p r \<longleftrightarrow> br_id r = pid_string P p \<and> BanThreshold \<le> br_score r \<and> 0 \<le> br_banned_at r \<and> br_banned_at r \<le> t \<and>
     br_expires_at r = br_banned_at r + BanDuration"

definition bans_ok :: "'p peer_ids \<Rightarrow> int \<Rightarrow> ('p, 's) ban_manager \<Rightarrow> bool" where
  "bans_ok P t m \<longleftrightarrow> 0 \<le> t \<and> (\<forall>p n. DAList.lookup (bm_scores m) p = Some n \<longrightarrow> n < BanThreshold) \<and>
     (\<forall>p r. DAList.lookup (bm_bans m) p = Some r \<longrightarrow> ban_ok P t p r)"

text \<open>The documents under \<open>ban/\<close> are the bans in memory.\<close>

definition bans_stored :: "'p peer_ids \<Rightarrow> ('p, ban_record) alist \<Rightarrow> (bytes \<rightharpoonup> dbval) \<Rightarrow> bool" where
  "bans_stored P bans db \<longleftrightarrow>
     (\<forall>p. db (banKey P p) = map_option DBan (DAList.lookup bans p)) \<and>
     (\<forall>k. prefix banKeyPrefix k \<and> db k \<noteq> None \<longrightarrow> k \<in> range (banKey P))"

lemma prefix_banKey [simp]: "prefix banKeyPrefix (banKey P p)"
  by (simp add: banKey_def banKeyFromString_def)

lemma pid_string_inject: "ids_readable P \<Longrightarrow> pid_string P p = pid_string P q \<longleftrightarrow> p = q"
  by (metis ids_readable_def option.inject)

lemma banKey_inject: "ids_readable P \<Longrightarrow> banKey P p = banKey P q \<longleftrightarrow> p = q"
  by (simp add: banKey_def banKeyFromString_def pid_string_inject)

lemma bans_stored_update:
  assumes "ids_readable P" and "bans_stored P bans db" and "br_id r = pid_string P p"
  shows "bans_stored P (DAList.update p r bans) (db(banKeyFromString (br_id r) \<mapsto> DBan r))"
proof -
  have k: "banKeyFromString (br_id r) = banKey P p" by (simp add: banKey_def assms(3))
  show ?thesis using assms(2) unfolding k by (auto simp: bans_stored_def lookup_update_fun banKey_inject [OF assms(1)])
qed

lemma bans_stored_delete:
  "ids_readable P \<Longrightarrow> bans_stored P bans db \<Longrightarrow> bans_stored P (DAList.delete p bans) (db(banKey P p := None))"
  by (auto simp: bans_stored_def DAList.lookup_delete banKey_inject)

lemma lookup_bans_deletes: "DAList.lookup (fold DAList.delete ps b) = (\<lambda>p. if p \<in> set ps then None else DAList.lookup b p)"
  by (induction ps arbitrary: b) (auto simp: DAList.lookup_delete fun_eq_iff)

context doc_store
begin

lemma view_PruneExpired:
  "view (fst (BanStore_PruneExpired D now s)) k =
    (if prefix banKeyPrefix k \<and> (\<exists>v. view s k = Some v \<and> prunable_ban now v) then None else view s k)"
proof -
  have "set (map fst (filter (\<lambda>(k, v). prunable_ban now v) (kv_items D s banKeyPrefix))) =
      {k. prefix banKeyPrefix k \<and> (\<exists>v. view s k = Some v \<and> prunable_ban now v)}"
    by (force simp: items)
  then show ?thesis by (auto simp: BanStore_PruneExpired_def Let_def view_delete_all)
qed

lemma bans_stored_prune:
  assumes st: "bans_stored P bans (view s)"
    and b': "\<And>p. DAList.lookup bans' p = (case DAList.lookup bans p of None \<Rightarrow> None | Some r \<Rightarrow> if IsExpired now r then None else Some r)"
  shows "bans_stored P bans' (view (fst (BanStore_PruneExpired D now s)))"
  using st unfolding bans_stored_def b' view_PruneExpired
  by (auto simp: prunable_ban_def split: option.splits if_splits)

lemma lookup_LoadBans:
  assumes P: "ids_readable (bc_ids B)" and st: "bans_stored (bc_ids B) bans (view s)" and B: "bc_store B = Some D"
    and ok: "\<And>p r. DAList.lookup bans p = Some r \<Longrightarrow> br_id r = pid_string (bc_ids B) p"
  shows "DAList.lookup (bm_bans (LoadBans B now (NewBanManager s))) p =
    (case DAList.lookup bans p of None \<Rightarrow> None | Some r \<Rightarrow> if IsExpired now r then None else Some r)"
proof -
  define s' where "s' = fst (BanStore_PruneExpired D now s)"
  define f where "f = (\<lambda>r bs. if IsExpired now r then bs
      else case pid_decode (bc_ids B) (br_id r) of None \<Rightarrow> bs | Some p \<Rightarrow> DAList.update p r bs)"
  have *: "DAList.lookup (fold (\<lambda>(k, v) a. case v of DBan r \<Rightarrow> f r a | _ \<Rightarrow> a) kvs b0) p =
      (if banKey (bc_ids B) p \<in> fst ` set kvs then DAList.lookup bans p else DAList.lookup b0 p)"
    if "set kvs \<subseteq> set (kv_items D s' banKeyPrefix)" for kvs b0
    using that
  proof (induction kvs arbitrary: b0)
    case Nil
    then show ?case by simp
  next
    case (Cons kv kvs)
    obtain k v where kv: "kv = (k, v)" by (cases kv)
    then have "prefix banKeyPrefix k" "view s' k = Some v" using Cons.prems by (simp_all add: items)
    then have w: "view s k = Some v" "\<not> prunable_ban now v" "prefix banKeyPrefix k"
      by (auto simp: s'_def view_PruneExpired split: if_splits)
    then obtain q where "k = banKey (bc_ids B) q" using st unfolding bans_stored_def by blast
    then obtain r where q: "k = banKey (bc_ids B) q" "v = DBan r" "DAList.lookup bans q = Some r"
      using st w(1) by (auto simp: bans_stored_def)
    have "f r b0 = DAList.update q r b0"
      using w(2) q(2) ok [OF q(3)] P by (simp add: f_def prunable_ban_def ids_readable_def)
    then show ?case using Cons kv q by (auto simp: lookup_update_fun banKey_inject [OF P])
  qed
  have "DAList.lookup (bm_bans (LoadBans B now (NewBanManager s))) p =
      (if banKey (bc_ids B) p \<in> fst ` set (kv_items D s' banKeyPrefix) then DAList.lookup bans p else None)"
    using * [OF order_refl, of DAList.empty] unfolding DAList.lookup_empty
    by (simp add: LoadBans_def B Let_def s'_def [symmetric] f_def [symmetric] BanStore_ForEach_def NewBanManager_def)
  also have "banKey (bc_ids B) p \<in> fst ` set (kv_items D s' banKeyPrefix) \<longleftrightarrow> view s' (banKey (bc_ids B) p) \<noteq> None"
    by (force simp: items)
  also have "\<dots> \<longleftrightarrow> (\<exists>r. DAList.lookup bans p = Some r \<and> \<not> IsExpired now r)"
    using st by (auto simp: bans_stored_def s'_def view_PruneExpired prunable_ban_def)
  finally show ?thesis by (auto split: option.splits)
qed

end

lemma ban_ok_later: "ban_ok P t p r \<Longrightarrow> t \<le> t' \<Longrightarrow> ban_ok P t' p r"
  by (auto simp: ban_ok_def)

lemma bans_ok_later: "bans_ok P t m \<Longrightarrow> t \<le> t' \<Longrightarrow> bans_ok P t' m"
  unfolding bans_ok_def using ban_ok_later by fastforce

lemma ban_expiry: "ban_ok P t p r \<Longrightarrow> IsExpired now r \<longleftrightarrow> br_banned_at r + BanDuration \<le> now"
  by (auto simp: ban_ok_def IsExpired_def BanDuration_def)

lemma LoadBans_fields:
  "bc_store B = Some D \<Longrightarrow> bm_db (LoadBans B now m) = fst (BanStore_PruneExpired D now (bm_db m))"
  "bm_scores (LoadBans B now m) = bm_scores m"
  by (simp_all add: LoadBans_def Let_def split: option.split)

lemma NewBanManager_fields [simp]: "bm_db (NewBanManager s) = s" "bm_scores (NewBanManager s) = DAList.empty"
  by (simp_all add: NewBanManager_def)

lemma lookup_pruned:
  "DAList.lookup (bm_bans (pruneExpired B now m)) p =
    (case DAList.lookup (bm_bans m) p of None \<Rightarrow> None | Some r \<Rightarrow> if IsExpired now r then None else Some r)"
proof -
  have "p \<in> set (map fst (filter (\<lambda>(p, r). IsExpired now r) (DAList.impl_of (bm_bans m)))) \<longleftrightarrow>
      (\<exists>r. DAList.lookup (bm_bans m) p = Some r \<and> IsExpired now r)"
    by (force simp: impl_of_lookup)
  moreover have "bm_bans (in_store B f m') = bm_bans m'" for f m' by (simp add: in_store_def split: option.split)
  ultimately show ?thesis by (auto simp: pruneExpired_def Let_def lookup_bans_deletes split: option.split)
qed

lemma in_store_fields [simp]:
  "bm_bans (in_store B f m) = bm_bans m" "bm_scores (in_store B f m) = bm_scores m"
  "bm_disconnected (in_store B f m) = bm_disconnected m"
  by (simp_all add: in_store_def split: option.split)

text \<open>The three ways an offence can end.\<close>

lemma RecordOffense_cases:
  obtains (ignored) "banned now m p" "RecordOffense B now p penalty reason m = m"
  | (noted) "\<not> banned now m p" "score m p + penalty < BanThreshold"
      "RecordOffense B now p penalty reason m = m\<lparr>bm_scores := DAList.update p (score m p + penalty) (bm_scores m)\<rparr>"
  | (punished) r where "\<not> banned now m p" "BanThreshold \<le> score m p + penalty"
      "r = \<lparr>br_id = pid_string (bc_ids B) p, br_reason = reason, br_score = score m p + penalty,
         br_banned_at = now, br_expires_at = now + BanDuration\<rparr>"
      "bm_bans (RecordOffense B now p penalty reason m) = DAList.update p r (bm_bans m)"
      "bm_scores (RecordOffense B now p penalty reason m) = DAList.delete p (bm_scores m)"
      "bm_db (RecordOffense B now p penalty reason m) =
         (case bc_store B of None \<Rightarrow> bm_db m | Some D \<Rightarrow> BanStore_Put D r (bm_db m))"
proof (cases "banned now m p")
  case True
  then show ?thesis by (intro ignored) (simp_all add: RecordOffense_def)
next
  case False
  show ?thesis
  proof (cases "score m p + penalty < BanThreshold")
    case True
    then show ?thesis using False by (intro noted) (simp_all add: RecordOffense_def)
  next
    case nt: False
    show ?thesis
      by (rule punished [OF False _ refl]) (use False nt in \<open>auto simp: RecordOffense_def Let_def in_store_def split: option.split\<close>)
  qed
qed

context doc_store
begin

lemma ban_run_ok:
  assumes P: "ids_readable (bc_ids B)" and B: "bc_store B = Some D"
  shows "ban_run B t m \<Longrightarrow> bans_ok (bc_ids B) t m \<and> bans_stored (bc_ids B) (bm_bans m) (view (bm_db m))"
proof (induction rule: ban_run.induct)
  case (start t s)
  have "view s k = None" if "prefix banKeyPrefix k" for k
    using start(2) [OF B] items [of s banKeyPrefix] that by auto
  then show ?case using start(1)
    by (auto simp: bans_ok_def bans_stored_def NewBanManager_def DAList.lookup_empty)
next
  case (later t m t')
  then show ?case using bans_ok_later by blast
next
  case (offence t m p penalty reason)
  then show ?case
  proof (cases rule: RecordOffense_cases [of t m p B penalty reason])
    case (punished r)
    have "ban_ok (bc_ids B) t p r"
      using punished(2) offence.IH by (simp add: punished(3) ban_ok_def bans_ok_def)
    moreover have "bans_stored (bc_ids B) (bm_bans (RecordOffense B t p penalty reason m))
        (view (bm_db (RecordOffense B t p penalty reason m)))"
      using offence.IH punished(3) bans_stored_update [OF P, of "bm_bans m" "view (bm_db m)" r p]
      by (simp add: punished(4,6) B BanStore_Put_def put)
    ultimately show ?thesis
      using offence.IH by (auto simp: punished(4,5) bans_ok_def lookup_update_fun DAList.lookup_delete)
  qed (auto simp: bans_ok_def lookup_update_fun)
next
  case (query t m p)
  then show ?case using bans_stored_delete [OF P, of "bm_bans m" "view (bm_db m)" p]
    by (auto simp: IsBanned_def in_store_def B bans_ok_def DAList.lookup_delete BanStore_Delete_def delete split: option.split)
next
  case (unban t m p)
  then show ?case using bans_stored_delete [OF P, of "bm_bans m" "view (bm_db m)" p]
    by (auto simp: Unban_def in_store_def B bans_ok_def DAList.lookup_delete BanStore_Delete_def delete fun_upd_def)
next
  case (prune t m)
  have "bm_db (pruneExpired B t m) = fst (BanStore_PruneExpired D t (bm_db m))" "bm_scores (pruneExpired B t m) = bm_scores m"
    by (simp_all add: pruneExpired_def Let_def in_store_def B)
  then show ?case
    using prune.IH bans_stored_prune [of "bc_ids B" "bm_bans m" "bm_db m" "bm_bans (pruneExpired B t m)" t, OF _ lookup_pruned]
    by (auto simp: bans_ok_def lookup_pruned split: option.splits if_splits)
next
  case (restart t m)
  have ids: "br_id r = pid_string (bc_ids B) p" if "DAList.lookup (bm_bans m) p = Some r" for p r
    using restart.IH that by (simp add: bans_ok_def ban_ok_def)
  have st: "bans_stored (bc_ids B) (bm_bans m) (view (bm_db m))" using restart.IH by simp
  note l = lookup_LoadBans [OF P st B ids]
  show ?case
    using restart.IH bans_stored_prune [OF st l, of t]
    by (auto simp: bans_ok_def l LoadBans_fields(1) [OF B] LoadBans_fields(2) DAList.lookup_empty
        split: option.splits if_splits)
qed

end

text \<open>
  C26: Bans survive a restart. In every history of offences, queries, pardons, pruning and
  restarts the documents in the store are the bans in memory, so that a node that restarts
  refuses exactly the peers it refused before, for the rest of their 24 hours; the score of a
  peer that is not banned stays below the threshold, and every ban was earned by one.
\<close>

theorem bans_survive_restart:
  fixes m :: "('p, dbval memory_db) ban_manager"
  assumes P: "ids_readable (bc_ids B)" and B: "bc_store B = Some MemoryDB" and r: "ban_run B t m" and t: "t \<le> now"
  shows "banned now (LoadBans B now (NewBanManager (bm_db m))) p = banned now m p \<and>
    BanStore_Get (bc_ids B) MemoryDB p (bm_db m) = DAList.lookup (bm_bans m) p \<and>
    score m p < BanThreshold \<and>
    (banned now m p \<longrightarrow> (\<exists>r. BanStore_Get (bc_ids B) MemoryDB p (bm_db m) = Some r \<and> BanThreshold \<le> br_score r \<and>
       br_banned_at r \<le> t \<and> now < br_banned_at r + BanDuration))"
proof -
  have ok: "bans_ok (bc_ids B) t m" and st: "bans_stored (bc_ids B) (bm_bans m) (DAList.lookup (bm_db m))"
    using mem.ban_run_ok [OF P B r] by blast+
  have ids: "br_id r = pid_string (bc_ids B) p" if "DAList.lookup (bm_bans m) p = Some r" for p r
    using ok that by (simp add: bans_ok_def ban_ok_def)
  have "banned now (LoadBans B now (NewBanManager (bm_db m))) p = banned now m p"
    by (simp add: banned_def mem.lookup_LoadBans [OF P st B ids] split: option.split)
  moreover have g: "BanStore_Get (bc_ids B) MemoryDB p (bm_db m) = DAList.lookup (bm_bans m) p"
    using st by (simp add: BanStore_Get_def mem.get bans_stored_def split: option.split)
  moreover have "score m p < BanThreshold"
    using ok by (auto simp: score_def bans_ok_def BanThreshold_def split: option.split)
  moreover have "\<exists>r. DAList.lookup (bm_bans m) p = Some r \<and> BanThreshold \<le> br_score r \<and> br_banned_at r \<le> t \<and>
      now < br_banned_at r + BanDuration" if "banned now m p"
  proof -
    obtain r where r: "DAList.lookup (bm_bans m) p = Some r" "\<not> IsExpired now r"
      using \<open>banned now m p\<close> by (auto simp: banned_def split: option.splits)
    moreover have "ban_ok (bc_ids B) t p r" using ok r(1) by (simp add: bans_ok_def)
    ultimately show ?thesis using ban_expiry by (fastforce simp: ban_ok_def)
  qed
  ultimately show ?thesis unfolding g by blast
qed

text \<open>
  The effect of an offence. A banned peer is left as it is; otherwise the penalty is added
  to the score, the peer is banned exactly when the sum reaches the threshold, from then on for
  24 hours, with a clear score after that; no other peer is affected.
\<close>

theorem offence_effect:
  fixes m :: "('p, 's) ban_manager"
  assumes "0 \<le> now" and "now \<le> t'"
  shows "(\<forall>q. q \<noteq> p \<longrightarrow> banned t' (RecordOffense B now p penalty reason m) q = banned t' m q \<and>
      score (RecordOffense B now p penalty reason m) q = score m q) \<and>
    (if banned now m p then RecordOffense B now p penalty reason m = m
     else (banned t' (RecordOffense B now p penalty reason m) p \<longleftrightarrow>
             BanThreshold \<le> score m p + penalty \<and> t' < now + BanDuration) \<and>
          score (RecordOffense B now p penalty reason m) p =
            (if BanThreshold \<le> score m p + penalty then 0 else score m p + penalty))"
proof (cases rule: RecordOffense_cases [of now m p B penalty reason])
  case noted
  have "\<not> banned t' m p" using noted(1) assms by (auto simp: banned_def IsExpired_def split: option.splits)
  then show ?thesis using noted by (auto simp: banned_def score_def lookup_update_fun)
next
  case (punished r)
  then show ?thesis using assms
    by (auto simp: banned_def score_def lookup_update_fun DAList.lookup_delete IsExpired_def BanDuration_def)
qed auto

text \<open>A ban manager with peers that are their own names.\<close>

definition demo_bans :: "(string, dbval memory_db) ban_config" where
  "demo_bans = \<lparr>bc_ids = \<lparr>pid_string = (\<lambda>p. p), pid_decode = Some\<rparr>, bc_store = Some MemoryDB, bc_node = True\<rparr>"

definition demo_ban_manager :: "(string, dbval memory_db) ban_manager" where
  "demo_ban_manager = RecordOffense demo_bans 1000 ''mallory'' 100 ''genesis mismatch'' (NewBanManager DAList.empty)"

lemma demo_bans_fields: "ids_readable (bc_ids demo_bans)" "bc_store demo_bans = Some MemoryDB"
  by (simp_all add: demo_bans_def ids_readable_def)

lemma demo_ban_run: "ban_run demo_bans 1000 demo_ban_manager"
proof -
  have "kv_items MemoryDB (DAList.empty :: dbval memory_db) p = []" for p
    using mem.items [of "DAList.empty :: dbval memory_db" p] by (simp add: DAList.lookup_empty)
  then show ?thesis
    unfolding demo_ban_manager_def by (intro ban_run.offence ban_run.start) (simp_all add: demo_bans_def)
qed

theorem offence_effect_witness:
  "banned 87399 demo_ban_manager ''mallory'' \<and> \<not> banned 87400 demo_ban_manager ''mallory''"
  using offence_effect [of 1000 87399 "''mallory''" demo_bans 100 "''genesis mismatch''" "NewBanManager DAList.empty"]
    offence_effect [of 1000 87400 "''mallory''" demo_bans 100 "''genesis mismatch''" "NewBanManager DAList.empty"]
  by (simp add: demo_ban_manager_def banned_def score_def NewBanManager_def DAList.lookup_empty BanThreshold_def
      BanDuration_def)

theorem bans_survive_restart_witness:
  "banned 5000 (LoadBans demo_bans 5000 (NewBanManager (bm_db demo_ban_manager))) ''mallory'' =
    banned 5000 demo_ban_manager ''mallory''"
  using bans_survive_restart [OF demo_bans_fields demo_ban_run, of 5000] by simp

section \<open>Known peers\<close>

lemma prefix_peerKey [simp]: "prefix peerKeyPrefix (peerKeyFromString i)"
  by (simp add: peerKeyFromString_def)

context doc_store
begin

lemma PeerStore_Count_card: "PeerStore_Count D s = card {k. prefix peerKeyPrefix k \<and> view s k \<noteq> None}"
proof -
  have "{k. prefix peerKeyPrefix k \<and> view s k \<noteq> None} = set (map fst (kv_items D s peerKeyPrefix))"
    by (force simp: items)
  then show ?thesis
    using distinct_card [OF items_distinct, of s peerKeyPrefix] by (simp add: PeerStore_Count_def)
qed

lemma PeerStore_Save_bounded:
  assumes "PeerStore_Count D s \<le> maxPersistedPeers"
  shows "PeerStore_Count D (PeerStore_Save D r s) \<le> maxPersistedPeers"
proof (cases "\<not> kv_has D s (peerKeyFromString (pr_id r)) \<and> PeerStore_Count D s \<ge> maxPersistedPeers")
  case True
  then show ?thesis using assms by (simp add: PeerStore_Save_def Let_def)
next
  case False
  let ?K = "{k. prefix peerKeyPrefix k \<and> view s k \<noteq> None}" and ?k = "peerKeyFromString (pr_id r)"
  have fin: "finite ?K" by (rule finite_subset [OF _ finite_view [of s]]) auto
  have "{k. prefix peerKeyPrefix k \<and> view (PeerStore_Save D r s) k \<noteq> None} = insert ?k ?K"
    using False by (auto simp: PeerStore_Save_def Let_def put)
  then have "PeerStore_Count D (PeerStore_Save D r s) = (if ?k \<in> ?K then card ?K else Suc (card ?K))"
    using fin by (simp add: PeerStore_Count_card card_insert_if del: mem_Collect_eq)
  then show ?thesis using False assms by (auto simp: has PeerStore_Count_card)
qed

lemma view_PruneStale:
  "view (fst (PeerStore_PruneStale D now threshold s)) k =
    (if prefix peerKeyPrefix k \<and> (\<exists>v. view s k = Some v \<and> stale_peer (now - threshold) v) then None else view s k)"
proof -
  have "set (map fst (filter (\<lambda>(k, v). stale_peer (now - threshold) v) (kv_items D s peerKeyPrefix))) =
      {k. prefix peerKeyPrefix k \<and> (\<exists>v. view s k = Some v \<and> stale_peer (now - threshold) v)}"
    by (force simp: items)
  then show ?thesis by (auto simp: PeerStore_PruneStale_def Let_def view_delete_all)
qed

lemma PeerStore_LoadAll_set:
  "set (PeerStore_LoadAll D s) = {r. \<exists>k. prefix peerKeyPrefix k \<and> view s k = Some (DPeer r)}"
proof -
  have "r \<in> set (PeerStore_LoadAll D s) \<longleftrightarrow> (\<exists>k. (k, DPeer r) \<in> set (kv_items D s peerKeyPrefix))" for r
    by (force simp: PeerStore_LoadAll_def split: dbval.splits)
  then show ?thesis by (auto simp: items)
qed

end

text \<open>
  The peer store. It never holds more than 500 peers: saving keeps the bound, always updates
  a peer that is known, and drops a new one only when the store is full. Pruning keeps exactly
  the readable records that were seen recently, and loading returns what is stored.
\<close>

theorem peer_store_bounded:
  assumes "PeerStore_Count MemoryDB s \<le> maxPersistedPeers" and P: "peerKeyFromString (pr_id r) = k"
  shows "PeerStore_Count MemoryDB (PeerStore_Save MemoryDB r s) \<le> maxPersistedPeers \<and>
    DAList.lookup (PeerStore_Save MemoryDB r s) k =
      (if DAList.lookup s k = None \<and> PeerStore_Count MemoryDB s = maxPersistedPeers then None else Some (DPeer r)) \<and>
    (\<forall>k'. k' \<noteq> k \<longrightarrow> DAList.lookup (PeerStore_Save MemoryDB r s) k' = DAList.lookup s k') \<and>
    set (PeerStore_LoadAll MemoryDB (fst (PeerStore_PruneStale MemoryDB now threshold s))) =
      {r \<in> set (PeerStore_LoadAll MemoryDB s). now - threshold \<le> pr_last_seen r}"
proof (intro conjI allI impI)
  show "PeerStore_Count MemoryDB (PeerStore_Save MemoryDB r s) \<le> maxPersistedPeers"
    by (rule mem.PeerStore_Save_bounded [OF assms(1)])
  show "DAList.lookup (PeerStore_Save MemoryDB r s) k =
      (if DAList.lookup s k = None \<and> PeerStore_Count MemoryDB s = maxPersistedPeers then None else Some (DPeer r))"
    using assms by (auto simp: PeerStore_Save_def Let_def mem.has mem.put)
  show "DAList.lookup (PeerStore_Save MemoryDB r s) k' = DAList.lookup s k'" if "k' \<noteq> k" for k'
    using P that by (auto simp: PeerStore_Save_def Let_def mem.put)
  have "prefix peerKeyPrefix k \<and> DAList.lookup (fst (PeerStore_PruneStale MemoryDB now threshold s)) k = Some (DPeer r) \<longleftrightarrow>
      prefix peerKeyPrefix k \<and> DAList.lookup s k = Some (DPeer r) \<and> now - threshold \<le> pr_last_seen r" for k r
    by (auto simp: mem.view_PruneStale stale_peer_def)
  then show "set (PeerStore_LoadAll MemoryDB (fst (PeerStore_PruneStale MemoryDB now threshold s))) =
      {r \<in> set (PeerStore_LoadAll MemoryDB s). now - threshold \<le> pr_last_seen r}"
    unfolding mem.PeerStore_LoadAll_set by blast
qed


definition demo_peer :: peer_record where
  "demo_peer = \<lparr>pr_id = ''bob'', pr_addrs = [''/ip4/10.0.0.1/tcp/30303''], pr_last_seen = 1000, pr_source = ''seed''\<rparr>"

theorem peer_store_bounded_witness:
  "DAList.lookup (PeerStore_Save MemoryDB demo_peer DAList.empty) (peerKeyFromString ''bob'') = Some (DPeer demo_peer)"
proof -
  have "PeerStore_Count MemoryDB DAList.empty = 0"
    by (simp add: mem.PeerStore_Count_card DAList.lookup_empty)
  then show ?thesis
    using peer_store_bounded [of DAList.empty demo_peer "peerKeyFromString ''bob''"]
    by (simp add: maxPersistedPeers_def demo_peer_def)
qed

section \<open>Heartbeats\<close>

lemma length_HeartbeatSigningBytes: "length (HeartbeatSigningBytes pk h ts) = length pk + 16"
  by (simp add: HeartbeatSigningBytes_def enc_length)

lemma length_concat_ge: "xs \<noteq> [] \<Longrightarrow> (\<And>x. x \<in> set xs \<Longrightarrow> n \<le> length (f x)) \<Longrightarrow> n \<le> length (concat (map f xs))"
  by (cases xs) (auto intro: trans_le_add1)

lemma length_SigningBytes_valid: "Validate t = None \<Longrightarrow> 69 \<le> length (SigningBytes t)"
proof -
  assume v: "Validate t = None"
  have i: "36 \<le> length (concat (map input_bytes (tx_inputs t)))"
    using v by (intro length_concat_ge) (auto simp: Validate_None input_bytes_def enc_length)
  have o: "13 \<le> length (concat (map output_bytes (tx_outputs t)))"
    using v by (intro length_concat_ge) (auto simp: Validate_None output_bytes_def enc_length)
  show ?thesis using i o by (simp add: SigningBytes_def enc_length)
qed

text \<open>
  Heartbeats and the other signatures of a validator key. A heartbeat that verifies carries a
  33-byte key and a signature by it over bytes that determine the key, the height and the time;
  and those bytes are never the signed bytes of a block header or of a valid transaction, so that
  (unless two inputs of the hash function collide) a heartbeat signature authorises neither a
  block nor a payment, and no block signature is a heartbeat.
\<close>

theorem heartbeat_signature_separate:
  assumes "VerifyHeartbeat C msg"
  shows "length (hb_pubkey msg) = 33 \<and>
    VerifySignature C (hash_bytes (Hash C (HeartbeatSigningBytes (hb_pubkey msg) (hb_height msg) (hb_timestamp msg))))
      (hb_signature msg) (hb_pubkey msg) \<and>
    (\<forall>pk h ts. length pk = 33 \<and>
       HeartbeatSigningBytes pk h ts = HeartbeatSigningBytes (hb_pubkey msg) (hb_height msg) (hb_timestamp msg) \<longrightarrow>
       pk = hb_pubkey msg \<and> h = hb_height msg \<and> ts = hb_timestamp msg) \<and>
    (\<forall>hd. HeaderSigningBytes hd \<noteq> HeartbeatSigningBytes (hb_pubkey msg) (hb_height msg) (hb_timestamp msg)) \<and>
    (\<forall>t. Validate t = None \<longrightarrow> SigningBytes t \<noteq> HeartbeatSigningBytes (hb_pubkey msg) (hb_height msg) (hb_timestamp msg))"
proof (intro conjI allI impI)
  show l: "length (hb_pubkey msg) = 33" and "VerifySignature C
      (hash_bytes (Hash C (HeartbeatSigningBytes (hb_pubkey msg) (hb_height msg) (hb_timestamp msg))))
      (hb_signature msg) (hb_pubkey msg)"
    using assms by (simp_all add: VerifyHeartbeat_def)
  let ?b = "HeartbeatSigningBytes (hb_pubkey msg) (hb_height msg) (hb_timestamp msg)"
  have lb: "length ?b = 49" using l by (simp add: length_HeartbeatSigningBytes)
  show "HeaderSigningBytes hd \<noteq> ?b" for hd
  proof
    assume "HeaderSigningBytes hd = ?b"
    then have "length (HeaderSigningBytes hd) = length ?b" by simp
    then show False using lb by (simp add: length_HeaderSigningBytes)
  qed
  show "SigningBytes t \<noteq> ?b" if "Validate t = None" for t
    using length_SigningBytes_valid [OF that] lb by auto
  fix pk h ts assume e: "length pk = 33 \<and> HeartbeatSigningBytes pk h ts = ?b"
  then have "pk = hb_pubkey msg \<and> le_bytes 8 h @ le_bytes 8 ts = le_bytes 8 (hb_height msg) @ le_bytes 8 (hb_timestamp msg)"
    using l by (simp add: HeartbeatSigningBytes_def append_eq_append_conv)
  then have "pk = hb_pubkey msg" "le_bytes 8 h = le_bytes 8 (hb_height msg)" "le_bytes 8 ts = le_bytes 8 (hb_timestamp msg)"
    by (simp_all add: append_eq_append_conv enc_length)
  then show "pk = hb_pubkey msg" "h = hb_height msg" "ts = hb_timestamp msg" by simp_all
qed

theorem heartbeat_signature_separate_witness:
  "HeaderSigningBytes (the (b_header (demo_block toy_crypto))) \<noteq> HeartbeatSigningBytes (replicate 33 5) 7 1000"
  using heartbeat_signature_separate [of toy_crypto "\<lparr>hb_pubkey = replicate 33 5, hb_height = 7, hb_timestamp = 1000,
      hb_signature = replicate 33 5\<rparr>"]
  by (simp add: VerifyHeartbeat_def VerifySignature_def toy_crypto_def enc_length)

end
