(* ===== verification/Node.thy ===== *)
theory Node
  imports SubChains Peers ChainProps
begin

text \<open>
  The node (\<open>internal/node\<close>): how blocks, transactions and heartbeats from peers reach the chain,
  the mempool, the ban manager and the validator tracker; what is served to peers; sync and fork
  resolution against peers that may answer anything; the steps of block production.
\<close>

section \<open>The state of a node\<close>

text \<open>
  The chain, the ban store and the token store share one database: its state is \<open>ch_db\<close> of the
  chain, and is handed to the ban manager for each of its operations. The clock is an argument.
\<close>

record ('p, 's) node =
  nd_chain :: "'s chain"
  nd_pool :: pool
  nd_bans :: "('p, 's) ban_manager"
  nd_tracker :: tracker

record ('p, 's) node_config =
  nc_env :: "'s env"
  nc_order :: iteration
  nc_bans :: "('p, 's) ban_config"

abbreviation nc_crypto :: "('p, 's) node_config \<Rightarrow> crypto" where
  "nc_crypto N \<equiv> en_crypto (nc_env N)"

definition unix :: "u64 \<Rightarrow> int" where
  "unix now = uint now"

definition pool_view_of :: "'s env \<Rightarrow> 's chain \<Rightarrow> pool_view" where
  "pool_view_of E ch =
     \<lparr>pv_provider = UTXOAdapter (en_set E) (ch_db ch), pv_get = us_get (en_set E) (ch_db ch),
      pv_height = ch_height ch, pv_tokens = GetTokenData (en_set E) (ch_db ch)\<rparr>"

definition penalise ::
  "('p, 's) node_config \<Rightarrow> u64 \<Rightarrow> 'p \<Rightarrow> int \<Rightarrow> string \<Rightarrow> ('p, 's) node \<Rightarrow> ('p, 's) node" where
  "penalise N now p penalty reason n =
     (let m = RecordOffense (nc_bans N) (unix now) p penalty reason ((nd_bans n)\<lparr>bm_db := ch_db (nd_chain n)\<rparr>)
      in n\<lparr>nd_bans := m, nd_chain := (nd_chain n)\<lparr>ch_db := bm_db m\<rparr>\<rparr>)"

section \<open>Blocks\<close>

text \<open>
  The callback of the chain for transactions that a reorganisation took back; the events of one
  \<open>ProcessBlock\<close> are those it appended to the log.
\<close>

definition return_reverted :: "('p, 's) node_config \<Rightarrow> transaction list \<Rightarrow> ('p, 's) node \<Rightarrow> ('p, 's) node" where
  "return_reverted N ts n =
     n\<lparr>nd_pool := fold (\<lambda>t p. fst (Pool_Add (nc_crypto N) (nc_order N) (pool_view_of (nc_env N) (nd_chain n)) t p)) ts (nd_pool n)\<rparr>"

definition reverted_by :: "'s chain \<Rightarrow> 's chain \<Rightarrow> transaction list" where
  "reverted_by ch ch' =
     concat (map (\<lambda>ev. case ev of EvReverted ts \<Rightarrow> ts | _ \<Rightarrow> []) (drop (length (ch_log ch)) (ch_log ch')))"

definition node_process ::
  "('p, 's) node_config \<Rightarrow> u64 \<Rightarrow> block \<Rightarrow> ('p, 's) node \<Rightarrow> ('p, 's) node \<times> chain_error option" where
  "node_process N now b n =
     (let (ch', r) = ProcessBlock (nc_env N) now b (nd_chain n)
      in (return_reverted N (reverted_by (nd_chain n) ch') (n\<lparr>nd_chain := ch'\<rparr>), r))"

text \<open>After a block from a peer was connected.\<close>

definition node_confirm :: "('p, 's) node_config \<Rightarrow> block \<Rightarrow> ('p, 's) node \<Rightarrow> ('p, 's) node" where
  "node_confirm N b n =
     n\<lparr>nd_pool := RemoveConfirmed (nc_crypto N) (b_txs b) (nd_pool n),
       nd_chain := (nd_chain n)\<lparr>ch_db := ExtractAndStoreMetadata (en_db (nc_env N)) b (ch_db (nd_chain n))\<rparr>\<rparr>"

definition record_producer :: "('p, 's) node_config \<Rightarrow> u64 \<Rightarrow> header \<Rightarrow> ('p, 's) node \<Rightarrow> ('p, 's) node" where
  "record_producer N now h n =
     (case ch_engine (nd_chain n) of
        EnginePoW _ \<Rightarrow> n
      | EnginePoA p \<Rightarrow>
          (case IdentifySigner (nc_crypto N) p h of
             None \<Rightarrow> n
           | Some signer \<Rightarrow>
               n\<lparr>nd_tracker := RecordBlock (unix now) signer (nd_tracker n),
                 nd_chain := (nd_chain n)\<lparr>ch_engine := EnginePoA (RecordBlockProduction signer (h_height h) p)\<rparr>\<rparr>))"

text \<open>
  The gossip handler for blocks; \<open>data\<close> is the decoded message, if it decodes. The second result
  says whether a sync is started. (For a block without a header the handler, after recording the
  offence, fails in a log statement; the read loop recovers from that.)
\<close>

definition on_block ::
  "('p, 's) node_config \<Rightarrow> u64 \<Rightarrow> bool \<Rightarrow> 'p \<Rightarrow> block option \<Rightarrow> ('p, 's) node \<Rightarrow> ('p, 's) node \<times> bool" where
  "on_block N now syncing from data n =
     (if syncing then (n, False)
      else case data of
        None \<Rightarrow> (penalise N now from PenaltyInvalidBlock ''unmarshal'' n, False)
      | Some b \<Rightarrow>
          (case node_process N now b n of
             (n1, Some e) \<Rightarrow>
               (if e \<in> {ErrBlockKnown, ErrPrevNotFound, ErrForkDetected} then n1
                else penalise N now from PenaltyInvalidBlock ''block'' n1, e = ErrPrevNotFound)
           | (n1, None) \<Rightarrow> (record_producer N now (hdr b) (node_confirm N b n1), False)))"

section \<open>Transactions and heartbeats\<close>

definition on_tx ::
  "('p, 's) node_config \<Rightarrow> u64 \<Rightarrow> 'p \<Rightarrow> transaction option \<Rightarrow> ('p, 's) node \<Rightarrow> ('p, 's) node" where
  "on_tx N now from data n =
     (case data of
        None \<Rightarrow> penalise N now from PenaltyInvalidTx ''unmarshal'' n
      | Some t \<Rightarrow>
          (case Pool_Add (nc_crypto N) (nc_order N) (pool_view_of (nc_env N) (nd_chain n)) t (nd_pool n) of
             (p, Inr fee) \<Rightarrow> n\<lparr>nd_pool := p\<rparr>
           | (p, Inl e) \<Rightarrow> penalise N now from PenaltyInvalidTx ''tx'' (n\<lparr>nd_pool := p\<rparr>)))"

definition on_heartbeat ::
  "('p, 's) node_config \<Rightarrow> u64 \<Rightarrow> heartbeat_message \<Rightarrow> ('p, 's) node \<Rightarrow> ('p, 's) node" where
  "on_heartbeat N now msg n =
     (if \<not> VerifyHeartbeat (nc_crypto N) msg then n
      else case ch_engine (nd_chain n) of
        EnginePoA p \<Rightarrow>
          if \<not> isValidator p (hb_pubkey msg) then n
          else n\<lparr>nd_tracker := RecordHeartbeat (unix now) (hb_pubkey msg) (nd_tracker n)\<rparr>
      | EnginePoW _ \<Rightarrow> n\<lparr>nd_tracker := RecordHeartbeat (unix now) (hb_pubkey msg) (nd_tracker n)\<rparr>)"

definition sendHeartbeat :: "crypto \<Rightarrow> bytes \<Rightarrow> u64 \<Rightarrow> u64 \<Rightarrow> heartbeat_message option" where
  "sendHeartbeat C key height now =
     (let pub = PublicKey C key
      in case SignHash C key (hash_bytes (Hash C (HeartbeatSigningBytes pub height now))) of
           Inl e \<Rightarrow> None
         | Inr sig \<Rightarrow> Some \<lparr>hb_pubkey = pub, hb_height = height, hb_timestamp = now, hb_signature = sig\<rparr>)"

section \<open>Serving peers\<close>

definition MaxSyncBlocks :: u32 where "MaxSyncBlocks = 500"

definition clamp_request :: "u32 \<Rightarrow> u32" where
  "clamp_request maxBlocks = (if maxBlocks = 0 \<or> maxBlocks > MaxSyncBlocks then MaxSyncBlocks else maxBlocks)"

lemma less_max_u64: "(h :: u64) < b \<Longrightarrow> h \<noteq> max_u64"
  by (metis word_order.extremum_strict)

text \<open>The loop over heights below \<open>bound\<close>, which stops at the first one without a block.\<close>

function serve_loop :: "('s, dbval) kvdb \<Rightarrow> 's \<Rightarrow> u64 \<Rightarrow> u64 \<Rightarrow> block list" where
  "serve_loop D s h bound =
     (if h < bound then
        (case GetBlockByHeight D s h of None \<Rightarrow> [] | Some b \<Rightarrow> b # serve_loop D s (h + 1) bound)
      else [])"
  by pat_completeness auto
termination
proof (relation "measure (\<lambda>(D, s, h, bound). unat bound - unat h)", goal_cases)
  case (2 D s h bound b)
  then have "unat (h + 1) = Suc (unat h)" using less_max_u64 by (intro unat_Suc_u64) auto
  then show ?case using 2(1) by (simp add: word_less_nat_alt)
qed simp

declare serve_loop.simps [simp del]

definition serve_blocks :: "('s, dbval) kvdb \<Rightarrow> 's \<Rightarrow> u64 \<Rightarrow> u32 \<Rightarrow> block list" where
  "serve_blocks D s fromHeight m = serve_loop D s fromHeight (fromHeight + ucast m)"

text \<open>The stream handler of the sync protocol.\<close>

definition on_sync_request :: "('s, dbval) kvdb \<Rightarrow> 's \<Rightarrow> u64 \<Rightarrow> u32 \<Rightarrow> block list" where
  "on_sync_request D s fromHeight maxBlocks = serve_blocks D s fromHeight (clamp_request maxBlocks)"

section \<open>Suspension state from the chain\<close>

definition window_start :: "u64 \<Rightarrow> u64" where
  "window_start height = (if height > SuspensionWindow then height - SuspensionWindow else 0)"

definition window_heights :: "u64 \<Rightarrow> u64 list" where
  "window_heights height =
     map (\<lambda>i. window_start height + word_of_nat i) [0 ..< Suc (unat (height - window_start height))]"

definition scan_height :: "crypto \<Rightarrow> (u64 \<Rightarrow> block option) \<Rightarrow> u64 \<Rightarrow> poa \<Rightarrow> poa" where
  "scan_height C block_at h p =
     (case block_at h of
        None \<Rightarrow> p
      | Some b \<Rightarrow> (case IdentifySigner C p (hdr b) of None \<Rightarrow> p | Some signer \<Rightarrow> RecordBlockProduction signer h p))"

definition rebuild_suspensions :: "crypto \<Rightarrow> u64 \<Rightarrow> (u64 \<Rightarrow> block option) \<Rightarrow> poa \<Rightarrow> poa" where
  "rebuild_suspensions C height block_at p =
     fold (scan_height C block_at) (window_heights height) (SetCurrentHeight height (ResetSuspensions p))"

definition reconstructSuspensions :: "('p, 's) node_config \<Rightarrow> ('p, 's) node \<Rightarrow> ('p, 's) node" where
  "reconstructSuspensions N n =
     (let ch = nd_chain n in
      case ch_engine ch of
        EnginePoW _ \<Rightarrow> n
      | EnginePoA p \<Rightarrow>
          n\<lparr>nd_chain := ch\<lparr>ch_engine :=
            EnginePoA (rebuild_suspensions (nc_crypto N) (ch_height ch) (GetBlockByHeight (en_db (nc_env N)) (ch_db ch)) p)\<rparr>\<rparr>)"

section \<open>Block production\<close>

text \<open>Every node wakes at the next multiple of the block time.\<close>

definition next_slot :: "int \<Rightarrow> int \<Rightarrow> int" where
  "next_slot blockTimeSec now = (now div blockTimeSec + 1) * blockTimeSec"

datatype turn = SkipSlot | ProduceNow | WaitBackup "bytes option" u64   \<comment> \<open>expected producer, delay in ms\<close>

text \<open>
  The decision after waking, with the number of connected peers when there is a p2p node. A nil
  public key is the empty byte string for \<open>IsSuspended\<close>.
\<close>

definition miner_turn :: "crypto \<Rightarrow> nat option \<Rightarrow> u64 \<Rightarrow> tracker \<Rightarrow> engine \<Rightarrow> turn" where
  "miner_turn C peers now t e =
     (if peers = Some 0 then SkipSlot
      else case e of
        EnginePoW _ \<Rightarrow> ProduceNow
      | EnginePoA p \<Rightarrow>
          if IsInTurn C p now then ProduceNow
          else let expected = slotValidatorFromSet (poa_validators p) now (poa_block_time p);
                   suspended = IsSuspended p (case expected of None \<Rightarrow> [] | Some v \<Rightarrow> v);
                   online = (case expected of None \<Rightarrow> False | Some v \<Rightarrow> IsOnline (unix now) t v)
               in if \<not> suspended \<and> online then SkipSlot else WaitBackup expected (BackupDelayEffective C p now))"

text \<open>After the backup delay: no block if one has arrived, otherwise a miss of the expected producer.\<close>

definition after_wait :: "u64 \<Rightarrow> bytes option \<Rightarrow> ('p, 's) node \<Rightarrow> ('p, 's) node \<times> bool" where
  "after_wait nextHeight expected n =
     (if ch_height (nd_chain n) \<ge> nextHeight then (n, False)
      else (case expected of None \<Rightarrow> n | Some v \<Rightarrow> n\<lparr>nd_tracker := RecordMiss v (nd_tracker n)\<rparr>, True))"

text \<open>What becomes of a block of one's own; the second result is whether it is broadcast.\<close>

definition finish_own_block ::
  "('p, 's) node_config \<Rightarrow> u64 \<Rightarrow> block \<Rightarrow> ('p, 's) node \<Rightarrow> ('p, 's) node \<times> bool" where
  "finish_own_block N now b n =
     (case node_process N now b n of
        (n1, Some e) \<Rightarrow>
          (if e = chain_error.ErrCoinbaseNotMature
           then n1\<lparr>nd_pool := fold (\<lambda>t. Pool_Remove (TxHash (nc_crypto N) t)) (tl (b_txs b)) (nd_pool n1)\<rparr>
           else n1, False)
      | (n1, None) \<Rightarrow>
          (record_producer N now (hdr b) (n1\<lparr>nd_pool := RemoveConfirmed (nc_crypto N) (b_txs b) (nd_pool n1)\<rparr>), True))"

definition demo_node :: "(string, dbval memory_db) node" where
  "demo_node = \<lparr>nd_chain = demo_start, nd_pool = Pool_New 0, nd_bans = NewBanManager DAList.empty,
     nd_tracker = NewValidatorTracker 60\<rparr>"

definition demo_node_config :: "(string, dbval memory_db) node_config" where
  "demo_node_config = \<lparr>nc_env = demo_env, nc_order = (\<lambda>bs. bs), nc_bans = demo_bans\<rparr>"

section \<open>Who is penalised\<close>

lemma penalise_fields [simp]:
  "nd_pool (penalise N now p penalty reason n) = nd_pool n"
  "ch_height (nd_chain (penalise N now p penalty reason n)) = ch_height (nd_chain n)"
  by (simp_all add: penalise_def Let_def)

lemma nd_bans_return [simp]: "nd_bans (return_reverted N ts n) = nd_bans n"
  by (simp add: return_reverted_def)

lemma nd_bans_process: "node_process N now b n = (n', r) \<Longrightarrow> nd_bans n' = nd_bans n"
  by (auto simp: node_process_def split: prod.splits)

lemma nd_bans_confirm [simp]: "nd_bans (node_confirm N b n) = nd_bans n" "nd_bans (record_producer N now h n) = nd_bans n"
  by (simp_all add: node_confirm_def record_producer_def split: engine.split option.split)

text \<open>
  Gossip and bans. A relayed block leaves the scores and bans alone when it is accepted,
  known, an orphan or on a fork, and while a sync is running; every other outcome costs the relay
  50 points. A relayed transaction costs 20 exactly when the pool does not take it, for whatever
  reason.
\<close>

theorem gossip_penalties:
  "(\<forall>b n' r. node_process N now b n = (n', r) \<longrightarrow>
      nd_bans (fst (on_block N now syncing from (Some b) n)) =
        (if syncing \<or> r \<in> {None, Some ErrBlockKnown, Some ErrPrevNotFound, Some ErrForkDetected} then nd_bans n
         else RecordOffense (nc_bans N) (unix now) from 50 ''block'' ((nd_bans n)\<lparr>bm_db := ch_db (nd_chain n')\<rparr>))) \<and>
   (\<forall>t. nd_bans (on_tx N now from (Some t) n) =
      (case snd (Pool_Add (nc_crypto N) (nc_order N) (pool_view_of (nc_env N) (nd_chain n)) t (nd_pool n)) of
         Inr fee \<Rightarrow> nd_bans n
       | Inl e \<Rightarrow> RecordOffense (nc_bans N) (unix now) from 20 ''tx'' ((nd_bans n)\<lparr>bm_db := ch_db (nd_chain n)\<rparr>)))"
proof (intro conjI allI impI)
  fix b n' r assume p: "node_process N now b n = (n', r)"
  then show "nd_bans (fst (on_block N now syncing from (Some b) n)) =
      (if syncing \<or> r \<in> {None, Some ErrBlockKnown, Some ErrPrevNotFound, Some ErrForkDetected} then nd_bans n
       else RecordOffense (nc_bans N) (unix now) from 50 ''block'' ((nd_bans n)\<lparr>bm_db := ch_db (nd_chain n')\<rparr>))"
    using nd_bans_process [OF p]
    by (cases r) (auto simp: on_block_def penalise_def Let_def PenaltyInvalidBlock_def)
next
  show "nd_bans (on_tx N now from (Some t) n) =
      (case snd (Pool_Add (nc_crypto N) (nc_order N) (pool_view_of (nc_env N) (nd_chain n)) t (nd_pool n)) of
         Inr fee \<Rightarrow> nd_bans n
       | Inl e \<Rightarrow> RecordOffense (nc_bans N) (unix now) from 20 ''tx'' ((nd_bans n)\<lparr>bm_db := ch_db (nd_chain n)\<rparr>))" for t
    by (cases "Pool_Add (nc_crypto N) (nc_order N) (pool_view_of (nc_env N) (nd_chain n)) t (nd_pool n)")
      (auto simp: on_tx_def penalise_def Let_def PenaltyInvalidTx_def split: sum.split)
qed

theorem gossip_penalties_witness:
  "nd_bans (fst (on_block demo_node_config 1770734110 False ''relay'' (Some demo_first) demo_node)) = NewBanManager DAList.empty"
proof -
  obtain n' r where p: "node_process demo_node_config 1770734110 demo_first demo_node = (n', r)" by fastforce
  have "r = None"
    using p demo_chain_eq by (auto simp: node_process_def demo_node_config_def demo_node_def)
  then show ?thesis
    using gossip_penalties [of demo_node_config 1770734110 demo_node False "''relay''"] p by (simp add: demo_node_def)
qed

text \<open>Refused transactions from one relay, one after the other.\<close>

definition relays :: "('p, 's) node_config \<Rightarrow> u64 \<Rightarrow> 'p \<Rightarrow> nat \<Rightarrow> transaction \<Rightarrow> ('p, 's) node \<Rightarrow> ('p, 's) node" where
  "relays N now from k t = (on_tx N now from (Some t)) ^^ k"

lemma Pool_Add_refused: "Pool_Add C order V t p = (p', Inl e) \<Longrightarrow> p' = p"
  by (auto simp: Pool_Add_def Let_def split: sum.splits if_splits prod.splits)

lemma pool_has_refused: "Pool_Has p (TxHash C t) \<Longrightarrow> Pool_Add C order V t p = (p, Inl ErrAlreadyExists)"
  by (simp add: Pool_Add_def admit_def Pool_Has_def)

lemma on_tx_known:
  "Pool_Has (nd_pool n) (TxHash (nc_crypto N) t) \<Longrightarrow>
   on_tx N now from (Some t) n = penalise N now from PenaltyInvalidTx ''tx'' n"
  by (cases n) (simp add: on_tx_def pool_has_refused)

lemma relays_Suc: "relays N now from (Suc k) t n = on_tx N now from (Some t) (relays N now from k t n)"
  by (simp add: relays_def)

lemma relays_known:
  assumes "Pool_Has (nd_pool n) (TxHash (nc_crypto N) t)" and "\<not> banned (unix now) (nd_bans n) from"
    and "score (nd_bans n) from = 0" and "k \<le> 4"
  shows "nd_pool (relays N now from k t n) = nd_pool n \<and> \<not> banned (unix now) (nd_bans (relays N now from k t n)) from \<and>
    score (nd_bans (relays N now from k t n)) from = 20 * int k"
  using assms(4)
proof (induction k)
  case 0
  then show ?case using assms by (simp add: relays_def)
next
  case (Suc k)
  let ?n = "relays N now from k t n"
  have ih: "nd_pool ?n = nd_pool n" "\<not> banned (unix now) (nd_bans ?n) from" "score (nd_bans ?n) from = 20 * int k"
    using Suc by simp_all
  then have "relays N now from (Suc k) t n = penalise N now from PenaltyInvalidTx ''tx'' ?n"
    using on_tx_known [of ?n N t now "from"] assms(1) by (simp add: relays_Suc)
  moreover have "banned (unix now) ((nd_bans ?n)\<lparr>bm_db := s\<rparr>) from = banned (unix now) (nd_bans ?n) from"
    "score ((nd_bans ?n)\<lparr>bm_db := s\<rparr>) from = score (nd_bans ?n) from" for s by (simp_all add: banned_def score_def)
  ultimately show ?case using ih Suc.prems
    by (simp add: penalise_def Let_def RecordOffense_def PenaltyInvalidTx_def BanThreshold_def)
      (simp add: banned_def score_def lookup_update_fun)
qed

text \<open>
  Five transactions that the pool already holds ban the peer that relays them for a day:
  the refusal of a duplicate is penalised like an invalid transaction.
\<close>

theorem duplicate_relay_banned:
  assumes "Pool_Has (nd_pool n) (TxHash (nc_crypto N) t)" and "\<not> banned (unix now) (nd_bans n) from"
    and "score (nd_bans n) from = 0" and "unix now \<le> later" and "later < unix now + BanDuration"
  shows "banned later (nd_bans (relays N now from 5 t n)) from"
proof -
  let ?n = "relays N now from 4 t n"
  have r: "nd_pool ?n = nd_pool n" "\<not> banned (unix now) (nd_bans ?n) from" "score (nd_bans ?n) from = 80"
    using relays_known [OF assms(1-3), of 4] by simp_all
  have "relays N now from 5 t n = penalise N now from PenaltyInvalidTx ''tx'' ?n"
    using on_tx_known [of ?n N t now "from"] assms(1) r(1) relays_Suc [of N now "from" 4 t n] by simp
  moreover have "banned (unix now) ((nd_bans ?n)\<lparr>bm_db := s\<rparr>) from = banned (unix now) (nd_bans ?n) from"
    "score ((nd_bans ?n)\<lparr>bm_db := s\<rparr>) from = score (nd_bans ?n) from" for s by (simp_all add: banned_def score_def)
  moreover have "0 \<le> unix now" by (simp add: unix_def)
  ultimately show ?thesis
    using offence_effect [of "unix now" later "from" "nc_bans N" 20 "''tx''" "(nd_bans ?n)\<lparr>bm_db := ch_db (nd_chain ?n)\<rparr>"] r assms(4,5)
    by (simp add: penalise_def Let_def PenaltyInvalidTx_def BanThreshold_def)
qed

theorem duplicate_relay_banned_witness:
  "banned 1770734200 (nd_bans (relays (demo_node_config\<lparr>nc_env := demo_env\<lparr>en_crypto := toy_crypto\<rparr>\<rparr>) 1770734110
     ''relay'' 5 demo_tx (demo_node\<lparr>nd_pool := demo_pool\<rparr>))) ''relay''"
proof -
  have "Pool_Has demo_pool (TxHash toy_crypto demo_tx)" using demo_pool_Get by (auto simp: Pool_Has_def Pool_Get_def)
  then show ?thesis
    by (intro duplicate_relay_banned)
      (simp_all add: demo_node_def demo_node_config_def banned_def score_def NewBanManager_def DAList.lookup_empty
        unix_def BanDuration_def)
qed

section \<open>What is served\<close>

text \<open>A run of the height index from one height up, of at most 500 blocks.\<close>

lemma serve_loop_spec:
  "(\<forall>i < length (serve_loop D s h bound). GetBlockByHeight D s (h + word_of_nat i) = Some (serve_loop D s h bound ! i)) \<and>
   length (serve_loop D s h bound) \<le> unat bound - unat h \<and>
   (length (serve_loop D s h bound) < unat bound - unat h \<longrightarrow>
      GetBlockByHeight D s (h + word_of_nat (length (serve_loop D s h bound))) = None)"
proof (induction D s h bound rule: serve_loop.induct)
  case (1 D s h bound)
  show ?case
  proof (cases "h < bound")
    case False
    then show ?thesis by (simp add: serve_loop.simps [of D s h] word_less_nat_alt)
  next
    case lt: True
    have u: "unat (h + 1) = Suc (unat h)" using less_max_u64 [OF lt] by (rule unat_Suc_u64)
    show ?thesis
    proof (cases "GetBlockByHeight D s h")
      case None
      then show ?thesis using lt by (simp add: serve_loop.simps [of D s h])
    next
      case (Some b)
      have "h + 1 + word_of_nat i = h + word_of_nat (Suc i)" for i by simp
      then show ?thesis using "1.IH" [OF lt Some] Some lt u
        by (auto simp: serve_loop.simps [of D s h] nth_Cons' word_less_nat_alt less_Suc_eq_0_disj add.assoc)
    qed
  qed
qed



section \<open>Suspensions are a function of the chain\<close>

definition signer_at :: "crypto \<Rightarrow> (u64 \<Rightarrow> block option) \<Rightarrow> poa \<Rightarrow> u64 \<Rightarrow> bytes option" where
  "signer_at C block_at p h = (case block_at h of None \<Rightarrow> None | Some b \<Rightarrow> IdentifySigner C p (hdr b))"

lemma signer_at_cong: "poa_validators p = poa_validators q \<Longrightarrow> signer_at C block_at p = signer_at C block_at q"
  by (simp add: signer_at_def fun_eq_iff IdentifySigner_def split: option.split)

lemma scan_height_signer:
  "scan_height C block_at h p = (case signer_at C block_at p h of None \<Rightarrow> p | Some v \<Rightarrow> RecordBlockProduction v h p)"
  by (simp add: scan_height_def signer_at_def split: option.split)

lemma scan_fold:
  assumes "\<forall>h \<in> set hs. h \<le> poa_height p"
  shows "poa_validators (fold (scan_height C block_at) hs p) = poa_validators p \<and>
    poa_height (fold (scan_height C block_at) hs p) = poa_height p \<and>
    poa_last (fold (scan_height C block_at) hs p) (hex_encode v) =
      (case find (\<lambda>h. signer_at C block_at p h = Some v) (rev hs) of None \<Rightarrow> poa_last p (hex_encode v) | Some h \<Rightarrow> Some h)"
  using assms
proof (induction hs rule: rev_induct)
  case Nil
  then show ?case by simp
next
  case (snoc h hs)
  let ?q = "fold (scan_height C block_at) hs p"
  have ih: "poa_validators ?q = poa_validators p" "poa_height ?q = poa_height p"
    "poa_last ?q (hex_encode v) =
      (case find (\<lambda>h. signer_at C block_at p h = Some v) (rev hs) of None \<Rightarrow> poa_last p (hex_encode v) | Some h \<Rightarrow> Some h)"
    using snoc by simp_all
  have sg: "signer_at C block_at ?q h = signer_at C block_at p h" using signer_at_cong [OF ih(1)] by simp
  have step: "fold (scan_height C block_at) (hs @ [h]) p =
      (case signer_at C block_at p h of None \<Rightarrow> ?q | Some u \<Rightarrow> RecordBlockProduction u h ?q)"
    using scan_height_signer [of C block_at h ?q] sg by simp
  show ?case unfolding step using ih snoc.prems
    by (cases "signer_at C block_at p h") (auto simp: RecordBlockProduction_def)
qed

lemma window_heights_set:
  "set (window_heights height) = {h. window_start height \<le> h \<and> h \<le> height}"
proof -
  let ?s = "window_start height"
  have s: "?s \<le> height" by (auto simp: window_start_def word_le_nat_alt word_less_nat_alt unat_sub SuspensionWindow_def)
  have d: "unat (height - ?s) = unat height - unat ?s" using s by (simp add: word_le_nat_alt unat_sub)
  have "?s + word_of_nat i \<le> height \<and> ?s \<le> ?s + word_of_nat i" if "i \<le> unat (height - ?s)" for i
  proof -
    have "unat ?s + i \<le> unat height" using that s d by (simp add: word_le_nat_alt)
    moreover have "unat height < 2 ^ 64" using unsigned_less [of height, where 'a = nat] by simp
    ultimately have "unat (?s + word_of_nat i) = unat ?s + i" by (simp add: unat_word_ariths(1) unat_of_nat)
    with \<open>unat ?s + i \<le> unat height\<close> show ?thesis by (simp add: word_le_nat_alt)
  qed
  moreover have "\<exists>i \<le> unat (height - ?s). h = ?s + word_of_nat i" if "?s \<le> h" "h \<le> height" for h
    using that d by (intro exI [of _ "unat (h - ?s)"]) (simp add: word_le_nat_alt unat_sub)
  ultimately show ?thesis
    unfolding window_heights_def set_map set_upt by (fastforce simp: image_iff less_Suc_eq_le)
qed

text \<open>
  Suspensions after a restart, a sync or a reorganisation depend on the chain alone. Whatever
  the engine had recorded before, two engines with the same validators rebuild the same records;
  past the first window a validator counts as active exactly when it signed one of the blocks of
  the window, that is one at most 200 heights below the tip.
\<close>

theorem suspensions_from_chain:
  fixes C :: crypto and block_at :: "u64 \<Rightarrow> block option" and height :: u64
  assumes "poa_validators q = poa_validators p" and h: "SuspensionWindow < height"
  defines "r \<equiv> rebuild_suspensions C height block_at p" and "r' \<equiv> rebuild_suspensions C height block_at q"
  shows "poa_height r = height \<and> poa_validators r = poa_validators p \<and>
    poa_last r' (hex_encode v) = poa_last r (hex_encode v) \<and>
    (recently_active r v \<longleftrightarrow>
      (\<exists>n b. height - SuspensionWindow \<le> n \<and> n \<le> height \<and> block_at n = Some b \<and> IdentifySigner C p (hdr b) = Some v))"
proof -
  let ?p = "SetCurrentHeight height (ResetSuspensions p)" and ?q = "SetCurrentHeight height (ResetSuspensions q)"
  let ?hs = "window_heights height"
  have le: "\<forall>h \<in> set ?hs. h \<le> poa_height ?p" by (simp add: window_heights_set SetCurrentHeight_def)
  have le': "\<forall>h \<in> set ?hs. h \<le> poa_height ?q" by (simp add: window_heights_set SetCurrentHeight_def)
  have v: "poa_validators ?p = poa_validators p" "poa_validators ?q = poa_validators p" "poa_height ?p = height"
    "poa_last ?p = Map.empty" "poa_last ?q = Map.empty"
    using assms(1) by (simp_all add: SetCurrentHeight_def ResetSuspensions_def)
  note sf = scan_fold [OF le, of C block_at v, folded rebuild_suspensions_def r_def, unfolded signer_at_cong [OF v(1)]]
  note sf' = scan_fold [OF le', of C block_at v, folded rebuild_suspensions_def r'_def, unfolded signer_at_cong [OF v(2)]]
  let ?f = "find (\<lambda>h. signer_at C block_at p h = Some v) (rev ?hs)"
  have last: "poa_last r (hex_encode v) = ?f" using sf v(4) by (simp split: option.split)
  have "recently_active r v \<longleftrightarrow> ?f \<noteq> None"
  proof (cases ?f)
    case None
    then show ?thesis using last sf v(3) h by (simp add: recently_active_def)
  next
    case (Some n)
    then have "n \<in> set ?hs" by (auto simp: find_Some_iff) (metis nth_mem set_rev length_rev)
    then have n: "window_start height \<le> n" "n \<le> height" by (simp_all add: window_heights_set)
    then have "height - n \<le> SuspensionWindow"
      using h by (auto simp: window_start_def word_le_nat_alt word_less_nat_alt unat_sub split: if_splits)
    then show ?thesis using last sf v(3) Some by (simp add: recently_active_def)
  qed
  also have "\<dots> \<longleftrightarrow> (\<exists>n \<in> set ?hs. signer_at C block_at p n = Some v)"
    by (auto simp: find_None_iff)
  also have "\<dots> \<longleftrightarrow> (\<exists>n b. height - SuspensionWindow \<le> n \<and> n \<le> height \<and> block_at n = Some b \<and> IdentifySigner C p (hdr b) = Some v)"
    using h by (auto simp: window_heights_set window_start_def signer_at_def split: option.splits)
  finally show ?thesis using sf sf' v last by (simp split: option.split)
qed

theorem suspensions_from_chain_witness:
  "\<not> recently_active (rebuild_suspensions toy_crypto 1000 (\<lambda>h. None) demo_poa) [5]"
  using suspensions_from_chain [of demo_poa demo_poa 1000 toy_crypto "\<lambda>h. None" "[5]"] by (simp add: SuspensionWindow_def)

end
