(* ===== verification/Sync.thy ===== *)
theory Sync
  imports Node
begin

text \<open>
  Catching up with peers (\<open>internal/node\<close>): the download of blocks in batches with failover
  between peers, the search for a common ancestor, fork resolution and the rounds of a sync.
  Peers may answer anything; the network is a parameter.
\<close>

section \<open>The network\<close>

text \<open>
  An unknown world \<open>'n\<close> that each request changes. Block answers are the decoded JSON: an
  element may be null, and a block may lack its header. Failed requests answer \<open>None\<close>.
\<close>

record ('n, 'p) network =
  nt_stopped :: "'n \<Rightarrow> bool"
  nt_now :: "'n \<Rightarrow> 'n \<times> u64"
  nt_peers :: "'n \<Rightarrow> 'p list"
  nt_height :: "'n \<Rightarrow> 'p \<Rightarrow> 'n \<times> (u64 \<times> string) option"
  nt_blocks :: "'n \<Rightarrow> 'p \<Rightarrow> u64 \<Rightarrow> u32 \<Rightarrow> 'n \<times> block option list option"

definition header_of :: "block option \<Rightarrow> header option" where
  "header_of bo = (case bo of None \<Rightarrow> None | Some b \<Rightarrow> b_header b)"

section \<open>Batches\<close>

datatype batch_end = BatchDone u64 | BatchGap | BatchFailed chain_error u64 | BatchPanic

text \<open>
  Going through a batch in order. Reading the height of a block without header is a nil
  dereference, which nothing recovers from in these goroutines.
\<close>

fun apply_batch ::
  "('p, 's) node_config \<Rightarrow> ('n, 'p) network \<Rightarrow> u64 \<Rightarrow> block option list \<Rightarrow> 'n \<Rightarrow> ('p, 's) node \<Rightarrow>
   'n \<times> ('p, 's) node \<times> batch_end" where
  "apply_batch N T nextFrom [] w n = (w, n, BatchDone nextFrom)"
| "apply_batch N T nextFrom (None # bs) w n = (w, n, BatchPanic)"
| "apply_batch N T nextFrom (Some b # bs) w n =
     (case b_header b of
        None \<Rightarrow> (w, n, BatchPanic)
      | Some h \<Rightarrow>
          if h_height h \<noteq> nextFrom then (w, n, BatchGap)
          else case nt_now T w of (w1, now) \<Rightarrow>
            (case node_process N now b n of
               (n1, None) \<Rightarrow> apply_batch N T (nextFrom + 1) bs w1 (node_confirm N b n1)
             | (n1, Some e) \<Rightarrow>
                 if e = ErrBlockKnown then apply_batch N T (nextFrom + 1) bs w1 n1
                 else (w1, n1, BatchFailed e (h_height h))))"

definition batch_size :: "u64 \<Rightarrow> u64 \<Rightarrow> u32" where
  "batch_size from_height tip =
     (if from_height + ucast MaxSyncBlocks - 1 > tip then ucast (tip - from_height + 1) else MaxSyncBlocks)"

datatype batch_head = HeadGood "block option list" | HeadBad | HeadPanic

definition check_head :: "u64 \<Rightarrow> block option list option \<Rightarrow> batch_head" where
  "check_head from_height answer =
     (case answer of
        None \<Rightarrow> HeadBad
      | Some [] \<Rightarrow> HeadBad
      | Some (b # bs) \<Rightarrow>
          (case header_of b of
             None \<Rightarrow> HeadPanic
           | Some h \<Rightarrow> if h_height h \<noteq> from_height then HeadBad else HeadGood (b # bs)))"

datatype download_end = DlDone | DlExhausted | DlAborted | DlFailed chain_error u64 nat | DlPanic

text \<open>
  Both download loops. A bad answer moves on to the next candidate; the loop over unsigned
  heights is a partial function, so that its return is a theorem and not built in.
\<close>

partial_function (option) download ::
  "('p, 's) node_config \<Rightarrow> ('n, 'p) network \<Rightarrow> 'p list \<Rightarrow> nat \<Rightarrow> u64 \<Rightarrow> u64 \<Rightarrow> 'n \<Rightarrow> ('p, 's) node \<Rightarrow>
   ('n \<times> ('p, 's) node \<times> download_end) option" where
  "download N T cands idx from_height tip w n =
     (if from_height > tip then Some (w, n, DlDone)
      else case nt_blocks T w (cands ! idx) from_height (batch_size from_height tip) of
        (w1, answer) \<Rightarrow>
          (case check_head from_height answer of
             HeadPanic \<Rightarrow> Some (w1, n, DlPanic)
           | HeadBad \<Rightarrow>
               if Suc idx < length cands then download N T cands (Suc idx) from_height tip w1 n
               else Some (w1, n, DlExhausted)
           | HeadGood bs \<Rightarrow>
               (case apply_batch N T from_height bs w1 n of
                  (w2, n2, r) \<Rightarrow>
                    (case r of
                       BatchDone next \<Rightarrow> download N T cands idx next tip w2 n2
                     | BatchGap \<Rightarrow> Some (w2, n2, DlAborted)
                     | BatchFailed e h \<Rightarrow> Some (w2, n2, DlFailed e h idx)
                     | BatchPanic \<Rightarrow> Some (w2, n2, DlPanic)))))"

section \<open>Fork resolution\<close>

datatype ancestor = Ancestor u64 | NoAncestor | AncestorPanic

lemma unat_pred_less: "h \<noteq> (0 :: u64) \<Longrightarrow> unat h - Suc 0 < unat h"
  by (simp add: unat_gt_0)

text \<open>From \<open>h\<close> downwards; a peer that fails is replaced by the next one for the same height.\<close>

function find_ancestor ::
  "crypto \<Rightarrow> ('n, 'p) network \<Rightarrow> (u64 \<Rightarrow> block option) \<Rightarrow> 'p list \<Rightarrow> nat \<Rightarrow> u64 \<Rightarrow> 'n \<Rightarrow> 'n \<times> ancestor" where
  "find_ancestor C T local cands idx h w =
     (if nt_stopped T w then (w, NoAncestor)
      else case nt_blocks T w (cands ! idx) h 1 of
        (w1, answer) \<Rightarrow>
          (if answer = None \<or> answer = Some [] then
             if Suc idx < length cands then find_ancestor C T local cands (Suc idx) h w1
             else if h = 0 then (w1, NoAncestor) else find_ancestor C T local cands 0 (h - 1) w1
           else case local h of
             None \<Rightarrow> if h = 0 then (w1, NoAncestor) else find_ancestor C T local cands 0 (h - 1) w1
           | Some lb \<Rightarrow>
               if header_of (hd (the answer)) = None then (w1, AncestorPanic)
               else if BlockHash C (the (hd (the answer))) = BlockHash C lb then (w1, Ancestor h)
               else if h = 0 then (w1, NoAncestor) else find_ancestor C T local cands 0 (h - 1) w1))"
  by pat_completeness auto
termination
proof (relation "measures [\<lambda>(C, T, local, cands, idx, h, w). unat h, \<lambda>(C, T, local, cands, idx, h, w). length cands - idx]",
    goal_cases)
qed (auto simp: unat_minus_one unat_pred_less)

declare find_ancestor.simps [simp del]

datatype sync_end = SyncOk | SyncPanic

definition resolveFork ::
  "('p, 's) node_config \<Rightarrow> ('n, 'p) network \<Rightarrow> 'p list \<Rightarrow> u64 \<Rightarrow> u64 \<Rightarrow> 'n \<Rightarrow> ('p, 's) node \<Rightarrow>
   ('n \<times> ('p, 's) node \<times> sync_end) option" where
  "resolveFork N T cands failedHeight peerTip w n =
     (if cands = [] then Some (w, n, SyncOk)
      else let ch = nd_chain n; s = failedHeight - 1; searchFrom = (if s > ch_height ch then ch_height ch else s) in
        case find_ancestor (nc_crypto N) T (GetBlockByHeight (en_db (nc_env N)) (ch_db ch)) cands 0 searchFrom w of
          (w1, NoAncestor) \<Rightarrow> Some (w1, n, SyncOk)
        | (w1, AncestorPanic) \<Rightarrow> Some (w1, n, SyncPanic)
        | (w1, Ancestor a) \<Rightarrow>
            Option.bind (download N T cands 0 (a + 1) peerTip w1 n) (\<lambda>(w2, n2, r).
              Some (w2, if ch_height (nd_chain n2) \<noteq> ch_height ch then reconstructSuspensions N n2 else n2,
                    if r = DlPanic then SyncPanic else SyncOk)))"

section \<open>Sync\<close>

text \<open>The heights of at most eight peers, best first.\<close>

fun query_heights ::
  "('n, 'p) network \<Rightarrow> 'p list \<Rightarrow> 'n \<Rightarrow> 'n \<times> ('p \<times> u64 \<times> string) list" where
  "query_heights T [] w = (w, [])"
| "query_heights T (p # ps) w =
     (case nt_height T w p of
        (w1, answer) \<Rightarrow>
          (case query_heights T ps w1 of
             (w2, cs) \<Rightarrow>
               (w2, case answer of None \<Rightarrow> cs | Some (h, t) \<Rightarrow> if h > 0 then (p, h, t) # cs else cs)))"

definition sync_candidates :: "('n, 'p) network \<Rightarrow> 'n \<Rightarrow> 'n \<times> ('p \<times> u64 \<times> string) list" where
  "sync_candidates T w =
     (case query_heights T (take 8 (nt_peers T w)) w of (w1, cs) \<Rightarrow> (w1, sort_key (\<lambda>(p, h, t). - uint h) cs))"

datatype round_end = RoundAgain | RoundOver | RoundPanic

definition rebuilt_if_moved ::
  "('p, 's) node_config \<Rightarrow> u64 \<Rightarrow> ('p, 's) node \<Rightarrow> ('p, 's) node" where
  "rebuilt_if_moved N startHeight n =
     (if ch_height (nd_chain n) \<noteq> startHeight then reconstructSuspensions N n else n)"

text \<open>
  One round of the outer loop of \<open>runStartupSync\<close>. The log line of a fork at the same height cuts
  the peer's tip hash to 16 characters, which panics on a shorter one. (With at most eight
  candidates \<open>sort.Slice\<close> is an insertion sort, hence stable.)
\<close>

definition sync_round ::
  "('p, 's) node_config \<Rightarrow> ('n, 'p) network \<Rightarrow> 'n \<Rightarrow> ('p, 's) node \<Rightarrow>
   ('n \<times> ('p, 's) node \<times> round_end) option" where
  "sync_round N T w n =
     (if nt_stopped T w \<or> nt_peers T w = [] then Some (w, n, RoundOver)
      else let start = ch_height (nd_chain n) in
        case sync_candidates T w of
          (w1, []) \<Rightarrow> Some (w1, n, RoundOver)
        | (w1, (p, best, tip) # cs) \<Rightarrow>
            (let cands = p # map fst cs in
             if best = start \<and> best > 0 then
               (if tip \<noteq> [] \<and> tip \<noteq> hash_string (ch_tip (nd_chain n)) then
                  if length tip < 16 then Some (w1, n, RoundPanic)
                  else Option.bind (resolveFork N T cands start best w1 n) (\<lambda>(w2, n2, r).
                    Some (w2, rebuilt_if_moved N start n2, if r = SyncPanic then RoundPanic else RoundAgain))
                else Some (w1, n, RoundOver))
             else if best \<le> start then Some (w1, n, RoundOver)
             else Option.bind (download N T cands 0 (start + 1) best w1 n) (\<lambda>(w2, n2, r).
               case r of
                 DlPanic \<Rightarrow> Some (w2, n2, RoundPanic)
               | DlFailed e h idx \<Rightarrow>
                   if e = ErrPrevNotFound then
                     Option.bind (resolveFork N T (drop idx cands) h best w2 n2) (\<lambda>(w3, n3, r3).
                       Some (w3, rebuilt_if_moved N start n3, if r3 = SyncPanic then RoundPanic else RoundAgain))
                   else Some (w2, rebuilt_if_moved N start n2, RoundOver)
               | _ \<Rightarrow> Some (w2, rebuilt_if_moved N start n2, RoundOver))))"

section \<open>Sync ends, whatever the peers answer\<close>

text \<open>Answers are limited to 10 MB, so that they have fewer than \<open>2 ^ 32\<close> blocks; heights are far from overflow.\<close>

definition bounded_network :: "('n, 'p) network \<Rightarrow> bool" where
  "bounded_network T \<longleftrightarrow>
     (\<forall>w p h m w' bs. nt_blocks T w p h m = (w', Some bs) \<longrightarrow> length bs < 2 ^ 32) \<and>
     (\<forall>w p w' h t. nt_height T w p = (w', Some (h, t)) \<longrightarrow> unat h + 2 ^ 32 < 2 ^ 64)"

lemma apply_batch_done:
  "apply_batch N T nextFrom bs w n = (w', n', BatchDone nx) \<Longrightarrow> nx = nextFrom + word_of_nat (length bs)"
  by (induction N T nextFrom bs w n rule: apply_batch.induct) (auto split: option.splits prod.splits if_splits)

lemma check_head_good: "check_head h answer = HeadGood bs \<Longrightarrow> answer = Some bs \<and> bs \<noteq> []"
  by (auto simp: check_head_def split: option.splits list.splits if_splits)

lemma download_returns:
  assumes T: "bounded_network T" and tip: "unat tip + 2 ^ 32 < 2 ^ 64"
  shows "\<exists>r. download N T cands idx from_height tip w n = Some r"
proof (induction "Suc (unat tip) - unat from_height" arbitrary: from_height idx w n rule: less_induct)
  case outer: less
  show ?case
  proof (induction "length cands - idx" arbitrary: idx w rule: less_induct)
    case inner: less
    obtain w1 answer where a: "nt_blocks T w (cands ! idx) from_height (batch_size from_height tip) = (w1, answer)"
      by fastforce
    show ?case
    proof (cases "from_height > tip")
      case True
      then show ?thesis by (simp add: download.simps)
    next
      case le: False
      show ?thesis
      proof (cases "check_head from_height answer")
        case HeadBad
        then show ?thesis using le a inner.hyps [of "Suc idx" w1] by (auto simp: download.simps [of N T cands idx])
      next
        case HeadPanic
        then show ?thesis using le a by (simp add: download.simps [of N T cands idx])
      next
        case (HeadGood bs)
        obtain w2 n2 r where b: "apply_batch N T from_height bs w1 n = (w2, n2, r)" by (cases "apply_batch N T from_height bs w1 n")
        show ?thesis
        proof (cases r)
          case (BatchDone nx)
          have "length bs < 2 ^ 32" "bs \<noteq> []" using check_head_good [OF HeadGood] a T unfolding bounded_network_def by blast+
          moreover have "nx = from_height + word_of_nat (length bs)" by (rule apply_batch_done [OF b [unfolded BatchDone]])
          ultimately have "unat nx = unat from_height + length bs"
            using le tip by (simp add: unat_word_ariths(1) unat_of_nat word_le_nat_alt not_less)
          moreover have "0 < length bs" using \<open>bs \<noteq> []\<close> by simp
          ultimately have "Suc (unat tip) - unat nx < Suc (unat tip) - unat from_height"
            using le unfolding word_less_nat_alt by linarith
          then show ?thesis using le a HeadGood b BatchDone outer.hyps [of nx idx w2 n2]
            by (simp add: download.simps [of N T cands idx])
        qed (use le a HeadGood b in \<open>simp_all add: download.simps [of N T cands idx]\<close>)
      qed
    qed
  qed
qed

lemma resolveFork_returns:
  assumes "bounded_network T" and "unat peerTip + 2 ^ 32 < 2 ^ 64"
  shows "\<exists>r. resolveFork N T cands failedHeight peerTip w n = Some r"
proof -
  obtain w1 a where f: "find_ancestor (nc_crypto N) T (GetBlockByHeight (en_db (nc_env N)) (ch_db (nd_chain n))) cands 0
      (if failedHeight - 1 > ch_height (nd_chain n) then ch_height (nd_chain n) else failedHeight - 1) w = (w1, a)" by fastforce
  show ?thesis
  proof (cases a)
    case (Ancestor h)
    obtain w2 n2 r where "download N T cands 0 (h + 1) peerTip w1 n = Some (w2, n2, r)"
      using download_returns [OF assms] by (metis prod_cases3)
    then show ?thesis using f Ancestor by (simp add: resolveFork_def Let_def)
  qed (use f in \<open>simp_all add: resolveFork_def Let_def\<close>)
qed

lemma query_heights_from:
  "query_heights T ps w = (w', cs) \<Longrightarrow> (p, h, t) \<in> set cs \<Longrightarrow> \<exists>w1 w2. nt_height T w1 p = (w2, Some (h, t))"
proof (induction ps arbitrary: w w' cs)
  case (Cons q ps)
  then show ?case by (fastforce split: prod.splits option.splits if_splits)
qed simp

lemma sync_candidates_from:
  assumes "sync_candidates T w = (w', cs)" and "(p, h, t) \<in> set cs"
  shows "\<exists>w1 w2. nt_height T w1 p = (w2, Some (h, t))"
  using assms query_heights_from by (fastforce simp: sync_candidates_def split: prod.splits)

text \<open>
  C24: A round of sync ends. Against any peers, answering or failing as they like (with answers of
  fewer than \<open>2 ^ 32\<close> blocks and heights below \<open>2 ^ 64 - 2 ^ 32\<close>), a round of sync returns:
  failover, batches of unexpected length, fork resolution included.
\<close>

theorem sync_round_returns:
  assumes "bounded_network T"
  shows "\<exists>w' n' r. sync_round N T w n = Some (w', n', r)"
proof -
  obtain w1 cs where c: "sync_candidates T w = (w1, cs)" by fastforce
  show ?thesis
  proof (cases cs)
    case Nil
    then show ?thesis using c by (simp add: sync_round_def Let_def)
  next
    case (Cons x cs')
    obtain p best tip where x: "x = (p, best, tip)" by (cases x)
    then obtain v v' where "nt_height T v p = (v', Some (best, tip))"
      using sync_candidates_from [OF c, of p best tip] Cons by auto
    then have bd: "unat best + 2 ^ 32 < 2 ^ 64" using assms unfolding bounded_network_def by blast
    have rf: "\<exists>w' n' r. resolveFork N T cands h best w n = Some (w', n', r)" for cands h w n
      using resolveFork_returns [OF assms bd] by (metis prod_cases3)
    obtain w2 n2 r where d: "download N T (p # map fst cs') 0 (ch_height (nd_chain n) + 1) best w1 n = Some (w2, n2, r)"
      using download_returns [OF assms bd] by (metis prod_cases3)
    obtain w3 n3 r3 where f: "resolveFork N T (p # map fst cs') (ch_height (nd_chain n)) best w1 n = Some (w3, n3, r3)"
      using rf by blast
    have "\<exists>w' n' s. (case r of
        DlPanic \<Rightarrow> Some (w2, n2, RoundPanic)
      | DlFailed e h idx \<Rightarrow>
          if e = ErrPrevNotFound then
            Option.bind (resolveFork N T (drop idx (p # map fst cs')) h best w2 n2) (\<lambda>(w3, n3, r3).
              Some (w3, rebuilt_if_moved N (ch_height (nd_chain n)) n3, if r3 = SyncPanic then RoundPanic else RoundAgain))
          else Some (w2, rebuilt_if_moved N (ch_height (nd_chain n)) n2, RoundOver)
      | _ \<Rightarrow> Some (w2, rebuilt_if_moved N (ch_height (nd_chain n)) n2, RoundOver)) = Some (w', n', s)"
    proof (cases r)
      case (DlFailed e h idx)
      obtain v m s where "resolveFork N T (drop idx (p # map fst cs')) h best w2 n2 = Some (v, m, s)" using rf by blast
      then show ?thesis using DlFailed by simp
    qed simp_all
    then show ?thesis using c Cons x d f
      by (cases "best = ch_height (nd_chain n)") (simp_all add: sync_round_def Let_def)
  qed
qed

text \<open>A network of one silent peer, and one whose only peer answers with a block without header.\<close>

definition quiet_network :: "(nat, string) network" where
  "quiet_network = \<lparr>nt_stopped = (\<lambda>w. False), nt_now = (\<lambda>w. (w, 1770734110)), nt_peers = (\<lambda>w. [''mallory'']),
     nt_height = (\<lambda>w p. (w + 1, Some (3, []))), nt_blocks = (\<lambda>w p h m. (w + 1, None))\<rparr>"

definition headless_network :: "(nat, string) network" where
  "headless_network = quiet_network\<lparr>nt_blocks := (\<lambda>w p h m. (w + 1, Some [Some \<lparr>b_header = None, b_txs = []\<rparr>]))\<rparr>"

theorem sync_round_returns_witness:
  "\<exists>w' n' r. sync_round demo_node_config quiet_network 0 demo_node = Some (w', n', r)"
  by (rule sync_round_returns) (simp add: bounded_network_def quiet_network_def)

text \<open>
  C28: A peer can crash a syncing node, in a goroutine that recovers from nothing. The best candidate
  answers the first request of a sync with a block that is null or has no header (its height is
  read through the nil pointer); or it claims the height of the node together with a nonempty tip
  hash of fewer than 16 characters (which a log line slices). The round then ends in a panic,
  whatever the other peers hold.
\<close>

theorem peer_crashes_sync:
  assumes "\<not> nt_stopped T w" and "nt_peers T w \<noteq> []"
    and "sync_candidates T w = (w1, (p, best, tip) # cs)"
    and "(best > ch_height (nd_chain n) \<and> header_of b = None \<and>
        nt_blocks T w1 p (ch_height (nd_chain n) + 1) (batch_size (ch_height (nd_chain n) + 1) best) = (w2, Some (b # bs))) \<or>
      (best = ch_height (nd_chain n) \<and> best > 0 \<and> tip \<noteq> [] \<and> length tip < 16)"
  shows "\<exists>w'. sync_round N T w n = Some (w', n, RoundPanic)"
  using assms(4)
proof (elim disjE conjE)
  assume b: "best > ch_height (nd_chain n)" "header_of b = None"
    "nt_blocks T w1 p (ch_height (nd_chain n) + 1) (batch_size (ch_height (nd_chain n) + 1) best) = (w2, Some (b # bs))"
  have "unat (ch_height (nd_chain n) + 1) = Suc (unat (ch_height (nd_chain n)))"
    using less_max_u64 [OF b(1)] by (intro unat_Suc_u64)
  then have "\<not> ch_height (nd_chain n) + 1 > best" using b(1) by (simp add: word_less_nat_alt)
  then have "download N T (p # map fst cs) 0 (ch_height (nd_chain n) + 1) best w1 n = Some (w2, n, DlPanic)"
    using b by (simp add: download.simps check_head_def)
  then show ?thesis using assms(1-3) b(1) by (auto simp: sync_round_def Let_def)
next
  assume t: "best = ch_height (nd_chain n)" "best > 0" "tip \<noteq> []" "length tip < 16"
  then have "tip \<noteq> hash_string (ch_tip (nd_chain n))" by (auto simp: hash_string_def enc_length)
  then show ?thesis using assms(1-3) t by (auto simp: sync_round_def Let_def)
qed

theorem peer_crashes_sync_witness:
  "\<exists>w'. sync_round demo_node_config headless_network 0 demo_node = Some (w', demo_node, RoundPanic)"
proof -
  have c: "sync_candidates headless_network 0 = (1, [(''mallory'', 3, [])])"
    by (simp add: sync_candidates_def headless_network_def quiet_network_def)
  have h: "ch_height (nd_chain demo_node) = 0" by (simp add: demo_node_def)
  show ?thesis
    by (rule peer_crashes_sync [OF _ _ c, where b = "Some \<lparr>b_header = None, b_txs = []\<rparr>" and bs = "[]"])
      (simp_all add: h headless_network_def quiet_network_def header_of_def)
qed

section \<open>The common ancestor\<close>

text \<open>
  The ancestor that fork resolution settles on is one: a height not above the one the search
  started from, at which the local chain has a block and a candidate answered with a block of the
  same hash.
\<close>

theorem find_ancestor_common:
  assumes "find_ancestor C T local cands idx h w = (w', Ancestor a)" and "idx < length cands"
  shows "a \<le> h \<and> (\<exists>lb p v v' b bs. local a = Some lb \<and> p \<in> set cands \<and> nt_blocks T v p a 1 = (v', Some (Some b # bs)) \<and>
    BlockHash C b = BlockHash C lb)"
  using assms
proof (induction C T local cands idx h w rule: find_ancestor.induct)
  case (1 C T local cands idx h w)
  obtain w1 answer where a: "nt_blocks T w (cands ! idx) h 1 = (w1, answer)" by fastforce
  have ns: "\<not> nt_stopped T w" using "1.prems"(1) by (subst (asm) find_ancestor.simps) (auto split: if_splits)
  have down: "h - 1 \<le> h" "0 < length cands" if "h \<noteq> 0"
    using that "1.prems"(2) by (auto simp: word_le_nat_alt unat_minus_one)
  show ?case
  proof (cases "answer = None \<or> answer = Some []")
    case True
    show ?thesis
    proof (cases "Suc idx < length cands")
      case s: True
      then show ?thesis using "1.IH"(1) [OF ns a [symmetric] True s] "1.prems" ns a True
        by (subst (asm) (2) find_ancestor.simps) auto
    next
      case s: False
      then have "h \<noteq> 0" using "1.prems"(1) ns a True by (subst (asm) find_ancestor.simps) auto
      then show ?thesis using "1.IH"(2) [OF ns a [symmetric] True s] "1.prems" ns a True s down
        by (subst (asm) (2) find_ancestor.simps) (auto intro: order_trans)
    qed
  next
    case ans: False
    then obtain b bs where b: "answer = Some (b # bs)" by (cases answer) (auto simp: neq_Nil_conv)
    show ?thesis
    proof (cases "local h")
      case None
      then have "h \<noteq> 0" using "1.prems"(1) ns a ans by (subst (asm) find_ancestor.simps) auto
      then show ?thesis using "1.IH"(3) [OF ns a [symmetric] ans None] "1.prems" ns a ans None down
        by (subst (asm) (2) find_ancestor.simps) (auto intro: order_trans)
    next
      case (Some lb)
      have hd: "header_of b \<noteq> None"
        using "1.prems"(1) ns a ans Some b by (subst (asm) find_ancestor.simps) (auto split: if_splits)
      then obtain blk where blk: "b = Some blk" by (auto simp: header_of_def split: option.splits)
      show ?thesis
      proof (cases "BlockHash C blk = BlockHash C lb")
        case True
        then have "a = h" using "1.prems"(1) ns a ans Some b blk hd by (subst (asm) find_ancestor.simps) auto
        then show ?thesis using True Some a b blk "1.prems"(2) nth_mem by fastforce
      next
        case F: False
        then have h: "h \<noteq> 0" using "1.prems"(1) ns a ans Some b blk hd by (subst (asm) find_ancestor.simps) auto
        have eq: "find_ancestor C T local cands idx h w = find_ancestor C T local cands 0 (h - 1) w1"
          using ns a ans Some b blk hd F h by (subst find_ancestor.simps) auto
        show ?thesis using "1.IH"(4) [OF ns a [symmetric] ans Some] hd F h b blk down "1.prems"(1) unfolding eq
          by (auto intro: order_trans)
      qed
    qed
  qed
qed

end
