(* ===== verification/Wallet.thy ===== *)
theory Wallet
  imports Crypto "HOL-Library.Multiset"
begin

text \<open>
  The wallet (\<open>internal/wallet\<close>): coin selection, and hierarchical keys over the BIP-32 library,
  which is a parameter. The encrypted keystore is file I/O and not modelled.
\<close>

section \<open>Coin selection\<close>

record wallet_utxo =
  wu_outpoint :: outpoint
  wu_value :: u64
  wu_script :: script
  wu_token :: "token_data option"

record coin_selection =
  cs_inputs :: "wallet_utxo list"
  cs_total :: u64
  cs_change :: u64

datatype coin_error = ErrNoUTXOs | TargetNotPositive | ErrInsufficientFunds u64 u64

text \<open>
  Go's sort is not stable: \<open>arrange\<close> is the order in which it leaves coins of equal value.
\<close>

type_synonym arrangement = "wallet_utxo list \<Rightarrow> wallet_utxo list"

definition permutes :: "arrangement \<Rightarrow> bool" where
  "permutes arrange \<longleftrightarrow> (\<forall>us. mset (arrange us) = mset us)"

definition totalValue :: "wallet_utxo list \<Rightarrow> u64" where
  "totalValue us = foldl (\<lambda>t u. t + wu_value u) 0 us"

definition select_single :: "u64 \<Rightarrow> wallet_utxo list \<Rightarrow> coin_selection option" where
  "select_single target candidates =
     map_option (\<lambda>u. \<lparr>cs_inputs = [u], cs_total = wu_value u, cs_change = wu_value u - target\<rparr>)
       (find (\<lambda>u. wu_value u \<ge> target) candidates)"

fun accumulate :: "u64 \<Rightarrow> wallet_utxo list \<Rightarrow> u64 \<Rightarrow> wallet_utxo list \<Rightarrow> coin_selection option" where
  "accumulate target selected t [] = None"
| "accumulate target selected t (u # us) =
     (let selected' = selected @ [u]; t' = t + wu_value u
      in if t' \<ge> target then Some \<lparr>cs_inputs = selected', cs_total = t', cs_change = t' - target\<rparr>
         else accumulate target selected' t' us)"

definition SelectCoins :: "arrangement \<Rightarrow> wallet_utxo list \<Rightarrow> u64 \<Rightarrow> coin_error + coin_selection" where
  "SelectCoins arrange utxos target =
     (if utxos = [] then Inl ErrNoUTXOs
      else if target = 0 then Inl TargetNotPositive
      else let coins = filter (\<lambda>u. wu_value u > 0) utxos
        in if coins = [] then Inl ErrNoUTXOs
           else let candidates = sort_key wu_value (arrange coins);
                    single = select_single target candidates;
                    accum = accumulate target [] 0 (rev candidates)
             in case (single, accum) of
                  (Some s, Some a) \<Rightarrow> Inr (if cs_change s \<le> cs_change a then s else a)
                | (Some s, None) \<Rightarrow> Inr s
                | (None, Some a) \<Rightarrow> Inr a
                | (None, None) \<Rightarrow> Inl (ErrInsufficientFunds (totalValue candidates) target))"

section \<open>Hierarchical keys\<close>

record 'k bip32 =
  bip_NewMasterKey :: "bytes \<Rightarrow> 'k option"
  bip_NewChildKey :: "'k \<Rightarrow> u32 \<Rightarrow> 'k option"
  bip_PublicKey :: "'k \<Rightarrow> 'k"
  bip_IsPrivate :: "'k \<Rightarrow> bool"
  bip_Key :: "'k \<Rightarrow> bytes"
  bip_Depth :: "'k \<Rightarrow> u8"

definition SeedSize :: nat where "SeedSize = 64"
definition FirstHardenedChild :: u32 where "FirstHardenedChild = 0x80000000"
definition PurposeBIP44 :: u32 where "PurposeBIP44 = FirstHardenedChild + 44"
definition CoinTypeKlingnet :: u32 where "CoinTypeKlingnet = FirstHardenedChild + 8888"

datatype key_error = BadSeedSize | MasterKeyFailed | ChildKeyFailed u32 | PublicOnly | BadPrivateKey

definition NewMasterKey :: "'k bip32 \<Rightarrow> bytes \<Rightarrow> key_error + 'k" where
  "NewMasterKey B seed =
     (if length seed \<noteq> SeedSize then Inl BadSeedSize
      else case bip_NewMasterKey B seed of None \<Rightarrow> Inl MasterKeyFailed | Some k \<Rightarrow> Inr k)"

definition DeriveChild :: "'k bip32 \<Rightarrow> u32 \<Rightarrow> 'k \<Rightarrow> key_error + 'k" where
  "DeriveChild B i k = (case bip_NewChildKey B k i of None \<Rightarrow> Inl (ChildKeyFailed i) | Some c \<Rightarrow> Inr c)"

fun DerivePath :: "'k bip32 \<Rightarrow> u32 list \<Rightarrow> 'k \<Rightarrow> key_error + 'k" where
  "DerivePath B [] k = Inr k"
| "DerivePath B (i # is) k = bindE (DeriveChild B i k) (DerivePath B is)"

definition DeriveAddress :: "'k bip32 \<Rightarrow> u32 \<Rightarrow> u32 \<Rightarrow> u32 \<Rightarrow> 'k \<Rightarrow> key_error + 'k" where
  "DeriveAddress B account change index =
     DerivePath B [PurposeBIP44, CoinTypeKlingnet, FirstHardenedChild + account, change, index]"

definition PrivateKeyBytes :: "'k bip32 \<Rightarrow> 'k \<Rightarrow> bytes option" where
  "PrivateKeyBytes B k =
     (if \<not> bip_IsPrivate B k then None
      else Some (case bip_Key B k of
             [] \<Rightarrow> []
           | b # bs \<Rightarrow> if length (b # bs) = 33 \<and> b = 0 then bs else b # bs))"

definition PublicKeyBytes :: "'k bip32 \<Rightarrow> 'k \<Rightarrow> bytes" where
  "PublicKeyBytes B k = bip_Key B (bip_PublicKey B k)"

definition HD_Address :: "crypto \<Rightarrow> 'k bip32 \<Rightarrow> 'k \<Rightarrow> address" where
  "HD_Address C B k = take_address (hash_bytes (Hash C (PublicKeyBytes B k)))"

definition IsPrivate :: "'k bip32 \<Rightarrow> 'k \<Rightarrow> bool" where "IsPrivate B k = bip_IsPrivate B k"

definition Depth :: "'k bip32 \<Rightarrow> 'k \<Rightarrow> u8" where "Depth B k = bip_Depth B k"

definition Neuter :: "'k bip32 \<Rightarrow> 'k \<Rightarrow> 'k" where "Neuter B k = bip_PublicKey B k"

section \<open>Largest first uses the fewest coins\<close>

lemma sum_largest:
  fixes f :: "'a \<Rightarrow> nat"
  assumes "sorted_wrt (\<lambda>a b. f b \<le> f a) xs" and "A \<subseteq># mset xs"
  shows "sum_mset (image_mset f A) \<le> sum_list (map f (take (size A) xs))"
  using assms
proof (induction xs arbitrary: A)
  case Nil
  then show ?case by simp
next
  case (Cons x xs)
  show ?case
  proof (cases "A = {#}")
    case False
    obtain y where y: "y \<in># A" "x \<in># A \<longrightarrow> y = x" using False by (cases "x \<in># A") auto
    then obtain A' where A': "A = add_mset y A'" by (metis multi_member_split)
    have "A' \<subseteq># mset xs"
    proof (cases "x \<in># A")
      case True
      then show ?thesis using y Cons.prems(2) A' by simp
    next
      case F: False
      have "count A a \<le> count (mset xs) a" for a
        using mset_subset_eq_count [OF Cons.prems(2), of a] F by (cases "a = x") (auto simp: not_in_iff)
      moreover have "count A' a \<le> count A a" for a by (simp add: A')
      ultimately show ?thesis by (meson mset_subset_eqI order_trans)
    qed
    then have "sum_mset (image_mset f A') \<le> sum_list (map f (take (size A') xs))" using Cons by simp
    moreover have "f y \<le> f x"
    proof -
      have "y \<in> set (x # xs)" using y(1) Cons.prems(2) by (metis mset_subset_eqD set_mset_mset)
      then show ?thesis using Cons.prems(1) by auto
    qed
    ultimately show ?thesis by (simp add: A')
  qed simp
qed

lemma accumulate_spec:
  assumes "unat t + sum_u64 wu_value us < 2 ^ 64" and "t < target"
  shows "case accumulate target sel t us of
      None \<Rightarrow> unat t + sum_u64 wu_value us < unat target
    | Some a \<Rightarrow> \<exists>n \<le> length us. 0 < n \<and> cs_inputs a = sel @ take n us \<and>
        unat (cs_total a) = unat t + sum_u64 wu_value (take n us) \<and> cs_change a = cs_total a - target \<and> target \<le> cs_total a \<and>
        unat t + sum_u64 wu_value (take (n - 1) us) < unat target"
  using assms
proof (induction target sel t us rule: accumulate.induct)
  case (1 target sel t)
  then show ?case by (simp add: word_less_nat_alt)
next
  case (2 target sel t u us)
  have e: "unat (t + wu_value u) = unat t + unat (wu_value u)" using 2(2) by (simp add: u64_simps)
  show ?case
  proof (cases "target \<le> t + wu_value u")
    case True
    then show ?thesis using 2(3) e by (auto simp: Let_def word_less_nat_alt intro!: exI [of _ 1])
  next
    case False
    then have ih: "case accumulate target (sel @ [u]) (t + wu_value u) us of
        None \<Rightarrow> unat (t + wu_value u) + sum_u64 wu_value us < unat target
      | Some a \<Rightarrow> \<exists>n \<le> length us. 0 < n \<and> cs_inputs a = (sel @ [u]) @ take n us \<and>
          unat (cs_total a) = unat (t + wu_value u) + sum_u64 wu_value (take n us) \<and>
          cs_change a = cs_total a - target \<and> target \<le> cs_total a \<and>
          unat (t + wu_value u) + sum_u64 wu_value (take (n - 1) us) < unat target"
      using 2 e by simp
    show ?thesis
    proof (cases "accumulate target (sel @ [u]) (t + wu_value u) us")
      case None
      then show ?thesis using ih False e by (simp add: Let_def)
    next
      case (Some a)
      then obtain n where n: "n \<le> length us" "0 < n" "cs_inputs a = (sel @ [u]) @ take n us"
          "unat (cs_total a) = unat (t + wu_value u) + sum_u64 wu_value (take n us)"
          "cs_change a = cs_total a - target" "target \<le> cs_total a"
          "unat (t + wu_value u) + sum_u64 wu_value (take (n - 1) us) < unat target"
        using ih by auto
      then have "take n (u # us) = u # take (n - 1) us" by (cases n) auto
      with n Some False e show ?thesis by (auto simp: Let_def intro!: exI [of _ "Suc n"])
    qed
  qed
qed

lemma find_sorted_least:
  assumes "sorted (map f xs)" and "find (\<lambda>u. target \<le> f u) xs = Some s" and "u \<in> set xs" and "target \<le> f u"
  shows "f s \<le> f u"
  using assms by (induction xs) (auto split: if_splits)

lemma fewest_inputs:
  assumes mc: "mset cand = mset (filter (\<lambda>u. wu_value u > 0) us)" and srt: "sorted (map wu_value cand)"
    and A: "A \<subseteq># mset us" "unat target \<le> (\<Sum>u \<in># A. unat (wu_value u))"
    and n: "0 < n" "sum_u64 wu_value (take (n - 1) (rev cand)) < unat target"
  shows "n \<le> size A"
proof (rule ccontr)
  let ?v = "\<lambda>u. unat (wu_value u)"
  assume "\<not> n \<le> size A"
  define B where "B = filter_mset (\<lambda>u. wu_value u > 0) A"
  have desc: "sorted_wrt (\<lambda>a b. ?v b \<le> ?v a) (rev cand)"
    using srt by (simp add: sorted_wrt_rev sorted_wrt_map word_le_nat_alt)
  have "B \<subseteq># mset (rev cand)"
    unfolding B_def mset_rev mc using multiset_filter_mono [OF A(1)] by simp
  from sum_largest [OF desc this] have "(\<Sum>u \<in># B. ?v u) \<le> sum_u64 wu_value (take (size B) (rev cand))"
    by (simp add: sum_u64_def)
  also have "size B \<le> size A" by (simp add: B_def size_filter_mset_lesseq)
  then have "size B \<le> n - 1" using \<open>\<not> n \<le> size A\<close> by linarith
  then have "sum_u64 wu_value (take (size B) (rev cand)) \<le> sum_u64 wu_value (take (n - 1) (rev cand))"
    by (metis le_add1 le_Suc_ex sum_u64_append take_add)
  also have "(\<Sum>u \<in># B. ?v u) = (\<Sum>u \<in># A. ?v u)"
    unfolding B_def by (induction A) (auto simp: word_less_nat_alt)
  finally show False using A(2) n(2) by simp
qed

lemma select_single_spec:
  assumes "select_single target cand = Some s" and srt: "sorted (map wu_value cand)"
  shows "\<exists>u \<in> set cand. s = \<lparr>cs_inputs = [u], cs_total = wu_value u, cs_change = wu_value u - target\<rparr> \<and> target \<le> wu_value u \<and>
    (\<forall>u' \<in> set cand. target \<le> wu_value u' \<longrightarrow> cs_change s \<le> wu_value u' - target)"
proof -
  obtain u where u: "find (\<lambda>u. wu_value u \<ge> target) cand = Some u"
    "s = \<lparr>cs_inputs = [u], cs_total = wu_value u, cs_change = wu_value u - target\<rparr>"
    using assms(1) by (auto simp: select_single_def)
  then have c: "u \<in> set cand" "target \<le> wu_value u" by (auto simp: find_Some_iff)
  moreover have "cs_change s \<le> wu_value u' - target" if "u' \<in> set cand" "target \<le> wu_value u'" for u'
    using find_sorted_least [OF srt u(1) that] u(2) c(2) that(2) by (simp add: word_le_nat_alt unat_sub)
  ultimately show ?thesis using u(2) by blast
qed

text \<open>What every selection must be: coins of the wallet that cover the target, and as few as possible.\<close>

definition covers :: "wallet_utxo list \<Rightarrow> u64 \<Rightarrow> coin_selection \<Rightarrow> bool" where
  "covers us target s \<longleftrightarrow> mset (cs_inputs s) \<subseteq># mset us \<and> (\<forall>u \<in> set (cs_inputs s). 0 < wu_value u) \<and>
     unat (cs_total s) = sum_u64 wu_value (cs_inputs s) \<and> unat (cs_total s) = unat target + unat (cs_change s) \<and>
     (\<forall>A. A \<subseteq># mset us \<and> unat target \<le> (\<Sum>u \<in># A. unat (wu_value u)) \<longrightarrow> length (cs_inputs s) \<le> size A)"

lemma candidates_of:
  assumes "mset cand = mset (filter (\<lambda>u. wu_value u > 0) us)"
  shows "mset cand \<subseteq># mset us" and "set cand = {u \<in> set us. 0 < wu_value u}"
    and "sum_u64 wu_value (rev cand) = sum_u64 wu_value us"
proof -
  show "mset cand \<subseteq># mset us" "set cand = {u \<in> set us. 0 < wu_value u}"
    using mset_eq_setD [OF assms] by (auto simp: assms multiset_filter_subset)
  have "sum_u64 wu_value (rev cand) = sum_u64 wu_value (filter (\<lambda>u. wu_value u > 0) us)"
    unfolding sum_u64_def by (subst (1 2) sum_mset_sum_list [symmetric]) (simp add: assms)
  also have "\<dots> = sum_u64 wu_value us" by (induction us) (auto simp: word_less_nat_alt)
  finally show "sum_u64 wu_value (rev cand) = sum_u64 wu_value us" .
qed

lemma single_covers:
  assumes mc: "mset cand = mset (filter (\<lambda>u. wu_value u > 0) us)" and srt: "sorted (map wu_value cand)"
    and "0 < target" and s: "select_single target cand = Some s"
  shows "covers us target s \<and> (\<forall>u \<in> set us. target \<le> wu_value u \<longrightarrow> cs_change s \<le> wu_value u - target)"
proof -
  from select_single_spec [OF s srt] obtain u where u: "u \<in> set cand" "target \<le> wu_value u"
    "s = \<lparr>cs_inputs = [u], cs_total = wu_value u, cs_change = wu_value u - target\<rparr>"
    and le: "\<forall>u' \<in> set cand. target \<le> wu_value u' \<longrightarrow> cs_change s \<le> wu_value u' - target" by blast
  have "1 \<le> size A" if "A \<subseteq># mset us" "unat target \<le> (\<Sum>u \<in># A. unat (wu_value u))" for A
    using fewest_inputs [OF mc srt that, of 1] assms(3) by (simp add: word_less_nat_alt)
  then show ?thesis using u le candidates_of(2) [OF mc] assms(3)
    by (auto simp: covers_def word_le_nat_alt word_less_nat_alt unat_sub)
qed

lemma accumulated_covers:
  assumes mc: "mset cand = mset (filter (\<lambda>u. wu_value u > 0) us)" and srt: "sorted (map wu_value cand)"
    and total: "sum_u64 wu_value us < 2 ^ 64" and "0 < target"
  shows "case accumulate target [] 0 (rev cand) of
      None \<Rightarrow> sum_u64 wu_value us < unat target | Some a \<Rightarrow> covers us target a"
proof -
  note acc = accumulate_spec [where t = 0 and target = target and sel = "[]" and us = "rev cand"]
  show ?thesis
  proof (cases "accumulate target [] 0 (rev cand)")
    case None
    then show ?thesis using acc total candidates_of(3) [OF mc] assms(4) by simp
  next
    case (Some a)
    obtain n where n: "n \<le> length (rev cand)" "0 < n" "cs_inputs a = take n (rev cand)"
      "unat (cs_total a) = sum_u64 wu_value (take n (rev cand))" "cs_change a = cs_total a - target" "target \<le> cs_total a"
      "sum_u64 wu_value (take (n - 1) (rev cand)) < unat target"
      using acc total candidates_of(3) [OF mc] assms(4) by (auto simp: Some)
    have "mset (take n (rev cand)) \<subseteq># mset cand"
      using mset_subset_eq_add_left [of "mset (take n (rev cand))" "mset (drop n (rev cand))"]
      by (simp flip: mset_append)
    then have "mset (cs_inputs a) \<subseteq># mset us" using candidates_of(1) [OF mc] n(3) by (metis subset_mset.order_trans)
    moreover have "\<forall>u \<in> set (cs_inputs a). 0 < wu_value u" 
      using set_take_subset [of n "rev cand"] unfolding n(3) set_rev candidates_of(2) [OF mc] by blast
    ultimately show ?thesis using n fewest_inputs [OF mc srt _ _ n(2,7)]
      by (auto simp: Some covers_def unat_sub word_le_nat_alt)
  qed
qed

text \<open>
  C27: Coin selection. If the values of the coins add up to less than \<open>2 ^ 64\<close> (the supply of one
  chain does), a selection succeeds exactly when the coins cover the target. It spends coins of
  the wallet, none of value 0 and none twice, their exact sum is the reported total and change is
  what exceeds the target; no other choice of coins covers the target with fewer inputs, and no
  single coin covers it with less change.
\<close>

theorem SelectCoins_correct:
  assumes arr: "permutes arrange" and total: "sum_u64 wu_value us < 2 ^ 64" and target: "0 < target"
  shows "case SelectCoins arrange us target of
      Inl e \<Rightarrow> sum_u64 wu_value us < unat target
    | Inr s \<Rightarrow> mset (cs_inputs s) \<subseteq># mset us \<and> (\<forall>u \<in> set (cs_inputs s). 0 < wu_value u) \<and>
        unat (cs_total s) = sum_u64 wu_value (cs_inputs s) \<and> unat (cs_total s) = unat target + unat (cs_change s) \<and>
        (\<forall>A. A \<subseteq># mset us \<and> unat target \<le> (\<Sum>u \<in># A. unat (wu_value u)) \<longrightarrow> length (cs_inputs s) \<le> size A) \<and>
        (\<forall>u \<in> set us. target \<le> wu_value u \<longrightarrow> cs_change s \<le> wu_value u - target)"
proof -
  define coins where "coins = filter (\<lambda>u. wu_value u > 0) us"
  define cand where "cand = sort_key wu_value (arrange coins)"
  have mc: "mset cand = mset (filter (\<lambda>u. wu_value u > 0) us)" and srt: "sorted (map wu_value cand)"
    using arr by (simp_all add: cand_def permutes_def flip: coins_def)
  have many: "case accumulate target [] 0 (rev cand) of
      None \<Rightarrow> sum_u64 wu_value us < unat target | Some a \<Rightarrow> covers us target a"
    by (rule accumulated_covers [OF mc srt total target])
  have empty: "sum_u64 wu_value us < unat target" if "coins = []"
  proof -
    have "cand = []" using mc that by (simp flip: coins_def)
    then show ?thesis using candidates_of(3) [OF mc] target by (simp add: word_less_nat_alt)
  qed
  have eq: "SelectCoins arrange us target = (if us = [] \<or> coins = [] then Inl ErrNoUTXOs else
      case (select_single target cand, accumulate target [] 0 (rev cand)) of
        (Some s, Some a) \<Rightarrow> Inr (if cs_change s \<le> cs_change a then s else a)
      | (Some s, None) \<Rightarrow> Inr s | (None, Some a) \<Rightarrow> Inr a
      | (None, None) \<Rightarrow> Inl (ErrInsufficientFunds (totalValue cand) target))"
    using target by (auto simp: SelectCoins_def Let_def simp flip: coins_def cand_def)
  show ?thesis
  proof (cases "select_single target cand")
    case None
    then have "\<forall>u \<in> set us. \<not> target \<le> wu_value u"
      using target candidates_of(2) [OF mc] by (auto simp: select_single_def find_None_iff)
    then show ?thesis unfolding eq using None empty many
      by (cases "accumulate target [] 0 (rev cand)") (auto simp: covers_def coins_def)
  next
    case (Some s)
    note o = single_covers [OF mc srt target Some]
    have "\<forall>u \<in> set us. target \<le> wu_value u \<longrightarrow> cs_change a \<le> wu_value u - target" if "\<not> cs_change s \<le> cs_change a" for a
      using o that by fastforce
    then show ?thesis unfolding eq using Some empty o many
      by (cases "accumulate target [] 0 (rev cand)") (auto simp: covers_def coins_def)
  qed
qed

definition demo_coin :: "u64 \<Rightarrow> wallet_utxo" where
  "demo_coin v = \<lparr>wu_outpoint = Outpoint 1 (ucast v), wu_value = v,
     wu_script = \<lparr>sc_type = ScriptTypeP2PKH, sc_data = []\<rparr>, wu_token = None\<rparr>"

theorem SelectCoins_correct_witness:
  "\<exists>s. SelectCoins (\<lambda>us. us) (map demo_coin [5, 0, 20, 7]) 22 = Inr s \<and> unat (cs_total s) = 22 + unat (cs_change s)"
proof -
  let ?s = "SelectCoins (\<lambda>us. us) (map demo_coin [5, 0, 20, 7]) 22"
  have "sum_u64 wu_value (map demo_coin [5, 0, 20, 7]) = 32" by (simp add: demo_coin_def)
  then show ?thesis
    using SelectCoins_correct [of "\<lambda>us. us" "map demo_coin [5, 0, 20, 7]" 22]
    by (cases ?s) (simp_all add: permutes_def)
qed

end
