(* ===== verification/Keystore.thy ===== *)
theory Keystore
  imports Wallet Bech32 Storage "HOL-Library.List_Lexorder" "HOL-Library.Char_ord"
begin

text \<open>
  The keystore (\<open>internal/wallet\<close>): seeds encrypted under a password, one file per wallet, with the
  accounts derived from the seed and the next address indexes. Argon2id, XChaCha20-Poly1305 and the
  BIP-39 word list are parameters; so is the randomness of salt and nonce.
\<close>

section \<open>Mnemonics\<close>

record bip39 =
  bm_valid :: "string \<Rightarrow> bool"
  bm_seed :: "string \<Rightarrow> string \<Rightarrow> bytes option"   \<comment> \<open>\<open>NewSeedWithErrorChecking\<close>\<close>

definition ValidateMnemonic :: "bip39 \<Rightarrow> string \<Rightarrow> bool" where
  "ValidateMnemonic M mnemonic = bm_valid M mnemonic"

datatype mnemonic_error = InvalidMnemonic | SeedDerivation

definition SeedFromMnemonic :: "bip39 \<Rightarrow> string \<Rightarrow> string \<Rightarrow> mnemonic_error + bytes" where
  "SeedFromMnemonic M mnemonic passphrase =
     (if \<not> ValidateMnemonic M mnemonic then Inl InvalidMnemonic
      else case bm_seed M mnemonic passphrase of None \<Rightarrow> Inl SeedDerivation | Some seed \<Rightarrow> Inr seed)"

section \<open>Encryption\<close>

text \<open>
  \<open>ci_kdf\<close> is \<open>argon2.IDKey\<close> (password, salt, time, memory, threads) with a key of 32 bytes; \<open>None\<close>
  is its panic on a parameter that is zero. \<open>ci_seal\<close> and \<open>ci_open\<close> take key and nonce.
\<close>

record cipher =
  ci_kdf :: "bytes \<Rightarrow> bytes \<Rightarrow> u32 \<Rightarrow> u32 \<Rightarrow> u8 \<Rightarrow> bytes option"
  ci_seal :: "bytes \<Rightarrow> bytes \<Rightarrow> bytes \<Rightarrow> bytes"
  ci_open :: "bytes \<Rightarrow> bytes \<Rightarrow> bytes \<Rightarrow> bytes option"

text \<open>What is documented of the AEAD: opening inverts sealing, and a tag of 16 bytes is added.\<close>

definition aead_ok :: "cipher \<Rightarrow> bool" where
  "aead_ok K \<longleftrightarrow> (\<forall>k n m. ci_open K k n (ci_seal K k n m) = Some m \<and> length (ci_seal K k n m) = length m + 16)"

record encryption_params =
  ep_memory :: u32
  ep_iterations :: u32
  ep_parallelism :: u8

definition SaltSize :: nat where "SaltSize = 32"
definition headerSize :: nat where "headerSize = SaltSize + 4 + 4 + 1"
definition NonceSizeX :: nat where "NonceSizeX = 24"
definition aead_overhead :: nat where "aead_overhead = 16"

definition DefaultParams :: encryption_params where
  "DefaultParams = \<lparr>ep_memory = 64 * 1024, ep_iterations = 3, ep_parallelism = 4\<rparr>"

definition deriveKey :: "cipher \<Rightarrow> bytes \<Rightarrow> bytes \<Rightarrow> encryption_params \<Rightarrow> bytes option" where
  "deriveKey K password salt p = ci_kdf K password salt (ep_iterations p) (ep_memory p) (ep_parallelism p)"

datatype crypt_error = KdfPanic | TooShort nat | AuthFailed

definition Encrypt ::
  "cipher \<Rightarrow> bytes \<Rightarrow> bytes \<Rightarrow> bytes \<Rightarrow> bytes \<Rightarrow> encryption_params \<Rightarrow> crypt_error + bytes" where
  "Encrypt K salt nonce data password p =
     (case deriveKey K password salt p of
        None \<Rightarrow> Inl KdfPanic
      | Some key \<Rightarrow>
          Inr (salt @ le_bytes 4 (ep_memory p) @ le_bytes 4 (ep_iterations p) @ [ep_parallelism p] @ nonce @
               ci_seal K key nonce data))"

definition Decrypt :: "cipher \<Rightarrow> bytes \<Rightarrow> bytes \<Rightarrow> crypt_error + bytes" where
  "Decrypt K encrypted password =
     (if length encrypted < headerSize + NonceSizeX + aead_overhead then Inl (TooShort (length encrypted))
      else let salt = take SaltSize encrypted;
               p = \<lparr>ep_memory = le_word (take 4 (drop SaltSize encrypted)),
                    ep_iterations = le_word (take 4 (drop (SaltSize + 4) encrypted)),
                    ep_parallelism = encrypted ! (SaltSize + 8)\<rparr>;
               nonce = take NonceSizeX (drop headerSize encrypted);
               ciphertext = drop (headerSize + NonceSizeX) encrypted
           in case deriveKey K password salt p of
                None \<Rightarrow> Inl KdfPanic
              | Some key \<Rightarrow>
                  (case ci_open K key nonce ciphertext of None \<Rightarrow> Inl AuthFailed | Some plain \<Rightarrow> Inr plain))"

section \<open>Wallet files\<close>

record account_entry =
  ac_index :: u32
  ac_change :: u32   \<comment> \<open>0 external, 1 change\<close>
  ac_name :: string
  ac_address :: string

definition Derivation :: "account_entry \<Rightarrow> u32 \<times> u32" where
  "Derivation a = (ac_change a, ac_index a)"

record keystore_file =
  kf_version :: int
  kf_created_at :: int
  kf_encrypted_seed :: bytes
  kf_accounts :: "account_entry list"
  kf_next_change :: u32
  kf_next_external :: u32

text \<open>
  The directory, by file names. A wallet file is its decoded JSON; a file that does not decode
  and a subdirectory (with the information whether it is empty) can only be met under the name of a
  wallet. Other failures of the file system are not modelled.
\<close>

datatype dir_entry = WalletFile keystore_file | OtherFile | SubDirectory bool

type_synonym keystore = "(string, dir_entry) alist"

datatype keystore_error =
    BadWalletName | WalletExists | EncryptFailed crypt_error | ReadFailed | ParseFailed
  | BadVersion int | DecryptFailed crypt_error | AccountPathTaken u32 u32 | WalletNotFound | RemoveFailed

definition name_char :: "char \<Rightarrow> bool" where
  "name_char c \<longleftrightarrow> CHR ''A'' \<le> c \<and> c \<le> CHR ''Z'' \<or> CHR ''a'' \<le> c \<and> c \<le> CHR ''z'' \<or> CHR ''0'' \<le> c \<and> c \<le> CHR ''9''"

definition validateWalletName :: "string \<Rightarrow> keystore_error option" where
  "validateWalletName name =
     (case name of
        [] \<Rightarrow> Some BadWalletName
      | c # cs \<Rightarrow>
          if name_char c \<and> length cs \<le> 63 \<and> (\<forall>d \<in> set cs. name_char d \<or> d \<in> {CHR ''.'', CHR ''_'', CHR ''-''})
          then None else Some BadWalletName)"

definition wallet_ext :: string where "wallet_ext = ''.wallet''"

definition walletPath :: "string \<Rightarrow> keystore_error + string" where
  "walletPath name = (case validateWalletName name of Some e \<Rightarrow> Inl e | None \<Rightarrow> Inr (name @ wallet_ext))"

definition readFile :: "keystore \<Rightarrow> string \<Rightarrow> keystore_error + keystore_file" where
  "readFile ks path =
     (case DAList.lookup ks path of
        Some (WalletFile kf) \<Rightarrow> if kf_version kf \<noteq> 1 then Inl (BadVersion (kf_version kf)) else Inr kf
      | Some OtherFile \<Rightarrow> Inl ParseFailed
      | _ \<Rightarrow> Inl ReadFailed)"

definition writeFile :: "string \<Rightarrow> keystore_file \<Rightarrow> keystore \<Rightarrow> keystore" where
  "writeFile path kf = DAList.update path (WalletFile kf)"

definition read_wallet :: "keystore \<Rightarrow> string \<Rightarrow> keystore_error + keystore_file" where
  "read_wallet ks name = bindE (walletPath name) (readFile ks)"

text \<open>Reading a wallet, changing it and writing it back: the result is the directory and the error.\<close>

definition update_wallet ::
  "string \<Rightarrow> (keystore_file \<Rightarrow> keystore_file) \<Rightarrow> keystore \<Rightarrow> keystore \<times> keystore_error option" where
  "update_wallet name f ks =
     (case walletPath name of
        Inl e \<Rightarrow> (ks, Some e)
      | Inr path \<Rightarrow>
          (case readFile ks path of
             Inl e \<Rightarrow> (ks, Some e)
           | Inr kf \<Rightarrow> (writeFile path (f kf) ks, None)))"

definition Keystore_Create ::
  "cipher \<Rightarrow> bytes \<Rightarrow> bytes \<Rightarrow> int \<Rightarrow> string \<Rightarrow> bytes \<Rightarrow> bytes \<Rightarrow> encryption_params \<Rightarrow> keystore \<Rightarrow>
   keystore \<times> keystore_error option" where
  "Keystore_Create K salt nonce now name seed password p ks =
     (case walletPath name of
        Inl e \<Rightarrow> (ks, Some e)
      | Inr path \<Rightarrow>
          if DAList.lookup ks path \<noteq> None then (ks, Some WalletExists)
          else case Encrypt K salt nonce seed password p of
            Inl e \<Rightarrow> (ks, Some (EncryptFailed e))
          | Inr encrypted \<Rightarrow>
              (writeFile path \<lparr>kf_version = 1, kf_created_at = now, kf_encrypted_seed = encrypted,
                 kf_accounts = [], kf_next_change = 0, kf_next_external = 0\<rparr> ks, None))"

definition Keystore_Load :: "cipher \<Rightarrow> keystore \<Rightarrow> string \<Rightarrow> bytes \<Rightarrow> keystore_error + bytes" where
  "Keystore_Load K ks name password =
     bindE (read_wallet ks name) (\<lambda>kf.
       case Decrypt K (kf_encrypted_seed kf) password of Inl e \<Rightarrow> Inl (DecryptFailed e) | Inr seed \<Rightarrow> Inr seed)"

datatype account_check = AddNew | AlreadyThere | PathTaken

text \<open>The loop over the recorded accounts, which returns at the first entry that decides.\<close>

fun check_account :: "account_entry \<Rightarrow> account_entry list \<Rightarrow> account_check" where
  "check_account a [] = AddNew"
| "check_account a (e # es) =
     (if Derivation e = Derivation a then (if ac_address e = ac_address a then AlreadyThere else PathTaken)
      else if ac_address e \<noteq> [] \<and> ac_address e = ac_address a then AlreadyThere
      else check_account a es)"

definition AddAccount :: "string \<Rightarrow> account_entry \<Rightarrow> keystore \<Rightarrow> keystore \<times> keystore_error option" where
  "AddAccount name a ks =
     (case walletPath name of
        Inl e \<Rightarrow> (ks, Some e)
      | Inr path \<Rightarrow>
          (case readFile ks path of
             Inl e \<Rightarrow> (ks, Some e)
           | Inr kf \<Rightarrow>
               (case check_account a (kf_accounts kf) of
                  AddNew \<Rightarrow> (writeFile path (kf\<lparr>kf_accounts := kf_accounts kf @ [a]\<rparr>) ks, None)
                | AlreadyThere \<Rightarrow> (ks, None)
                | PathTaken \<Rightarrow> (ks, Some (AccountPathTaken (ac_change a) (ac_index a))))))"

definition ListAccounts :: "keystore \<Rightarrow> string \<Rightarrow> keystore_error + account_entry list" where
  "ListAccounts ks name = bindE (read_wallet ks name) (\<lambda>kf. Inr (kf_accounts kf))"

definition has_wallet_ext :: "string \<Rightarrow> bool" where
  "has_wallet_ext f \<longleftrightarrow> suffix wallet_ext f"

text \<open>\<open>ReadDir\<close> sorts by file name.\<close>

definition Keystore_List :: "keystore \<Rightarrow> string list" where
  "Keystore_List ks =
     map (\<lambda>(f, e). take (length f - length wallet_ext) f)
       (filter (\<lambda>(f, e). (\<forall>b. e \<noteq> SubDirectory b) \<and> has_wallet_ext f) (sort_key fst (DAList.impl_of ks)))"

definition GetChangeIndex :: "keystore \<Rightarrow> string \<Rightarrow> keystore_error + u32" where
  "GetChangeIndex ks name = bindE (read_wallet ks name) (\<lambda>kf. Inr (kf_next_change kf))"

definition IncrementChangeIndex :: "string \<Rightarrow> keystore \<Rightarrow> keystore \<times> keystore_error option" where
  "IncrementChangeIndex name = update_wallet name (\<lambda>kf. kf\<lparr>kf_next_change := kf_next_change kf + 1\<rparr>)"

definition GetExternalIndex :: "keystore \<Rightarrow> string \<Rightarrow> keystore_error + u32" where
  "GetExternalIndex ks name = bindE (read_wallet ks name) (\<lambda>kf. Inr (kf_next_external kf))"

definition IncrementExternalIndex :: "string \<Rightarrow> keystore \<Rightarrow> keystore \<times> keystore_error option" where
  "IncrementExternalIndex name = update_wallet name (\<lambda>kf. kf\<lparr>kf_next_external := kf_next_external kf + 1\<rparr>)"

definition SetExternalIndex :: "string \<Rightarrow> u32 \<Rightarrow> keystore \<Rightarrow> keystore \<times> keystore_error option" where
  "SetExternalIndex name idx = update_wallet name (\<lambda>kf. kf\<lparr>kf_next_external := idx\<rparr>)"

definition SetChangeIndex :: "string \<Rightarrow> u32 \<Rightarrow> keystore \<Rightarrow> keystore \<times> keystore_error option" where
  "SetChangeIndex name idx = update_wallet name (\<lambda>kf. kf\<lparr>kf_next_change := idx\<rparr>)"

definition Keystore_Delete :: "string \<Rightarrow> keystore \<Rightarrow> keystore \<times> keystore_error option" where
  "Keystore_Delete name ks =
     (case walletPath name of
        Inl e \<Rightarrow> (ks, Some e)
      | Inr path \<Rightarrow>
          (case DAList.lookup ks path of
             None \<Rightarrow> (ks, Some WalletNotFound)
           | Some (SubDirectory False) \<Rightarrow> (ks, Some RemoveFailed)
           | Some _ \<Rightarrow> (DAList.delete path ks, None)))"

section \<open>A wallet opens with the password it was created with\<close>

lemma Decrypt_Encrypt:
  assumes K: "aead_ok K" and len: "length salt = 32" "length nonce = 24"
    and e: "Encrypt K salt nonce data password p = Inr enc"
  shows "Decrypt K enc password = Inr data"
proof -
  obtain key where k: "deriveKey K password salt p = Some key"
    and enc: "enc = salt @ le_bytes 4 (ep_memory p) @ le_bytes 4 (ep_iterations p) @ [ep_parallelism p] @ nonce @
      ci_seal K key nonce data"
    using e by (auto simp: Encrypt_def split: option.splits)
  let ?ct = "ci_seal K key nonce data"
  have l: "length enc = 81 + length data" "\<not> length enc < headerSize + NonceSizeX + aead_overhead"
    using K len by (simp_all add: enc aead_ok_def enc_length headerSize_def SaltSize_def NonceSizeX_def aead_overhead_def)
  have parts: "take SaltSize enc = salt" "take 4 (drop SaltSize enc) = le_bytes 4 (ep_memory p)"
    "take 4 (drop (SaltSize + 4) enc) = le_bytes 4 (ep_iterations p)" "enc ! (SaltSize + 8) = ep_parallelism p"
    "take NonceSizeX (drop headerSize enc) = nonce" "drop (headerSize + NonceSizeX) enc = ?ct"
    using len by (simp_all add: enc enc_length SaltSize_def headerSize_def NonceSizeX_def nth_append)
  then show ?thesis using l parts k K by (simp add: Decrypt_def Let_def aead_ok_def le_word_le_bytes deriveKey_def)
qed

lemma walletPath_inject: "walletPath n = Inr f \<Longrightarrow> walletPath m = Inr f \<Longrightarrow> n = m"
  by (auto simp: walletPath_def split: option.splits)

lemma read_wallet_write:
  "walletPath n = Inr f \<Longrightarrow> kf_version kf = 1 \<Longrightarrow>
     read_wallet (writeFile f kf ks) m = (if m = n then Inr kf else read_wallet ks m)"
  by (auto simp: read_wallet_def readFile_def writeFile_def bindE_def lookup_update_fun dest: walletPath_inject split: sum.splits)

text \<open>
  Creating and opening a wallet. Creation never replaces an existing file, and touches no other
  wallet; a wallet that was created opens with its password to the seed it was created from, for
  every salt and nonce, given that the AEAD opens what it sealed.
\<close>

theorem wallet_opens:
  assumes "aead_ok K" and "length salt = 32" and "length nonce = 24"
    and "Keystore_Create K salt nonce now name seed password p ks = (ks', None)"
  shows "Keystore_Load K ks' name password = Inr seed \<and> ListAccounts ks' name = Inr [] \<and>
    DAList.lookup ks (name @ wallet_ext) = None \<and> (\<forall>m. m \<noteq> name \<longrightarrow> read_wallet ks' m = read_wallet ks m)"
proof -
  obtain enc where e: "walletPath name = Inr (name @ wallet_ext)" "DAList.lookup ks (name @ wallet_ext) = None"
      "Encrypt K salt nonce seed password p = Inr enc"
    and ks': "ks' = writeFile (name @ wallet_ext) \<lparr>kf_version = 1, kf_created_at = now, kf_encrypted_seed = enc,
                 kf_accounts = [], kf_next_change = 0, kf_next_external = 0\<rparr> ks"
    using assms(4) by (auto simp: Keystore_Create_def walletPath_def split: option.splits sum.splits if_splits)
  have "Decrypt K enc password = Inr seed" by (rule Decrypt_Encrypt [OF assms(1-3) e(3)])
  then show ?thesis
    using e(2) by (simp add: Keystore_Load_def ListAccounts_def ks' read_wallet_write [OF e(1)])
qed

definition toy_cipher :: cipher where
  "toy_cipher = \<lparr>ci_kdf = (\<lambda>pw salt t m par. if t = 0 \<or> par = 0 then None else Some pw),
     ci_seal = (\<lambda>k n m. m @ replicate 16 (of_nat (length k))),
     ci_open = (\<lambda>k n c. if drop (length c - 16) c = replicate 16 (of_nat (length k)) then Some (take (length c - 16) c) else None)\<rparr>"

lemma toy_cipher_ok: "aead_ok toy_cipher"
  by (simp add: aead_ok_def toy_cipher_def)

definition demo_keystore :: keystore where
  "demo_keystore = fst (Keystore_Create toy_cipher (replicate 32 1) (replicate 24 2) 0 ''main'' (replicate 64 7) [1, 2, 3]
     DefaultParams DAList.empty)"

lemma demo_wallet_path: "walletPath ''main'' = Inr ''main.wallet''"
  by (simp add: walletPath_def validateWalletName_def wallet_ext_def name_char_def less_eq_char_def)

lemma demo_keystore_created:
  "Keystore_Create toy_cipher (replicate 32 1) (replicate 24 2) 0 ''main'' (replicate 64 7) [1, 2, 3] DefaultParams
     DAList.empty = (demo_keystore, None)"
  by (simp add: demo_keystore_def Keystore_Create_def demo_wallet_path DAList.lookup_empty Encrypt_def deriveKey_def
      toy_cipher_def DefaultParams_def)

theorem wallet_opens_witness: "Keystore_Load toy_cipher demo_keystore ''main'' [1, 2, 3] = Inr (replicate 64 7)"
  using wallet_opens [OF toy_cipher_ok _ _ demo_keystore_created] by simp

section \<open>The accounts of a wallet\<close>

text \<open>Histories of a keystore that starts empty.\<close>

inductive ks_run :: "keystore \<Rightarrow> bool" where
  start: "ks_run DAList.empty"
| create: "ks_run ks \<Longrightarrow> ks_run (fst (Keystore_Create K salt nonce now name seed password p ks))"
| add: "ks_run ks \<Longrightarrow> ks_run (fst (AddAccount name a ks))"
| next_change: "ks_run ks \<Longrightarrow> ks_run (fst (IncrementChangeIndex name ks))"
| next_external: "ks_run ks \<Longrightarrow> ks_run (fst (IncrementExternalIndex name ks))"
| set_change: "ks_run ks \<Longrightarrow> ks_run (fst (SetChangeIndex name i ks))"
| set_external: "ks_run ks \<Longrightarrow> ks_run (fst (SetExternalIndex name i ks))"
| remove: "ks_run ks \<Longrightarrow> ks_run (fst (Keystore_Delete name ks))"

definition accounts_ok :: "account_entry list \<Rightarrow> bool" where
  "accounts_ok as \<longleftrightarrow> distinct (map Derivation as) \<and> distinct (filter (\<lambda>s. s \<noteq> []) (map ac_address as))"

definition files_ok :: "keystore \<Rightarrow> bool" where
  "files_ok ks \<longleftrightarrow> (\<forall>f kf. DAList.lookup ks f = Some (WalletFile kf) \<longrightarrow> kf_version kf = 1 \<and> accounts_ok (kf_accounts kf))"

lemma check_account_new:
  "check_account a es = AddNew \<longleftrightarrow>
     Derivation a \<notin> Derivation ` set es \<and> (ac_address a \<noteq> [] \<longrightarrow> ac_address a \<notin> ac_address ` set es)"
  by (induction es) auto

lemma files_ok_write:
  "files_ok ks \<Longrightarrow> kf_version kf = 1 \<Longrightarrow> accounts_ok (kf_accounts kf) \<Longrightarrow> files_ok (writeFile f kf ks)"
  by (simp add: files_ok_def writeFile_def lookup_update_fun)

lemma readFile_ok: "files_ok ks \<Longrightarrow> readFile ks f = Inr kf \<Longrightarrow> kf_version kf = 1 \<and> accounts_ok (kf_accounts kf)"
  by (auto simp: files_ok_def readFile_def split: option.splits dir_entry.splits if_splits)

lemma update_wallet_ok:
  assumes "files_ok ks" and "\<And>kf. kf_version (f kf) = kf_version kf" and "\<And>kf. kf_accounts (f kf) = kf_accounts kf"
  shows "files_ok (fst (update_wallet name f ks))"
  using assms by (auto simp: update_wallet_def split: sum.splits intro!: files_ok_write dest: readFile_ok)

lemma AddAccount_ok: "files_ok ks \<Longrightarrow> files_ok (fst (AddAccount name a ks))"
proof -
  assume ok: "files_ok ks"
  have "accounts_ok (kf_accounts kf @ [a])" if "readFile ks p = Inr kf" "check_account a (kf_accounts kf) = AddNew" for p kf
    using readFile_ok [OF ok that(1)] that(2) by (auto simp: accounts_ok_def check_account_new)
  then show ?thesis using ok
    by (auto simp: AddAccount_def split: sum.splits account_check.splits intro!: files_ok_write dest: readFile_ok)
qed

lemma ks_run_files_ok: "ks_run ks \<Longrightarrow> files_ok ks"
proof (induction rule: ks_run.induct)
  case start
  then show ?case by (simp add: files_ok_def DAList.lookup_empty)
next
  case (create ks K salt nonce now name seed password p)
  then show ?case
    by (auto simp: Keystore_Create_def accounts_ok_def split: sum.splits intro!: files_ok_write)
next
  case (add ks name a)
  then show ?case by (simp add: AddAccount_ok)
next
  case (remove ks name)
  then show ?case
    by (auto simp: Keystore_Delete_def files_ok_def DAList.lookup_delete split: sum.splits option.splits dir_entry.splits bool.splits)
qed (simp_all add: IncrementChangeIndex_def IncrementExternalIndex_def SetChangeIndex_def SetExternalIndex_def update_wallet_ok)

text \<open>
  C39: The accounts of a wallet. In every history of the keystore no wallet lists two accounts of
  the same derivation path or of the same address, so that summing the coins over its accounts
  counts no coin twice. Adding an account records it, finds it there already, or refuses a path that
  belongs to another address.
\<close>

theorem wallet_accounts_distinct:
  assumes "ks_run ks" and "ListAccounts ks name = Inr as"
  shows "distinct (map Derivation as) \<and> distinct (filter (\<lambda>s. s \<noteq> []) (map ac_address as)) \<and>
    (case AddAccount name a ks of
       (ks', None) \<Rightarrow> (\<exists>as'. ListAccounts ks' name = Inr as' \<and> set as \<subseteq> set as' \<and>
          (ac_address a \<noteq> [] \<longrightarrow> ac_address a \<in> ac_address ` set as'))
     | (ks', Some e) \<Rightarrow> ks' = ks \<and> Derivation a \<in> Derivation ` set as)"
proof -
  obtain f kf where f: "walletPath name = Inr f" "readFile ks f = Inr kf" "kf_accounts kf = as"
    using assms(2) by (auto simp: ListAccounts_def read_wallet_def bindE_Inr)
  have ok: "kf_version kf = 1" "accounts_ok as" using readFile_ok [OF ks_run_files_ok [OF assms(1)] f(2)] f(3) by simp_all
  have there: "ac_address a \<noteq> [] \<longrightarrow> ac_address a \<in> ac_address ` set es" if "check_account a es = AlreadyThere" for es
    using that by (induction es) (auto split: if_splits)
  have taken: "Derivation a \<in> Derivation ` set es" if "check_account a es = PathTaken" for es
    using that by (induction es) (auto split: if_splits)
  have r: "read_wallet ks name = Inr kf" using f by (simp add: read_wallet_def)
  have "case AddAccount name a ks of
       (ks', None) \<Rightarrow> (\<exists>as'. ListAccounts ks' name = Inr as' \<and> set as \<subseteq> set as' \<and>
          (ac_address a \<noteq> [] \<longrightarrow> ac_address a \<in> ac_address ` set as'))
     | (ks', Some e) \<Rightarrow> ks' = ks \<and> Derivation a \<in> Derivation ` set as"
  proof (cases "check_account a as")
    case AddNew
    then show ?thesis using f ok by (auto simp: AddAccount_def ListAccounts_def read_wallet_write)
  next
    case AlreadyThere
    then show ?thesis using f there r by (auto simp: AddAccount_def ListAccounts_def)
  next
    case PathTaken
    then show ?thesis using f taken by (simp add: AddAccount_def)
  qed
  then show ?thesis using ok(2) by (simp add: accounts_ok_def)
qed

theorem wallet_accounts_distinct_witness:
  "\<exists>ks as. ks_run ks \<and> ListAccounts ks ''main'' = Inr as \<and> distinct (map Derivation as)"
proof -
  have "ks_run demo_keystore" unfolding demo_keystore_def by (intro ks_run.create ks_run.start)
  moreover have "ListAccounts demo_keystore ''main'' = Inr []"
    using wallet_opens [OF toy_cipher_ok _ _ demo_keystore_created] by simp
  ultimately show ?thesis using wallet_accounts_distinct [of demo_keystore "''main''" "[]"] by blast
qed

end
