(* ===== verification/Payments.thy ===== *)
theory Payments
  imports Keystore Node
begin

text \<open>
  The wallet endpoints of the RPC server (\<open>internal/rpc\<close>) that manage addresses and pay: the coins
  of a wallet, the selection of coins and fees, transfers to one and to many recipients,
  consolidation, and discovery of used addresses.
\<close>

section \<open>The server\<close>

text \<open>A chain as the handlers see it: the root chain or a sub-chain that runs on this node.\<close>

record 's chain_context =
  cc_env :: "'s env"
  cc_chain :: "'s chain"
  cc_pool :: pool
  cc_genesis :: genesis

text \<open>
  \<open>rs_subs\<close> is \<open>None\<close> without a sub-chain manager; \<open>rs_sent\<close> is the log of broadcasts, with the
  sub-chain they are for. A locked keystore directory belongs to the server alone.
\<close>

record 's rpc_state =
  rs_keys :: "keystore option"
  rs_root :: "'s chain_context"
  rs_subs :: "(hash \<Rightarrow> 's chain_context option) option"
  rs_sent :: "(hash option \<times> transaction) list"

record 'k rpc_config =
  rc_crypto :: crypto
  rc_bip :: "'k bip32"
  rc_cipher :: cipher
  rc_words :: bip39
  rc_hrp :: string
  rc_order :: iteration
  rc_arrange :: arrangement
  rc_p2p :: bool

text \<open>Messages are classified by their reason. A panic is caught by the HTTP server, which drops the connection.\<close>

datatype reason =
    WalletDisabled | NoManager | BadParams | MissingParams | BadAddress parse_error | BadLogin
  | KeyFailure Wallet.key_error | NoPrivateKey | MnemonicFailure mnemonic_error | KeystoreFailure keystore_error
  | NoCoins u64 u64 u64 | CoinSelection coin_error | SignFailure sign_error | Rejected pool_error
  | BadChainID | ChainNotSynced hash | TooManyInputs u32 | TooFewInputs | InputOverflow | CoinsTooSmall u64 u64
  | StakeMismatch u64 u64 | AlreadyStaked | BadStakeKey | NoStakes | StakeTooSmall u64 u64
  | AmountTooLarge | MintingDisabled | BadTokenName | BadTokenSymbol | BadDecimals | BadTokenID
  | NoTokenCoins | TokenBalance u64 u64 | BadRegistration registration_error | CorruptIndex | DeriveLimitTooHigh u32
  | BadHash | BlockMissing | TxMissing | UtxoMissing | TokenMissing | ChainUnknown hash | NoTokenStore | NoTracker
  | NotPoW | BlockRejected chain_error

datatype rpc_error = InvalidParams reason | InternalError reason | NotFound reason | RequestPanic

definition context_at :: "hash option \<Rightarrow> 's rpc_state \<Rightarrow> 's chain_context option" where
  "context_at c S = (case c of None \<Rightarrow> Some (rs_root S) | Some i \<Rightarrow> Option.bind (rs_subs S) (\<lambda>f. f i))"

definition set_context :: "hash option \<Rightarrow> 's chain_context \<Rightarrow> 's rpc_state \<Rightarrow> 's rpc_state" where
  "set_context c cc S =
     (case c of None \<Rightarrow> S\<lparr>rs_root := cc\<rparr> | Some i \<Rightarrow> S\<lparr>rs_subs := map_option (\<lambda>f. f(i := Some cc)) (rs_subs S)\<rparr>)"

definition requireWallet :: "'s rpc_state \<Rightarrow> rpc_error + keystore" where
  "requireWallet S = (case rs_keys S of None \<Rightarrow> Inl (InternalError WalletDisabled) | Some ks \<Rightarrow> Inr ks)"

definition requireSubChainManager :: "'s rpc_state \<Rightarrow> rpc_error option" where
  "requireSubChainManager S = (if rs_subs S = None then Some (InternalError NoManager) else None)"

text \<open>The parameters of a request, if their JSON decodes.\<close>

definition parseParams :: "'q option \<Rightarrow> rpc_error + 'q" where
  "parseParams q = (case q of None \<Rightarrow> Inl (InvalidParams BadParams) | Some p \<Rightarrow> Inr p)"

definition decodeAddress :: "string \<Rightarrow> rpc_error + address" where
  "decodeAddress s = (case ParseAddress s of Inl e \<Rightarrow> Inl (InvalidParams (BadAddress e)) | Inr a \<Rightarrow> Inr a)"

definition decode_chain_id :: "string \<Rightarrow> rpc_error + hash" where
  "decode_chain_id s =
     (case hex_decode s of
        None \<Rightarrow> Inl (InvalidParams BadChainID)
      | Some bs \<Rightarrow> if length bs \<noteq> 32 then Inl (InvalidParams BadChainID) else Inr (be_word bs))"

definition sub_context :: "string \<Rightarrow> 's rpc_state \<Rightarrow> rpc_error + hash \<times> 's chain_context" where
  "sub_context s S =
     bindE (decode_chain_id s) (\<lambda>i.
       case context_at (Some i) S of None \<Rightarrow> Inl (NotFound (ChainNotSynced i)) | Some cc \<Rightarrow> Inr (i, cc))"

fun decimal :: "nat \<Rightarrow> string" where
  "decimal n = (if n < 10 then [char_of (48 + n)] else decimal (n div 10) @ [char_of (48 + n mod 10)])"

declare decimal.simps [simp del]

section \<open>Opening a wallet\<close>

definition load_wallet :: "'k rpc_config \<Rightarrow> keystore \<Rightarrow> string \<Rightarrow> string \<Rightarrow> rpc_error + bytes" where
  "load_wallet W ks name password =
     (case Keystore_Load (rc_cipher W) ks name (ascii password) of
        Inl e \<Rightarrow> Inl (if e = DecryptFailed KdfPanic then RequestPanic else InvalidParams BadLogin)
      | Inr seed \<Rightarrow> Inr seed)"

definition key_step :: "Wallet.key_error + 'a \<Rightarrow> rpc_error + 'a" where
  "key_step r = (case r of Inl e \<Rightarrow> Inl (InternalError (KeyFailure e)) | Inr k \<Rightarrow> Inr k)"

definition open_wallet :: "'k rpc_config \<Rightarrow> keystore \<Rightarrow> string \<Rightarrow> string \<Rightarrow> rpc_error + 'k" where
  "open_wallet W ks name password =
     bindE (load_wallet W ks name password) (\<lambda>seed. key_step (NewMasterKey (rc_bip W) seed))"

definition keys_step :: "keystore_error + 'a \<Rightarrow> rpc_error + 'a" where
  "keys_step r = (case r of Inl e \<Rightarrow> Inl (InternalError (KeystoreFailure e)) | Inr x \<Rightarrow> Inr x)"

definition Signer :: "'k bip32 \<Rightarrow> 'k \<Rightarrow> bytes option" where
  "Signer B k =
     Option.bind (PrivateKeyBytes B k) (\<lambda>b. case PrivateKeyFromBytes b of Inl e \<Rightarrow> None | Inr key \<Rightarrow> Some key)"

abbreviation (input) ChangeExternal :: u32 where "ChangeExternal \<equiv> 0"
abbreviation (input) ChangeInternal :: u32 where "ChangeInternal \<equiv> 1"

section \<open>The coins of a wallet\<close>

record walletUTXOSet =
  wset_utxos :: "wallet_utxo list"
  wset_signers :: "address \<Rightarrow> bytes option"
  wset_owner :: "outpoint \<Rightarrow> address option"
  wset_spendable :: u64
  wset_immature :: u64
  wset_locked :: u64

definition empty_wset :: walletUTXOSet where
  "empty_wset = \<lparr>wset_utxos = [], wset_signers = Map.empty, wset_owner = Map.empty,
     wset_spendable = 0, wset_immature = 0, wset_locked = 0\<rparr>"

definition immature :: "u64 \<Rightarrow> utxo \<Rightarrow> bool" where
  "immature height u \<longleftrightarrow> u_coinbase u \<and> (height < u_height u \<or> height - u_height u < CoinbaseMaturity)"

definition locked :: "u64 \<Rightarrow> utxo \<Rightarrow> bool" where
  "locked height u \<longleftrightarrow> u_locked_until u > 0 \<and> height < u_locked_until u"

definition native_value :: "utxo \<Rightarrow> u64" where
  "native_value u = (if u_token u = None then u_value u else 0)"

definition wallet_coin :: "utxo \<Rightarrow> wallet_utxo" where
  "wallet_coin u = \<lparr>wu_outpoint = u_outpoint u, wu_value = u_value u, wu_script = u_script u, wu_token = u_token u\<rparr>"

definition collect_coin :: "u64 \<Rightarrow> address \<Rightarrow> utxo \<Rightarrow> walletUTXOSet \<Rightarrow> walletUTXOSet" where
  "collect_coin height addr u w =
     (if immature height u then w\<lparr>wset_immature := wset_immature w + native_value u\<rparr>
      else if locked height u then w\<lparr>wset_locked := wset_locked w + native_value u\<rparr>
      else w\<lparr>wset_utxos := wset_utxos w @ [wallet_coin u], wset_owner := (wset_owner w)(u_outpoint u \<mapsto> addr),
             wset_spendable := wset_spendable w + native_value u\<rparr>)"

text \<open>The signer of an address is derived only when the address has coins.\<close>

definition with_signer :: "'k rpc_config \<Rightarrow> 'k \<Rightarrow> account_entry \<Rightarrow> address \<Rightarrow> walletUTXOSet \<Rightarrow> walletUTXOSet option" where
  "with_signer W master acct addr w =
     (if wset_signers w addr \<noteq> None then Some w
      else case DeriveAddress (rc_bip W) 0 (ac_change acct) (ac_index acct) master of
        Inl e \<Rightarrow> None
      | Inr k \<Rightarrow> map_option (\<lambda>key. w\<lparr>wset_signers := (wset_signers w)(addr \<mapsto> key)\<rparr>) (Signer (rc_bip W) k))"

definition collect_account ::
  "'k rpc_config \<Rightarrow> 'k \<Rightarrow> (address \<Rightarrow> utxo list) \<Rightarrow> u64 \<Rightarrow> account_entry \<Rightarrow> walletUTXOSet \<Rightarrow> walletUTXOSet" where
  "collect_account W master by_address height acct w =
     (case ParseAddress (ac_address acct) of
        Inl e \<Rightarrow> w
      | Inr addr \<Rightarrow>
          if by_address addr = [] then w
          else case with_signer W master acct addr w of
            None \<Rightarrow> w
          | Some w1 \<Rightarrow> fold (collect_coin height addr) (by_address addr) w1)"

definition default_account :: account_entry where
  "default_account = \<lparr>ac_index = 0, ac_change = 0, ac_name = ''Default'', ac_address = []\<rparr>"

abbreviation coins_of :: "'s chain_context \<Rightarrow> address \<Rightarrow> utxo list" where
  "coins_of cc addr \<equiv> GetByAddress (en_db (cc_env cc)) addr (ch_db (cc_chain cc))"

definition collectWalletUTXOs ::
  "'k rpc_config \<Rightarrow> keystore \<Rightarrow> 'k \<Rightarrow> string \<Rightarrow> 's chain_context \<Rightarrow> rpc_error + walletUTXOSet" where
  "collectWalletUTXOs W ks master name cc =
     bindE (keys_step (ListAccounts ks name)) (\<lambda>accounts.
       Inr (fold (collect_account W master (coins_of cc) (ch_height (cc_chain cc)))
              (if accounts = [] then [default_account] else accounts) empty_wset))"

definition filterNativeUTXOs :: "wallet_utxo list \<Rightarrow> wallet_utxo list" where
  "filterNativeUTXOs us = filter (\<lambda>u. wu_token u = None \<and> sc_type (wu_script u) = ScriptTypeP2PKH) us"

definition native_coins ::
  "'k rpc_config \<Rightarrow> keystore \<Rightarrow> 'k \<Rightarrow> string \<Rightarrow> 's chain_context \<Rightarrow> rpc_error + walletUTXOSet \<times> wallet_utxo list" where
  "native_coins W ks master name cc =
     bindE (collectWalletUTXOs W ks master name cc) (\<lambda>w.
       let native = filterNativeUTXOs (wset_utxos w)
       in if native = [] then Inl (InvalidParams (NoCoins (wset_spendable w) (wset_immature w) (wset_locked w)))
          else Inr (w, native))"

section \<open>Selecting coins for an amount and its fee\<close>

abbreviation min_fee_rate :: "'s chain_context \<Rightarrow> u64" where
  "min_fee_rate cc \<equiv> cr_min_fee_rate (pc_consensus (gen_protocol (cc_genesis cc)))"

text \<open>
  The fee of one input is assumed first, then that of the selected inputs; if the selection does
  not cover it, coins are selected once more. The result is the selection and the fee of its size,
  which the second selection was not made for.
\<close>

definition select_with_fee ::
  "arrangement \<Rightarrow> u64 \<Rightarrow> nat \<Rightarrow> u64 \<Rightarrow> wallet_utxo list \<Rightarrow> coin_error + coin_selection \<times> u64" where
  "select_with_fee arrange feeRate outputs amount coins =
     bindE (SelectCoins arrange coins (amount + EstimateTxFee 1 outputs feeRate 0)) (\<lambda>sel.
       let fee = EstimateTxFee (length (cs_inputs sel)) outputs feeRate 0
       in if cs_total sel < amount + fee
          then bindE (SelectCoins arrange coins (amount + fee)) (\<lambda>sel'.
                 Inr (sel', EstimateTxFee (length (cs_inputs sel')) outputs feeRate 0))
          else Inr (sel, fee))"

definition select_step :: "coin_error + 'a \<Rightarrow> rpc_error + 'a" where
  "select_step r = (case r of Inl e \<Rightarrow> Inl (InvalidParams (CoinSelection e)) | Inr x \<Rightarrow> Inr x)"

section \<open>Building, submitting and keeping track\<close>

definition p2pkh :: "address \<Rightarrow> script" where
  "p2pkh a = \<lparr>sc_type = ScriptTypeP2PKH, sc_data = addr_bytes a\<rparr>"

definition add_inputs :: "wallet_utxo list \<Rightarrow> transaction \<Rightarrow> transaction" where
  "add_inputs us b = fold (\<lambda>u. AddInput (wu_outpoint u)) us b"

text \<open>The next change address, when there is change.\<close>

definition change_address ::
  "'k rpc_config \<Rightarrow> keystore \<Rightarrow> 'k \<Rightarrow> string \<Rightarrow> u64 \<Rightarrow> rpc_error + (u32 \<times> address) option" where
  "change_address W ks master name change =
     (if change > 0 then
        bindE (keys_step (GetChangeIndex ks name)) (\<lambda>idx.
        bindE (key_step (DeriveAddress (rc_bip W) 0 ChangeInternal idx master)) (\<lambda>k.
          Inr (Some (idx, HD_Address (rc_crypto W) (rc_bip W) k))))
      else Inr None)"

definition add_change :: "u64 \<Rightarrow> (u32 \<times> address) option \<Rightarrow> transaction \<Rightarrow> transaction" where
  "add_change change ch b = (case ch of None \<Rightarrow> b | Some (idx, addr) \<Rightarrow> AddOutput change (p2pkh addr) b)"

definition sign_all :: "'k rpc_config \<Rightarrow> walletUTXOSet \<Rightarrow> transaction \<Rightarrow> rpc_error + transaction" where
  "sign_all W w b =
     (case SignMulti (rc_crypto W) (wset_signers w) (wset_owner w) b of
        (b', Some e) \<Rightarrow> Inl (InternalError (SignFailure e))
      | (b', None) \<Rightarrow> Inr b')"

text \<open>Adding to the pool of the chain, and broadcasting what the pool took.\<close>

definition submit ::
  "'k rpc_config \<Rightarrow> hash option \<Rightarrow> 's chain_context \<Rightarrow> transaction \<Rightarrow> 's rpc_state \<Rightarrow> 's rpc_state \<times> rpc_error option" where
  "submit W c cc t S =
     (case Pool_Add (rc_crypto W) (rc_order W) (pool_view_of (cc_env cc) (cc_chain cc)) t (cc_pool cc) of
        (p, Inl e) \<Rightarrow> (set_context c (cc\<lparr>cc_pool := p\<rparr>) S, Some (InvalidParams (Rejected e)))
      | (p, Inr fee) \<Rightarrow>
          (let S1 = set_context c (cc\<lparr>cc_pool := p\<rparr>) S
           in (if rc_p2p W then S1\<lparr>rs_sent := rs_sent S1 @ [(c, t)]\<rparr> else S1, None)))"

definition change_entry :: "'k rpc_config \<Rightarrow> u32 \<Rightarrow> address \<Rightarrow> account_entry" where
  "change_entry W idx addr =
     \<lparr>ac_index = idx, ac_change = ChangeInternal, ac_name = ''Change '' @ decimal (unat idx),
      ac_address = address_string (rc_hrp W) addr\<rparr>"

text \<open>Errors of the two updates are ignored.\<close>

definition track_change :: "'k rpc_config \<Rightarrow> string \<Rightarrow> (u32 \<times> address) option \<Rightarrow> keystore \<Rightarrow> keystore" where
  "track_change W name ch ks =
     (case ch of
        None \<Rightarrow> ks
      | Some (idx, addr) \<Rightarrow> fst (IncrementChangeIndex name (fst (AddAccount name (change_entry W idx addr) ks))))"

text \<open>The end of every payment: submit, then record the change address.\<close>

definition pay ::
  "'k rpc_config \<Rightarrow> hash option \<Rightarrow> 's chain_context \<Rightarrow> string \<Rightarrow> transaction \<Rightarrow> (u32 \<times> address) option \<Rightarrow>
   's rpc_state \<Rightarrow> 's rpc_state \<times> (rpc_error + hash)" where
  "pay W c cc name t ch S =
     (case submit W c cc t S of
        (S1, Some e) \<Rightarrow> (S1, Inl e)
      | (S1, None) \<Rightarrow>
          (S1\<lparr>rs_keys := map_option (track_change W name ch) (rs_keys S1)\<rparr>, Inr (TxHash (rc_crypto W) t)))"

section \<open>Transfers\<close>

text \<open>A transaction from native coins of the wallet with the given outputs, and change.\<close>

definition prepare_payment ::
  "'k rpc_config \<Rightarrow> 's chain_context \<Rightarrow> keystore \<Rightarrow> 'k \<Rightarrow> string \<Rightarrow> (u64 \<times> script) list \<Rightarrow> u64 \<Rightarrow>
   rpc_error + transaction \<times> (u32 \<times> address) option" where
  "prepare_payment W cc ks master name outs amount =
     bindE (native_coins W ks master name cc) (\<lambda>(w, native).
     bindE (select_step (select_with_fee (rc_arrange W) (min_fee_rate cc) (length outs + 1) amount native)) (\<lambda>(sel, fee).
     let change = cs_total sel - amount - fee in
     bindE (change_address W ks master name change) (\<lambda>ch.
     bindE (sign_all W w (add_change change ch
              (fold (\<lambda>(v, s). AddOutput v s) outs (add_inputs (cs_inputs sel) NewBuilder)))) (\<lambda>t.
       Inr (t, ch)))))"

definition handleWalletSend ::
  "'k rpc_config \<Rightarrow> (string \<times> string \<times> string \<times> u64) option \<Rightarrow> 's rpc_state \<Rightarrow> 's rpc_state \<times> (rpc_error + hash)" where
  "handleWalletSend W q S =
     (case bindE (requireWallet S) (\<lambda>ks.
           bindE (parseParams q) (\<lambda>(name, password, to, amount).
           if name = [] \<or> password = [] \<or> to = [] \<or> amount = 0 then Inl (InvalidParams MissingParams)
           else bindE (decodeAddress to) (\<lambda>recipient.
                bindE (open_wallet W ks name password) (\<lambda>master.
                bindE (prepare_payment W (rs_root S) ks master name [(amount, p2pkh recipient)] amount) (\<lambda>(t, ch).
                  Inr (name, t, ch)))))) of
        Inl e \<Rightarrow> (S, Inl e)
      | Inr (name, t, ch) \<Rightarrow> pay W None (rs_root S) name t ch S)"

text \<open>The recipients of \<open>sendMany\<close> with the sum of their amounts, which wraps.\<close>

fun parse_recipients :: "(string \<times> u64) list \<Rightarrow> rpc_error + (address \<times> u64) list" where
  "parse_recipients [] = Inr []"
| "parse_recipients ((to, amount) # rs) =
     (if to = [] \<or> amount = 0 then Inl (InvalidParams MissingParams)
      else bindE (decodeAddress to) (\<lambda>addr. bindE (parse_recipients rs) (\<lambda>ps. Inr ((addr, amount) # ps))))"

definition handleWalletSendMany ::
  "'k rpc_config \<Rightarrow> (string \<times> string \<times> (string \<times> u64) list) option \<Rightarrow> 's rpc_state \<Rightarrow>
   's rpc_state \<times> (rpc_error + hash)" where
  "handleWalletSendMany W q S =
     (case bindE (requireWallet S) (\<lambda>ks.
           bindE (parseParams q) (\<lambda>(name, password, recipients).
           if name = [] \<or> password = [] then Inl (InvalidParams MissingParams)
           else if recipients = [] then Inl (InvalidParams MissingParams)
           else bindE (parse_recipients recipients) (\<lambda>rs.
                bindE (open_wallet W ks name password) (\<lambda>master.
                bindE (prepare_payment W (rs_root S) ks master name (map (\<lambda>(a, v). (v, p2pkh a)) rs)
                         (foldl (+) 0 (map snd rs))) (\<lambda>(t, ch).
                  Inr (name, t, ch)))))) of
        Inl e \<Rightarrow> (S, Inl e)
      | Inr (name, t, ch) \<Rightarrow> pay W None (rs_root S) name t ch S)"

text \<open>The same transfer on a sub-chain, with its own pool and topic.\<close>

definition handleSubChainSend ::
  "'k rpc_config \<Rightarrow> (string \<times> string \<times> string \<times> string \<times> u64) option \<Rightarrow> 's rpc_state \<Rightarrow>
   's rpc_state \<times> (rpc_error + hash)" where
  "handleSubChainSend W q S =
     (case bindE (requireWallet S) (\<lambda>ks.
           check (requireSubChainManager S) (
           bindE (parseParams q) (\<lambda>(chain, name, password, to, amount).
           if chain = [] \<or> name = [] \<or> password = [] \<or> to = [] \<or> amount = 0 then Inl (InvalidParams MissingParams)
           else bindE (sub_context chain S) (\<lambda>(i, cc).
                bindE (decodeAddress to) (\<lambda>recipient.
                bindE (open_wallet W ks name password) (\<lambda>master.
                bindE (prepare_payment W cc ks master name [(amount, p2pkh recipient)] amount) (\<lambda>(t, ch).
                  Inr (i, cc, name, t, ch)))))))) of
        Inl e \<Rightarrow> (S, Inl e)
      | Inr (i, cc, name, t, ch) \<Rightarrow> pay W (Some i) cc name t ch S)"

section \<open>Consolidation\<close>

fun sum_guarded :: "u64 \<Rightarrow> wallet_utxo list \<Rightarrow> u64 option" where
  "sum_guarded t [] = Some t"
| "sum_guarded t (u # us) = (if t > max_u64 - wu_value u then None else sum_guarded (t + wu_value u) us)"

record consolidation =
  co_tx :: hash
  co_inputs :: nat
  co_total :: u64
  co_output :: u64
  co_fee :: u64

text \<open>The smallest coins first, into one change address.\<close>

definition prepare_consolidation ::
  "'k rpc_config \<Rightarrow> 's chain_context \<Rightarrow> keystore \<Rightarrow> 'k \<Rightarrow> string \<Rightarrow> u32 \<Rightarrow>
   rpc_error + transaction \<times> (u32 \<times> address) \<times> consolidation" where
  "prepare_consolidation W cc ks master name maxInputs =
     bindE (collectWalletUTXOs W ks master name cc) (\<lambda>w.
     let native = filterNativeUTXOs (wset_utxos w) in
     if length native < 2 then Inl (InvalidParams (NoCoins (wset_spendable w) (wset_immature w) (wset_locked w)))
     else let selected = take (unat maxInputs) (sort_key wu_value (rc_arrange W native)) in
     case sum_guarded 0 selected of
       None \<Rightarrow> Inl (InternalError InputOverflow)
     | Some t \<Rightarrow>
         (let fee = EstimateTxFee (length selected) 1 (min_fee_rate cc) 0 in
          if t \<le> fee then Inl (InvalidParams (CoinsTooSmall t fee))
          else bindE (keys_step (GetChangeIndex ks name)) (\<lambda>idx.
               bindE (key_step (DeriveAddress (rc_bip W) 0 ChangeInternal idx master)) (\<lambda>k.
               let addr = HD_Address (rc_crypto W) (rc_bip W) k in
               bindE (sign_all W w (AddOutput (t - fee) (p2pkh addr) (add_inputs selected NewBuilder))) (\<lambda>tr.
                 Inr (tr, (idx, addr),
                   \<lparr>co_tx = TxHash (rc_crypto W) tr, co_inputs = length selected, co_total = t,
                    co_output = t - fee, co_fee = fee\<rparr>))))))"

definition MaxConsolidation :: u32 where "MaxConsolidation = of_nat MaxTxInputs"

definition handleWalletConsolidate ::
  "'k rpc_config \<Rightarrow> (string \<times> string \<times> u32 \<times> string) option \<Rightarrow> 's rpc_state \<Rightarrow>
   's rpc_state \<times> (rpc_error + consolidation)" where
  "handleWalletConsolidate W q S =
     (case bindE (requireWallet S) (\<lambda>ks.
           bindE (parseParams q) (\<lambda>(name, password, max_inputs, chain).
           if name = [] \<or> password = [] then Inl (InvalidParams MissingParams)
           else let maxInputs = (if max_inputs = 0 then 500 else max_inputs) in
           if maxInputs > MaxConsolidation then Inl (InvalidParams (TooManyInputs maxInputs))
           else if maxInputs < 2 then Inl (InvalidParams TooFewInputs)
           else bindE (if chain = [] then Inr (None, rs_root S)
                       else check (requireSubChainManager S)
                              (bindE (sub_context chain S) (\<lambda>(i, cc). Inr (Some i, cc)))) (\<lambda>(c, cc).
                bindE (open_wallet W ks name password) (\<lambda>master.
                bindE (prepare_consolidation W cc ks master name maxInputs) (\<lambda>(t, ch, res).
                  Inr (c, cc, name, t, ch, res)))))) of
        Inl e \<Rightarrow> (S, Inl e)
      | Inr (c, cc, name, t, ch, res) \<Rightarrow>
          (case pay W c cc name t (Some ch) S of (S1, Inl e) \<Rightarrow> (S1, Inl e) | (S1, Inr h) \<Rightarrow> (S1, Inr res)))"

section \<open>Addresses\<close>

definition with_keys :: "'s rpc_state \<Rightarrow> keystore \<Rightarrow> 's rpc_state" where
  "with_keys S ks = S\<lparr>rs_keys := Some ks\<rparr>"

definition stakesByAddress :: "crypto \<Rightarrow> 's chain_context \<Rightarrow> address \<Rightarrow> utxo list option" where
  "stakesByAddress C cc addr =
     (let D = en_db (cc_env cc); s = ch_db (cc_chain cc)
      in case find (\<lambda>pk. AddressFromPubKey C pk = addr) (GetAllStakedValidators D s) of
           None \<Rightarrow> Some []
         | Some pk \<Rightarrow> GetStakes D pk s)"

definition used_address :: "crypto \<Rightarrow> 's chain_context \<Rightarrow> address \<Rightarrow> bool" where
  "used_address C cc addr \<longleftrightarrow>
     coins_of cc addr \<noteq> [] \<or> (case stakesByAddress C cc addr of None \<Rightarrow> False | Some us \<Rightarrow> us \<noteq> [])"

definition gapLimit :: nat where "gapLimit = 20"

definition scan_entry :: "'k rpc_config \<Rightarrow> u32 \<Rightarrow> string \<Rightarrow> u32 \<Rightarrow> address \<Rightarrow> account_entry" where
  "scan_entry W change label idx addr =
     \<lparr>ac_index = idx, ac_change = change, ac_name = label @ '' '' @ decimal (unat idx),
      ac_address = address_string (rc_hrp W) addr\<rparr>"

text \<open>
  The loop over the indexes of one chain of addresses. The index is a \<open>uint32\<close> that may wrap, so the
  loop is a partial function; the result has the highest used index.
\<close>

partial_function (option) scan_loop ::
  "'k rpc_config \<Rightarrow> (address \<Rightarrow> bool) \<Rightarrow> string \<Rightarrow> 'k \<Rightarrow> u32 \<Rightarrow> string \<Rightarrow> u32 \<Rightarrow> nat \<Rightarrow> u32 option \<Rightarrow> keystore \<Rightarrow>
   (keystore \<times> u32 option) option" where
  "scan_loop W used name master change label idx gap highest ks =
     (if gap \<ge> gapLimit then Some (ks, highest)
      else case DeriveAddress (rc_bip W) 0 change idx master of
        Inl e \<Rightarrow> Some (ks, highest)
      | Inr k \<Rightarrow>
          if \<not> used (HD_Address (rc_crypto W) (rc_bip W) k)
          then scan_loop W used name master change label (idx + 1) (gap + 1) highest ks
          else scan_loop W used name master change label (idx + 1) 0 (Some idx)
                 (fst (AddAccount name (scan_entry W change label idx (HD_Address (rc_crypto W) (rc_bip W) k)) ks)))"

definition scan_chain ::
  "'k rpc_config \<Rightarrow> (address \<Rightarrow> bool) \<Rightarrow> string \<Rightarrow> 'k \<Rightarrow> u32 \<Rightarrow> string \<Rightarrow> keystore \<Rightarrow> keystore option" where
  "scan_chain W used name master change label ks =
     map_option (\<lambda>(ks', highest).
       case highest of
         None \<Rightarrow> ks'
       | Some i \<Rightarrow> fst (if change = ChangeExternal then SetExternalIndex name (i + 1) ks' else SetChangeIndex name (i + 1) ks'))
     (scan_loop W used name master change label 0 0 None ks)"

definition scanWalletAddresses ::
  "'k rpc_config \<Rightarrow> 's chain_context \<Rightarrow> string \<Rightarrow> 'k \<Rightarrow> keystore \<Rightarrow> keystore option" where
  "scanWalletAddresses W cc name master ks =
     Option.bind (scan_chain W (used_address (rc_crypto W) cc) name master ChangeExternal ''Address'' ks)
       (scan_chain W (used_address (rc_crypto W) cc) name master ChangeInternal ''Change'')"

text \<open>A wallet from a mnemonic: the seed is encrypted, and account 0 recorded. The result has the master key.\<close>

definition new_wallet ::
  "'k rpc_config \<Rightarrow> bytes \<Rightarrow> bytes \<Rightarrow> int \<Rightarrow> string \<Rightarrow> string \<Rightarrow> string \<Rightarrow> keystore \<Rightarrow>
   keystore \<times> (rpc_error + 'k \<times> address)" where
  "new_wallet W salt nonce now name password mnemonic ks =
     (case SeedFromMnemonic (rc_words W) mnemonic [] of
        Inl e \<Rightarrow> (ks, Inl (InternalError (MnemonicFailure e)))
      | Inr seed \<Rightarrow>
         (case bindE (key_step (NewMasterKey (rc_bip W) seed)) (\<lambda>master.
               bindE (key_step (DeriveAddress (rc_bip W) 0 ChangeExternal 0 master)) (\<lambda>k.
                 Inr (master, HD_Address (rc_crypto W) (rc_bip W) k))) of
            Inl e \<Rightarrow> (ks, Inl e)
          | Inr (master, addr) \<Rightarrow>
             (case Keystore_Create (rc_cipher W) salt nonce now name seed (ascii password) DefaultParams ks of
                (ks1, Some e) \<Rightarrow> (ks1, Inl (if e = EncryptFailed KdfPanic then RequestPanic else InvalidParams (KeystoreFailure e)))
              | (ks1, None) \<Rightarrow>
                 (case AddAccount name \<lparr>ac_index = 0, ac_change = 0, ac_name = ''Default'',
                         ac_address = address_string (rc_hrp W) addr\<rparr> ks1 of
                    (ks2, Some e) \<Rightarrow> (ks2, Inl (InternalError (KeystoreFailure e)))
                  | (ks2, None) \<Rightarrow> (ks2, Inr (master, addr))))))"

text \<open>The mnemonic comes from the entropy source; \<open>None\<close> is its failure.\<close>

definition handleWalletCreate ::
  "'k rpc_config \<Rightarrow> string option \<Rightarrow> bytes \<Rightarrow> bytes \<Rightarrow> int \<Rightarrow> (string \<times> string) option \<Rightarrow> 's rpc_state \<Rightarrow>
   's rpc_state \<times> (rpc_error + string \<times> string)" where
  "handleWalletCreate W generated salt nonce now q S =
     (case bindE (requireWallet S) (\<lambda>ks. bindE (parseParams q) (\<lambda>(name, password).
           if name = [] \<or> password = [] then Inl (InvalidParams MissingParams)
           else case generated of
             None \<Rightarrow> Inl (InternalError (MnemonicFailure SeedDerivation))
           | Some mnemonic \<Rightarrow> Inr (ks, name, password, mnemonic))) of
        Inl e \<Rightarrow> (S, Inl e)
      | Inr (ks, name, password, mnemonic) \<Rightarrow>
          (case new_wallet W salt nonce now name password mnemonic ks of
             (ks', Inl e) \<Rightarrow> (with_keys S ks', Inl e)
           | (ks', Inr (master, addr)) \<Rightarrow> (with_keys S ks', Inr (mnemonic, address_string (rc_hrp W) addr))))"

text \<open>\<open>strings.Fields\<close> on ASCII text, and \<open>strings.Join\<close>.\<close>

definition is_space :: "char \<Rightarrow> bool" where
  "is_space c \<longleftrightarrow> of_char c \<in> {9, 10, 11, 12, 13, 32 :: nat}"

fun fields :: "string \<Rightarrow> string \<Rightarrow> string list" where
  "fields w [] = (if w = [] then [] else [w])"
| "fields w (c # cs) = (if is_space c then (if w = [] then fields [] cs else w # fields [] cs) else fields (w @ [c]) cs)"

fun join_words :: "string list \<Rightarrow> string" where
  "join_words [] = []"
| "join_words [w] = w"
| "join_words (w # ws) = w @ '' '' @ join_words ws"

text \<open>The result is \<open>None\<close> only if the scan of addresses does not end.\<close>

definition handleWalletImport ::
  "'k rpc_config \<Rightarrow> bytes \<Rightarrow> bytes \<Rightarrow> int \<Rightarrow> (string \<times> string \<times> string) option \<Rightarrow> 's rpc_state \<Rightarrow>
   ('s rpc_state \<times> (rpc_error + string)) option" where
  "handleWalletImport W salt nonce now q S =
     (case bindE (requireWallet S) (\<lambda>ks. bindE (parseParams q) (\<lambda>(name, password, text).
           let mnemonic = join_words (fields [] text) in
           if name = [] \<or> password = [] \<or> mnemonic = [] then Inl (InvalidParams MissingParams)
           else if \<not> ValidateMnemonic (rc_words W) mnemonic then Inl (InvalidParams (MnemonicFailure InvalidMnemonic))
           else Inr (ks, name, password, mnemonic))) of
        Inl e \<Rightarrow> Some (S, Inl e)
      | Inr (ks, name, password, mnemonic) \<Rightarrow>
          (case new_wallet W salt nonce now name password mnemonic ks of
             (ks', Inl e) \<Rightarrow> Some (with_keys S ks', Inl e)
           | (ks', Inr (master, addr)) \<Rightarrow>
               map_option (\<lambda>ks''. (with_keys S ks'', Inr (address_string (rc_hrp W) addr)))
                 (scanWalletAddresses W (rs_root S) name master ks')))"

definition handleWalletList :: "'s rpc_state \<Rightarrow> rpc_error + string list" where
  "handleWalletList S = bindE (requireWallet S) (\<lambda>ks. Inr (Keystore_List ks))"

definition handleWalletNewAddress ::
  "'k rpc_config \<Rightarrow> (string \<times> string) option \<Rightarrow> 's rpc_state \<Rightarrow> 's rpc_state \<times> (rpc_error + u32 \<times> string)" where
  "handleWalletNewAddress W q S =
     (case bindE (requireWallet S) (\<lambda>ks. bindE (parseParams q) (\<lambda>(name, password).
           if name = [] \<or> password = [] then Inl (InvalidParams MissingParams)
           else bindE (open_wallet W ks name password) (\<lambda>master.
                bindE (keys_step (GetExternalIndex ks name)) (\<lambda>extIdx.
                let nextIdx = (if extIdx = 0 then 1 else extIdx) in
                bindE (key_step (DeriveAddress (rc_bip W) 0 ChangeExternal nextIdx master)) (\<lambda>k.
                  Inr (ks, name, nextIdx, address_string (rc_hrp W) (HD_Address (rc_crypto W) (rc_bip W) k))))))) of
        Inl e \<Rightarrow> (S, Inl e)
      | Inr (ks, name, nextIdx, addr) \<Rightarrow>
          (case AddAccount name \<lparr>ac_index = nextIdx, ac_change = 0,
                  ac_name = ''Address '' @ decimal (unat nextIdx), ac_address = addr\<rparr> ks of
             (ks1, Some e) \<Rightarrow> (with_keys S ks1, Inl (InternalError (KeystoreFailure e)))
           | (ks1, None) \<Rightarrow> (with_keys S (fst (IncrementExternalIndex name ks1)), Inr (nextIdx, addr))))"

definition handleWalletListAddresses ::
  "'k rpc_config \<Rightarrow> (string \<times> string) option \<Rightarrow> 's rpc_state \<Rightarrow> rpc_error + account_entry list" where
  "handleWalletListAddresses W q S =
     bindE (requireWallet S) (\<lambda>ks. bindE (parseParams q) (\<lambda>(name, password).
       if name = [] \<or> password = [] then Inl (InvalidParams MissingParams)
       else bindE (load_wallet W ks name password) (\<lambda>seed. keys_step (ListAccounts ks name))))"

text \<open>The results are hex texts: private key, public key and address.\<close>

definition handleWalletExportKey ::
  "'k rpc_config \<Rightarrow> (string \<times> string \<times> u32 \<times> u32) option \<Rightarrow> 's rpc_state \<Rightarrow> rpc_error + string \<times> string \<times> string" where
  "handleWalletExportKey W q S =
     bindE (requireWallet S) (\<lambda>ks. bindE (parseParams q) (\<lambda>(name, password, account, index).
       if name = [] \<or> password = [] then Inl (InvalidParams MissingParams)
       else bindE (open_wallet W ks name password) (\<lambda>master.
            bindE (key_step (DeriveAddress (rc_bip W) account ChangeExternal index master)) (\<lambda>k.
            case PrivateKeyBytes (rc_bip W) k of
              None \<Rightarrow> Inl (InternalError NoPrivateKey)
            | Some priv \<Rightarrow> Inr (hex_encode priv, hex_encode (PublicKeyBytes (rc_bip W) k),
                               address_string (rc_hrp W) (HD_Address (rc_crypto W) (rc_bip W) k))))))"

definition handleWalletGetPubKey ::
  "'k rpc_config \<Rightarrow> (string \<times> string \<times> u32 \<times> u32) option \<Rightarrow> 's rpc_state \<Rightarrow> rpc_error + string \<times> string" where
  "handleWalletGetPubKey W q S =
     bindE (requireWallet S) (\<lambda>ks. bindE (parseParams q) (\<lambda>(name, password, account, index).
       if name = [] \<or> password = [] then Inl (InvalidParams MissingParams)
       else bindE (open_wallet W ks name password) (\<lambda>master.
            bindE (key_step (DeriveAddress (rc_bip W) account ChangeExternal index master)) (\<lambda>k.
              Inr (hex_encode (PublicKeyBytes (rc_bip W) k),
                   address_string (rc_hrp W) (HD_Address (rc_crypto W) (rc_bip W) k))))))"

section \<open>What a payment spends\<close>

lemma step_Inr [err_simps]:
  "select_step r = Inr x \<longleftrightarrow> r = Inr x" "keys_step k = Inr y \<longleftrightarrow> k = Inr y" "key_step d = Inr z \<longleftrightarrow> d = Inr z"
  "parseParams q = Inr p \<longleftrightarrow> q = Some p" "requireWallet S = Inr ks \<longleftrightarrow> rs_keys S = Some ks"
  by (auto simp: select_step_def keys_step_def key_step_def parseParams_def requireWallet_def split: sum.splits option.splits)

lemma accumulate_inputs: "accumulate target sel t us = Some s \<Longrightarrow> set (cs_inputs s) \<subseteq> set sel \<union> set us"
proof (induction us arbitrary: sel t)
  case (Cons u us)
  then show ?case using Cons.IH [of "sel @ [u]" "t + wu_value u"] by (auto simp: Let_def split: if_splits)
qed simp

lemma SelectCoins_inputs:
  assumes "permutes arrange" and "SelectCoins arrange us target = Inr s"
  shows "set (cs_inputs s) \<subseteq> set us"
proof -
  let ?c = "sort_key wu_value (arrange (filter (\<lambda>u. wu_value u > 0) us))"
  have "set (arrange xs) = set xs" for xs using assms(1) by (metis permutes_def mset_eq_setD)
  then have c: "set ?c \<subseteq> set us" by auto
  have "set (cs_inputs a) \<subseteq> set ?c" if "select_single target ?c = Some a" for a
    using that nth_mem [of _ ?c] by (auto simp: select_single_def find_Some_iff)
  moreover have "set (cs_inputs a) \<subseteq> set ?c" if "accumulate target [] 0 (rev ?c) = Some a" for a
    using accumulate_inputs [OF that] by simp
  moreover have "select_single target ?c = Some s \<or> accumulate target [] 0 (rev ?c) = Some s"
    using assms(2) by (auto simp: SelectCoins_def Let_def split: if_splits option.splits)
  ultimately show ?thesis using c by blast
qed

lemma select_with_fee_inputs:
  "permutes arrange \<Longrightarrow> select_with_fee arrange rate n amount us = Inr (s, fee) \<Longrightarrow> set (cs_inputs s) \<subseteq> set us"
  by (auto simp: select_with_fee_def Let_def bindE_Inr dest: SelectCoins_inputs split: if_splits)

text \<open>A coin that the accounts of a wallet own and that can be spent at the height of the chain.\<close>

definition wallet_owns :: "'s chain_context \<Rightarrow> account_entry list \<Rightarrow> utxo \<Rightarrow> bool" where
  "wallet_owns cc accounts u \<longleftrightarrow>
     (\<exists>a \<in> set accounts. \<exists>addr. ParseAddress (ac_address a) = Inr addr \<and> u \<in> set (coins_of cc addr)) \<and>
     \<not> immature (ch_height (cc_chain cc)) u \<and> \<not> locked (ch_height (cc_chain cc)) u"

lemma collect_coins:
  "wset_utxos (fold (collect_coin h addr) us w) =
     wset_utxos w @ map wallet_coin (filter (\<lambda>u. \<not> immature h u \<and> \<not> locked h u) us)"
  by (induction us arbitrary: w) (simp_all add: collect_coin_def)

lemma with_signer_utxos: "with_signer W master a addr w = Some w1 \<Longrightarrow> wset_utxos w1 = wset_utxos w"
  by (auto simp: with_signer_def split: if_splits sum.splits)

lemma collect_accounts:
  "set (wset_utxos (fold (collect_account W master (coins_of cc) (ch_height (cc_chain cc))) as w)) \<subseteq>
     set (wset_utxos w) \<union> wallet_coin ` Collect (wallet_owns cc as)"
proof (induction as arbitrary: w)
  case (Cons a as)
  let ?w = "collect_account W master (coins_of cc) (ch_height (cc_chain cc)) a w"
  have "set (wset_utxos ?w) \<subseteq> set (wset_utxos w) \<union> wallet_coin ` Collect (wallet_owns cc (a # as))"
    by (auto simp: collect_account_def wallet_owns_def with_signer_utxos collect_coins split: sum.splits option.splits
        intro!: imageI)
  moreover have "wallet_coin ` Collect (wallet_owns cc as) \<subseteq> wallet_coin ` Collect (wallet_owns cc (a # as))"
    by (auto simp: wallet_owns_def)
  ultimately have "set (wset_utxos (fold (collect_account W master (coins_of cc) (ch_height (cc_chain cc))) as ?w)) \<subseteq>
      set (wset_utxos w) \<union> wallet_coin ` Collect (wallet_owns cc (a # as))"
    using Cons.IH [of ?w] by blast
  then show ?case by simp
qed simp

lemma native_coins_owned:
  assumes "native_coins W ks master name cc = Inr (w, native)" and "ListAccounts ks name = Inr accounts"
  shows "set native \<subseteq> wallet_coin ` {u. wallet_owns cc (if accounts = [] then [default_account] else accounts) u \<and>
    u_token u = None \<and> sc_type (u_script u) = ScriptTypeP2PKH}"
proof -
  let ?as = "if accounts = [] then [default_account] else accounts"
  have "set (wset_utxos w) \<subseteq> wallet_coin ` Collect (wallet_owns cc ?as)" and "native = filterNativeUTXOs (wset_utxos w)"
    using assms collect_accounts [of W master cc ?as empty_wset]
    by (auto simp: native_coins_def collectWalletUTXOs_def err_simps Let_def empty_wset_def split: if_splits)
  then show ?thesis by (fastforce simp: filterNativeUTXOs_def wallet_coin_def)
qed

lemma default_account_owns: "\<not> wallet_owns cc [default_account] u"
  by (simp add: wallet_owns_def default_account_def ParseAddress_def)

lemma sign_inputs_prevouts:
  "map in_prevout (fst (sign_inputs C h signers owner cache is)) = map in_prevout is"
proof (induction "is" arbitrary: cache)
  case (Cons i "is")
  have "map in_prevout x = map in_prevout is" if "sign_inputs C h signers owner c is = (x, e)" for c x e
    using Cons.IH [of c] that by simp
  then show ?case by (auto simp: Let_def split: option.splits sum.splits prod.splits)
qed simp

lemma SignMulti_keeps:
  "SignMulti C signers owner b = (b', e) \<Longrightarrow> map in_prevout (tx_inputs b') = map in_prevout (tx_inputs b) \<and> tx_outputs b' = tx_outputs b"
  using sign_inputs_prevouts [of C "hash_bytes (TxHash C b)" signers owner "[]" "tx_inputs b"]
  by (auto simp: SignMulti_def split: prod.splits)

lemma add_inputs_tx:
  "map in_prevout (tx_inputs (add_inputs us b)) = map in_prevout (tx_inputs b) @ map wu_outpoint us \<and>
   tx_outputs (add_inputs us b) = tx_outputs b"
  by (induction us arbitrary: b) (simp_all add: add_inputs_def AddInput_def)

definition plain_out :: "u64 \<times> script \<Rightarrow> txout" where
  "plain_out p = \<lparr>out_value = fst p, out_script = snd p, out_token = None\<rparr>"

lemma add_outputs_tx:
  "tx_inputs (fold (\<lambda>(v, s). AddOutput v s) outs b) = tx_inputs b \<and>
   tx_outputs (fold (\<lambda>(v, s). AddOutput v s) outs b) = tx_outputs b @ map plain_out outs"
  by (induction outs arbitrary: b) (auto simp: AddOutput_def plain_out_def)

text \<open>A prepared payment: coins of the wallet in, the outputs asked for and perhaps change out.\<close>

definition change_out :: "u64 \<Rightarrow> (u32 \<times> address) option \<Rightarrow> txout list" where
  "change_out change ch = (case ch of None \<Rightarrow> [] | Some (idx, addr) \<Rightarrow> [plain_out (change, p2pkh addr)])"

lemma change_address_cases:
  "change_address W ks master name change = Inr ch \<Longrightarrow>
     (ch = None \<longleftrightarrow> change = 0) \<and>
     (\<forall>idx addr. ch = Some (idx, addr) \<longrightarrow> GetChangeIndex ks name = Inr idx \<and>
        (\<exists>k. DeriveAddress (rc_bip W) 0 ChangeInternal idx master = Inr k \<and> addr = HD_Address (rc_crypto W) (rc_bip W) k))"
  by (auto simp: change_address_def err_simps word_greater_zero_iff split: if_splits)

lemma prepare_payment_tx:
  assumes perm: "permutes (rc_arrange W)" and a: "ListAccounts ks name = Inr accounts"
    and p: "prepare_payment W cc ks master name outs amount = Inr (t, ch)"
  obtains change where "tx_outputs t = map plain_out outs @ change_out change ch"
    "\<And>i. i \<in> set (tx_inputs t) \<Longrightarrow> \<exists>u. wallet_owns cc accounts u \<and> u_token u = None \<and>
        sc_type (u_script u) = ScriptTypeP2PKH \<and> u_outpoint u = in_prevout i"
    "ch = None \<longleftrightarrow> change = 0" "change_address W ks master name change = Inr ch"
proof -
  obtain w native sel fee where n: "native_coins W ks master name cc = Inr (w, native)"
    and sel: "select_with_fee (rc_arrange W) (min_fee_rate cc) (length outs + 1) amount native = Inr (sel, fee)"
    and ch: "change_address W ks master name (cs_total sel - amount - fee) = Inr ch"
    and t: "sign_all W w (add_change (cs_total sel - amount - fee) ch
              (fold (\<lambda>(v, s). AddOutput v s) outs (add_inputs (cs_inputs sel) NewBuilder))) = Inr t"
    using p unfolding prepare_payment_def Let_def err_simps split_paired_Ex prod.case by auto
  let ?b = "fold (\<lambda>(v, s). AddOutput v s) outs (add_inputs (cs_inputs sel) NewBuilder)"
  have b: "map in_prevout (tx_inputs ?b) = map wu_outpoint (cs_inputs sel)" "tx_outputs ?b = map plain_out outs"
    using add_outputs_tx [of outs "add_inputs (cs_inputs sel) NewBuilder"] add_inputs_tx [of "cs_inputs sel" NewBuilder]
    by (simp_all add: NewBuilder_def)
  have ac: "tx_inputs (add_change c ch b0) = tx_inputs b0" "tx_outputs (add_change c ch b0) = tx_outputs b0 @ change_out c ch" for c b0
    by (simp_all add: add_change_def AddOutput_def change_out_def plain_out_def split: option.splits prod.splits)
  have k: "map in_prevout (tx_inputs t) = map wu_outpoint (cs_inputs sel)"
    "tx_outputs t = map plain_out outs @ change_out (cs_total sel - amount - fee) ch"
    using t b ac by (auto simp: sign_all_def split: prod.splits option.splits dest!: SignMulti_keeps)
  have own: "set native \<subseteq> wallet_coin ` {u. wallet_owns cc accounts u \<and> u_token u = None \<and> sc_type (u_script u) = ScriptTypeP2PKH}"
    using native_coins_owned [OF n a] default_account_owns [of cc] by (cases "accounts = []") simp_all
  have "\<exists>u. wallet_owns cc accounts u \<and> u_token u = None \<and> sc_type (u_script u) = ScriptTypeP2PKH \<and> u_outpoint u = in_prevout i"
    if "i \<in> set (tx_inputs t)" for i
  proof -
    have "in_prevout i \<in> wu_outpoint ` set (cs_inputs sel)" using that k(1) by (metis image_eqI list.set_map)
    then show ?thesis using select_with_fee_inputs [OF perm sel] own by (fastforce simp: wallet_coin_def)
  qed
  then show ?thesis using that k(2) change_address_cases [OF ch] ch by blast
qed

lemma Pool_Add_accepted: "Pool_Add C order V t p = (p', Inr fee) \<Longrightarrow> admit C V t p = Inr fee"
  by (auto simp: Pool_Add_def Let_def split: sum.splits if_splits prod.splits)

lemma set_context_same: "context_at c S = Some cc \<Longrightarrow> set_context c cc S = S"
  by (auto simp: context_at_def set_context_def map_option_case fun_upd_idem split: option.splits bind_splits)

lemma pay_cases:
  assumes "pay W c cc name t ch S = (S', r)" and "context_at c S = Some cc"
  obtains (refused) e where "r = Inl e" "S' = S"
  | (paid) p fee where "r = Inr (TxHash (rc_crypto W) t)"
      "Pool_Add (rc_crypto W) (rc_order W) (pool_view_of (cc_env cc) (cc_chain cc)) t (cc_pool cc) = (p, Inr fee)"
      "admit (rc_crypto W) (pool_view_of (cc_env cc) (cc_chain cc)) t (cc_pool cc) = Inr fee"
      "context_at c S' = Some (cc\<lparr>cc_pool := p\<rparr>)" "rs_keys S' = map_option (track_change W name ch) (rs_keys S)"
      "rs_sent S' = rs_sent S @ (if rc_p2p W then [(c, t)] else [])"
proof -
  obtain p pr where a: "Pool_Add (rc_crypto W) (rc_order W) (pool_view_of (cc_env cc) (cc_chain cc)) t (cc_pool cc) = (p, pr)"
    by fastforce
  show ?thesis
  proof (cases pr)
    case (Inl e)
    then have "p = cc_pool cc" using a Pool_Add_refused by auto
    then have "S' = S" "r = Inl (InvalidParams (Rejected e))"
      using assms a Inl set_context_same [OF assms(2)] by (simp_all add: pay_def submit_def)
    then show ?thesis using refused by blast
  next
    case (Inr fee)
    have "context_at c S' = Some (cc\<lparr>cc_pool := p\<rparr>)"
      using assms a Inr by (cases "rs_subs S") (auto simp: pay_def submit_def context_at_def set_context_def Let_def split: option.splits if_splits)
    moreover have "rs_keys S' = map_option (track_change W name ch) (rs_keys S)"
      "rs_sent S' = rs_sent S @ (if rc_p2p W then [(c, t)] else [])" "r = Inr (TxHash (rc_crypto W) t)"
      using assms a Inr by (auto simp: pay_def submit_def set_context_def Let_def split: option.splits if_splits)
    ultimately show ?thesis using paid a Inr Pool_Add_accepted by blast
  qed
qed

end
