(* ===== verification/PaymentProps.thy ===== *)
theory PaymentProps
  imports Payments
begin

text \<open>
  What the payment endpoints promise: what a transfer spends, creates and records on every branch,
  the coin selection that does not cover its own fee, the address that is handed out twice, and the
  discovery of used addresses.
\<close>

section \<open>A wallet for the examples\<close>

text \<open>Keys are paths; the key bytes hold the length of the path and its last index.\<close>

definition toy_bip :: "u32 list bip32" where
  "toy_bip = \<lparr>bip_NewMasterKey = (\<lambda>seed. Some []), bip_NewChildKey = (\<lambda>k i. Some (k @ [i])),
     bip_PublicKey = (\<lambda>k. k), bip_IsPrivate = (\<lambda>k. True),
     bip_Key = (\<lambda>k. replicate 31 0 @ [word_of_nat (length k), ucast (last (0 # k))]),
     bip_Depth = (\<lambda>k. word_of_nat (length k))\<rparr>"

definition toy_words :: bip39 where
  "toy_words = \<lparr>bm_valid = (\<lambda>s. s \<noteq> []), bm_seed = (\<lambda>s p. Some (replicate 64 7))\<rparr>"

definition size_crypto :: crypto where
  "size_crypto = toy_crypto\<lparr>blake3_sum256 := (\<lambda>bs. word_of_nat (length bs))\<rparr>"

definition demo_rpc :: "u32 list rpc_config" where
  "demo_rpc = \<lparr>rc_crypto = size_crypto, rc_bip = toy_bip, rc_cipher = toy_cipher, rc_words = toy_words,
     rc_hrp = ''kgx'', rc_order = (\<lambda>bs. bs), rc_arrange = (\<lambda>us. us), rc_p2p = True\<rparr>"

definition demo_wallet :: keystore where
  "demo_wallet = fst (AddAccount ''main'' \<lparr>ac_index = 0, ac_change = 0, ac_name = ''Default'',
     ac_address = ''0000000000000000000000000000000000000000''\<rparr> demo_keystore)"

definition demo_rpc_coin :: utxo where "demo_rpc_coin = demo_utxo\<lparr>u_value := 9000\<rparr>"

definition demo_context :: "dbval memory_db chain_context" where
  "demo_context = \<lparr>cc_env = env_on MemoryDB size_crypto None (\<lambda>_. None),
     cc_chain = 
       \<lparr>ch_db = Store_Put MemoryDB demo_rpc_coin DAList.empty, ch_height = 3, ch_tip = 4,
        ch_supply = 9000, ch_cumdiff = 4, ch_tip_time = 1770734110, ch_engine = demo_engine, ch_max_supply = 0,
        ch_block_reward = 20, ch_halving = 0, ch_validator_stake = 0, ch_allow_minting = True, ch_registered = 0,
        ch_genesis = 1, ch_log = []\<rparr>,
     cc_pool = Pool_New 10, cc_genesis = demo_genesis\<rparr>"

definition demo_server :: "dbval memory_db rpc_state" where
  "demo_server = \<lparr>rs_keys = Some demo_wallet, rs_root = demo_context, rs_subs = None, rs_sent = []\<rparr>"

definition demo_password :: string where "demo_password = map char_of [1 :: nat, 2, 3]"

definition demo_key :: bytes where "demo_key = replicate 30 0 @ [5, 0]"

definition demo_payment :: transaction where
  "demo_payment = \<lparr>tx_version = 1,
     tx_inputs = [\<lparr>in_prevout = Outpoint 7 0, in_sig = demo_key, in_pubkey = demo_key\<rparr>],
     tx_outputs = [\<lparr>out_value = 1000, out_script = p2pkh 170, out_token = None\<rparr>, 
       \<lparr>out_value = 6780, out_script = p2pkh 0, out_token = None\<rparr>], tx_locktime = 0\<rparr>"

definition demo_wset :: walletUTXOSet where
  "demo_wset = \<lparr>wset_utxos = [wallet_coin demo_rpc_coin], wset_signers = [0 \<mapsto> demo_key],
     wset_owner = [Outpoint 7 0 \<mapsto> 0], wset_spendable = 9000, wset_immature = 0, wset_locked = 0\<rparr>"

lemma demo_opened: "open_wallet demo_rpc demo_wallet ''main'' demo_password = Inr []"
  by code_simp

lemma demo_coins: "GetByAddress MemoryDB 0 (Store_Put MemoryDB demo_rpc_coin DAList.empty) = [demo_rpc_coin]" by code_simp

lemma demo_accounts: "ListAccounts demo_wallet ''main'' = Inr [\<lparr>ac_index = 0, ac_change = 0, ac_name = ''Default'',
     ac_address = ''0000000000000000000000000000000000000000''\<rparr>]" by code_simp

lemma demo_parsed: "ParseAddress ''0000000000000000000000000000000000000000'' = Inr 0"
    "ParseAddress ''00000000000000000000000000000000000000aa'' = Inr 170" by code_simp+

lemma demo_signer: "DeriveAddress toy_bip 0 0 0 [] = Inr [0x8000002C, 0x800022B8, 0x80000000, 0, 0]"
  "Signer toy_bip [0x8000002C, 0x800022B8, 0x80000000, 0, 0] = Some demo_key"
  by code_simp+

lemma demo_rpc_coin_simps:
  "\<not> immature 3 demo_rpc_coin" "\<not> locked 3 demo_rpc_coin" "native_value demo_rpc_coin = 9000"
  "u_outpoint demo_rpc_coin = Outpoint 7 0" "filterNativeUTXOs [wallet_coin demo_rpc_coin] = [wallet_coin demo_rpc_coin]"
  by (simp_all add: demo_rpc_coin_def immature_def locked_def native_value_def demo_utxo_def wallet_coin_def
      filterNativeUTXOs_def demo_script_def)

lemma demo_context_simps:
  "coins_of demo_context 0 = [demo_rpc_coin]" "ch_height (cc_chain demo_context) = 3" "cc_genesis demo_context = demo_genesis"
  "cc_pool demo_context = Pool_New 10"
  by (simp_all add: demo_context_def env_on_def demo_coins)

lemma demo_native:
  "native_coins demo_rpc demo_wallet [] ''main'' demo_context = Inr (demo_wset, [wallet_coin demo_rpc_coin])"
  by (simp add: native_coins_def collectWalletUTXOs_def demo_accounts keys_step_def bindE_def collect_account_def demo_parsed
      demo_context_simps demo_rpc_coin_simps with_signer_def empty_wset_def demo_rpc_def demo_signer collect_coin_def demo_wset_def Let_def)

lemma demo_selected: "select_with_fee (\<lambda>us. us) 10 2 1000 [wallet_coin demo_rpc_coin] = Inr (\<lparr>cs_inputs = [wallet_coin demo_rpc_coin], cs_total = 9000, cs_change = 6780\<rparr>, 1220)"
  by code_simp

lemma demo_change: "change_address demo_rpc demo_wallet [] ''main'' 6780 = Inr (Some (0, 0))" by code_simp

lemma demo_signed:
  "sign_all demo_rpc demo_wset (add_change 6780 (Some (0, 0)) (fold (\<lambda>(v, s). AddOutput v s) [(1000, p2pkh 170)]
     (add_inputs [wallet_coin demo_rpc_coin] NewBuilder))) = Inr demo_payment"
  by code_simp

lemma demo_prepared:
  "prepare_payment demo_rpc demo_context demo_wallet [] ''main'' [(1000, p2pkh 170)] 1000 = Inr (demo_payment, Some (0, 0))"
proof -
  have "rc_arrange demo_rpc = (\<lambda>us. us)" "min_fee_rate demo_context = 10"
    by (simp_all add: demo_rpc_def demo_context_simps demo_genesis_def demo_consensus_rules_def)
  then show ?thesis
    using demo_selected demo_change demo_signed
    by (simp add: prepare_payment_def demo_native bindE_def select_step_def Let_def numeral_2_eq_2)
qed

lemma demo_admitted:
  "admit size_crypto (pool_view_of (cc_env demo_context) (cc_chain demo_context)) demo_payment (Pool_New 10) = Inr 1220"
proof -
  have "Validate demo_payment = None"
    by (simp add: demo_payment_def demo_key_def Validate_None output_ok_def validateOutputScript_def MaxScriptData_def p2pkh_def zero_outpoint_def)
  moreover have "check_inputs size_crypto (UTXOAdapter (UtxoStore MemoryDB) (ch_db (cc_chain demo_context))) 0
      (tx_inputs demo_payment) = Inr 9000"
    by code_simp
  moreover have "sum_outputs 0 (tx_outputs demo_payment) = Inr 7780" by code_simp
  moreover have "VerifySignatures size_crypto demo_payment = None"
    by (simp add: VerifySignatures_def demo_payment_def VerifySignature_def size_crypto_def toy_crypto_def)
  ultimately have "ValidateWithUTXOs size_crypto (UTXOAdapter (UtxoStore MemoryDB) (ch_db (cc_chain demo_context))) demo_payment = Inr 1220"
    by (simp add: ValidateWithUTXOs_def TotalOutputValue_def bindE_def)
  moreover have "first_error (check_conflict (Pool_New 10)) (tx_inputs demo_payment) = None"
    by (simp add: demo_payment_def check_conflict_def)
  moreover have "\<not> HasMintOutput demo_payment" by code_simp
  moreover have "en_set (cc_env demo_context) = UtxoStore MemoryDB" by (simp add: demo_context_def env_on_def)
  ultimately show ?thesis
    by (simp add: admit_def pool_view_of_def) (simp add: Pool_New_def)
qed

section \<open>Transfers\<close>

lemma Pool_Add_holds:
  assumes "pool_ok C p" and "fair order" and "Pool_Add C order V t p = (p', Inr fee)"
  obtains e where "DAList.lookup (po_txs p') (TxHash C t) = Some e" "me_tx e = t" "me_fee e = fee"
  by (cases rule: Pool_Add_cases [OF assms]) (use that in \<open>auto simp: insert_entry_def\<close>)

lemma handleWalletSend_cases:
  assumes "handleWalletSend W (Some (name, password, to, amount)) S = (S', r)"
  obtains (refused) e where "r = Inl e" "S' = S"
  | (ready) ks recipient master t ch where "rs_keys S = Some ks" "ParseAddress to = Inr recipient"
      "prepare_payment W (rs_root S) ks master name [(amount, p2pkh recipient)] amount = Inr (t, ch)"
      "pay W None (rs_root S) name t ch S = (S', r)"
  using assms unfolding handleWalletSend_def
  by (auto simp: err_simps decodeAddress_def split: sum.splits prod.splits if_splits)

lemma change_out_value: "ch = None \<longleftrightarrow> change = 0 \<Longrightarrow> sum_u64 out_value (change_out change ch) = unat change"
  by (auto simp: change_out_def plain_out_def split: option.splits)

text \<open>
  C29: The outcome of a transfer. A refused transfer changes nothing, neither pool nor wallet file.
  Otherwise the pool of the chain holds a transaction that pays the recipient the amount and the
  rest, if any, to the change address that the wallet file records, from distinct coins that accounts
  of the wallet own, mature, unlocked, native and of plain scripts; and the values it spends are
  exactly amount, change and fee.
\<close>

theorem wallet_send_outcome:
  assumes perm: "permutes (rc_arrange W)" and fair: "fair (rc_order W)"
    and ok: "pool_ok (rc_crypto W) (cc_pool (rs_root S))"
    and send: "handleWalletSend W (Some (name, password, to, amount)) S = (S', r)"
  shows "case r of Inl e \<Rightarrow> S' = S
    | Inr h \<Rightarrow> \<exists>ks accounts recipient t change ch fee e.
        rs_keys S = Some ks \<and> ListAccounts ks name = Inr accounts \<and> ParseAddress to = Inr recipient \<and>
        h = TxHash (rc_crypto W) t \<and> DAList.lookup (po_txs (cc_pool (rs_root S'))) h = Some e \<and> me_tx e = t \<and> me_fee e = fee \<and>
        tx_outputs t = plain_out (amount, p2pkh recipient) # change_out change ch \<and> (ch = None \<longleftrightarrow> change = 0) \<and>
        distinct (map in_prevout (tx_inputs t)) \<and>
        (\<forall>i \<in> set (tx_inputs t). \<exists>u. wallet_owns (rs_root S) accounts u \<and> u_token u = None \<and>
            sc_type (u_script u) = ScriptTypeP2PKH \<and> u_outpoint u = in_prevout i) \<and>
        sum_u64 (input_value (UTXOAdapter (en_set (cc_env (rs_root S))) (ch_db (cc_chain (rs_root S))))) (tx_inputs t) =
          unat amount + unat change + unat fee \<and>
        rs_keys S' = Some (track_change W name ch ks) \<and>
        rs_sent S' = rs_sent S @ (if rc_p2p W then [(None, t)] else [])"
  using send
proof (cases rule: handleWalletSend_cases)
  case (ready ks recipient master t ch)
  obtain accounts where a: "ListAccounts ks name = Inr accounts"
    using ready(3) by (auto simp: prepare_payment_def native_coins_def collectWalletUTXOs_def err_simps)
  from prepare_payment_tx [OF perm a ready(3)] obtain change where
    t: "tx_outputs t = plain_out (amount, p2pkh recipient) # change_out change ch"
      "\<And>i. i \<in> set (tx_inputs t) \<Longrightarrow> \<exists>u. wallet_owns (rs_root S) accounts u \<and> u_token u = None \<and>
          sc_type (u_script u) = ScriptTypeP2PKH \<and> u_outpoint u = in_prevout i"
      "ch = None \<longleftrightarrow> change = 0"
    by auto
  have "context_at None S = Some (rs_root S)" by (simp add: context_at_def)
  from ready(4) this show ?thesis
  proof (cases rule: pay_cases)
    case (paid p fee)
    from Pool_Add_holds [OF ok fair paid(2)] obtain e where
      e: "DAList.lookup (po_txs p) (TxHash (rc_crypto W) t) = Some e" "me_tx e = t" "me_fee e = fee" .
    note v = admit_Inr(3) [OF paid(3)]
    have "sum_u64 out_value (tx_outputs t) = unat amount + unat change"
      using t(1) change_out_value [OF t(3)] by (simp add: plain_out_def)
    then have "sum_u64 (input_value (UTXOAdapter (en_set (cc_env (rs_root S))) (ch_db (cc_chain (rs_root S))))) (tx_inputs t) =
        unat amount + unat change + unat fee"
      using accepted_transaction(1) [OF v] by (simp add: pool_view_of_def)
    moreover have "distinct (map in_prevout (tx_inputs t))"
      using Validate_distinct [OF ValidateWithUTXOs_Validate [OF v]] .
    moreover have "rs_keys S' = Some (track_change W name ch ks)" using paid(5) ready(1) by simp
    moreover have "cc_pool (rs_root S') = p" using paid(4) by (auto simp: context_at_def)
    ultimately show ?thesis unfolding paid(1) sum.case
      using ready(1,2) paid(6) a t e by (intro exI [of _ ks] exI [of _ accounts] exI [of _ recipient] exI [of _ t]
          exI [of _ change] exI [of _ ch] exI [of _ fee] exI [of _ e]) simp
  qed simp
qed simp

theorem wallet_send_outcome_witness:
  "\<exists>S' h. handleWalletSend demo_rpc (Some (''main'', demo_password, ''00000000000000000000000000000000000000aa'', 1000))
       demo_server = (S', Inr h) \<and> DAList.lookup (po_txs (cc_pool (rs_root S'))) h \<noteq> None"
proof -
  have "\<exists>p. Pool_Add size_crypto (\<lambda>bs. bs) (pool_view_of (cc_env demo_context) (cc_chain demo_context)) demo_payment
      (Pool_New 10) = (p, Inr 1220)"
    by (simp add: Pool_Add_def demo_admitted) (simp add: Pool_Count_def Pool_New_def Let_def DAList.empty.rep_eq)
  then have "\<exists>S' h. pay demo_rpc None demo_context ''main'' demo_payment (Some (0, 0)) demo_server = (S', Inr h)"
    by (auto simp: pay_def submit_def demo_context_simps demo_rpc_def Let_def)
  moreover have "rs_keys demo_server = Some demo_wallet" "rs_root demo_server = demo_context" by (simp_all add: demo_server_def)
  ultimately have send: "\<exists>S' h. handleWalletSend demo_rpc (Some (''main'', demo_password, ''00000000000000000000000000000000000000aa'', 1000))
       demo_server = (S', Inr h)"
    by (simp add: handleWalletSend_def requireWallet_def parseParams_def bindE_def demo_password_def decodeAddress_def demo_parsed
        demo_opened [unfolded demo_password_def, simplified] demo_prepared)
  have "permutes (rc_arrange demo_rpc)" "fair (rc_order demo_rpc)" "pool_ok (rc_crypto demo_rpc) (cc_pool (rs_root demo_server))"
    using pool_run_ok [OF pool_run.new]
    by (simp_all add: demo_rpc_def permutes_def demo_server_def demo_context_simps)
  from wallet_send_outcome [OF this] send show ?thesis by fastforce
qed

section \<open>The second selection\<close>

definition native_coin :: "u64 \<Rightarrow> wallet_utxo" where
  "native_coin v = \<lparr>wu_outpoint = Outpoint 7 (ucast v), wu_value = v, wu_script = p2pkh 0, wu_token = None\<rparr>"

lemma wrapped_change:
  assumes "unat spent < unat amount + unat (fee :: u64)"
  shows "unat spent < unat amount + unat (spent - amount - fee)"
proof -
  let ?d = "uint spent - uint amount - uint fee"
  have d: "?d < 0" unfolding uint_nat using assms by linarith
  have "uint (spent - amount - fee) = ?d mod 2 ^ 64"
    by (simp add: uint_word_ariths mod_diff_left_eq)
  moreover have "?d mod 2 ^ 64 \<ge> ?d + 2 ^ 64"
  proof -
    have "?d mod 2 ^ 64 = ?d - 2 ^ 64 * (?d div 2 ^ 64)" by (simp add: minus_mult_div_eq_mod)
    moreover have "?d div 2 ^ 64 \<le> -1" using d by (simp add: div_neg_pos_less0)
    then have "2 ^ 64 * (?d div 2 ^ 64) \<le> 2 ^ 64 * (-1)" by (intro mult_left_mono) simp_all
    ultimately show ?thesis by linarith
  qed
  moreover have "uint fee < 2 ^ 64" using uint_lt2p [of fee] by simp
  ultimately have "uint spent < uint amount + uint (spent - amount - fee)" by linarith
  then show ?thesis unfolding uint_nat by linarith
qed

text \<open>
  The second selection can be too small for its own fee. The fee of the second selection is
  estimated again, and nothing compares it with the coins: the change \<open>Total - amount - fee\<close>
  then wraps around, and the pool refuses the transaction, even where a larger selection of the same
  coins covers amount and fee (the example).
\<close>

theorem short_selection_refused:
  assumes "select_with_fee arrange rate 2 amount coins = Inr (sel, fee)"
    and short: "unat (cs_total sel) < unat amount + unat fee"
    and outs: "map out_value (tx_outputs t) = [amount, cs_total sel - amount - fee]"
    and spent: "sum_u64 (input_value (pv_provider V)) (tx_inputs t) = unat (cs_total sel)"
  shows "\<exists>e. admit C V t p = Inl e"
proof (rule ccontr)
  assume "\<not> ?thesis"
  then obtain f where "admit C V t p = Inr f" by (cases "admit C V t p") auto
  note v = admit_Inr(3) [OF this]
  have "sum_u64 out_value (tx_outputs t) = sum_list (map unat (map out_value (tx_outputs t)))"
    by (simp add: comp_def sum_u64_def)
  then show False
    using accepted_transaction(1) [OF v] spent wrapped_change [OF short] unfolding outs by simp
qed

definition short_coins :: "wallet_utxo list" where
  "short_coins = map native_coin [600000, 530000, 60000, 50000]"

definition short_view :: pool_view where
  "short_view = demo_view\<lparr>pv_provider := \<lparr>GetUTXO = (\<lambda>x. Some (if x = Outpoint 7 600000 then 600000 else if x = Outpoint 7 530000 then 530000 else 60000, p2pkh 0)),
     HasUTXO = (\<lambda>x. True)\<rparr>\<rparr>"

definition short_tx :: transaction where
  "short_tx = AddOutput (1190000 - 1000000 - 194000) (p2pkh 0)
     (AddOutput 1000000 (p2pkh 170) (add_inputs (map native_coin [600000, 530000, 60000]) NewBuilder))"

theorem short_selection_refused_witness:
  "(\<exists>sel. select_with_fee (\<lambda>us. us) 1000 2 1000000 short_coins = Inr (sel, 194000) \<and> cs_total sel = 1190000 \<and> 
      cs_inputs sel = map native_coin [600000, 530000, 60000]) \<and>
   (\<exists>sel. SelectCoins (\<lambda>us. us) short_coins (1000000 + EstimateTxFee 4 2 1000 0) = Inr sel \<and> length (cs_inputs sel) = 4) \<and>
   (\<exists>e. admit toy_crypto short_view short_tx (Pool_New 10) = Inl e)"
proof -
  have "case select_with_fee (\<lambda>us. us) 1000 2 1000000 short_coins of Inl _ \<Rightarrow> False
    | Inr (sel, fee) \<Rightarrow> fee = 194000 \<and> cs_total sel = 1190000 \<and> cs_inputs sel = map native_coin [600000, 530000, 60000]"
    by code_simp
  then obtain sel where sel: "select_with_fee (\<lambda>us. us) 1000 2 1000000 short_coins = Inr (sel, 194000)"
    "cs_total sel = 1190000" "cs_inputs sel = map native_coin [600000, 530000, 60000]"
    by (auto split: sum.splits)
  have "case SelectCoins (\<lambda>us. us) short_coins (1000000 + EstimateTxFee 4 2 1000 0) of Inl _ \<Rightarrow> False
    | Inr sel \<Rightarrow> length (cs_inputs sel) = 4" by code_simp
  then have four: "\<exists>sel. SelectCoins (\<lambda>us. us) short_coins (1000000 + EstimateTxFee 4 2 1000 0) = Inr sel \<and> length (cs_inputs sel) = 4"
    by (auto split: sum.splits)
  have "\<exists>e. admit toy_crypto short_view short_tx (Pool_New 10) = Inl e"
  proof (rule short_selection_refused [OF sel(1)])
    show "map out_value (tx_outputs short_tx) = [1000000, cs_total sel - 1000000 - 194000]"
      by (simp add: short_tx_def AddOutput_def sel(2) add_inputs_def AddInput_def NewBuilder_def)
    show "sum_u64 (input_value (pv_provider short_view)) (tx_inputs short_tx) = unat (cs_total sel)"
      by (simp add: short_tx_def AddOutput_def sel(2) add_inputs_def AddInput_def NewBuilder_def native_coin_def short_view_def input_value_def zero_outpoint_def)
  qed (simp add: sel(2))
  then show ?thesis using sel four by blast
qed

section \<open>Addresses\<close>

lemma check_account_after: "check_account a es = AddNew \<Longrightarrow> check_account a (es @ [a]) = AlreadyThere"
  by (induction es) (auto split: if_splits)

lemma readFile_version: "readFile ks f = Inr kf \<Longrightarrow> kf_version kf = 1"
  unfolding readFile_def by (fastforce split: option.splits dir_entry.splits if_splits)

lemma read_wallet_path:
  assumes "read_wallet ks name = Inr kf"
  shows "\<exists>f. walletPath name = Inr f \<and> readFile ks f = Inr kf \<and> kf_version kf = 1"
  using assms readFile_version unfolding read_wallet_def bindE_Inr by blast

lemma AddAccount_recorded:
  assumes "AddAccount name a ks = (ks1, None)" and "read_wallet ks name = Inr kf"
  shows "\<exists>es. read_wallet ks1 name = Inr (kf\<lparr>kf_accounts := es\<rparr>) \<and> check_account a es = AlreadyThere"
proof -
  obtain f where f: "walletPath name = Inr f" "readFile ks f = Inr kf" "kf_version kf = 1"
    using read_wallet_path [OF assms(2)] by blast
  show ?thesis
  proof (cases "check_account a (kf_accounts kf)")
    case AddNew
    then show ?thesis using assms(1) f check_account_after [OF AddNew] by (auto simp: AddAccount_def read_wallet_write)
  next
    case AlreadyThere
    then show ?thesis using assms f by (intro exI [of _ "kf_accounts kf"]) (auto simp: AddAccount_def)
  qed (use assms f in \<open>simp add: AddAccount_def\<close>)
qed

lemma IncrementExternalIndex_read:
  "read_wallet ks name = Inr kf \<Longrightarrow>
     read_wallet (fst (IncrementExternalIndex name ks)) name = Inr (kf\<lparr>kf_next_external := kf_next_external kf + 1\<rparr>)"
  by (drule read_wallet_path) (auto simp: IncrementExternalIndex_def update_wallet_def read_wallet_write)

text \<open>
  The first two new addresses of a wallet are the same. On a fresh wallet the handler takes
  index 1 (index 0 is the default account) but the counter only advances from 0 to 1, so that the
  next request takes index 1 again and answers with the address that was handed out before.
\<close>

theorem new_address_repeats:
  assumes ks: "rs_keys S = Some ks" and idx: "GetExternalIndex ks name = Inr 0"
    and first: "handleWalletNewAddress W (Some (name, password)) S = (S1, Inr (i, addr))"
  shows "i = 1 \<and> snd (handleWalletNewAddress W (Some (name, password)) S1) = Inr (1, addr)"
proof -
  obtain kf where kf: "read_wallet ks name = Inr kf" "kf_next_external kf = 0"
    using idx by (auto simp: GetExternalIndex_def bindE_Inr)
  obtain seed master k ks1 where o: "\<not> (name = [] \<or> password = [])"
      "Decrypt (rc_cipher W) (kf_encrypted_seed kf) (ascii password) = Inr seed"
      "NewMasterKey (rc_bip W) seed = Inr master"
      "DeriveAddress (rc_bip W) 0 ChangeExternal 1 master = Inr k"
      "addr = address_string (rc_hrp W) (HD_Address (rc_crypto W) (rc_bip W) k)" "i = 1"
    and add: "AddAccount name \<lparr>ac_index = 1, ac_change = 0, ac_name = ''Address '' @ decimal (unat (1 :: u32)),
          ac_address = addr\<rparr> ks = (ks1, None)"
    and S1: "S1 = with_keys S (fst (IncrementExternalIndex name ks1))"
    using first ks kf unfolding handleWalletNewAddress_def open_wallet_def load_wallet_def Keystore_Load_def GetExternalIndex_def Let_def
    by (auto simp: err_simps split: sum.splits prod.splits if_splits option.splits)
  from AddAccount_recorded [OF add kf(1)] obtain es where
    es: "read_wallet ks1 name = Inr (kf\<lparr>kf_accounts := es\<rparr>)"
      "check_account \<lparr>ac_index = 1, ac_change = 0, ac_name = ''Address '' @ decimal (unat (1 :: u32)), ac_address = addr\<rparr> es = AlreadyThere"
    by blast
  let ?ks2 = "fst (IncrementExternalIndex name ks1)"
  have r: "read_wallet ?ks2 name = Inr (kf\<lparr>kf_accounts := es, kf_next_external := 1\<rparr>)"
    using IncrementExternalIndex_read [OF es(1)] kf(2) by simp
  have "AddAccount name \<lparr>ac_index = 1, ac_change = 0, ac_name = ''Address '' @ decimal (unat (1 :: u32)), ac_address = addr\<rparr> ?ks2 = (?ks2, None)"
    using read_wallet_path [OF r] es(2) by (auto simp: AddAccount_def)
  then show ?thesis
    using o r by (simp add: S1 with_keys_def handleWalletNewAddress_def open_wallet_def load_wallet_def Keystore_Load_def
        GetExternalIndex_def requireWallet_def parseParams_def bindE_def key_step_def keys_step_def Let_def)
qed

theorem new_address_repeats_witness:
  "\<exists>S1 addr. handleWalletNewAddress demo_rpc (Some (''main'', demo_password)) demo_server = (S1, Inr (1, addr)) \<and>
     snd (handleWalletNewAddress demo_rpc (Some (''main'', demo_password)) S1) = Inr (1, addr)"
proof -
  have k: "rs_keys demo_server = Some demo_wallet" by (simp add: demo_server_def)
  have idx: "GetExternalIndex demo_wallet ''main'' = Inr 0" by code_simp
  have "case DeriveAddress (rc_bip demo_rpc) 0 ChangeExternal 1 [] of Inl _ \<Rightarrow> False | Inr _ \<Rightarrow> True" by code_simp
  then obtain key where d: "DeriveAddress (rc_bip demo_rpc) 0 ChangeExternal 1 [] = Inr key" by (auto split: sum.splits)
  obtain kf where kf: "read_wallet demo_wallet ''main'' = Inr kf" "map Derivation (kf_accounts kf) = [(0, 0)]"
    using demo_accounts by (auto simp: ListAccounts_def bindE_Inr Derivation_def)
  have add: "\<exists>ks1. AddAccount ''main'' \<lparr>ac_index = 1, ac_change = 0, ac_name = s, ac_address = a\<rparr> demo_wallet = (ks1, None)" for s a
    using read_wallet_path [OF kf(1)] kf(2)
    by (cases "kf_accounts kf") (auto simp: AddAccount_def Derivation_def split: account_check.splits if_splits)
  obtain ks1 where "AddAccount ''main'' \<lparr>ac_index = 1, ac_change = 0, ac_name = ''Address '' @ decimal (unat (1 :: u32)),
      ac_address = address_string (rc_hrp demo_rpc) (HD_Address (rc_crypto demo_rpc) (rc_bip demo_rpc) key)\<rparr> demo_wallet = (ks1, None)"
    using add by blast
  moreover have "demo_password \<noteq> []" by (simp add: demo_password_def)
  ultimately have "\<exists>S1 i addr. handleWalletNewAddress demo_rpc (Some (''main'', demo_password)) demo_server = (S1, Inr (i, addr))"
    by (simp add: handleWalletNewAddress_def requireWallet_def parseParams_def bindE_def k idx d demo_opened keys_step_def key_step_def)
  then show ?thesis using new_address_repeats [OF k idx] by blast
qed

text \<open>What the scan does with the address at an index.\<close>

definition record_used ::
  "'k rpc_config \<Rightarrow> (address \<Rightarrow> bool) \<Rightarrow> (nat \<Rightarrow> address) \<Rightarrow> string \<Rightarrow> u32 \<Rightarrow> string \<Rightarrow> nat \<Rightarrow> keystore \<Rightarrow> keystore" where
  "record_used W used addr name change label i ks =
     (if used (addr i) then fst (AddAccount name (scan_entry W change label (word_of_nat i) (addr i)) ks) else ks)"

lemma scan_loop_correct:
  fixes k :: "nat \<Rightarrow> 'k"
  assumes derive: "\<And>j. j < n + gapLimit \<Longrightarrow> DeriveAddress (rc_bip W) 0 change (word_of_nat j) master = Inr (k j)"
    and dense: "\<And>m. m < n \<Longrightarrow> \<exists>j. m \<le> j \<and> j < m + gapLimit \<and> j < n \<and> used (addr j)"
    and gap: "\<And>j. n \<le> j \<Longrightarrow> j < n + gapLimit \<Longrightarrow> \<not> used (addr j)"
    and addr: "addr = (\<lambda>j. HD_Address (rc_crypto W) (rc_bip W) (k j))"
  shows "g \<le> i \<Longrightarrow> i - g \<le> n \<Longrightarrow> (\<And>j. i - g \<le> j \<Longrightarrow> j < i \<Longrightarrow> \<not> used (addr j)) \<Longrightarrow> i \<le> n + gapLimit \<Longrightarrow>
    scan_loop W used name master change label (word_of_nat i) g
      (if i - g = 0 then None else Some (word_of_nat (i - g - 1))) ks =
    Some (fold (record_used W used addr name change label) [i..<n] ks, if n = 0 then None else Some (word_of_nat (n - 1)))"
proof (induction "n + gapLimit - i" arbitrary: i g ks rule: less_induct)
  case less
  show ?case
  proof (cases "g \<ge> gapLimit")
    case True
    have "\<not> i - g < n" using dense [of "i - g"] less.prems True by (metis add.commute add_le_cancel_left le_add_diff_inverse less_le_trans)
    then have "i - g = n" "n \<le> i" using less.prems by linarith+
    then show ?thesis using True by (simp add: scan_loop.simps)
  next
    case False
    then have lt: "i < n + gapLimit" using less.prems by linarith
    have suc: "word_of_nat i + 1 = (word_of_nat (Suc i) :: u32)" by simp
    show ?thesis
    proof (cases "used (addr i)")
      case True
      then have "i < n" using gap lt by (meson not_less)
      moreover have "scan_loop W used name master change label (word_of_nat (Suc i)) 0 (Some (word_of_nat i)) ks' =
          Some (fold (record_used W used addr name change label) [Suc i..<n] ks', if n = 0 then None else Some (word_of_nat (n - 1)))" for ks'
        using less.hyps [of "Suc i" 0 ks'] lt \<open>i < n\<close> by simp
      ultimately show ?thesis using False True derive [OF lt] suc
        by (subst scan_loop.simps) (simp add: addr record_used_def upt_conv_Cons add.commute)
    next
      case unused: False
      have u: "\<not> used (addr j)" if "i - g \<le> j" "j < Suc i" for j
        using less.prems(3) that unused by (cases "j = i") auto
      have "fold (record_used W used addr name change label) [i..<n] ks = fold (record_used W used addr name change label) [Suc i..<n] ks"
        using unused by (cases "i < n") (simp_all add: upt_conv_Cons record_used_def)
      moreover have "scan_loop W used name master change label (word_of_nat (Suc i)) (Suc g)
          (if i - g = 0 then None else Some (word_of_nat (i - g - 1))) ks =
          Some (fold (record_used W used addr name change label) [Suc i..<n] ks, if n = 0 then None else Some (word_of_nat (n - 1)))"
        by (rule less.hyps [of "Suc i" "Suc g" ks, unfolded diff_Suc_Suc]) (use lt less.prems u in simp_all)
      ultimately show ?thesis using False unused derive [OF lt] suc
        by (subst scan_loop.simps) (simp add: addr add.commute)
    qed
  qed
qed

text \<open>
  C38: Discovery of addresses ends and finds the used ones. If the addresses in use lie below an
  index \<open>n\<close> without a gap of 20 between them, the twenty after them are unused, and keys derive, then
  the scan of a chain of addresses returns; it has recorded exactly the used addresses below \<open>n\<close>, in
  order, and the next index handed out is \<open>n\<close>.
\<close>

theorem discovery_finds_used:
  fixes k :: "nat \<Rightarrow> 'k"
  assumes derive: "\<And>j. j < n + gapLimit \<Longrightarrow> DeriveAddress (rc_bip W) 0 change (word_of_nat j) master = Inr (k j)"
    and dense: "\<And>m. m < n \<Longrightarrow> \<exists>j. m \<le> j \<and> j < m + gapLimit \<and> j < n \<and> used (HD_Address (rc_crypto W) (rc_bip W) (k j))"
    and gap: "\<And>j. n \<le> j \<Longrightarrow> j < n + gapLimit \<Longrightarrow> \<not> used (HD_Address (rc_crypto W) (rc_bip W) (k j))"
  shows "scan_chain W used name master change label ks =
    (let ks' = fold (record_used W used (\<lambda>j. HD_Address (rc_crypto W) (rc_bip W) (k j)) name change label) [0..<n] ks
     in Some (if n = 0 then ks'
              else if change = ChangeExternal then fst (SetExternalIndex name (word_of_nat n) ks')
              else fst (SetChangeIndex name (word_of_nat n) ks')))"
proof -
  have "word_of_nat (n - Suc 0) + 1 = (word_of_nat n :: u32)" if "0 < n" using that by (cases n) simp_all
  then show ?thesis
    using scan_loop_correct [OF derive dense gap refl, where g = 0 and i = 0 and ks = ks and name = name and label = label]
    by (simp add: scan_chain_def Let_def)
qed

text \<open>The example: only the address at index 1 is in use.\<close>

definition last_crypto :: crypto where
  "last_crypto = toy_crypto\<lparr>blake3_sum256 := (\<lambda>bs. if last bs = 1 then -1 else 0)\<rparr>"

definition demo_path :: "nat \<Rightarrow> u32 list" where
  "demo_path j = [PurposeBIP44, CoinTypeKlingnet, FirstHardenedChild, 0, word_of_nat j]"

definition demo_used :: "address \<Rightarrow> bool" where
  "demo_used a \<longleftrightarrow> a \<noteq> 0"

theorem discovery_finds_used_witness:
  "\<exists>ks'. scan_chain (demo_rpc\<lparr>rc_crypto := last_crypto\<rparr>) demo_used ''main'' [] 0 ''Address'' demo_wallet =
     Some (fst (SetExternalIndex ''main'' 2 ks'))"
proof -
  have t: "take_address (hash_bytes 0) = 0" "take_address (hash_bytes (- 1)) \<noteq> 0" by code_simp+
  have "list_all (\<lambda>j. (ucast (word_of_nat j :: u32) = (1 :: u8)) = (j = 1)) [0..<22]" by code_simp
  then have "j < 22 \<Longrightarrow> (ucast (word_of_nat j :: u32) = (1 :: u8)) = (j = 1)" for j
    by (simp only: list_all_iff set_upt atLeastLessThan_iff) simp
  then have u: "j < 22 \<Longrightarrow> demo_used (HD_Address last_crypto toy_bip (demo_path j)) \<longleftrightarrow> j = 1" for j
    using t by (simp add: demo_used_def HD_Address_def AddressFromPubKey_def Hash_def last_crypto_def PublicKeyBytes_def toy_bip_def
        demo_path_def)
  have d: "DeriveAddress toy_bip 0 0 (word_of_nat j) [] = Inr (demo_path j)" for j
    by (simp add: DeriveAddress_def DeriveChild_def toy_bip_def bindE_def demo_path_def)
  let ?W = "demo_rpc\<lparr>rc_crypto := last_crypto\<rparr>"
  have W: "rc_bip ?W = toy_bip" "rc_crypto ?W = last_crypto" by (simp_all add: demo_rpc_def)
  have dense: "\<exists>j. m \<le> j \<and> j < m + gapLimit \<and> j < 2 \<and> demo_used (HD_Address last_crypto toy_bip (demo_path j))" if "m < 2" for m :: nat
    using u [of 1] that by (intro exI [of _ 1]) (auto simp: gapLimit_def)
  have gap: "\<not> demo_used (HD_Address last_crypto toy_bip (demo_path j))" if "2 \<le> j" "j < 2 + gapLimit" for j
    using u [of j] that by (simp add: gapLimit_def)
  show ?thesis
    using discovery_finds_used [where W = ?W, unfolded W, of 2 0 "[]" demo_path demo_used "''main''" "''Address''" demo_wallet,
        OF d dense gap]
    by (auto simp: Let_def)
qed

end
