(* ===== verification/Stakes.thy ===== *)
theory Stakes
  imports PaymentProps Registration
begin

text \<open>
  The other wallet endpoints of the RPC server (\<open>internal/rpc\<close>) that build transactions: staking and
  unstaking on the root chain and on sub-chains, minting and sending tokens, and the registration of
  a sub-chain; with what they promise.
\<close>

section \<open>Transactions with an exact fee\<close>

text \<open>The index for the change output is read only when there is change, and is 0 otherwise.\<close>

definition change_index :: "keystore \<Rightarrow> string \<Rightarrow> u64 \<Rightarrow> rpc_error + u32" where
  "change_index ks name change = (if change > 0 then keys_step (GetChangeIndex ks name) else Inr 0)"

text \<open>
  One run of the build closure: inputs, the outputs \<open>payload\<close> adds, and change. Errors of signing are
  ignored; a key that does not derive is a nil pointer, whose use panics.
\<close>

definition build_exact ::
  "'k rpc_config \<Rightarrow> walletUTXOSet \<Rightarrow> 'k \<Rightarrow> u32 \<Rightarrow> (transaction \<Rightarrow> transaction) \<Rightarrow> wallet_utxo list \<Rightarrow> u64 \<Rightarrow>
   rpc_error + transaction \<times> (u32 \<times> address) option" where
  "build_exact W w master idx payload ins change =
     (let b = payload (add_inputs ins NewBuilder);
          sign = (\<lambda>b. fst (SignMulti (rc_crypto W) (wset_signers w) (wset_owner w) b))
      in if change > 0 then
           (case DeriveAddress (rc_bip W) 0 ChangeInternal idx master of
              Inl e \<Rightarrow> Inl RequestPanic
            | Inr k \<Rightarrow>
                (let addr = HD_Address (rc_crypto W) (rc_bip W) k
                 in Inr (sign (AddOutput change (p2pkh addr) b), Some (idx, addr))))
         else Inr (sign b, None))"

text \<open>
  The transaction is built with the estimated fee; if its size asks for more, the difference comes
  from the change, or coins are selected once more for the amount and the fee of the first size.
  \<open>fixed\<close> are inputs that stay (token coins).
\<close>

definition exact_payment ::
  "'k rpc_config \<Rightarrow> walletUTXOSet \<Rightarrow> 'k \<Rightarrow> u32 \<Rightarrow> (transaction \<Rightarrow> transaction) \<Rightarrow> u64 \<Rightarrow> u64 \<Rightarrow> wallet_utxo list \<Rightarrow>
   wallet_utxo list \<Rightarrow> wallet_utxo list \<Rightarrow> u64 \<Rightarrow> u64 \<Rightarrow> rpc_error + transaction \<times> (u32 \<times> address) option" where
  "exact_payment W w master idx payload feeRate amount coins fixed ins fee change =
     bindE (build_exact W w master idx payload (fixed @ ins) change) (\<lambda>(t, ch).
     let exact = RequiredFee t feeRate in
     if fee < exact then
       (if change \<ge> exact - fee then build_exact W w master idx payload (fixed @ ins) (change - (exact - fee))
        else bindE (select_step (SelectCoins (rc_arrange W) coins (amount + exact))) (\<lambda>sel.
             build_exact W w master idx payload (fixed @ cs_inputs sel) (cs_total sel - amount - exact)))
     else Inr (t, ch))"

section \<open>Staking\<close>

definition stake_script :: "bytes \<Rightarrow> script" where
  "stake_script pub = \<lparr>sc_type = ScriptTypeStake, sc_data = pub\<rparr>"

definition hasPendingStakeForPubKey :: "transaction list \<Rightarrow> bytes \<Rightarrow> bool" where
  "hasPendingStakeForPubKey ts pub \<longleftrightarrow>
     list_ex (\<lambda>t. list_ex (\<lambda>out. sc_type (out_script out) = ScriptTypeStake \<and> sc_data (out_script out) = pub)
                (tx_outputs t)) ts"

text \<open>The stake of a key on a chain: the coins that stake it; \<open>None\<close> is a key of the wrong length.\<close>

definition stakes_of :: "'s chain_context \<Rightarrow> bytes \<Rightarrow> rpc_error + utxo list" where
  "stakes_of cc pub =
     (case GetStakes (en_db (cc_env cc)) pub (ch_db (cc_chain cc)) of
        None \<Rightarrow> Inl (InternalError BadStakeKey)
      | Some us \<Rightarrow> Inr us)"

definition wrong_stake :: "'s chain_context \<Rightarrow> u64 \<Rightarrow> rpc_error option" where
  "wrong_stake cc amount =
     (let required = cr_validator_stake (pc_consensus (gen_protocol (cc_genesis cc)))
      in if required > 0 \<and> amount \<noteq> required then Some (InvalidParams (StakeMismatch required amount)) else None)"

text \<open>Coins for an amount and its estimated fee, and the payment they are spent in.\<close>

definition prepare_exact ::
  "'k rpc_config \<Rightarrow> 's chain_context \<Rightarrow> keystore \<Rightarrow> 'k \<Rightarrow> string \<Rightarrow> u64 \<Rightarrow> (transaction \<Rightarrow> transaction) \<Rightarrow>
   rpc_error + transaction \<times> (u32 \<times> address) option" where
  "prepare_exact W cc ks master name amount payload =
     bindE (native_coins W ks master name cc) (\<lambda>(w, native).
     bindE (select_step (select_with_fee (rc_arrange W) (min_fee_rate cc) 2 amount native)) (\<lambda>(sel, fee).
     let change = cs_total sel - amount - fee in
     bindE (change_index ks name change) (\<lambda>idx.
       exact_payment W w master idx payload (min_fee_rate cc) amount native [] (cs_inputs sel) fee change)))"

definition prepare_stake ::
  "'k rpc_config \<Rightarrow> 's chain_context \<Rightarrow> keystore \<Rightarrow> 'k \<Rightarrow> string \<Rightarrow> u64 \<Rightarrow>
   rpc_error + bytes \<times> transaction \<times> (u32 \<times> address) option" where
  "prepare_stake W cc ks master name amount =
     bindE (key_step (DeriveAddress (rc_bip W) 0 ChangeExternal 0 master)) (\<lambda>k.
     let pub = PublicKeyBytes (rc_bip W) k in
     bindE (stakes_of cc pub) (\<lambda>stakes.
     if stakes \<noteq> [] \<or>
        hasPendingStakeForPubKey (SelectForBlock (rc_order W) (Pool_Count (cc_pool cc)) (cc_pool cc)) pub
     then Inl (InvalidParams AlreadyStaked)
     else bindE (prepare_exact W cc ks master name amount (AddOutput amount (stake_script pub))) (\<lambda>(t, ch).
       Inr (pub, t, ch))))"

text \<open>The results are the id of the transaction and the public key in hex.\<close>

definition handleWalletStake ::
  "'k rpc_config \<Rightarrow> (string \<times> string \<times> u64) option \<Rightarrow> 's rpc_state \<Rightarrow> 's rpc_state \<times> (rpc_error + hash \<times> string)" where
  "handleWalletStake W q S =
     (case bindE (requireWallet S) (\<lambda>ks.
           bindE (parseParams q) (\<lambda>(name, password, amount).
           if name = [] \<or> password = [] \<or> amount = 0 then Inl (InvalidParams MissingParams)
           else check (wrong_stake (rs_root S) amount) (
                bindE (open_wallet W ks name password) (\<lambda>master.
                bindE (prepare_stake W (rs_root S) ks master name amount) (\<lambda>(pub, t, ch).
                  Inr (name, pub, t, ch)))))) of
        Inl e \<Rightarrow> (S, Inl e)
      | Inr (name, pub, t, ch) \<Rightarrow>
          (case pay W None (rs_root S) name t ch S of
             (S1, Inl e) \<Rightarrow> (S1, Inl e) | (S1, Inr h) \<Rightarrow> (S1, Inr (h, hex_encode pub))))"

definition handleSubChainStake ::
  "'k rpc_config \<Rightarrow> (string \<times> string \<times> string \<times> u64) option \<Rightarrow> 's rpc_state \<Rightarrow>
   's rpc_state \<times> (rpc_error + hash \<times> string)" where
  "handleSubChainStake W q S =
     (case bindE (requireWallet S) (\<lambda>ks.
           check (requireSubChainManager S) (
           bindE (parseParams q) (\<lambda>(chain, name, password, amount).
           if chain = [] \<or> name = [] \<or> password = [] \<or> amount = 0 then Inl (InvalidParams MissingParams)
           else bindE (sub_context chain S) (\<lambda>(i, cc).
                check (wrong_stake cc amount) (
                bindE (open_wallet W ks name password) (\<lambda>master.
                bindE (prepare_stake W cc ks master name amount) (\<lambda>(pub, t, ch).
                  Inr (i, cc, name, pub, t, ch)))))))) of
        Inl e \<Rightarrow> (S, Inl e)
      | Inr (i, cc, name, pub, t, ch) \<Rightarrow>
          (case pay W (Some i) cc name t ch S of
             (S1, Inl e) \<Rightarrow> (S1, Inl e) | (S1, Inr h) \<Rightarrow> (S1, Inr (h, hex_encode pub))))"

section \<open>Unstaking\<close>

text \<open>All stakes of the key of account 0, into its address. The sum wraps around.\<close>

definition prepare_unstake ::
  "'k rpc_config \<Rightarrow> 's chain_context \<Rightarrow> 'k \<Rightarrow> rpc_error + bytes \<times> u64 \<times> transaction" where
  "prepare_unstake W cc master =
     bindE (key_step (DeriveAddress (rc_bip W) 0 ChangeExternal 0 master)) (\<lambda>k.
     case Signer (rc_bip W) k of
       None \<Rightarrow> Inl (InternalError NoPrivateKey)
     | Some key \<Rightarrow>
         (let addr = HD_Address (rc_crypto W) (rc_bip W) k; pub = PublicKeyBytes (rc_bip W) k in
          bindE (stakes_of cc pub) (\<lambda>stakes.
          if stakes = [] then Inl (InvalidParams NoStakes)
          else let staked = foldl (+) 0 (map u_value stakes);
                   fee = EstimateTxFee (length stakes) 1 (min_fee_rate cc) 0 in
          if staked \<le> fee then Inl (InvalidParams (StakeTooSmall staked fee))
          else case SignMulti (rc_crypto W) [addr \<mapsto> key] (map_of (map (\<lambda>u. (u_outpoint u, addr)) stakes))
                 (AddOutput (staked - fee) (p2pkh addr) (fold (\<lambda>u. AddInput (u_outpoint u)) stakes NewBuilder)) of
              (b, Some e) \<Rightarrow> Inl (InternalError (SignFailure e))
            | (b, None) \<Rightarrow> Inr (pub, staked, b))))"

definition handleWalletUnstake ::
  "'k rpc_config \<Rightarrow> (string \<times> string) option \<Rightarrow> 's rpc_state \<Rightarrow> 's rpc_state \<times> (rpc_error + hash \<times> u64 \<times> string)" where
  "handleWalletUnstake W q S =
     (case bindE (requireWallet S) (\<lambda>ks.
           bindE (parseParams q) (\<lambda>(name, password).
           if name = [] \<or> password = [] then Inl (InvalidParams MissingParams)
           else bindE (open_wallet W ks name password) (prepare_unstake W (rs_root S)))) of
        Inl e \<Rightarrow> (S, Inl e)
      | Inr (pub, staked, t) \<Rightarrow>
          (case submit W None (rs_root S) t S of
             (S1, Some e) \<Rightarrow> (S1, Inl e)
           | (S1, None) \<Rightarrow> (S1, Inr (TxHash (rc_crypto W) t, staked, hex_encode pub))))"

definition handleSubChainUnstake ::
  "'k rpc_config \<Rightarrow> (string \<times> string \<times> string) option \<Rightarrow> 's rpc_state \<Rightarrow>
   's rpc_state \<times> (rpc_error + hash \<times> u64 \<times> string)" where
  "handleSubChainUnstake W q S =
     (case bindE (requireWallet S) (\<lambda>ks.
           check (requireSubChainManager S) (
           bindE (parseParams q) (\<lambda>(chain, name, password).
           if chain = [] \<or> name = [] \<or> password = [] then Inl (InvalidParams MissingParams)
           else bindE (sub_context chain S) (\<lambda>(i, cc).
                bindE (open_wallet W ks name password) (\<lambda>master.
                bindE (prepare_unstake W cc master) (\<lambda>(pub, staked, t). Inr (i, cc, pub, staked, t))))))) of
        Inl e \<Rightarrow> (S, Inl e)
      | Inr (i, cc, pub, staked, t) \<Rightarrow>
          (case submit W (Some i) cc t S of
             (S1, Some e) \<Rightarrow> (S1, Inl e)
           | (S1, None) \<Rightarrow> (S1, Inr (TxHash (rc_crypto W) t, staked, hex_encode pub))))"

section \<open>Tokens\<close>

text \<open>The fee of a mint: the creation fee, or that of the size where it is higher.\<close>

definition mint_fee :: "u64 \<Rightarrow> nat \<Rightarrow> u64" where
  "mint_fee feeRate inputs =
     (let rateFee = EstimateTxFee inputs 2 feeRate 0 in if rateFee > TokenCreationFee then rateFee else TokenCreationFee)"

definition select_mint :: "arrangement \<Rightarrow> u64 \<Rightarrow> wallet_utxo list \<Rightarrow> coin_error + coin_selection \<times> u64" where
  "select_mint arrange feeRate coins =
     bindE (SelectCoins arrange coins (mint_fee feeRate 1)) (\<lambda>sel.
       let target = mint_fee feeRate (length (cs_inputs sel)) in
       if cs_total sel < target
       then bindE (SelectCoins arrange coins target) (\<lambda>sel'. Inr (sel', mint_fee feeRate (length (cs_inputs sel'))))
       else Inr (sel, target))"

record mint_request =
  mr_wallet :: string
  mr_password :: string
  mr_name :: string
  mr_symbol :: string
  mr_decimals :: u8
  mr_amount :: u64
  mr_recipient :: string

definition bad_mint :: "'s chain_context \<Rightarrow> mint_request \<Rightarrow> rpc_error option" where
  "bad_mint cc m =
     (if mr_wallet m = [] \<or> mr_password m = [] \<or> mr_name m = [] \<or> mr_symbol m = [] \<or> mr_amount m = 0
      then Some (InvalidParams MissingParams)
      else if mr_amount m > MaxTokenAmount then Some (InvalidParams AmountTooLarge)
      else if \<not> tr_allow_minting (pc_token (gen_protocol (cc_genesis cc))) then Some (InvalidParams MintingDisabled)
      else if \<not> namePattern (mr_name m) then Some (InvalidParams BadTokenName)
      else if \<not> symbolPattern (mr_symbol m) then Some (InvalidParams BadTokenSymbol)
      else if mr_decimals m > 18 then Some (InvalidParams BadDecimals) else None)"

definition mint_script :: "address \<Rightarrow> mint_request \<Rightarrow> script" where
  "mint_script recipient m =
     \<lparr>sc_type = ScriptTypeMint, sc_data = EncodeMintData recipient (ascii (mr_name m)) (ascii (mr_symbol m)) (mr_decimals m)\<rparr>"

text \<open>
  The result: the sender (account 0), the token id (of the first input), transaction and change.
  A selection without inputs, which does not occur, would be an index panic.
\<close>

definition prepare_mint ::
  "'k rpc_config \<Rightarrow> 's chain_context \<Rightarrow> keystore \<Rightarrow> 'k \<Rightarrow> mint_request \<Rightarrow>
   rpc_error + address \<times> hash \<times> transaction \<times> (u32 \<times> address) option" where
  "prepare_mint W cc ks master m =
     bindE (key_step (DeriveAddress (rc_bip W) 0 ChangeExternal 0 master)) (\<lambda>k.
     let sender = HD_Address (rc_crypto W) (rc_bip W) k in
     bindE (if mr_recipient m = [] then Inr sender else decodeAddress (mr_recipient m)) (\<lambda>recipient.
     bindE (native_coins W ks master (mr_wallet m) cc) (\<lambda>(w, native).
     bindE (select_step (select_mint (rc_arrange W) (min_fee_rate cc) native)) (\<lambda>(sel, target).
     let change = cs_total sel - target in
     case cs_inputs sel of
       [] \<Rightarrow> Inl RequestPanic
     | u # us \<Rightarrow>
        (let i = DeriveTokenID (rc_crypto W) (wu_outpoint u);
             b = AddTokenOutput 0 (mint_script recipient m) \<lparr>td_id = i, td_amount = mr_amount m\<rparr>
                   (add_inputs (cs_inputs sel) NewBuilder) in
         bindE (change_address W ks master (mr_wallet m) change) (\<lambda>ch.
         bindE (sign_all W w (add_change change ch b)) (\<lambda>t. Inr (sender, i, t, ch))))))))"

text \<open>The metadata goes to the token store, if there is one, when the pool has taken the transaction.\<close>

definition put_metadata :: "bool \<Rightarrow> hash \<Rightarrow> metadata \<Rightarrow> 's rpc_state \<Rightarrow> 's rpc_state" where
  "put_metadata tokens i md S =
     (if tokens then
        (let cc = rs_root S; ch = cc_chain cc in
         S\<lparr>rs_root := cc\<lparr>cc_chain := ch\<lparr>ch_db := TokenStore_Put (en_db (cc_env cc)) i md (ch_db ch)\<rparr>\<rparr>\<rparr>)
      else S)"

definition handleWalletMintToken ::
  "'k rpc_config \<Rightarrow> bool \<Rightarrow> mint_request option \<Rightarrow> 's rpc_state \<Rightarrow> 's rpc_state \<times> (rpc_error + hash \<times> hash)" where
  "handleWalletMintToken W tokens q S =
     (case bindE (requireWallet S) (\<lambda>ks.
           bindE (parseParams q) (\<lambda>m.
           check (bad_mint (rs_root S) m) (
           bindE (open_wallet W ks (mr_wallet m) (mr_password m)) (\<lambda>master.
           bindE (prepare_mint W (rs_root S) ks master m) (\<lambda>(sender, i, t, ch). Inr (m, sender, i, t, ch)))))) of
        Inl e \<Rightarrow> (S, Inl e)
      | Inr (m, sender, i, t, ch) \<Rightarrow>
          (case pay W None (rs_root S) (mr_wallet m) t ch S of
             (S1, Inl e) \<Rightarrow> (S1, Inl e)
           | (S1, Inr h) \<Rightarrow>
               (put_metadata tokens i
                  \<lparr>md_name = ascii (mr_name m), md_symbol = ascii (mr_symbol m), md_decimals = mr_decimals m,
                   md_creator = sender\<rparr> S1, Inr (h, i))))"

text \<open>Coins of the token, in their order, until the amount is reached: the coins and their (wrapping) sum.\<close>

fun take_tokens :: "u64 \<Rightarrow> wallet_utxo list \<Rightarrow> u64 \<Rightarrow> wallet_utxo list \<Rightarrow> wallet_utxo list \<times> u64" where
  "take_tokens amount sel t [] = (sel, t)"
| "take_tokens amount sel t (u # us) =
     (let t' = t + (case wu_token u of None \<Rightarrow> 0 | Some td \<Rightarrow> td_amount td)
      in if t' \<ge> amount then (sel @ [u], t') else take_tokens amount (sel @ [u]) t' us)"

definition is_token_coin :: "hash \<Rightarrow> wallet_utxo \<Rightarrow> bool" where
  "is_token_coin i u \<longleftrightarrow> (case wu_token u of None \<Rightarrow> False | Some td \<Rightarrow> td_id td = i)"

definition select_fee_coins ::
  "arrangement \<Rightarrow> u64 \<Rightarrow> nat \<Rightarrow> nat \<Rightarrow> wallet_utxo list \<Rightarrow> coin_error + coin_selection \<times> u64" where
  "select_fee_coins arrange feeRate tokenInputs outputs coins =
     bindE (SelectCoins arrange coins (EstimateTxFee (tokenInputs + 1) outputs feeRate 0)) (\<lambda>sel.
       let fee = EstimateTxFee (tokenInputs + length (cs_inputs sel)) outputs feeRate 0 in
       if cs_total sel < fee
       then bindE (SelectCoins arrange coins fee) (\<lambda>sel'.
              Inr (sel', EstimateTxFee (tokenInputs + length (cs_inputs sel')) outputs feeRate 0))
       else Inr (sel, fee))"

definition token_outputs :: "hash \<Rightarrow> address \<Rightarrow> u64 \<Rightarrow> address \<Rightarrow> u64 \<Rightarrow> transaction \<Rightarrow> transaction" where
  "token_outputs i recipient amount sender rest b =
     (let b1 = AddTokenOutput 0 (p2pkh recipient) \<lparr>td_id = i, td_amount = amount\<rparr> b
      in if rest > 0 then AddTokenOutput 0 (p2pkh sender) \<lparr>td_id = i, td_amount = rest\<rparr> b1 else b1)"

definition prepare_token ::
  "'k rpc_config \<Rightarrow> 's chain_context \<Rightarrow> keystore \<Rightarrow> 'k \<Rightarrow> string \<Rightarrow> hash \<Rightarrow> address \<Rightarrow> u64 \<Rightarrow>
   rpc_error + transaction \<times> (u32 \<times> address) option" where
  "prepare_token W cc ks master name i recipient amount =
     bindE (key_step (DeriveAddress (rc_bip W) 0 ChangeExternal 0 master)) (\<lambda>k.
     let sender = HD_Address (rc_crypto W) (rc_bip W) k in
     bindE (collectWalletUTXOs W ks master name cc) (\<lambda>w.
     let tokens = filter (is_token_coin i) (wset_utxos w);
         coins = filterNativeUTXOs (wset_utxos w);
         (selected, tokenSum) = take_tokens amount [] 0 tokens in
     if tokens = [] then Inl (InvalidParams NoTokenCoins)
     else if tokenSum < amount then Inl (InvalidParams (TokenBalance tokenSum amount))
     else let outputs = (if tokenSum > amount then 3 else 2) in
     bindE (select_step (select_fee_coins (rc_arrange W) (min_fee_rate cc) (length selected) outputs coins)) (\<lambda>(sel, fee).
     let change = cs_total sel - fee in
     bindE (change_index ks name change) (\<lambda>idx.
       exact_payment W w master idx (token_outputs i recipient amount sender (tokenSum - amount)) (min_fee_rate cc) 0
         coins selected (cs_inputs sel) fee change))))"

definition handleWalletSendToken ::
  "'k rpc_config \<Rightarrow> (string \<times> string \<times> string \<times> string \<times> u64) option \<Rightarrow> 's rpc_state \<Rightarrow>
   's rpc_state \<times> (rpc_error + hash)" where
  "handleWalletSendToken W q S =
     (case bindE (requireWallet S) (\<lambda>ks.
           bindE (parseParams q) (\<lambda>(name, password, token, to, amount).
           if name = [] \<or> password = [] \<or> token = [] \<or> to = [] \<or> amount = 0 then Inl (InvalidParams MissingParams)
           else case hex_decode token of
             None \<Rightarrow> Inl (InvalidParams BadTokenID)
           | Some bs \<Rightarrow>
               if length bs \<noteq> 32 then Inl (InvalidParams BadTokenID)
               else bindE (decodeAddress to) (\<lambda>recipient.
                    bindE (open_wallet W ks name password) (\<lambda>master.
                    bindE (prepare_token W (rs_root S) ks master name (be_word bs) recipient amount) (\<lambda>(t, ch).
                      Inr (name, t, ch)))))) of
        Inl e \<Rightarrow> (S, Inl e)
      | Inr (name, t, ch) \<Rightarrow> pay W None (rs_root S) name t ch S)"

section \<open>Registering a sub-chain\<close>

text \<open>\<open>marshal\<close> is \<open>json.Marshal\<close> of the registration data. The result has the id of the new chain.\<close>

definition handleWalletCreateSubChain ::
  "'k rpc_config \<Rightarrow> (registration_data \<Rightarrow> bytes) \<Rightarrow> (string \<times> string \<times> registration_data) option \<Rightarrow> 's rpc_state \<Rightarrow>
   's rpc_state \<times> (rpc_error + hash \<times> hash)" where
  "handleWalletCreateSubChain W marshal q S =
     (case bindE (requireWallet S) (\<lambda>ks.
           check (requireSubChainManager S) (
           bindE (parseParams q) (\<lambda>(name, password, rd).
           if name = [] \<or> password = [] \<or> rd_name rd = [] \<or> rd_symbol rd = [] \<or> rd_consensus rd = UnknownConsensus []
           then Inl (InvalidParams MissingParams)
           else let rules = pc_subchain (gen_protocol (cc_genesis (rs_root S)));
                    burn = sr_min_deposit rules in
           case ValidateRegistrationData rd rules of
             Some e \<Rightarrow> Inl (InvalidParams (BadRegistration e))
           | None \<Rightarrow>
               bindE (open_wallet W ks name password) (\<lambda>master.
               bindE (prepare_exact W (rs_root S) ks master name burn
                        (AddOutput burn \<lparr>sc_type = ScriptTypeRegister, sc_data = marshal rd\<rparr>)) (\<lambda>(t, ch).
                 Inr (name, t, ch)))))) of
        Inl e \<Rightarrow> (S, Inl e)
      | Inr (name, t, ch) \<Rightarrow>
          (case pay W None (rs_root S) name t ch S of
             (S1, Inl e) \<Rightarrow> (S1, Inl e) | (S1, Inr h) \<Rightarrow> (S1, Inr (h, DeriveChainID (rc_crypto W) h 0))))"

section \<open>What exact payments spend\<close>

text \<open>An operation of the builder that adds outputs.\<close>

definition adds_outputs :: "txout list \<Rightarrow> (transaction \<Rightarrow> transaction) \<Rightarrow> bool" where
  "adds_outputs outs payload \<longleftrightarrow>
     (\<forall>b. tx_inputs (payload b) = tx_inputs b \<and> tx_outputs (payload b) = tx_outputs b @ outs)"

lemma AddOutput_adds: "adds_outputs [plain_out (v, scr)] (AddOutput v scr)"
  by (simp add: adds_outputs_def AddOutput_def plain_out_def)

lemma build_exact_tx:
  assumes b: "build_exact W w master idx payload ins change = Inr (t, ch)" and p: "adds_outputs outs payload"
  shows "tx_outputs t = outs @ change_out change ch" and "ch = None \<longleftrightarrow> change = 0"
    and "map in_prevout (tx_inputs t) = map wu_outpoint ins"
proof -
  have k: "map in_prevout (tx_inputs (fst (SignMulti C sg ow b))) = map in_prevout (tx_inputs b) \<and>
      tx_outputs (fst (SignMulti C sg ow b)) = tx_outputs b" for C sg ow b
    using SignMulti_keeps [of C sg ow b] by (cases "SignMulti C sg ow b") simp
  have i: "map in_prevout (tx_inputs (payload (add_inputs ins NewBuilder))) = map wu_outpoint ins"
    "tx_outputs (payload (add_inputs ins NewBuilder)) = outs"
    using p add_inputs_tx [of ins NewBuilder] by (simp_all add: adds_outputs_def NewBuilder_def)
  show "tx_outputs t = outs @ change_out change ch"
    using b k i(2) by (auto simp: build_exact_def Let_def AddOutput_def change_out_def plain_out_def split: if_splits sum.splits)
  show "ch = None \<longleftrightarrow> change = 0"
    using b by (auto simp: build_exact_def Let_def word_greater_zero_iff split: if_splits sum.splits)
  show "map in_prevout (tx_inputs t) = map wu_outpoint ins"
    using b k i(1) by (auto simp: build_exact_def Let_def AddOutput_def split: if_splits sum.splits)
qed

lemma exact_payment_tx:
  assumes perm: "permutes (rc_arrange W)" and p: "adds_outputs outs payload" and ins: "set ins \<subseteq> set coins"
    and e: "exact_payment W w master idx payload feeRate amount coins fixed ins fee change = Inr (t, ch)"
  obtains c ins' where "tx_outputs t = outs @ change_out c ch" "ch = None \<longleftrightarrow> c = 0"
    "map in_prevout (tx_inputs t) = map wu_outpoint (fixed @ ins')" "set ins' \<subseteq> set coins"
proof -
  have "\<exists>c ins'. build_exact W w master idx payload (fixed @ ins') c = Inr (t, ch) \<and> set ins' \<subseteq> set coins"
    using e ins unfolding exact_payment_def Let_def
    by (auto simp: err_simps split: if_splits) (metis SelectCoins_inputs [OF perm])
  then show ?thesis using that build_exact_tx [OF _ p] by metis
qed

lemma prepare_exact_tx:
  assumes perm: "permutes (rc_arrange W)" and p: "adds_outputs outs payload" and a: "ListAccounts ks name = Inr accounts"
    and e: "prepare_exact W cc ks master name amount payload = Inr (t, ch)"
  obtains change where "tx_outputs t = outs @ change_out change ch" "ch = None \<longleftrightarrow> change = 0"
    "\<And>i. i \<in> set (tx_inputs t) \<Longrightarrow> \<exists>u. wallet_owns cc accounts u \<and> u_token u = None \<and>
        sc_type (u_script u) = ScriptTypeP2PKH \<and> u_outpoint u = in_prevout i"
proof -
  obtain w native sel fee idx where n: "native_coins W ks master name cc = Inr (w, native)"
    and sel: "select_with_fee (rc_arrange W) (min_fee_rate cc) 2 amount native = Inr (sel, fee)"
    and x: "exact_payment W w master idx payload (min_fee_rate cc) amount native [] (cs_inputs sel) fee
        (cs_total sel - amount - fee) = Inr (t, ch)"
    using e unfolding prepare_exact_def Let_def err_simps split_paired_Ex prod.case by auto
  obtain c ins where c: "tx_outputs t = outs @ change_out c ch" "ch = None \<longleftrightarrow> c = 0"
    "map in_prevout (tx_inputs t) = map wu_outpoint ins" "set ins \<subseteq> set native"
    using exact_payment_tx [OF perm p select_with_fee_inputs [OF perm sel] x] by auto
  have own: "set native \<subseteq> wallet_coin ` {u. wallet_owns cc accounts u \<and> u_token u = None \<and> sc_type (u_script u) = ScriptTypeP2PKH}"
    using native_coins_owned [OF n a] default_account_owns [of cc] by (cases "accounts = []") simp_all
  have "\<exists>u. wallet_owns cc accounts u \<and> u_token u = None \<and> sc_type (u_script u) = ScriptTypeP2PKH \<and> u_outpoint u = in_prevout i"
    if "i \<in> set (tx_inputs t)" for i
  proof -
    have "in_prevout i \<in> wu_outpoint ` set ins" using that c(3) by (metis image_eqI list.set_map)
    then show ?thesis using c(4) own by (fastforce simp: wallet_coin_def)
  qed
  then show ?thesis using that c(1,2) by blast
qed

section \<open>No double stake\<close>

text \<open>Recording accounts and indexes does not change what a wallet opens to.\<close>

definition sealed_seed :: "keystore \<Rightarrow> string \<Rightarrow> keystore_error + bytes" where
  "sealed_seed ks name = bindE (read_wallet ks name) (\<lambda>kf. Inr (kf_encrypted_seed kf))"

lemma Keystore_Load_sealed:
  "Keystore_Load K ks name pw =
     bindE (sealed_seed ks name) (\<lambda>b. case Decrypt K b pw of Inl e \<Rightarrow> Inl (DecryptFailed e) | Inr seed \<Rightarrow> Inr seed)"
  by (simp add: Keystore_Load_def sealed_seed_def bindE_def split: sum.splits)

lemma sealed_seed_write:
  assumes "walletPath n = Inr f" and "readFile ks f = Inr kf"
    and "kf_version kf' = kf_version kf" and "kf_encrypted_seed kf' = kf_encrypted_seed kf"
  shows "sealed_seed (writeFile f kf' ks) m = sealed_seed ks m"
proof -
  have v: "kf_version kf' = 1" using readFile_version [OF assms(2)] assms(3) by simp
  have "read_wallet ks n = Inr kf" using assms(1,2) by (simp add: read_wallet_def bindE_def)
  then show ?thesis using assms(4) by (auto simp: sealed_seed_def read_wallet_write [OF assms(1) v] bindE_def)
qed

lemma sealed_seed_AddAccount: "sealed_seed (fst (AddAccount name a ks)) m = sealed_seed ks m"
  by (auto simp: AddAccount_def split: sum.splits account_check.splits intro: sealed_seed_write)

lemma sealed_seed_IncrementChangeIndex: "sealed_seed (fst (IncrementChangeIndex name ks)) m = sealed_seed ks m"
  by (auto simp: IncrementChangeIndex_def update_wallet_def split: sum.splits intro: sealed_seed_write)

lemma open_wallet_track: "open_wallet W (track_change W' name ch ks) n pw = open_wallet W ks n pw"
  by (auto simp: open_wallet_def load_wallet_def Keystore_Load_sealed track_change_def sealed_seed_AddAccount
      sealed_seed_IncrementChangeIndex split: option.splits prod.splits)

text \<open>What the pool holds is among what it would put into a block.\<close>

lemma SelectForBlock_all:
  assumes "pool_ok C p" and "fair order" and "DAList.lookup (po_txs p) h = Some e"
  shows "me_tx e \<in> set (SelectForBlock order (Pool_Count p) p)"
proof -
  have "length (bindings order p) = Pool_Count p"
    by (rule fair_bindings(3) [OF assms(2)])
  moreover have "(h, e) \<in> set (bindings order p)"
    using fair_bindings(1) [OF assms(2), of p] assms(3) by auto
  ultimately show ?thesis by (force simp: SelectForBlock_def)
qed

lemma handleWalletStake_cases:
  assumes "handleWalletStake W (Some (name, password, amount)) S = (S', r)"
  obtains (refused) e where "r = Inl e" "S' = S"
  | (ready) ks master pub t ch r' where "rs_keys S = Some ks" "name \<noteq> []" "password \<noteq> []" "amount \<noteq> 0"
      "wrong_stake (rs_root S) amount = None" "open_wallet W ks name password = Inr master"
      "prepare_stake W (rs_root S) ks master name amount = Inr (pub, t, ch)"
      "pay W None (rs_root S) name t ch S = (S', r')"
      "r = (case r' of Inl e \<Rightarrow> Inl e | Inr h \<Rightarrow> Inr (h, hex_encode pub))"
  using assms unfolding handleWalletStake_def
  by (auto simp: err_simps split: sum.splits prod.splits if_splits)

text \<open>
  C30: No double stake. After a stake was accepted, the same request is refused and changes nothing:
  the pool holds a transaction that stakes exactly the required amount with the key of the wallet,
  and the check sees it before any block does.
\<close>

theorem no_double_stake:
  assumes perm: "permutes (rc_arrange W)" and fair: "fair (rc_order W)"
    and ok: "pool_ok (rc_crypto W) (cc_pool (rs_root S))"
    and stake: "handleWalletStake W (Some (name, password, amount)) S = (S1, Inr (h, key))"
  shows "handleWalletStake W (Some (name, password, amount)) S1 = (S1, Inl (InvalidParams AlreadyStaked)) \<and>
    (\<exists>e pub change ch. DAList.lookup (po_txs (cc_pool (rs_root S1))) h = Some e \<and> key = hex_encode pub \<and>
       tx_outputs (me_tx e) = plain_out (amount, stake_script pub) # change_out change ch \<and>
       wrong_stake (rs_root S) amount = None)"
  using stake
proof (cases rule: handleWalletStake_cases)
  case (ready ks master pub t ch r')
  obtain k where k: "DeriveAddress (rc_bip W) 0 ChangeExternal 0 master = Inr k" "pub = PublicKeyBytes (rc_bip W) k"
    "stakes_of (rs_root S) pub = Inr []"
    and x: "prepare_exact W (rs_root S) ks master name amount (AddOutput amount (stake_script pub)) = Inr (t, ch)"
    using ready(7) by (auto simp: prepare_stake_def err_simps Let_def split: if_splits)
  obtain accounts where a: "ListAccounts ks name = Inr accounts"
    using x by (auto simp: prepare_exact_def native_coins_def collectWalletUTXOs_def err_simps)
  obtain change where t: "tx_outputs t = plain_out (amount, stake_script pub) # change_out change ch"
    using prepare_exact_tx [OF perm AddOutput_adds a x] by auto
  have r': "r' = Inr h" "key = hex_encode pub" using ready(9) by (simp_all split: sum.splits)
  have "context_at None S = Some (rs_root S)" by (simp add: context_at_def)
  from ready(8) this show ?thesis
  proof (cases rule: pay_cases)
    case (paid p fee)
    from Pool_Add_holds [OF ok fair paid(2)] obtain e where
      e: "DAList.lookup (po_txs p) (TxHash (rc_crypto W) t) = Some e" "me_tx e = t" .
    have ok': "pool_ok (rc_crypto W) p" using pool_ok_Add [OF ok fair paid(2)] .
    have root: "rs_root S1 = (rs_root S)\<lparr>cc_pool := p\<rparr>" using paid(4) by (simp add: context_at_def)
    have "plain_out (amount, stake_script pub) \<in> set (tx_outputs t)" using t by simp
    then have pending: "hasPendingStakeForPubKey (SelectForBlock (rc_order W) (Pool_Count p) p) pub"
      using SelectForBlock_all [OF ok' fair e(1)] e(2)
      by (force simp: hasPendingStakeForPubKey_def list_ex_iff plain_out_def stake_script_def)
    have "prepare_stake W (rs_root S1) ks' master name amount = Inl (InvalidParams AlreadyStaked)" for ks'
      using k pending by (simp add: prepare_stake_def key_step_def bindE_def root stakes_of_def Let_def)
    moreover have "rs_keys S1 = Some (track_change W name ch ks)" using paid(5) ready(1) by simp
    moreover have "wrong_stake (rs_root S1) amount = None" using ready(5) by (simp add: wrong_stake_def root)
    ultimately have "handleWalletStake W (Some (name, password, amount)) S1 = (S1, Inl (InvalidParams AlreadyStaked))"
      using ready(2-4,6) by (simp add: handleWalletStake_def requireWallet_def parseParams_def bindE_def check_def open_wallet_track)
    moreover have "h = TxHash (rc_crypto W) t" using paid(1) r' by simp
    ultimately show ?thesis using e t r'(2) ready(5) root by auto
  qed (use r' in simp)
qed simp

text \<open>The example: the wallet stakes 5 units; the fee of the larger stake output comes out of the change.\<close>

definition demo_pub :: bytes where "demo_pub = replicate 31 0 @ [5, 0]"

definition demo_stake :: transaction where
  "demo_stake = \<lparr>tx_version = 1,
     tx_inputs = [\<lparr>in_prevout = Outpoint 7 0, in_sig = demo_key, in_pubkey = demo_key\<rparr>],
     tx_outputs = [plain_out (5, stake_script demo_pub), plain_out (7645, p2pkh 0)], tx_locktime = 0\<rparr>"

lemma demo_admits:
  assumes "Validate t = None" and "check_inputs size_crypto (UTXOAdapter (en_set (cc_env cc)) (ch_db (cc_chain cc))) 0
      (tx_inputs t) = Inr tin" and "sum_outputs 0 (tx_outputs t) = Inr out" and "out \<le> tin"
    and "VerifySignatures size_crypto t = None" and "first_error (check_conflict (Pool_New 10)) (tx_inputs t) = None"
  shows "\<exists>p. Pool_Add size_crypto (\<lambda>bs. bs) (pool_view_of (cc_env cc) (cc_chain cc)) t (Pool_New 10) =
    (p, Inr (tin - out))"
proof -
  have "ValidateWithUTXOs size_crypto (UTXOAdapter (en_set (cc_env cc)) (ch_db (cc_chain cc))) t = Inr (tin - out)"
    using assms by (simp add: ValidateWithUTXOs_def TotalOutputValue_def bindE_def)
  then have "admit size_crypto (pool_view_of (cc_env cc) (cc_chain cc)) t (Pool_New 10) = Inr (tin - out)"
    using assms(6) by (simp add: admit_def pool_view_of_def) (simp add: Pool_New_def)
  then show ?thesis by (simp add: Pool_Add_def) (simp add: Pool_Count_def Pool_New_def Let_def DAList.empty.rep_eq)
qed

lemma demo_stake_added:
  "\<exists>p. Pool_Add size_crypto (\<lambda>bs. bs) (pool_view_of (cc_env demo_context) (cc_chain demo_context)) demo_stake (Pool_New 10) =
    (p, Inr 1350)"
proof -
  have "Validate demo_stake = None"
    by (simp add: demo_stake_def demo_key_def demo_pub_def plain_out_def stake_script_def Validate_None output_ok_def
        validateOutputScript_def MaxScriptData_def p2pkh_def zero_outpoint_def)
  moreover have "check_inputs size_crypto (UTXOAdapter (en_set (cc_env demo_context)) (ch_db (cc_chain demo_context))) 0
      (tx_inputs demo_stake) = Inr 9000" by code_simp
  moreover have "sum_outputs 0 (tx_outputs demo_stake) = Inr 7650" by code_simp
  moreover have "VerifySignatures size_crypto demo_stake = None"
    by (simp add: VerifySignatures_def demo_stake_def VerifySignature_def size_crypto_def toy_crypto_def)
  moreover have "first_error (check_conflict (Pool_New 10)) (tx_inputs demo_stake) = None"
    by (simp add: demo_stake_def check_conflict_def)
  ultimately show ?thesis using demo_admits [of demo_stake demo_context 9000 7650] by simp
qed

lemma demo_stake_built:
  "build_exact demo_rpc demo_wset [] 0 (AddOutput 5 (stake_script demo_pub)) [wallet_coin demo_rpc_coin] 7645 =
     Inr (demo_stake, Some (0, 0))"
  by code_simp

lemma demo_stake_first:
  obtains t ch where "build_exact demo_rpc demo_wset [] 0 (AddOutput 5 (stake_script demo_pub)) [wallet_coin demo_rpc_coin] 7775 =
     Inr (t, ch)" "RequiredFee t 10 = 1350"
proof -
  have "case build_exact demo_rpc demo_wset [] 0 (AddOutput 5 (stake_script demo_pub)) [wallet_coin demo_rpc_coin] 7775 of
     Inr (t, ch) \<Rightarrow> RequiredFee t 10 = 1350 | _ \<Rightarrow> False"
    by code_simp
  then show ?thesis using that by (auto split: sum.splits)
qed

lemma demo_stake_prepared:
  "prepare_stake demo_rpc demo_context demo_wallet [] ''main'' 5 = Inr (demo_pub, demo_stake, Some (0, 0))"
proof -
  have W: "rc_bip demo_rpc = toy_bip" "rc_arrange demo_rpc = (\<lambda>us. us)" "min_fee_rate demo_context = 10"
    by (simp_all add: demo_rpc_def demo_context_simps demo_genesis_def demo_consensus_rules_def)
  have "change_index demo_wallet ''main'' 7775 = Inr 0" by code_simp
  moreover have "select_with_fee (\<lambda>us. us) 10 2 5 [wallet_coin demo_rpc_coin] =
      Inr (\<lparr>cs_inputs = [wallet_coin demo_rpc_coin], cs_total = 9000, cs_change = 7775\<rparr>, 1220)"
    by code_simp
  moreover obtain t ch where "build_exact demo_rpc demo_wset [] 0 (AddOutput 5 (stake_script demo_pub))
      [wallet_coin demo_rpc_coin] 7775 = Inr (t, ch)" "RequiredFee t 10 = 1350" by (rule demo_stake_first)
  ultimately have e: "prepare_exact demo_rpc demo_context demo_wallet [] ''main'' 5 (AddOutput 5 (stake_script demo_pub)) =
      Inr (demo_stake, Some (0, 0))"
    by (simp add: prepare_exact_def demo_native bindE_def W select_step_def Let_def exact_payment_def demo_stake_built)
  have k: "PublicKeyBytes toy_bip [0x8000002C, 0x800022B8, 0x80000000, 0, 0] = demo_pub" "stakes_of demo_context demo_pub = Inr []"
    by code_simp+
  have "SelectForBlock (\<lambda>bs. bs) n (Pool_New 10) = []" for n
    using SelectForBlock_sound(3) [OF pool_ok_New fair_id, of n 10] by simp
  then have "\<not> hasPendingStakeForPubKey (SelectForBlock (\<lambda>bs. bs) n (Pool_New 10)) demo_pub" for n
    by (simp add: hasPendingStakeForPubKey_def)
  then show ?thesis
    using e by (simp add: prepare_stake_def key_step_def W demo_signer bindE_def k Let_def demo_context_simps demo_rpc_def)
qed

theorem no_double_stake_witness:
  "\<exists>S1 h key. handleWalletStake demo_rpc (Some (''main'', demo_password, 5)) demo_server = (S1, Inr (h, key)) \<and>
     handleWalletStake demo_rpc (Some (''main'', demo_password, 5)) S1 = (S1, Inl (InvalidParams AlreadyStaked))"
proof -
  have "\<exists>S' h. pay demo_rpc None demo_context ''main'' demo_stake (Some (0, 0)) demo_server = (S', Inr h)"
    using demo_stake_added by (auto simp: pay_def submit_def demo_context_simps demo_rpc_def Let_def)
  moreover have "rs_keys demo_server = Some demo_wallet" "rs_root demo_server = demo_context" by (simp_all add: demo_server_def)
  moreover have "wrong_stake demo_context 5 = None" by code_simp
  moreover have "demo_password \<noteq> []" by (simp add: demo_password_def)
  ultimately have "\<exists>S1 h key. handleWalletStake demo_rpc (Some (''main'', demo_password, 5)) demo_server = (S1, Inr (h, key))"
    by (auto simp: handleWalletStake_def requireWallet_def parseParams_def bindE_def demo_opened demo_stake_prepared)
  moreover have "permutes (rc_arrange demo_rpc)" "fair (rc_order demo_rpc)" "pool_ok (rc_crypto demo_rpc) (cc_pool (rs_root demo_server))"
    by (simp_all add: demo_rpc_def permutes_def demo_server_def demo_context_simps pool_ok_New)
  ultimately show ?thesis using no_double_stake by blast
qed

section \<open>Minting\<close>

lemma handleWalletMintToken_cases:
  assumes "handleWalletMintToken W tokens (Some m) S = (S', Inr (h, i))"
  obtains ks master sender t ch S1 where "rs_keys S = Some ks" "bad_mint (rs_root S) m = None"
      "open_wallet W ks (mr_wallet m) (mr_password m) = Inr master"
      "prepare_mint W (rs_root S) ks master m = Inr (sender, i, t, ch)"
      "pay W None (rs_root S) (mr_wallet m) t ch S = (S1, Inr h)"
      "S' = put_metadata tokens i \<lparr>md_name = ascii (mr_name m), md_symbol = ascii (mr_symbol m), md_decimals = mr_decimals m,
              md_creator = sender\<rparr> S1"
  using assms unfolding handleWalletMintToken_def
  by (auto simp: err_simps split: sum.splits prod.splits if_splits)

definition mint_out :: "address \<Rightarrow> mint_request \<Rightarrow> hash \<Rightarrow> txout" where
  "mint_out recipient m i =
     \<lparr>out_value = 0, out_script = mint_script recipient m, out_token = Some \<lparr>td_id = i, td_amount = mr_amount m\<rparr>\<rparr>"

lemma prepare_mint_cases:
  assumes "prepare_mint W cc ks master m = Inr (sender, i, t, ch)"
  obtains k recipient w change and sel :: coin_selection where "DeriveAddress (rc_bip W) 0 ChangeExternal 0 master = Inr k"
    "sender = HD_Address (rc_crypto W) (rc_bip W) k"
    "(if mr_recipient m = [] then Inr sender else decodeAddress (mr_recipient m)) = Inr recipient"
    "cs_inputs sel \<noteq> []" "i = DeriveTokenID (rc_crypto W) (wu_outpoint (hd (cs_inputs sel)))"
    "sign_all W w (add_change change ch (AddTokenOutput 0 (mint_script recipient m) \<lparr>td_id = i, td_amount = mr_amount m\<rparr>
        (add_inputs (cs_inputs sel) NewBuilder))) = Inr t"
proof -
  obtain k recipient w native target and sel :: coin_selection where d: "DeriveAddress (rc_bip W) 0 ChangeExternal 0 master = Inr k"
    "(if mr_recipient m = [] then Inr (HD_Address (rc_crypto W) (rc_bip W) k) else decodeAddress (mr_recipient m)) = Inr recipient"
    and x: "(case cs_inputs sel of [] \<Rightarrow> Inl RequestPanic
     | u # us \<Rightarrow>
         bindE (change_address W ks master (mr_wallet m) (cs_total sel - target)) (\<lambda>ch.
         bindE (sign_all W w (add_change (cs_total sel - target) ch
           (AddTokenOutput 0 (mint_script recipient m)
              \<lparr>td_id = DeriveTokenID (rc_crypto W) (wu_outpoint u), td_amount = mr_amount m\<rparr>
              (add_inputs (cs_inputs sel) NewBuilder)))) (\<lambda>t.
           Inr (HD_Address (rc_crypto W) (rc_bip W) k, DeriveTokenID (rc_crypto W) (wu_outpoint u), t, ch)))) =
        Inr (sender, i, t, ch)"
    using assms unfolding prepare_mint_def Let_def err_simps split_paired_Ex prod.case by (elim exE conjE) (rule that, assumption+)
  show ?thesis
  proof (cases "cs_inputs sel")
    case (Cons u us)
    then show ?thesis using that [OF d(1), of recipient sel w] d(2) x by (auto simp: Let_def err_simps)
  qed (use x in simp)
qed

lemma prepare_mint_tx:
  assumes "prepare_mint W cc ks master m = Inr (sender, i, t, ch)"
  shows "\<exists>recipient. (if mr_recipient m = [] then recipient = sender else ParseAddress (mr_recipient m) = Inr recipient) \<and>
    mint_out recipient m i \<in> set (tx_outputs t)"
proof -
  obtain k recipient w change and sel :: coin_selection where r: "(if mr_recipient m = [] then Inr sender else decodeAddress (mr_recipient m)) = Inr recipient"
    and t: "sign_all W w (add_change change ch (AddTokenOutput 0 (mint_script recipient m) \<lparr>td_id = i, td_amount = mr_amount m\<rparr>
        (add_inputs (cs_inputs sel) NewBuilder))) = Inr t"
    using prepare_mint_cases [OF assms] by metis
  have "mint_out recipient m i \<in> set (tx_outputs (add_change change ch (AddTokenOutput 0 (mint_script recipient m)
      \<lparr>td_id = i, td_amount = mr_amount m\<rparr> (add_inputs (cs_inputs sel) NewBuilder))))"
    by (simp add: add_change_def AddOutput_def AddTokenOutput_def mint_out_def split: option.splits prod.splits)
  then have "mint_out recipient m i \<in> set (tx_outputs t)"
    using t by (auto simp: sign_all_def split: prod.splits option.splits dest!: SignMulti_keeps)
  then show ?thesis using r by (auto simp: decodeAddress_def split: if_splits sum.splits)
qed

text \<open>What the processing of a block stores for the output of a mint.\<close>

lemma store_mint_out:
  assumes "bad_mint cc m = None"
  shows "store_output_metadata MemoryDB (mint_out a m i) s =
    (if TokenStore_Has MemoryDB s i then s
     else TokenStore_Put MemoryDB i \<lparr>md_name = ascii (mr_name m), md_symbol = ascii (mr_symbol m), md_decimals = mr_decimals m,
            md_creator = a\<rparr> s)"
proof -
  have "mr_name m \<noteq> []" "length (mr_name m) \<le> 64" "length (mr_symbol m) \<le> 10"
    using assms by (auto simp: bad_mint_def namePattern_def symbolPattern_def split: if_splits)
  then have "take 255 (ascii (mr_name m)) = ascii (mr_name m)" "take 255 (ascii (mr_symbol m)) = ascii (mr_symbol m)"
    "ascii (mr_name m) \<noteq> []"
    by (simp_all add: ascii_def)
  moreover have "20 < length (EncodeMintData a (ascii (mr_name m)) (ascii (mr_symbol m)) (mr_decimals m))"
    by (simp add: EncodeMintData_def Let_def)
  ultimately show ?thesis
    by (simp add: store_output_metadata_def mint_out_def mint_script_def mint_data_roundtrip)
qed

lemma TokenStore_Put_Get:
  "TokenStore_Get MemoryDB (TokenStore_Put MemoryDB i md s) i = Some md" "TokenStore_Has MemoryDB (TokenStore_Put MemoryDB i md s) i"
  by (simp_all add: TokenStore_Has_def TokenStore_Get_def TokenStore_Put_def MemoryDB_def memory_get_def memory_has_def memory_put_def)


text \<open>The example: a token minted for another address with a coin that pays the creation fee.\<close>

definition rich_coin :: utxo where "rich_coin = demo_utxo\<lparr>u_value := 50000000000000\<rparr>"

definition rich_context :: "dbval memory_db chain_context" where
  "rich_context = demo_context\<lparr>cc_chain := (cc_chain demo_context)\<lparr>ch_db := Store_Put MemoryDB rich_coin DAList.empty\<rparr>\<rparr>"

definition rich_server :: "dbval memory_db rpc_state" where
  "rich_server = demo_server\<lparr>rs_root := rich_context\<rparr>"

definition demo_mint :: mint_request where
  "demo_mint = \<lparr>mr_wallet = ''main'', mr_password = demo_password, mr_name = ''Gold'', mr_symbol = ''GLD'', mr_decimals = 2,
     mr_amount = 100, mr_recipient = ''00000000000000000000000000000000000000aa''\<rparr>"

definition rich_mint :: transaction where
  "rich_mint = \<lparr>tx_version = 1,
     tx_inputs = [\<lparr>in_prevout = Outpoint 7 0, in_sig = demo_key, in_pubkey = demo_key\<rparr>],
     tx_outputs = [mint_out 170 demo_mint 36], tx_locktime = 0\<rparr>"

lemma rich_coins: "GetByAddress MemoryDB 0 (Store_Put MemoryDB rich_coin DAList.empty) = [rich_coin]" by code_simp

lemma rich_native:
  "\<exists>w. native_coins demo_rpc demo_wallet [] ''main'' rich_context = Inr (w, [wallet_coin rich_coin]) \<and>
     wset_signers w = [0 \<mapsto> demo_key] \<and> wset_owner w = [Outpoint 7 0 \<mapsto> 0]"
proof -
  have c: "coins_of rich_context 0 = [rich_coin]" "ch_height (cc_chain rich_context) = 3"
    by (simp_all add: rich_context_def demo_context_def env_on_def rich_coins)
  have "\<not> immature 3 rich_coin" "\<not> locked 3 rich_coin" "u_outpoint rich_coin = Outpoint 7 0"
    "filterNativeUTXOs [wallet_coin rich_coin] = [wallet_coin rich_coin]"
    by (simp_all add: rich_coin_def immature_def locked_def demo_utxo_def wallet_coin_def filterNativeUTXOs_def demo_script_def)
  then show ?thesis
    by (simp add: native_coins_def collectWalletUTXOs_def demo_accounts keys_step_def bindE_def collect_account_def demo_parsed
        c with_signer_def empty_wset_def demo_rpc_def demo_signer collect_coin_def Let_def)
qed

lemma rich_prepared:
  "prepare_mint demo_rpc rich_context demo_wallet [] demo_mint = Inr (0, 36, rich_mint, None)"
proof -
  obtain w where w: "native_coins demo_rpc demo_wallet [] ''main'' rich_context = Inr (w, [wallet_coin rich_coin])"
    "wset_signers w = [0 \<mapsto> demo_key]" "wset_owner w = [Outpoint 7 0 \<mapsto> 0]" using rich_native by blast
  have W: "rc_bip demo_rpc = toy_bip" "rc_crypto demo_rpc = size_crypto" "rc_arrange demo_rpc = (\<lambda>us. us)"
    "min_fee_rate rich_context = 10"
    by (simp_all add: demo_rpc_def rich_context_def demo_context_simps demo_genesis_def demo_consensus_rules_def)
  have s: "select_mint (\<lambda>us. us) 10 [wallet_coin rich_coin] =
      Inr (\<lparr>cs_inputs = [wallet_coin rich_coin], cs_total = 50000000000000, cs_change = 0\<rparr>, 50000000000000)"
    by code_simp
  have d: "DeriveTokenID size_crypto (wu_outpoint (wallet_coin rich_coin)) = 36"
    "HD_Address size_crypto toy_bip [0x8000002C, 0x800022B8, 0x80000000, 0, 0] = 0" by code_simp+
  have g: "SignMulti size_crypto [0 \<mapsto> demo_key] [Outpoint 7 0 \<mapsto> 0]
      (AddTokenOutput 0 (mint_script 170 demo_mint) \<lparr>td_id = 36, td_amount = 100\<rparr>
        (add_inputs [wallet_coin rich_coin] NewBuilder)) = (rich_mint, None)" by code_simp
  have m: "mr_wallet demo_mint = ''main''" "mr_recipient demo_mint = ''00000000000000000000000000000000000000aa''"
    "mr_amount demo_mint = 100" by (simp_all add: demo_mint_def)
  show ?thesis
    unfolding prepare_mint_def W key_step_def demo_signer m w(1) s
    by (simp add: bindE_def Let_def decodeAddress_def demo_parsed w s select_step_def change_address_def add_change_def
        sign_all_def W d g)
qed

lemma rich_added:
  "\<exists>p. Pool_Add size_crypto (\<lambda>bs. bs) (pool_view_of (cc_env rich_context) (cc_chain rich_context)) rich_mint (Pool_New 10) =
    (p, Inr 50000000000000)"
proof -
  have "Validate rich_mint = None"
    by (simp add: rich_mint_def mint_out_def mint_script_def demo_key_def Validate_None output_ok_def EncodeMintData_def Let_def
        ascii_def demo_mint_def validateOutputScript_def MaxScriptData_def zero_outpoint_def)
  moreover have "check_inputs size_crypto (UTXOAdapter (en_set (cc_env rich_context)) (ch_db (cc_chain rich_context))) 0
      (tx_inputs rich_mint) = Inr 50000000000000" by code_simp
  moreover have "sum_outputs 0 (tx_outputs rich_mint) = Inr 0" by code_simp
  moreover have "VerifySignatures size_crypto rich_mint = None"
    by (simp add: VerifySignatures_def rich_mint_def VerifySignature_def size_crypto_def toy_crypto_def)
  moreover have "first_error (check_conflict (Pool_New 10)) (tx_inputs rich_mint) = None"
    by (simp add: rich_mint_def check_conflict_def)
  ultimately show ?thesis using demo_admits [of rich_mint rich_context 50000000000000 0] by simp
qed


end
