(* ===== verification/History.thy ===== *)
theory History
  imports Payments "HOL-Library.AList"
begin

text \<open>
  The transaction history of a wallet (\<open>internal/rpc/wallet_index.go\<close> and the history and rescan
  endpoints of \<open>wallet_handlers.go\<close>): the classification of a transaction, the persistent index
  with its incremental update, the scan that serves without an index, and the rescan of addresses.
  The index has a key space of its own here: in the node it shares the database of the chain, under a
  prefix that also holds the transaction index of the chain, whose keys are never below
  \<open>e/\<close> or \<open>m/\<close> but by a hash that starts with these bytes.
\<close>

section \<open>Entries\<close>

record history_entry =
  he_tx :: string
  he_block :: string
  he_height :: u64
  he_time :: u64
  he_type :: string
  he_amount :: string
  he_fee :: string
  he_to :: string
  he_from :: string
  he_confirmed :: bool
  he_token :: string
  he_token_amount :: u64

text \<open>An entry of a type for a transaction; the block fills in the rest.\<close>

definition new_entry :: "string \<Rightarrow> string \<Rightarrow> string \<Rightarrow> string \<Rightarrow> history_entry" where
  "new_entry h kind amount fee =
     \<lparr>he_tx = h, he_block = [], he_height = 0, he_time = 0, he_type = kind, he_amount = amount, he_fee = fee,
      he_to = [], he_from = [], he_confirmed = False, he_token = [], he_token_amount = 0\<rparr>"

definition pad_zeros :: "nat \<Rightarrow> string \<Rightarrow> string" where
  "pad_zeros n s = replicate (n - length s) (CHR ''0'') @ s"

definition formatAmount :: "u64 \<Rightarrow> string" where
  "formatAmount units = decimal (unat units div Coin) @ ''.'' @ pad_zeros 12 (decimal (unat units mod Coin))"

definition no_fee :: string where "no_fee = ''0.000000000000''"

section \<open>Classifying a transaction\<close>

definition scriptToAddress :: "script \<Rightarrow> address option" where
  "scriptToAddress s =
     (if sc_type s = ScriptTypeP2PKH \<and> length (sc_data s) = 20 then Some (take_address (sc_data s)) else None)"

definition has_output :: "script_type \<Rightarrow> transaction \<Rightarrow> bool" where
  "has_output ty t \<longleftrightarrow> (\<exists>out \<in> set (tx_outputs t). sc_type (out_script out) = ty)"

definition hasTokenOutputs :: "transaction \<Rightarrow> bool" where
  "hasTokenOutputs t \<longleftrightarrow> (\<exists>out \<in> set (tx_outputs t). out_token out \<noteq> None)"

definition totalOutputs :: "transaction \<Rightarrow> u64" where
  "totalOutputs t = foldl (+) 0 (map out_value (tx_outputs t))"

definition sum_outputs_of :: "script_type \<Rightarrow> transaction \<Rightarrow> u64" where
  "sum_outputs_of ty t =
     foldl (+) 0 (map out_value (filter (\<lambda>out. sc_type (out_script out) = ty) (tx_outputs t)))"

definition safeSub :: "u64 \<Rightarrow> u64 \<Rightarrow> u64" where
  "safeSub a b = (if a > b then a - b else 0)"

text \<open>The output an input spends, if the chain knows the transaction.\<close>

definition prev_output :: "(hash \<Rightarrow> transaction option) \<Rightarrow> input \<Rightarrow> txout option" where
  "prev_output lookup i =
     (case lookup (op_txid (in_prevout i)) of
        None \<Rightarrow> None
      | Some t \<Rightarrow>
          if unat (op_index (in_prevout i)) < length (tx_outputs t)
          then Some (tx_outputs t ! unat (op_index (in_prevout i))) else None)"

definition hasStakeInput :: "(hash \<Rightarrow> transaction option) \<Rightarrow> transaction \<Rightarrow> bool" where
  "hasStakeInput lookup t \<longleftrightarrow>
     (\<exists>i \<in> set (tx_inputs t). \<not> is_coinbase_input i \<and>
        (case prev_output lookup i of None \<Rightarrow> False | Some out \<Rightarrow> sc_type (out_script out) = ScriptTypeStake))"

record token_flow =
  tf_our :: u64
  tf_other :: u64
  tf_to :: string

text \<open>
  The flows are a Go map, in the order of first occurrence here; where the code iterates over it,
  \<open>flow_order\<close> is the order of that iteration.
\<close>

type_synonym flow_order = "(hash \<times> token_flow) list \<Rightarrow> (hash \<times> token_flow) list"

record output_sums =
  os_ours :: u64
  os_others :: u64
  os_to :: string
  os_flows :: "(hash \<times> token_flow) list"

definition first_text :: "string \<Rightarrow> string \<Rightarrow> address option \<Rightarrow> string" where
  "first_text hrp to addr = (case addr of None \<Rightarrow> to | Some a \<Rightarrow> if to = [] then address_string hrp a else to)"

definition add_output_sums :: "string \<Rightarrow> address set \<Rightarrow> txout \<Rightarrow> output_sums \<Rightarrow> output_sums" where
  "add_output_sums hrp mine out st =
     (let addr = scriptToAddress (out_script out);
          isOurs = (case addr of None \<Rightarrow> False | Some a \<Rightarrow> a \<in> mine)
      in case out_token out of
        Some td \<Rightarrow>
          (let tf = (case map_of (os_flows st) (td_id td) of
                       None \<Rightarrow> \<lparr>tf_our = 0, tf_other = 0, tf_to = []\<rparr> | Some tf \<Rightarrow> tf);
               tf' = (if isOurs then tf\<lparr>tf_our := tf_our tf + td_amount td\<rparr>
                      else tf\<lparr>tf_other := tf_other tf + td_amount td, tf_to := first_text hrp (tf_to tf) addr\<rparr>)
           in st\<lparr>os_flows := AList.update (td_id td) tf' (os_flows st)\<rparr>)
      | None \<Rightarrow>
          if isOurs then st\<lparr>os_ours := os_ours st + out_value out\<rparr>
          else st\<lparr>os_others := os_others st + out_value out, os_to := first_text hrp (os_to st) addr\<rparr>)"

record input_sums =
  is_addrs :: "address set"
  is_ours :: bool
  is_sum :: u64
  is_from :: string

definition add_input_sums ::
  "crypto \<Rightarrow> string \<Rightarrow> (hash \<Rightarrow> transaction option) \<Rightarrow> address set \<Rightarrow> input \<Rightarrow> input_sums \<Rightarrow> input_sums" where
  "add_input_sums C hrp lookup mine i st =
     (if is_coinbase_input i \<or> length (in_pubkey i) \<noteq> 33 then st
      else let addr = AddressFromPubKey C (in_pubkey i);
               st' = st\<lparr>is_addrs := insert addr (is_addrs st)\<rparr>
           in if addr \<in> mine
              then st'\<lparr>is_ours := True,
                       is_sum := is_sum st + (case prev_output lookup i of None \<Rightarrow> 0 | Some out \<Rightarrow> out_value out)\<rparr>
              else st'\<lparr>is_from := first_text hrp (is_from st) (Some addr)\<rparr>)"

text \<open>The flow with the largest amount, the first one of these in the order of iteration.\<close>

definition best_flow :: "(token_flow \<Rightarrow> u64) \<Rightarrow> (hash \<times> token_flow) list \<Rightarrow> hash \<times> u64 \<times> string" where
  "best_flow amount flows =
     fold (\<lambda>(tid, tf) best. if amount tf > fst (snd best) then (tid, amount tf, tf_to tf) else best) flows (0, 0, [])"

definition sent_flow :: "flow_order \<Rightarrow> (hash \<times> token_flow) list \<Rightarrow> hash \<times> u64 \<times> string" where
  "sent_flow order flows =
     (case best_flow tf_other (order flows) of (tid, amt, to) \<Rightarrow>
        if amt \<noteq> 0 then (tid, amt, to)
        else case find (\<lambda>(tid, tf). tf_our tf > 0) (order flows) of
               None \<Rightarrow> (tid, amt, to) | Some (tid', tf) \<Rightarrow> (tid', tf_our tf, to))"

definition hasTokenReceivedByUs :: "(hash \<times> token_flow) list \<Rightarrow> bool" where
  "hasTokenReceivedByUs flows \<longleftrightarrow> (\<exists>(tid, tf) \<in> set flows. tf_our tf > 0)"

text \<open>In a transfer to the wallet itself: the first output to an address that is no source.\<close>

definition self_payment :: "input_sums \<Rightarrow> transaction \<Rightarrow> (u64 \<times> address) option" where
  "self_payment ins t =
     (case find (\<lambda>out. case scriptToAddress (out_script out) of None \<Rightarrow> False | Some a \<Rightarrow> a \<notin> is_addrs ins) (tx_outputs t) of
        None \<Rightarrow> None
      | Some out \<Rightarrow> map_option (\<lambda>a. (out_value out, a)) (scriptToAddress (out_script out)))"

definition is_coinbase_tx :: "nat \<Rightarrow> transaction \<Rightarrow> bool" where
  "is_coinbase_tx txIdx t \<longleftrightarrow> txIdx = 0 \<and> tx_inputs t \<noteq> [] \<and> is_coinbase_input (hd (tx_inputs t))"

definition no_inputs :: input_sums where
  "no_inputs = \<lparr>is_addrs = {}, is_ours = False, is_sum = 0, is_from = []\<rparr>"

text \<open>The inputs of a coinbase are skipped.\<close>

definition collect_inputs ::
  "'k rpc_config \<Rightarrow> (hash \<Rightarrow> transaction option) \<Rightarrow> address set \<Rightarrow> nat \<Rightarrow> transaction \<Rightarrow> input_sums" where
  "collect_inputs W lookup mine txIdx t =
     (if is_coinbase_tx txIdx t then no_inputs
      else fold (add_input_sums (rc_crypto W) (rc_hrp W) lookup mine) (tx_inputs t) no_inputs)"

definition collect_outputs :: "'k rpc_config \<Rightarrow> address set \<Rightarrow> transaction \<Rightarrow> output_sums" where
  "collect_outputs W mine t =
     fold (add_output_sums (rc_hrp W) mine) (tx_outputs t) \<lparr>os_ours = 0, os_others = 0, os_to = [], os_flows = []\<rparr>"

definition classifyTx ::
  "'k rpc_config \<Rightarrow> flow_order \<Rightarrow> (hash \<Rightarrow> transaction option) \<Rightarrow> address set \<Rightarrow> nat \<Rightarrow> transaction \<Rightarrow> history_entry option" where
  "classifyTx W order lookup mine txIdx t =
     (let h = hash_string (TxHash (rc_crypto W) t);
          isCoinbase = is_coinbase_tx txIdx t;
          outs = collect_outputs W mine t;
          ins = collect_inputs W lookup mine txIdx t;
          fee = formatAmount (safeSub (is_sum ins) (totalOutputs t))
      in if isCoinbase \<and> os_ours outs > 0 then Some (new_entry h ''mined'' (formatAmount (os_ours outs)) no_fee)
         else if has_output ScriptTypeStake t \<and> is_ours ins
           then Some (new_entry h ''staked'' (formatAmount (sum_outputs_of ScriptTypeStake t)) fee)
         else if hasStakeInput lookup t \<and> is_ours ins
           then Some (new_entry h ''unstaked'' (formatAmount (os_ours outs)) fee)
         else if has_output ScriptTypeRegister t \<and> is_ours ins
           then Some (new_entry h ''register'' (formatAmount (sum_outputs_of ScriptTypeRegister t)) fee)
         else if has_output ScriptTypeMint t \<and> is_ours ins
           then Some (case List.map_filter out_token (tx_outputs t) of
                        [] \<Rightarrow> new_entry h ''mint'' fee fee
                      | td # _ \<Rightarrow> (new_entry h ''mint'' fee fee)\<lparr>he_token := hash_string (td_id td), he_token_amount := td_amount td\<rparr>)
         else if is_ours ins \<and> hasTokenOutputs t
           then (case sent_flow order (os_flows outs) of (tid, amt, to) \<Rightarrow>
                   Some ((new_entry h ''token_sent'' fee fee)\<lparr>he_to := to, he_token := hash_string tid, he_token_amount := amt\<rparr>))
         else if is_ours ins
           then (case (if os_others outs = 0 then self_payment ins t else None) of
                   Some (v, a) \<Rightarrow> Some ((new_entry h ''sent'' (formatAmount v) fee)\<lparr>he_to := address_string (rc_hrp W) a\<rparr>)
                 | None \<Rightarrow> Some ((new_entry h ''sent'' (formatAmount (os_others outs)) fee)\<lparr>he_to := os_to outs\<rparr>))
         else if hasTokenReceivedByUs (os_flows outs)
           then (case best_flow tf_our (order (os_flows outs)) of (tid, amt, to) \<Rightarrow>
                   Some ((new_entry h ''token_received'' (formatAmount (os_ours outs)) no_fee)
                           \<lparr>he_from := is_from ins, he_token := hash_string tid, he_token_amount := amt\<rparr>))
         else if os_ours outs > 0
           then Some ((new_entry h ''received'' (formatAmount (os_ours outs)) no_fee)\<lparr>he_from := is_from ins\<rparr>)
         else None)"

end
