(* ===== verification/TxIndex.thy ===== *)
theory TxIndex
  imports History
begin

text \<open>
  The persistent index of wallet transactions (\<open>internal/rpc/wallet_index.go\<close>), the history endpoint
  with and without it, and the rescan of a wallet's addresses. Loops over unsigned heights that the
  code writes as \<open>h <= last\<close> are partial functions: they do not end at the largest height.
\<close>

section \<open>The documents and their keys\<close>

record index_meta =
  im_last_height :: u64
  im_count :: int

text \<open>Documents are JSON texts; \<open>ICorrupt\<close> is one that does not decode.\<close>

datatype idx_doc = IMeta index_meta | IEntry history_entry | ICorrupt

definition NewWalletTxIndex :: "('i, idx_doc) kvdb \<Rightarrow> ('i, idx_doc) kvdb" where
  "NewWalletTxIndex D = PrefixDB D (ascii ''x/'')"

definition fresh_meta :: index_meta where "fresh_meta = \<lparr>im_last_height = 0, im_count = 0\<rparr>"

definition entryKeyPrefix :: "string \<Rightarrow> string \<Rightarrow> bytes" where
  "entryKeyPrefix w c = ascii (''e/'' @ w @ ''/'' @ c @ ''/'')"

definition entryKey :: "string \<Rightarrow> string \<Rightarrow> u64 \<Rightarrow> nat \<Rightarrow> bytes" where
  "entryKey w c height txIdx = entryKeyPrefix w c @ be_bytes 8 (NOT height) @ be_bytes 4 (word_of_nat txIdx :: u32)"

definition metaKey :: "string \<Rightarrow> string \<Rightarrow> bytes" where
  "metaKey w c = ascii (''m/'' @ w @ ''/'' @ c)"

definition GetMeta :: "('i, idx_doc) kvdb \<Rightarrow> string \<Rightarrow> string \<Rightarrow> 'i \<Rightarrow> index_meta option" where
  "GetMeta X w c s =
     (case kv_get X s (metaKey w c) of
        None \<Rightarrow> Some fresh_meta
      | Some (IMeta m) \<Rightarrow> Some m
      | Some d \<Rightarrow> None)"

definition setMeta :: "('i, idx_doc) kvdb \<Rightarrow> string \<Rightarrow> string \<Rightarrow> index_meta \<Rightarrow> 'i \<Rightarrow> 'i" where
  "setMeta X w c m s = kv_put X (metaKey w c) (IMeta m) s"

definition PutEntries ::
  "('i, idx_doc) kvdb \<Rightarrow> string \<Rightarrow> string \<Rightarrow> u64 \<Rightarrow> history_entry list \<Rightarrow> 'i \<Rightarrow> 'i" where
  "PutEntries X w c height es s =
     fold (\<lambda>(i, e). kv_put X (entryKey w c height i) (IEntry e)) (List.enumerate 0 es) s"

text \<open>The height in the key, if the key is long enough to have one.\<close>

definition key_height :: "bytes \<Rightarrow> bytes \<Rightarrow> u64 option" where
  "key_height p k =
     (let suffix = drop (length p) k in if length suffix < 12 then None else Some (NOT (be_word (take 8 suffix))))"

definition keys_above :: "('i, idx_doc) kvdb \<Rightarrow> string \<Rightarrow> string \<Rightarrow> u64 \<Rightarrow> 'i \<Rightarrow> bytes list" where
  "keys_above X w c maxHeight s =
     filter (\<lambda>k. case key_height (entryKeyPrefix w c) k of None \<Rightarrow> False | Some h \<Rightarrow> h > maxHeight)
       (map fst (kv_items X s (entryKeyPrefix w c)))"

text \<open>A corrupt record of the index counts as a fresh one, and nothing is stored when nothing was deleted.\<close>

definition DeleteAbove :: "('i, idx_doc) kvdb \<Rightarrow> string \<Rightarrow> string \<Rightarrow> u64 \<Rightarrow> 'i \<Rightarrow> 'i" where
  "DeleteAbove X w c maxHeight s =
     (let del = keys_above X w c maxHeight s;
          s1 = fold (kv_delete X) del s
      in if del = [] then s1
         else let meta = (case GetMeta X w c s1 of None \<Rightarrow> fresh_meta | Some m \<Rightarrow> m)
              in setMeta X w c \<lparr>im_last_height = maxHeight, im_count = max 0 (im_count meta - int (length del))\<rparr> s1)"

definition ClearWallet :: "('i, idx_doc) kvdb \<Rightarrow> string \<Rightarrow> string \<Rightarrow> 'i \<Rightarrow> 'i" where
  "ClearWallet X w c s =
     kv_delete X (metaKey w c) (fold (kv_delete X) (map fst (kv_items X s (entryKeyPrefix w c))) s)"

section \<open>Pages\<close>

text \<open>Go's \<open>int\<close> has 64 bits.\<close>

definition wrap_int :: "int \<Rightarrow> int" where
  "wrap_int z = sint (word_of_int z :: 64 word)"

text \<open>\<open>None\<close> is the panic of a slice whose end lies before its start.\<close>

definition paged :: "int \<Rightarrow> int \<Rightarrow> 'a list \<Rightarrow> 'a list option" where
  "paged limit offset xs =
     (if offset \<ge> int (length xs) then Some []
      else let e = wrap_int (offset + limit);
               e' = (if e > int (length xs) then int (length xs) else e)
           in if e' < offset then None else Some (take (nat (e' - offset)) (drop (nat offset) xs)))"

definition entry_of :: "idx_doc \<Rightarrow> history_entry option" where
  "entry_of d = (case d of IEntry e \<Rightarrow> Some e | _ \<Rightarrow> None)"

definition Query ::
  "('i, idx_doc) kvdb \<Rightarrow> string \<Rightarrow> string \<Rightarrow> int \<Rightarrow> int \<Rightarrow> 'i \<Rightarrow> (history_entry list \<times> nat) option" where
  "Query X w c limit offset s =
     (let items = sort_key fst (kv_items X s (entryKeyPrefix w c))
      in map_option (\<lambda>page. (List.map_filter (entry_of \<circ> snd) page, length items)) (paged limit offset items))"

section \<open>Indexing blocks\<close>

text \<open>The entries of a block; the block is \<open>None\<close> where the chain has none at a height.\<close>

definition block_entries ::
  "'k rpc_config \<Rightarrow> flow_order \<Rightarrow> (hash \<Rightarrow> transaction option) \<Rightarrow> address set \<Rightarrow> u64 \<Rightarrow> block \<Rightarrow> history_entry list" where
  "block_entries W order lookup mine h b =
     map (\<lambda>e. e\<lparr>he_block := hash_string (BlockHash (rc_crypto W) b), he_height := h,
               he_time := h_timestamp (hdr b), he_confirmed := True\<rparr>)
       (List.map_filter (\<lambda>(i, t). classifyTx W order lookup mine i t) (List.enumerate 0 (b_txs b)))"

definition history_at ::
  "'k rpc_config \<Rightarrow> flow_order \<Rightarrow> 's chain_context \<Rightarrow> address set \<Rightarrow> u64 \<Rightarrow> history_entry list option" where
  "history_at W order cc mine h =
     map_option (block_entries W order (GetTransaction (cc_env cc) (cc_chain cc)) mine h)
       (GetBlockByHeight (en_db (cc_env cc)) (ch_db (cc_chain cc)) h)"

definition entries_or_none :: "history_entry list option \<Rightarrow> history_entry list" where
  "entries_or_none r = (case r of None \<Rightarrow> [] | Some es \<Rightarrow> es)"

partial_function (option) index_loop ::
  "('i, idx_doc) kvdb \<Rightarrow> (u64 \<Rightarrow> history_entry list option) \<Rightarrow> string \<Rightarrow> string \<Rightarrow> u64 \<Rightarrow> u64 \<Rightarrow> 'i \<Rightarrow> int \<Rightarrow> ('i \<times> int) option" where
  "index_loop X at_height w c h last_height s added =
     (if h > last_height then Some (s, added)
      else let es = entries_or_none (at_height h)
           in index_loop X at_height w c (h + 1) last_height (PutEntries X w c h es s) (added + int (length es)))"

text \<open>The record of the index is read before the blocks are indexed.\<close>

definition IndexBlocks ::
  "('i, idx_doc) kvdb \<Rightarrow> (u64 \<Rightarrow> history_entry list option) \<Rightarrow> string \<Rightarrow> string \<Rightarrow> u64 \<Rightarrow> u64 \<Rightarrow> 'i \<Rightarrow> ('i \<times> bool) option" where
  "IndexBlocks X at_height w c start_height end_height s =
     (case GetMeta X w c s of
        None \<Rightarrow> Some (s, False)
      | Some meta \<Rightarrow>
          map_option (\<lambda>(s1, added).
            (setMeta X w c \<lparr>im_last_height = end_height, im_count = im_count meta + added\<rparr> s1, True))
          (index_loop X at_height w c start_height end_height s 0))"

section \<open>The history endpoint\<close>

type_synonym history_result = "rpc_error + nat \<times> history_entry list"

definition page_result :: "(history_entry list \<times> nat) option \<Rightarrow> history_result" where
  "page_result r = (case r of None \<Rightarrow> Inl RequestPanic | Some (es, total_count) \<Rightarrow> Inr (total_count, es))"

definition start_of :: "index_meta \<Rightarrow> u64" where
  "start_of meta = (if im_count meta = 0 then 0 else im_last_height meta + 1)"

definition getHistoryIndexed ::
  "('i, idx_doc) kvdb \<Rightarrow> u64 \<Rightarrow> (u64 \<Rightarrow> history_entry list option) \<Rightarrow> string \<Rightarrow> string \<Rightarrow> int \<Rightarrow> int \<Rightarrow> 'i \<Rightarrow>
   ('i \<times> history_result) option" where
  "getHistoryIndexed X tipHeight at_height w c limit offset s =
     (case GetMeta X w c s of
        None \<Rightarrow> Some (s, Inl (InternalError CorruptIndex))
      | Some meta0 \<Rightarrow>
         (let reorged = (im_count meta0 > 0 \<and> tipHeight < im_last_height meta0);
              s1 = (if reorged then DeleteAbove X w c tipHeight s else s);
              meta = (if reorged then meta0\<lparr>im_last_height := tipHeight\<rparr> else meta0);
              start_height = start_of meta
          in if start_height \<le> tipHeight
             then map_option (\<lambda>(s2, indexed).
                    (s2, if indexed then page_result (Query X w c limit offset s2) else Inl (InternalError CorruptIndex)))
                  (IndexBlocks X at_height w c start_height tipHeight s1)
             else Some (s1, page_result (Query X w c limit offset s1))))"

text \<open>Without an index: from the tip down, until a thousand entries are found.\<close>

function fallback_loop :: "(u64 \<Rightarrow> history_entry list option) \<Rightarrow> int \<Rightarrow> history_entry list \<Rightarrow> history_entry list" where
  "fallback_loop at_height h es =
     (if h < 0 then es
      else case at_height (word_of_int h) of
        None \<Rightarrow> fallback_loop at_height (h - 1) es
      | Some new \<Rightarrow>
          if length (es @ new) \<ge> 1000 then es @ new else fallback_loop at_height (h - 1) (es @ new))"
  by pat_completeness auto
termination by (relation "measure (\<lambda>(_, h, _). nat (h + 1))") auto

declare fallback_loop.simps [simp del]

definition getHistoryFallback ::
  "u64 \<Rightarrow> (u64 \<Rightarrow> history_entry list option) \<Rightarrow> int \<Rightarrow> int \<Rightarrow> history_result" where
  "getHistoryFallback tipHeight at_height limit offset =
     (let es = fallback_loop at_height (sint tipHeight) []
      in page_result (map_option (\<lambda>page. (page, length es)) (paged limit offset es)))"

definition account_addresses :: "account_entry list \<Rightarrow> address set" where
  "account_addresses accounts =
     set (List.map_filter (\<lambda>a. case ParseAddress (ac_address a) of Inl e \<Rightarrow> None | Inr x \<Rightarrow> Some x) accounts)"

text \<open>What comes before the history: name, page and accounts of the wallet.\<close>

definition history_request ::
  "'k rpc_config \<Rightarrow> (string \<times> string \<times> int \<times> int) option \<Rightarrow> 's rpc_state \<Rightarrow>
   rpc_error + keystore \<times> string \<times> int \<times> int \<times> account_entry list" where
  "history_request W q S =
     bindE (requireWallet S) (\<lambda>ks. bindE (parseParams q) (\<lambda>(name, password, limit, offset).
       if name = [] \<or> password = [] then Inl (InvalidParams MissingParams)
       else bindE (load_wallet W ks name password) (\<lambda>seed.
            bindE (keys_step (ListAccounts ks name)) (\<lambda>accounts.
              Inr (ks, name, (if limit \<le> 0 then 50 else limit), max 0 offset, accounts)))))"

text \<open>
  The endpoint, for the root chain: the index is \<open>None\<close> if the node has none. The result is
  \<open>None\<close> if the update of the index does not end.
\<close>

definition handleWalletGetHistory ::
  "'k rpc_config \<Rightarrow> flow_order \<Rightarrow> ('i, idx_doc) kvdb option \<Rightarrow> (string \<times> string \<times> int \<times> int) option \<Rightarrow>
   's rpc_state \<Rightarrow> 'i \<Rightarrow> ('i \<times> history_result) option" where
  "handleWalletGetHistory W order X q S s =
     (case history_request W q S of
        Inl e \<Rightarrow> Some (s, Inl e)
      | Inr (ks, name, limit, offset, accounts) \<Rightarrow>
         (let mine = account_addresses accounts;
              tipHeight = ch_height (cc_chain (rs_root S));
              at_height = history_at W order (rs_root S) mine
          in if mine = {} then Some (s, Inr (0, []))
             else case X of
               Some D \<Rightarrow> getHistoryIndexed D tipHeight at_height name ''root'' limit offset s
             | None \<Rightarrow> Some (s, getHistoryFallback tipHeight at_height limit offset)))"

section \<open>Rescan\<close>

text \<open>The addresses of one chain of keys, up to the first that cannot be derived.\<close>

primrec derive_run :: "'k rpc_config \<Rightarrow> 'k \<Rightarrow> u32 \<Rightarrow> u32 \<Rightarrow> nat \<Rightarrow> (address \<times> u32 \<times> u32) list" where
  "derive_run W master change idx 0 = []"
| "derive_run W master change idx (Suc n) =
     (case DeriveAddress (rc_bip W) 0 change idx master of
        Inl e \<Rightarrow> []
      | Inr k \<Rightarrow> (HD_Address (rc_crypto W) (rc_bip W) k, change, idx) # derive_run W master change (idx + 1) n)"

definition raise_limit :: "keystore_error + u32 \<Rightarrow> u32 \<Rightarrow> u32" where
  "raise_limit r limit = (case r of Inl e \<Rightarrow> limit | Inr i \<Rightarrow> if i + 20 > limit then i + 20 else limit)"

definition derive_limit :: "keystore \<Rightarrow> string \<Rightarrow> u32 \<Rightarrow> u32" where
  "derive_limit ks name requested =
     (let limit = raise_limit (GetChangeIndex ks name) (raise_limit (GetExternalIndex ks name) 2000)
      in if requested > 0 then requested else limit)"

definition maxDeriveLimit :: u32 where "maxDeriveLimit = 100000"

definition output_address :: "crypto \<Rightarrow> txout \<Rightarrow> address option" where
  "output_address C out =
     (let sc = out_script out in
      if (sc_type sc = ScriptTypeP2PKH \<or> sc_type sc = ScriptTypeMint) \<and> length (sc_data sc) \<ge> 20
      then Some (take_address (sc_data sc))
      else if sc_type sc = ScriptTypeStake \<and> length (sc_data sc) = 33 then Some (AddressFromPubKey C (sc_data sc))
      else None)"

definition paid_addresses :: "crypto \<Rightarrow> block option \<Rightarrow> address set" where
  "paid_addresses C b =
     (case b of
        None \<Rightarrow> {}
      | Some b \<Rightarrow> set (List.map_filter (output_address C) (concat (map tx_outputs (b_txs b)))))"

partial_function (option) rescan_loop ::
  "(u64 \<Rightarrow> address set) \<Rightarrow> address set \<Rightarrow> u64 \<Rightarrow> u64 \<Rightarrow> address set \<Rightarrow> address set option" where
  "rescan_loop paid derived h last_height used =
     (if h > last_height then Some used
      else rescan_loop paid derived (h + 1) last_height (used \<union> (paid h \<inter> derived)))"

record rescan_state =
  re_keys :: keystore
  re_new :: nat
  re_external :: "u32 option"
  re_change :: "u32 option"

definition higher :: "u32 \<Rightarrow> u32 option \<Rightarrow> u32 option" where
  "higher i r = (case r of None \<Rightarrow> Some i | Some j \<Rightarrow> if i > j then Some i else Some j)"

definition register_derived ::
  "'k rpc_config \<Rightarrow> string \<Rightarrow> string set \<Rightarrow> address set \<Rightarrow> address \<times> u32 \<times> u32 \<Rightarrow> rescan_state \<Rightarrow> rescan_state" where
  "register_derived W name existing used d r =
     (case d of (addr, change, idx) \<Rightarrow>
        if addr \<notin> used then r
        else let r1 = (if address_string (rc_hrp W) addr \<in> existing then r
                       else r\<lparr>re_new := re_new r + 1,
                              re_keys := fst (AddAccount name (scan_entry W change
                                (if change = ChangeInternal then ''Change'' else ''Address'') idx addr) (re_keys r))\<rparr>)
             in if change = ChangeExternal then r1\<lparr>re_external := higher idx (re_external r1)\<rparr>
                else if change = ChangeInternal then r1\<lparr>re_change := higher idx (re_change r1)\<rparr> else r1)"

definition set_next :: "(string \<Rightarrow> u32 \<Rightarrow> keystore \<Rightarrow> keystore \<times> keystore_error option) \<Rightarrow> string \<Rightarrow> u32 option \<Rightarrow> keystore \<Rightarrow> keystore" where
  "set_next set_index name highest ks = (case highest of None \<Rightarrow> ks | Some i \<Rightarrow> fst (set_index name (i + 1) ks))"

definition rescan_wallet ::
  "'k rpc_config \<Rightarrow> 's chain_context \<Rightarrow> string \<Rightarrow> (address \<times> u32 \<times> u32) list \<Rightarrow> u64 \<Rightarrow> keystore \<Rightarrow> (keystore \<times> nat \<times> nat) option" where
  "rescan_wallet W cc name derived from_height ks =
     map_option (\<lambda>seen.
       let used = seen \<union> {a \<in> fst ` set derived. used_address (rc_crypto W) cc a};
           existing = (case ListAccounts ks name of Inl e \<Rightarrow> {} | Inr as \<Rightarrow> ac_address ` set as);
           r = fold (register_derived W name existing used) derived
                 \<lparr>re_keys = ks, re_new = 0, re_external = None, re_change = None\<rparr>
       in (set_next SetChangeIndex name (re_change r) (set_next SetExternalIndex name (re_external r) (re_keys r)),
           card used, re_new r))
     (rescan_loop (\<lambda>h. paid_addresses (rc_crypto W) (GetBlockByHeight (en_db (cc_env cc)) (ch_db (cc_chain cc)) h))
        (fst ` set derived) from_height (ch_height (cc_chain cc)) {})"

text \<open>The result: addresses found and new, and the heights scanned. \<open>None\<close> if the scan does not end.\<close>

definition handleWalletRescan ::
  "'k rpc_config \<Rightarrow> (string \<times> string \<times> u64 \<times> u32 \<times> string) option \<Rightarrow> 's rpc_state \<Rightarrow>
   ('s rpc_state \<times> (rpc_error + nat \<times> nat \<times> u64 \<times> u64)) option" where
  "handleWalletRescan W q S =
     (case bindE (requireWallet S) (\<lambda>ks. bindE (parseParams q) (\<lambda>(name, password, from_height, requested, chain).
           if name = [] \<or> password = [] then Inl (InvalidParams MissingParams)
           else bindE (open_wallet W ks name password) (\<lambda>master.
                let limit = derive_limit ks name requested in
                if limit > maxDeriveLimit then Inl (InvalidParams (DeriveLimitTooHigh maxDeriveLimit))
                else bindE (if chain = [] then Inr (rs_root S)
                            else check (requireSubChainManager S) (bindE (sub_context chain S) (\<lambda>(i, cc). Inr cc))) (\<lambda>cc.
                     Inr (ks, name, master, limit, cc, min from_height (ch_height (cc_chain cc))))))) of
        Inl e \<Rightarrow> Some (S, Inl e)
      | Inr (ks, name, master, limit, cc, from_height) \<Rightarrow>
          map_option (\<lambda>(ks', found, new). (with_keys S ks', Inr (found, new, from_height, ch_height (cc_chain cc))))
            (rescan_wallet W cc name
              (derive_run W master ChangeExternal 0 (unat limit) @ derive_run W master ChangeInternal 0 (unat limit))
              from_height ks))"

end
