(* ===== verification/HistoryIndex.thy ===== *)
theory HistoryIndex
  imports TxIndex
begin

text \<open>
  The index as a store: the order of its keys, the separation of the wallets in it, what an update
  adds, and the pages of a query. The locale \<open>tx_index\<close> extends the contract of a key-value store.
\<close>

section \<open>Big-endian bytes are ordered like the numbers\<close>

lemma be_bytes_Suc: "be_bytes (Suc n) w = ucast (drop_bit (8 * n) w) # be_bytes n w"
  by (simp add: be_bytes_def le_bytes_def)

lemma unat_byte: "unat (ucast (drop_bit (8 * n) (w :: 'a::len word)) :: u8) = unat w div 256 ^ n mod 256"
  by (simp only: unsigned_ucast_eq unsigned_drop_bit_eq) (simp add: drop_bit_eq_div take_bit_eq_mod power_mult)

lemma digits_less:
  assumes "(a0 :: nat) < m" and "b0 < m"
  shows "m * a1 + a0 < m * b1 + b0 \<longleftrightarrow> a1 < b1 \<or> a1 = b1 \<and> a0 < b0"
proof -
  have "m * a1 + a0 < m * b1 + b0" if "a1 < b1" 
  proof -
    have "m * Suc a1 \<le> m * b1" using that by (intro mult_le_mono2) simp
    then show ?thesis using assms by simp
  qed
  moreover have "m * b1 + b0 < m * a1 + a0" if "b1 < a1" 
  proof -
    have "m * Suc b1 \<le> m * a1" using that by (intro mult_le_mono2) simp
    then show ?thesis using assms by simp
  qed
  ultimately show ?thesis by (metis less_asym linorder_neqE_nat nat_add_left_cancel_less)
qed

lemma be_bytes_less:
  "be_bytes n (v :: 'a::len word) < be_bytes n (w :: 'a word) \<longleftrightarrow> unat v mod 256 ^ n < unat w mod 256 ^ n"
proof (induction n)
  case (Suc n)
  have "unat x mod 256 ^ Suc n = 256 ^ n * (unat x div 256 ^ n mod 256) + unat x mod 256 ^ n" for x :: "'a word"
    by (metis mod_mult2_eq mult.commute power_Suc)
  then have "unat v mod 256 ^ Suc n < unat w mod 256 ^ Suc n \<longleftrightarrow>
      unat v div 256 ^ n mod 256 < unat w div 256 ^ n mod 256 \<or>
      unat v div 256 ^ n mod 256 = unat w div 256 ^ n mod 256 \<and> unat v mod 256 ^ n < unat w mod 256 ^ n"
    by (simp only: digits_less mod_less_divisor zero_less_power zero_less_numeral)
  moreover have "(ucast (drop_bit (8 * n) v) :: u8) < ucast (drop_bit (8 * n) w) \<longleftrightarrow>
      unat v div 256 ^ n mod 256 < unat w div 256 ^ n mod 256"
    by (simp only: word_less_nat_alt unat_byte)
  moreover have "(ucast (drop_bit (8 * n) v) :: u8) = ucast (drop_bit (8 * n) w) \<longleftrightarrow>
      unat v div 256 ^ n mod 256 = unat w div 256 ^ n mod 256"
    by (metis unat_byte word_unat_eq_iff)
  ultimately show ?case using Suc by (simp only: be_bytes_Suc Cons_less_Cons)
qed (simp add: be_bytes_def le_bytes_def)

lemma be_bytes_less_u64: "be_bytes 8 (v :: u64) < be_bytes 8 w \<longleftrightarrow> v < w"
  using unat_u64_less [of v] unat_u64_less [of w] by (simp add: be_bytes_less word_less_nat_alt)

lemma be_bytes_less_u32: "be_bytes 4 (v :: u32) < be_bytes 4 w \<longleftrightarrow> v < w"
proof -
  have "unat x < 2 ^ 32" for x :: u32 using unsigned_less [of x] by simp
  then have "unat v mod 256 ^ 4 = unat v" "unat w mod 256 ^ 4 = unat w" by simp_all
  then show ?thesis by (simp only: be_bytes_less word_less_nat_alt)
qed

lemma append_less_same: "length (xs :: bytes) = length ys \<Longrightarrow> xs @ us < ys @ vs \<longleftrightarrow> xs < ys \<or> xs = ys \<and> us < vs"
  by (induction xs ys rule: list_induct2) auto

lemma entryKey_less:
  assumes "i < 2 ^ 32" and "j < 2 ^ 32"
  shows "entryKey w c h i < entryKey w c h' j \<longleftrightarrow> h' < h \<or> h = h' \<and> i < j"
proof -
  have "NOT h < NOT h' \<longleftrightarrow> h' < h" by (simp add: word_less_def unsigned_not_eq take_bit_not_eq_mask_diff take_bit_word_eq_self flip: unsigned_take_bit_eq)
  moreover have "(word_of_nat i :: u32) < word_of_nat j \<longleftrightarrow> i < j"
    using assms by (simp add: word_less_nat_alt unat_of_nat take_bit_nat_eq_self)
  ultimately show ?thesis
    by (simp add: entryKey_def append_less_same be_bytes_less_u64 be_bytes_less_u32)
qed

lemma entryKey_inject:
  assumes "i < 2 ^ 32" and "j < 2 ^ 32"
  shows "entryKey w c h i = entryKey w c h' j \<longleftrightarrow> h = h' \<and> i = j"
  using entryKey_less [OF assms] entryKey_less [OF assms(2,1)] by (metis less_irrefl linorder_neqE_nat linorder_less_linear)

section \<open>The wallets in one index\<close>

lemma prefix_entryKey: "prefix (entryKeyPrefix w c) (entryKey w c h i)"
  by (simp add: entryKey_def)

lemma ascii_simps [simp]: "ascii [] = []" "ascii (c # s) = of_char c # ascii s"
  by (simp_all add: ascii_def)

lemma ascii_prefix_inject: "prefix (ascii s) (ascii t) \<longleftrightarrow> prefix s t"
proof
  assume "prefix (ascii s) (ascii t)"
  then obtain zs where "ascii t = ascii s @ zs" by (auto simp: prefix_def)
  then have "take (length s) (ascii t) = ascii s" by simp
  then have "ascii s = ascii (take (length s) t)" by (simp add: ascii_def take_map)
  then show "prefix s t" by (simp only: ascii_inject) (metis take_is_prefix)
qed (auto simp: prefix_def ascii_append)

lemma slash_no_name: "\<not> Keystore.name_char (CHR ''/'')"
  by code_simp

lemma name_no_slash: "validateWalletName name = None \<Longrightarrow> CHR ''/'' \<notin> set name"
  by (auto simp: validateWalletName_def slash_no_name split: list.splits if_splits)

lemma slash_split:
  assumes "w @ CHR ''/'' # xs = w' @ CHR ''/'' # ys" and "CHR ''/'' \<notin> set w" and "CHR ''/'' \<notin> set w'"
  shows "w = w' \<and> xs = ys"
  using assms
proof (induction w arbitrary: w')
  case Nil
  then show ?case by (cases w') auto
next
  case (Cons a w)
  then show ?case by (cases w') auto
qed

text \<open>The keys of a wallet are its entries and its record.\<close>

definition own_key :: "string \<Rightarrow> string \<Rightarrow> bytes \<Rightarrow> bool" where
  "own_key w c k \<longleftrightarrow> prefix (entryKeyPrefix w c) k \<or> k = metaKey w c"

lemma metaKey_no_entry [simp]: "\<not> prefix (entryKeyPrefix w c) (metaKey w' c')"
  by (auto simp: entryKeyPrefix_def metaKey_def)

lemma own_key_wallet:
  assumes "validateWalletName w = None" and "validateWalletName w' = None" and "own_key w c k" and "own_key w' c k"
  shows "w = w'"
proof -
  note ns = name_no_slash [OF assms(1)] name_no_slash [OF assms(2)]
  show ?thesis
  proof (cases "k = metaKey w c")
    case True
    then have "metaKey w c = metaKey w' c" using assms(4) by (auto simp: own_key_def)
    then show ?thesis using slash_split [of w c w' c] ns by (auto simp: metaKey_def simp flip: ascii_append)
  next
    case False
    then have "prefix (entryKeyPrefix w c) k" "prefix (entryKeyPrefix w' c) k"
      using assms(3,4) by (auto simp: own_key_def)
    then have "prefix (entryKeyPrefix w c) (entryKeyPrefix w' c) \<or> prefix (entryKeyPrefix w' c) (entryKeyPrefix w c)"
      by (rule prefix_same_cases)
    then have "prefix (w @ ''/'' @ c @ ''/'') (w' @ ''/'' @ c @ ''/'') \<or> prefix (w' @ ''/'' @ c @ ''/'') (w @ ''/'' @ c @ ''/'')"
      unfolding entryKeyPrefix_def ascii_prefix_inject by simp
    then show ?thesis by (auto simp: prefix_def dest: slash_split [OF _ ns] slash_split [OF _ ns(2,1)])
  qed
qed

section \<open>What the index holds\<close>

text \<open>The entries of a block, with their keys.\<close>

definition index_pairs :: "string \<Rightarrow> string \<Rightarrow> u64 \<Rightarrow> history_entry list \<Rightarrow> (bytes \<times> idx_doc) list" where
  "index_pairs w c h es = map (\<lambda>i. (entryKey w c h i, IEntry (es ! i))) [0..<length es]"

text \<open>The entries of a wallet in the map are those of the blocks at the heights in \<open>A\<close>.\<close>

definition holds :: "string \<Rightarrow> string \<Rightarrow> (u64 \<Rightarrow> history_entry list) \<Rightarrow> u64 set \<Rightarrow> (bytes \<rightharpoonup> idx_doc) \<Rightarrow> bool" where
  "holds w c es A m \<longleftrightarrow>
     {(k, v). prefix (entryKeyPrefix w c) k \<and> m k = Some v} = (\<Union>h \<in> A. set (index_pairs w c h (es h)))"

definition small :: "(u64 \<Rightarrow> history_entry list) \<Rightarrow> u64 set \<Rightarrow> bool" where
  "small es A \<longleftrightarrow> (\<forall>h \<in> A. length (es h) \<le> 2 ^ 32)"

lemma enumerate_pairs:
  "map (\<lambda>(i, e). (entryKey w c h i, IEntry e)) (List.enumerate 0 es) = index_pairs w c h es"
  by (rule nth_equalityI) (simp_all add: index_pairs_def nth_enumerate_eq)

lemma index_pairs_keys: "length es \<le> 2 ^ 32 \<Longrightarrow> distinct (map fst (index_pairs w c h es))"
  by (auto simp: index_pairs_def comp_def distinct_map inj_on_def entryKey_inject)

lemma index_pairs_height:
  "length es \<le> 2 ^ 32 \<Longrightarrow> length es' \<le> 2 ^ 32 \<Longrightarrow> (k, v) \<in> set (index_pairs w c h es) \<Longrightarrow>
   (k, v') \<in> set (index_pairs w c h' es') \<Longrightarrow> h = h'"
  by (auto simp: index_pairs_def entryKey_inject)

lemma holds_cong: "(\<And>h. h \<in> A \<Longrightarrow> es h = es' h) \<Longrightarrow> holds w c es A m = holds w c es' A m"
  by (simp add: holds_def)

lemma holds_empty_blocks: "(\<And>h. h \<in> A - B \<Longrightarrow> es h = []) \<Longrightarrow> (\<And>h. h \<in> B - A \<Longrightarrow> es h = []) \<Longrightarrow>
   holds w c es A m \<Longrightarrow> holds w c es B m"
proof -
  assume e: "\<And>h. h \<in> A - B \<Longrightarrow> es h = []" "\<And>h. h \<in> B - A \<Longrightarrow> es h = []"
  have "(\<Union>h \<in> A. set (index_pairs w c h (es h))) = (\<Union>h \<in> B. set (index_pairs w c h (es h)))"
  proof (intro equalityI subsetI)
    fix x assume "x \<in> (\<Union>h \<in> A. set (index_pairs w c h (es h)))"
    then show "x \<in> (\<Union>h \<in> B. set (index_pairs w c h (es h)))" using e(1) by (force simp: index_pairs_def)
  next
    fix x assume "x \<in> (\<Union>h \<in> B. set (index_pairs w c h (es h)))"
    then show "x \<in> (\<Union>h \<in> A. set (index_pairs w c h (es h)))" using e(2) by (force simp: index_pairs_def)
  qed
  then show "holds w c es A m \<Longrightarrow> holds w c es B m" by (simp add: holds_def)
qed

lemma holds_other:
  assumes "\<And>k. prefix (entryKeyPrefix w c) k \<Longrightarrow> m' k = m k" and "holds w c es A m"
  shows "holds w c es A m'"
proof -
  have "{(k, v). prefix (entryKeyPrefix w c) k \<and> m' k = Some v} = {(k, v). prefix (entryKeyPrefix w c) k \<and> m k = Some v}"
    using assms(1) by auto
  then show ?thesis using assms(2) by (simp add: holds_def)
qed

locale tx_index = kv_store X view for X :: "('i, idx_doc) kvdb" and view
begin

lemma view_puts: "view (fold (\<lambda>(k, v). kv_put X k v) kvs s) = view s ++ map_of (rev kvs)"
  by (induction kvs arbitrary: s) (auto simp: put map_add_def fun_eq_iff split: option.splits)

lemma view_PutEntries: "view (PutEntries X w c h es s) = view s ++ map_of (rev (index_pairs w c h es))"
proof -
  have "PutEntries X w c h es s = fold (\<lambda>(k, v). kv_put X k v) (index_pairs w c h es) s"
    unfolding PutEntries_def enumerate_pairs [symmetric] by (simp add: fold_map comp_def case_prod_unfold)
  then show ?thesis by (simp add: view_puts)
qed

lemma PutEntries_get:
  assumes "length es \<le> 2 ^ 32"
  shows "view (PutEntries X w c h es s) k =
    (if k \<in> fst ` set (index_pairs w c h es) then map_of (index_pairs w c h es) k else view s k)"
proof -
  have rev: "map_of (rev (index_pairs w c h es)) = map_of (index_pairs w c h es)"
    using index_pairs_keys [OF assms] by (subst map_of_inject_set) (simp_all flip: rev_map)
  then show ?thesis
  proof (cases "map_of (index_pairs w c h es) k")
    case (Some v)
    then have "k \<in> fst ` set (index_pairs w c h es)" by (metis map_of_SomeD fst_conv image_eqI)
    then show ?thesis using Some rev by (simp add: view_PutEntries map_add_def)
  next
    case None
    then have "k \<notin> fst ` set (index_pairs w c h es)" by (simp only: map_of_eq_None_iff) simp
    then show ?thesis using None rev by (simp add: view_PutEntries map_add_def del: map_of_eq_None_iff)
  qed
qed

lemma PutEntries_other: "\<not> prefix (entryKeyPrefix w c) k \<Longrightarrow> view (PutEntries X w c h es s) k = view s k"
proof -
  assume "\<not> prefix (entryKeyPrefix w c) k"
  then have "map_of (rev (index_pairs w c h es)) k = None"
    by (auto simp: map_of_eq_None_iff index_pairs_def prefix_entryKey)
  then show ?thesis by (simp add: view_PutEntries map_add_def)
qed

lemma PutEntries_holds:
  assumes "holds w c es A (view s)" and "small es (insert h A)" 
  shows "holds w c es (insert h A) (view (PutEntries X w c h (es h) s))"
proof -
  let ?P = "index_pairs w c h (es h)" 
  have len: "length (es h) \<le> 2 ^ 32" using assms(2) by (simp add: small_def)
  have new: "map_of ?P k = Some v \<longleftrightarrow> (k, v) \<in> set ?P" for k v
    using index_pairs_keys [OF len] by (simp add: map_of_eq_Some_iff)
  have old: "prefix (entryKeyPrefix w c) k \<and> view s k = Some v \<longleftrightarrow> (\<exists>x \<in> A. (k, v) \<in> set (index_pairs w c x (es x)))" for k v
    using assms(1) by (auto simp: holds_def set_eq_iff)
  have "prefix (entryKeyPrefix w c) k \<and> view (PutEntries X w c h (es h) s) k = Some v \<longleftrightarrow>
      (\<exists>x \<in> insert h A. (k, v) \<in> set (index_pairs w c x (es x)))" for k v
  proof (cases "k \<in> fst ` set ?P")
    case True
    then have p: "prefix (entryKeyPrefix w c) k" by (auto simp: index_pairs_def prefix_entryKey)
    have "(k, v) \<in> set ?P" if "x \<in> A" "(k, v) \<in> set (index_pairs w c x (es x))" for x
    proof -
      have "length (es x) \<le> 2 ^ 32" using assms(2) that(1) by (simp add: small_def)
      then have "x = h" using index_pairs_height [OF _ len that(2)] True by force
      then show ?thesis using that(2) by simp
    qed
    then show ?thesis using True p by (auto simp: PutEntries_get [OF len] new)
  next
    case False
    then have "(k, v) \<notin> set ?P" by force
    then show ?thesis using False old [of k v] by (simp add: PutEntries_get [OF len])
  qed
  then show ?thesis by (auto simp: holds_def set_eq_iff)
qed

end

section \<open>An update of the index\<close>

definition meta_in :: "string \<Rightarrow> string \<Rightarrow> (bytes \<rightharpoonup> idx_doc) \<Rightarrow> index_meta option" where
  "meta_in w c m = (case m (metaKey w c) of None \<Rightarrow> Some fresh_meta | Some (IMeta x) \<Rightarrow> Some x | Some d \<Rightarrow> None)"

abbreviation entry_count :: "(u64 \<Rightarrow> history_entry list) \<Rightarrow> u64 set \<Rightarrow> int" where
  "entry_count es A \<equiv> (\<Sum>h \<in> A. int (length (es h)))"

text \<open>The index agrees with the blocks up to a height that its record names, if it has entries at all.\<close>

definition synced :: "string \<Rightarrow> string \<Rightarrow> (u64 \<Rightarrow> history_entry list) \<Rightarrow> u64 \<Rightarrow> (bytes \<rightharpoonup> idx_doc) \<Rightarrow> bool" where
  "synced w c es tip m \<longleftrightarrow>
     (\<exists>A x. meta_in w c m = Some x \<and> holds w c es A m \<and> im_count x = entry_count es A \<and>
        (im_count x \<noteq> 0 \<longrightarrow> A = {..im_last_height x} \<and> im_last_height x \<le> tip))"

lemma word_range_step: "h \<le> l \<Longrightarrow> l < max_u64 \<Longrightarrow> {h..l} = insert h {h + 1..l}" "h \<le> l \<Longrightarrow> l < max_u64 \<Longrightarrow> h \<notin> {h + 1..l}"
proof -
  assume "h \<le> l" "l < max_u64"
  then have "unat (h + 1) = unat h + 1" by unat_arith
  then show "{h..l} = insert h {h + 1..l}" "h \<notin> {h + 1..l}"
    using \<open>h \<le> l\<close> by (auto simp: word_le_nat_alt) (metis Suc_leI le_neq_implies_less word_unat_eq_iff)
qed

context tx_index begin

lemma GetMeta_view: "GetMeta X w c s = meta_in w c (view s)"
  by (simp add: GetMeta_def meta_in_def get)

lemma index_loop_run:
  assumes "l < max_u64" and "holds w c es A (view s)" and "small es (A \<union> {h..l})"
    and "\<And>x. h \<le> x \<Longrightarrow> x \<le> l \<Longrightarrow> es x = entries_or_none (at_height x)"
  shows "\<exists>s'. index_loop X at_height w c h l s n = Some (s', n + entry_count es {h..l}) \<and>
    holds w c es (A \<union> {h..l}) (view s') \<and> (\<forall>k. \<not> prefix (entryKeyPrefix w c) k \<longrightarrow> view s' k = view s k)"
  using assms(2-4)
proof (induction "unat l + 1 - unat h" arbitrary: h s A n rule: less_induct)
  case less
  note holds_s = less.prems(1) and small = less.prems(2) and at = less.prems(3)
  show ?case
  proof (cases "h > l")
    case True
    then show ?thesis using less.prems by (subst index_loop.simps) simp
  next
    case False
    then have le: "h \<le> l" by simp
    note range = word_range_step [OF le assms(1)]
    let ?s = "PutEntries X w c h (es h) s"
    have next_h: "unat (h + 1) = unat h + 1" using le assms(1) by unat_arith
    then have m: "unat l + 1 - unat (h + 1) < unat l + 1 - unat h" using le by (simp add: word_le_nat_alt)
    have "holds w c es (insert h A) (view ?s)"
      using holds_s small range(1) by (intro PutEntries_holds) (auto simp: small_def)
    moreover have "small es (insert h A \<union> {h + 1..l})" using small range(1) by simp
    moreover have "es x = entries_or_none (at_height x)" if "h + 1 \<le> x" "x \<le> l" for x
      using that next_h by (intro at) (simp_all add: word_le_nat_alt)
    ultimately obtain s' where s': "index_loop X at_height w c (h + 1) l ?s (n + int (length (es h))) =
          Some (s', n + int (length (es h)) + entry_count es {h + 1..l})"
        "holds w c es (insert h A \<union> {h + 1..l}) (view s')" "\<forall>k. \<not> prefix (entryKeyPrefix w c) k \<longrightarrow> view s' k = view ?s k"
      using less.hyps [OF m] by blast
    have "index_loop X at_height w c h l s n = Some (s', n + entry_count es {h..l})"
      using s'(1) False range by (subst index_loop.simps) (simp add: Let_def flip: at [OF order_refl le])
    then show ?thesis using s'(2,3) range(1) by (auto simp: PutEntries_other)
  qed
qed

lemma setMeta_view: "view (setMeta X w c x s) = (view s)(metaKey w c \<mapsto> IMeta x)"
  by (simp add: setMeta_def put)

lemma holds_setMeta: "holds w c es A m \<Longrightarrow> holds w c es A (m(metaKey w c := v))"
  by (rule holds_other) auto

lemma IndexBlocks_run:
  assumes "meta_in w c (view s) = Some x" and "l < max_u64" and "holds w c es A (view s)" and "small es (A \<union> {h..l})"
    and "\<And>x. h \<le> x \<Longrightarrow> x \<le> l \<Longrightarrow> es x = entries_or_none (at_height x)"
  shows "\<exists>s'. IndexBlocks X at_height w c h l s = Some (s', True) \<and> holds w c es (A \<union> {h..l}) (view s') \<and>
    meta_in w c (view s') = Some \<lparr>im_last_height = l, im_count = im_count x + entry_count es {h..l}\<rparr> \<and>
    (\<forall>k. \<not> own_key w c k \<longrightarrow> view s' k = view s k)"
  using index_loop_run [OF assms(2-5), where n = 0] assms(1)
  by (auto simp: IndexBlocks_def GetMeta_view holds_setMeta setMeta_view meta_in_def own_key_def)

lemma getHistoryIndexed_synced:
  assumes "synced w c es tip (view s)" and "tip < max_u64" and "small es {..tip}"
    and "\<And>x h. meta_in w c (view s) = Some x \<Longrightarrow> start_of x \<le> h \<Longrightarrow> h \<le> tip \<Longrightarrow> es h = entries_or_none (at_height h)"
  shows "\<exists>s'. getHistoryIndexed X tip at_height w c limit offset s = Some (s', page_result (Query X w c limit offset s')) \<and>
    synced w c es tip (view s') \<and> holds w c es {..tip} (view s') \<and>
    meta_in w c (view s') = Some \<lparr>im_last_height = tip, im_count = entry_count es {..tip}\<rparr> \<and>
    (\<forall>k. \<not> own_key w c k \<longrightarrow> view s' k = view s k)"
proof -
  obtain A x where ax: "meta_in w c (view s) = Some x" "holds w c es A (view s)" "im_count x = entry_count es A"
      "im_count x \<noteq> 0 \<longrightarrow> A = {..im_last_height x} \<and> im_last_height x \<le> tip"
    using assms(1) unfolding synced_def by (elim exE conjE) (rule that, assumption+)
  define B where "B = (if im_count x = 0 then {} else A)"
  have B: "holds w c es B (view s)" "im_count x = entry_count es B" "B \<subseteq> {..tip}"
  proof -
    have "es h = []" if "im_count x = 0" "h \<in> A" for h using that ax(3) by (simp add: sum_nonneg_eq_0_iff)
    then have "holds w c es {} (view s)" if "im_count x = 0" using holds_empty_blocks [OF _ _ ax(2), of "{}"] that by simp
    then show "holds w c es B (view s)" using ax(2) by (simp add: B_def)
    show "im_count x = entry_count es B" "B \<subseteq> {..tip}" using ax(3,4) by (auto simp: B_def)
  qed
  have not_reorged: "\<not> (im_count x > 0 \<and> tip < im_last_height x)" using ax(4) by auto
  have unfolded: "getHistoryIndexed X tip at_height w c limit offset s =
      (if start_of x \<le> tip
       then map_option (\<lambda>(s2, indexed). (s2, if indexed then page_result (Query X w c limit offset s2) else Inl (InternalError CorruptIndex)))
              (IndexBlocks X at_height w c (start_of x) tip s)
       else Some (s, page_result (Query X w c limit offset s)))"
    by (simp only: getHistoryIndexed_def GetMeta_view ax(1) option.case Let_def not_reorged if_False)
  show ?thesis
  proof (cases "start_of x \<le> tip")
    case True
    have parts: "B \<union> {start_of x..tip} = {..tip} \<and> B \<inter> {start_of x..tip} = {}"
    proof (cases "im_count x = 0")
      case False
      then have "B = {..im_last_height x}" "im_last_height x \<le> tip" using ax(4) by (auto simp: B_def)
      moreover have "unat (im_last_height x + 1) = unat (im_last_height x) + 1" using \<open>im_last_height x \<le> tip\<close> assms(2) by unat_arith
      ultimately show ?thesis using False by (auto simp: start_of_def word_le_nat_alt)
    qed (auto simp: B_def start_of_def)
    then have "small es (B \<union> {start_of x..tip})" using assms(3) by simp
    from IndexBlocks_run [OF ax(1) assms(2) B(1) this assms(4) [OF ax(1)]] parts obtain s' where
      s': "IndexBlocks X at_height w c (start_of x) tip s = Some (s', True)" "holds w c es {..tip} (view s')"
        "meta_in w c (view s') = Some \<lparr>im_last_height = tip, im_count = im_count x + entry_count es {start_of x..tip}\<rparr>"
        "\<forall>k. \<not> own_key w c k \<longrightarrow> view s' k = view s k"
      by auto
    have "entry_count es B + entry_count es {start_of x..tip} = entry_count es {..tip}"
      using parts by (metis finite sum.union_disjoint)
    then have "meta_in w c (view s') = Some \<lparr>im_last_height = tip, im_count = entry_count es {..tip}\<rparr>"
      using s'(3) B(2) by simp
    moreover from this have "synced w c es tip (view s')" using s'(2) by (auto simp: synced_def intro!: exI [of _ "{..tip}"])
    ultimately show ?thesis using s' True by (auto simp: unfolded)
  next
    case False
    then have "im_count x \<noteq> 0" by (auto simp: start_of_def)
    have last: "im_last_height x = tip"
    proof -
      have "im_last_height x \<le> tip" "\<not> im_last_height x + 1 \<le> tip"
        using False ax(4) \<open>im_count x \<noteq> 0\<close> by (simp_all add: start_of_def)
      moreover have "unat (im_last_height x + 1) = unat (im_last_height x) + 1"
        using \<open>im_last_height x \<le> tip\<close> assms(2) by unat_arith
      ultimately show ?thesis by (simp add: word_le_nat_alt word_unat_eq_iff)
    qed
    have A: "A = {..tip}" using ax(4) last \<open>im_count x \<noteq> 0\<close> by simp
    have "x = \<lparr>im_last_height = tip, im_count = entry_count es {..tip}\<rparr>" using last ax(3) unfolding A by (cases x) simp
    then show ?thesis using False ax(1,2) assms(1) A by (auto simp: unfolded)
  qed
qed

end

section \<open>A query\<close>

definition heights_down :: "u64 \<Rightarrow> u64 list" where
  "heights_down tip = map word_of_nat (rev [0..<Suc (unat tip)])"

text \<open>The reference: the entries of all blocks, from the tip down.\<close>

definition history_down :: "(u64 \<Rightarrow> history_entry list) \<Rightarrow> u64 \<Rightarrow> history_entry list" where
  "history_down es tip = concat (map es (heights_down tip))"

lemma set_heights_down: "set (heights_down tip) = {..tip}"
proof -
  have "word_of_nat ` {0..<Suc (unat tip)} = {..tip}"
  proof (intro equalityI subsetI)
    fix h assume "h \<in> {..tip}"
    then have "h = word_of_nat (unat h)" "unat h \<in> {0..<Suc (unat tip)}" by (simp_all add: word_le_nat_alt)
    then show "h \<in> word_of_nat ` {0..<Suc (unat tip)}" by (rule image_eqI)
  next
    fix h :: u64 assume "h \<in> word_of_nat ` {0..<Suc (unat tip)}"
    then obtain n where "h = word_of_nat n" "n < Suc (unat tip)" by auto
    then show "h \<in> {..tip}"
      using unat_u64_less [of tip] by (simp add: word_le_nat_alt unat_of_nat take_bit_nat_eq_self less_Suc_eq_le)
  qed
  then show ?thesis by (simp add: heights_down_def del: upt_Suc)
qed

lemma heights_down_sorted: "sorted_wrt (>) (heights_down tip)"
proof -
  have "sorted_wrt (\<lambda>m n. n < m \<and> m \<le> unat tip) (rev [0..<Suc k])" if "k \<le> unat tip" for k
    using that by (induction k) (auto simp: less_Suc_eq)
  then have "sorted_wrt (\<lambda>m n. n < m \<and> m \<le> unat tip) (rev [0..<Suc (unat tip)])" by blast
  moreover have "(word_of_nat n :: u64) < word_of_nat m" if "n < m" "m \<le> unat tip" for m n
    using that unat_u64_less [of tip] by (simp add: word_less_nat_alt unat_of_nat take_bit_nat_eq_self)
  ultimately show ?thesis
    unfolding heights_down_def sorted_wrt_map by (rule sorted_wrt_mono_rel [rotated]) auto
qed

lemma index_pairs_sorted:
  "length es \<le> 2 ^ 32 \<Longrightarrow> sorted_wrt (<) (map fst (index_pairs w c h es))"
  by (auto simp: index_pairs_def comp_def sorted_wrt_iff_nth_less entryKey_less)

lemma all_pairs_sorted:
  "sorted_wrt (>) hs \<Longrightarrow> small es (set hs) \<Longrightarrow>
   sorted_wrt (<) (map fst (concat (map (\<lambda>h. index_pairs w c h (es h)) hs)))"
proof (induction hs)
  case (Cons h hs)
  have "fst p < fst q" if "p \<in> set (index_pairs w c h (es h))" "x \<in> set hs" "q \<in> set (index_pairs w c x (es x))" for p q x
  proof -
    have "x < h" using Cons.prems(1) that(2) by simp
    moreover have "length (es h) \<le> 2 ^ 32" "length (es x) \<le> 2 ^ 32" using Cons.prems(2) that(2) by (auto simp: small_def)
    ultimately show ?thesis using that(1,3) by (auto simp: index_pairs_def entryKey_less)
  qed
  then show ?case using Cons by (auto simp: sorted_wrt_append index_pairs_sorted small_def)
qed simp

text \<open>A sort by distinct keys has one result.\<close>

lemma sort_key_unique:
  fixes xs ys :: "('k::linorder \<times> 'v) list"
  assumes "distinct (map fst xs)" and "set xs = set ys" and "sorted_wrt (<) (map fst ys)"
  shows "sort_key fst xs = ys"
proof -
  have sorted: "sorted (map fst ys)" "distinct (map fst ys)"
    using assms(3) strict_sorted_iff by blast+
  have keys: "map fst (sort_key fst xs) = map fst ys"
    using assms(1,2) sorted by (intro sorted_distinct_set_unique) (simp_all add: distinct_map)
  have eq: "(fst x, the (map_of ys (fst x))) = x" if "x \<in> set ys" for x
    using that map_of_is_SomeI [OF sorted(2), of "fst x" "snd x"] by simp
  then have rebuild: "map (\<lambda>k. (k, the (map_of ys k))) (map fst zs) = zs" if "set zs = set ys" for zs
    unfolding map_map comp_def using that by (intro map_idI eq) simp
  have "sort_key fst xs = map (\<lambda>k. (k, the (map_of ys k))) (map fst (sort_key fst xs))"
    by (rule rebuild [symmetric]) (simp add: assms(2))
  also have "\<dots> = ys" unfolding keys by (rule rebuild [OF refl])
  finally show ?thesis .
qed

lemma paged_map: "paged limit offset (map f xs) = map_option (map f) (paged limit offset xs)"
  by (simp add: paged_def Let_def take_map drop_map)

lemma paged_subset: "paged limit offset xs = Some ys \<Longrightarrow> set ys \<subseteq> set xs"
  by (auto simp: paged_def Let_def split: if_splits dest: in_set_takeD in_set_dropD)

lemma map_filter_all: "(\<And>x. x \<in> set ys \<Longrightarrow> f x \<noteq> None) \<Longrightarrow> List.map_filter f ys = map (the \<circ> f) ys"
  by (induction ys) (fastforce simp: List.map_filter_simps)+

lemma pairs_entries: "map (the \<circ> entry_of \<circ> snd) (index_pairs w c h es) = es"
  by (rule nth_equalityI) (simp_all add: index_pairs_def entry_of_def)

context tx_index begin

lemma Query_holds:
  assumes "holds w c es {..tip} (view s)" and "small es {..tip}"
  shows "Query X w c limit offset s =
    map_option (\<lambda>p. (p, length (history_down es tip))) (paged limit offset (history_down es tip))"
proof -
  let ?L = "concat (map (\<lambda>h. index_pairs w c h (es h)) (heights_down tip))" and ?f = "the \<circ> entry_of \<circ> snd"
  have "set (kv_items X s (entryKeyPrefix w c)) = set ?L"
    using assms(1) by (auto simp: items holds_def set_heights_down)
  then have sorted: "sort_key fst (kv_items X s (entryKeyPrefix w c)) = ?L"
    using items_distinct all_pairs_sorted [OF heights_down_sorted] assms(2)
    by (intro sort_key_unique) (simp_all add: set_heights_down)
  have "map ?f ?L = history_down es tip"
    unfolding history_down_def map_concat map_map comp_def [of "map ?f"] pairs_entries ..
  then have down: "history_down es tip = map ?f ?L" by simp
  have some: "(entry_of \<circ> snd) x \<noteq> None" if "x \<in> set ?L" for x
    using that by (auto simp: index_pairs_def entry_of_def)
  have "List.map_filter (entry_of \<circ> snd) ys = map ?f ys" if "paged limit offset ?L = Some ys" for ys
    unfolding comp_assoc by (rule map_filter_all, rule some, rule subsetD [OF paged_subset [OF that]])
  then show ?thesis
    unfolding down paged_map by (cases "paged limit offset ?L") (simp_all add: Query_def sorted Let_def)
qed

end

section \<open>The scan without an index\<close>

lemma fallback_loop_all:
  "es = entries_or_none \<circ> at_height \<Longrightarrow> length acc + length (concat (map es (map word_of_nat (rev [0..<n])))) < 1000 \<Longrightarrow>
   fallback_loop at_height (int n - 1) acc = acc @ concat (map es (map word_of_nat (rev [0..<n])))"
proof (induction n arbitrary: acc)
  case 0
  then show ?case by (subst fallback_loop.simps) simp
next
  case (Suc n)
  have "(word_of_int (int n) :: u64) = word_of_nat n" by simp
  moreover have "int (Suc n) - 1 = int n" by simp
  moreover have es: "es h = entries_or_none (at_height h)" for h using Suc.prems(1) by simp
  ultimately show ?case
    using Suc.IH [of "acc @ es (word_of_nat n)"] Suc.prems
    by (subst fallback_loop.simps) (auto simp: entries_or_none_def simp del: int_Suc split: option.splits)
qed

lemma getHistoryFallback_down:
  assumes "tip < 2 ^ 63" and "length (history_down (entries_or_none \<circ> at_height) tip) < 1000"
  shows "getHistoryFallback tip at_height limit offset =
    page_result (map_option (\<lambda>p. (p, length (history_down (entries_or_none \<circ> at_height) tip)))
      (paged limit offset (history_down (entries_or_none \<circ> at_height) tip)))"
proof -
  have "uint tip < 2 ^ 63" using assms(1) by (simp add: word_less_def)
  then have "sint tip = int (unat tip)" 
    using signed_take_bit_int_eq_self [of 63 "uint tip", OF order_trans [OF _ unsigned_greater_eq]] by (simp add: sint_uint)
  then show ?thesis
    using fallback_loop_all [OF refl, of "[]" at_height "Suc (unat tip)"] assms(2)
    by (simp add: getHistoryFallback_def history_down_def heights_down_def)
qed

end
