(* ===== verification/HistoryEntries.thy ===== *)
theory HistoryEntries
  imports History PaymentProps
begin

text \<open>
  Which transactions the history of a wallet lists, and what an entry looks like. The sums of the
  classification are Go \<open>uint64\<close> and wrap; below that they are the sums of the amounts.
\<close>

section \<open>Amounts as text\<close>

definition digits_value :: "string \<Rightarrow> nat" where
  "digits_value s = foldl (\<lambda>v c. 10 * v + (of_char c - 48)) 0 s"

lemma digits_value_append: "digits_value (s @ [c]) = 10 * digits_value s + (of_char c - 48)"
  by (simp add: digits_value_def)

lemma digit_char: "n < 10 \<Longrightarrow> of_char (char_of (48 + n) :: char) = (48 + n :: nat)"
  by (simp add: of_char_of)

lemma digits_value_decimal: "digits_value (decimal n) = n"
proof (induction n rule: less_induct)
  case (less n)
  show ?case
  proof (cases "n < 10")
    case True
    then show ?thesis by (subst decimal.simps) (simp add: digits_value_def digit_char)
  next
    case False
    then have "digits_value (decimal (n div 10)) = n div 10" by (intro less) simp
    then show ?thesis using False by (subst decimal.simps) (simp add: digits_value_append digit_char)
  qed
qed

lemma decimal_digits: "c \<in> set (decimal n) \<Longrightarrow> \<exists>d < 10. c = char_of (48 + d :: nat)"
proof (induction n rule: less_induct)
  case (less n)
  show ?case
  proof (cases "n < 10")
    case True
    then show ?thesis using less.prems by (subst (asm) decimal.simps) auto
  next
    case False
    then have "c \<in> set (decimal (n div 10)) \<or> c = char_of (48 + n mod 10)" using less.prems by (subst (asm) decimal.simps) auto
    moreover have "\<exists>d < 10. char_of (48 + n mod 10) = (char_of (48 + d :: nat) :: char)" by (rule exI [of _ "n mod 10"]) simp
    moreover have "n div 10 < n" using False by simp
    ultimately show ?thesis using less.IH by blast
  qed
qed

lemma decimal_no_dot: "CHR ''.'' \<notin> set (decimal n)"
proof
  assume "CHR ''.'' \<in> set (decimal n)"
  then obtain d where "d < 10" "CHR ''.'' = char_of (48 + d :: nat)" using decimal_digits by blast
  then have "(of_char (CHR ''.'') :: nat) = 48 + d" by (simp add: digit_char)
  then show False by simp
qed

lemma digits_value_zeros: "digits_value (replicate n (CHR ''0'') @ s) = digits_value s"
proof -
  have "foldl (\<lambda>v c. 10 * v + (of_char c - 48)) 0 (replicate n (CHR ''0'')) = (0 :: nat)" by (induction n) simp_all
  then show ?thesis by (simp add: digits_value_def)
qed

lemma formatAmount_inject: "formatAmount a = formatAmount b \<longleftrightarrow> a = b"
proof
  assume eq: "formatAmount a = formatAmount b"
  let ?p = "\<lambda>c. c \<noteq> CHR ''.''"
  have parts: "takeWhile ?p (formatAmount v) = decimal (unat v div Coin)"
      "drop 1 (dropWhile ?p (formatAmount v)) = pad_zeros 12 (decimal (unat v mod Coin))" for v
    using decimal_no_dot [of "unat v div Coin"]
    by (auto simp: formatAmount_def takeWhile_append dropWhile_append simp del: drop_0)
  have "digits_value (decimal (unat a div Coin)) = digits_value (decimal (unat b div Coin))"
    using eq parts(1) by metis
  moreover have "digits_value (pad_zeros 12 (decimal (unat a mod Coin))) = digits_value (pad_zeros 12 (decimal (unat b mod Coin)))"
    using eq parts(2) by metis
  ultimately have "unat a div Coin = unat b div Coin" "unat a mod Coin = unat b mod Coin"
    by (simp_all add: digits_value_decimal pad_zeros_def digits_value_zeros)
  then have "unat a = unat b" by (metis mult_div_mod_eq)
  then show "a = b" by (simp add: word_unat_eq_iff)
qed simp

lemma no_fee_amount: "no_fee = formatAmount 0"
proof -
  have "decimal 0 = ''0''" by code_simp
  moreover have "pad_zeros 12 ''0'' = ''000000000000''" by (simp add: pad_zeros_def numeral_eq_Suc)
  ultimately show ?thesis by (simp add: no_fee_def formatAmount_def)
qed

section \<open>The sums of the outputs\<close>

definition ours :: "address set \<Rightarrow> txout \<Rightarrow> bool" where
  "ours mine out \<longleftrightarrow> (case scriptToAddress (out_script out) of None \<Rightarrow> False | Some a \<Rightarrow> a \<in> mine)"

definition our_value :: "address set \<Rightarrow> txout \<Rightarrow> u64" where
  "our_value mine out = (if ours mine out \<and> out_token out = None then out_value out else 0)"

definition our_tokens :: "address set \<Rightarrow> hash \<Rightarrow> txout \<Rightarrow> u64" where
  "our_tokens mine i out =
     (case out_token out of None \<Rightarrow> 0 | Some td \<Rightarrow> if ours mine out \<and> td_id td = i then td_amount td else 0)"

definition token_amount :: "txout \<Rightarrow> u64" where
  "token_amount out = (case out_token out of None \<Rightarrow> 0 | Some td \<Rightarrow> td_amount td)"

definition flow_our :: "(hash \<times> token_flow) list \<Rightarrow> hash \<Rightarrow> u64" where
  "flow_our fl i = (case map_of fl i of None \<Rightarrow> 0 | Some tf \<Rightarrow> tf_our tf)"

lemma add_output_sums_cases:
  "os_ours (add_output_sums hrp mine out st) = os_ours st + our_value mine out"
  "flow_our (os_flows (add_output_sums hrp mine out st)) i = flow_our (os_flows st) i + our_tokens mine i out"
  "distinct (map fst (os_flows st)) \<Longrightarrow> distinct (map fst (os_flows (add_output_sums hrp mine out st)))"
  by (auto simp: add_output_sums_def our_value_def our_tokens_def ours_def flow_our_def Let_def update_conv distinct_update
      split: option.splits)

lemma fold_output_sums:
  "os_ours (fold (add_output_sums hrp mine) outs st) = os_ours st + sum_list (map (our_value mine) outs)"
  "flow_our (os_flows (fold (add_output_sums hrp mine) outs st)) i =
     flow_our (os_flows st) i + sum_list (map (our_tokens mine i) outs)"
  "distinct (map fst (os_flows st)) \<Longrightarrow> distinct (map fst (os_flows (fold (add_output_sums hrp mine) outs st)))"
  by (induction outs arbitrary: st) (simp_all add: add_output_sums_cases algebra_simps)

lemma sum_list_unat: "sum_u64 f xs < 2 ^ 64 \<Longrightarrow> unat (sum_list (map f xs)) = sum_u64 f xs"
  by (induction xs) (simp_all add: unat_add_u64)

lemma sum_list_zero:
  assumes "sum_u64 g xs < 2 ^ 64" and "\<And>x. f x \<le> g x"
  shows "sum_list (map f xs) = 0 \<longleftrightarrow> (\<forall>x \<in> set xs. f x = 0)"
proof -
  have "sum_u64 f xs \<le> sum_u64 g xs" using assms(2) by (induction xs) (simp_all add: word_le_nat_alt add_mono)
  then have "unat (sum_list (map f xs)) = sum_u64 f xs" using assms(1) by (intro sum_list_unat) simp
  moreover have "sum_u64 f xs = 0 \<longleftrightarrow> (\<forall>x \<in> set xs. f x = 0)" by (induction xs) (auto simp: unat_eq_zero)
  ultimately show ?thesis by (metis unat_eq_zero)
qed

lemma received_by_us:
  assumes "distinct (map fst fl)"
  shows "hasTokenReceivedByUs fl \<longleftrightarrow> (\<exists>i. flow_our fl i > 0)"
proof -
  have "(i, tf) \<in> set fl \<longleftrightarrow> map_of fl i = Some tf" for i tf using assms by simp
  moreover have "flow_our fl i > 0 \<longleftrightarrow> (\<exists>tf. map_of fl i = Some tf \<and> tf_our tf > 0)" for i
    by (auto simp: flow_our_def split: option.splits)
  ultimately show ?thesis unfolding hasTokenReceivedByUs_def by (metis (mono_tags, lifting) case_prodE case_prodI)
qed

lemma collect_inputs_ours:
  "is_ours (collect_inputs W lookup mine n t) \<longleftrightarrow>
     \<not> is_coinbase_tx n t \<and>
     (\<exists>i \<in> set (tx_inputs t). \<not> is_coinbase_input i \<and> length (in_pubkey i) = 33 \<and> AddressFromPubKey (rc_crypto W) (in_pubkey i) \<in> mine)"
proof -
  have "is_ours (fold (add_input_sums C hrp lookup mine) is st) \<longleftrightarrow> is_ours st \<or>
      (\<exists>i \<in> set is. \<not> is_coinbase_input i \<and> length (in_pubkey i) = 33 \<and> AddressFromPubKey C (in_pubkey i) \<in> mine)" for C hrp "is" st
    by (induction "is" arbitrary: st) (auto simp: add_input_sums_def Let_def)
  then show ?thesis by (simp add: collect_inputs_def no_inputs_def)
qed

section \<open>What is listed\<close>

lemma classifyTx_None:
  "classifyTx W order lookup mine n t = None \<longleftrightarrow>
     \<not> is_ours (collect_inputs W lookup mine n t) \<and> \<not> hasTokenReceivedByUs (os_flows (collect_outputs W mine t)) \<and>
     os_ours (collect_outputs W mine t) = 0"
  by (auto simp: classifyTx_def Let_def word_gt_0 split: prod.splits option.splits)


definition demo_reward :: transaction where
  "demo_reward = \<lparr>tx_version = 1, tx_inputs = [\<lparr>in_prevout = zero_outpoint, in_sig = [], in_pubkey = []\<rparr>],
     tx_outputs = [\<lparr>out_value = 20, out_script = p2pkh 0, out_token = None\<rparr>], tx_locktime = 0\<rparr>"


definition funded_types :: "string set" where
  "funded_types = {''staked'', ''unstaked'', ''register'', ''mint'', ''token_sent'', ''sent''}"

text \<open>
  C36: Every entry names its transaction, has one of the nine types, and carries an amount and a fee
  that are texts of one 64-bit amount each, from which that amount can be read back; a fee is charged
  to the wallet only in the types of transactions it funded, and token fields occur only in the token types.
\<close>

theorem classified_entry_shape:
  assumes "classifyTx W order lookup mine n t = Some e"
  shows "he_tx e = hash_string (TxHash (rc_crypto W) t) \<and>
    he_type e \<in> funded_types \<union> {''mined'', ''token_received'', ''received''} \<and>
    (\<exists>!a. he_amount e = formatAmount a) \<and> (\<exists>!f. he_fee e = formatAmount f) \<and>
    (he_type e \<notin> funded_types \<longrightarrow> he_fee e = formatAmount 0) \<and>
    (he_type e \<in> funded_types \<longrightarrow> is_ours (collect_inputs W lookup mine n t)) \<and>
    (he_token e \<noteq> [] \<longrightarrow> he_type e \<in> {''mint'', ''token_sent'', ''token_received''})"
  using assms
  by (auto simp: classifyTx_def Let_def new_entry_def funded_types_def no_fee_amount formatAmount_inject
      split: if_splits option.splits prod.splits list.splits)

theorem classified_entry_shape_witness:
  "\<exists>e. classifyTx demo_rpc (\<lambda>fs. fs) (\<lambda>h. None) {0} 0 demo_reward = Some e \<and> he_type e = ''mined'' \<and>
     he_amount e = formatAmount 20 \<and> he_fee e = formatAmount 0"
proof -
  have "classifyTx demo_rpc (\<lambda>fs. fs) (\<lambda>h. None) {0} 0 demo_reward =
      Some (new_entry (hash_string (TxHash size_crypto demo_reward)) ''mined'' (formatAmount 20) no_fee)"
  proof -
    have "is_coinbase_tx 0 demo_reward" by (simp add: is_coinbase_tx_def demo_reward_def)
    moreover have "os_ours (collect_outputs demo_rpc {0} demo_reward) = 20"
      by (simp add: collect_outputs_def demo_reward_def add_output_sums_cases our_value_def ours_def scriptToAddress_def
          p2pkh_def take_address_def)
    ultimately show ?thesis by (simp add: classifyTx_def demo_rpc_def)
  qed
  from classified_entry_shape [OF this] this show ?thesis by (auto simp: new_entry_def funded_types_def)
qed

end
