(* ===== verification/HistoryProps.thy ===== *)
theory HistoryProps
  imports HistoryIndex HistoryEntries
begin

text \<open>
  What the history endpoint promises: the index answers like a scan of the chain while the chain only
  grows, and keeps the entries of blocks that were disconnected; which transactions are listed; the
  request whose page bounds overflow; and the rescan that lowers the next index of a wallet.
\<close>

section \<open>Runs of the endpoint\<close>

definition wallet_addresses :: "keystore \<Rightarrow> string \<Rightarrow> address set" where
  "wallet_addresses ks name = (case ListAccounts ks name of Inl e \<Rightarrow> {} | Inr accounts \<Rightarrow> account_addresses accounts)"

definition wallet_entries ::
  "'k rpc_config \<Rightarrow> flow_order \<Rightarrow> 's rpc_state \<Rightarrow> keystore \<Rightarrow> string \<Rightarrow> u64 \<Rightarrow> history_entry list" where
  "wallet_entries W order S ks name h =
     entries_or_none (history_at W order (rs_root S) (wallet_addresses ks name) h)"

text \<open>The reference: the entries of the blocks from the tip down.\<close>

definition wallet_history ::
  "'k rpc_config \<Rightarrow> flow_order \<Rightarrow> 's rpc_state \<Rightarrow> keystore \<Rightarrow> string \<Rightarrow> history_entry list" where
  "wallet_history W order S ks name = history_down (wallet_entries W order S ks name) (ch_height (cc_chain (rs_root S)))"

abbreviation block_at :: "'s chain_context \<Rightarrow> u64 \<Rightarrow> block option" where
  "block_at cc \<equiv> GetBlockByHeight (en_db (cc_env cc)) (ch_db (cc_chain cc))"

abbreviation tip_of :: "'s rpc_state \<Rightarrow> u64" where
  "tip_of S \<equiv> ch_height (cc_chain (rs_root S))"

text \<open>The chain grew without a reorganisation: its blocks are where they were, and so are the sources of their inputs.\<close>

definition extends_chain :: "'s chain_context \<Rightarrow> 's chain_context \<Rightarrow> bool" where
  "extends_chain cc cc' \<longleftrightarrow>
     ch_height (cc_chain cc) \<le> ch_height (cc_chain cc') \<and>
     (\<forall>h \<le> ch_height (cc_chain cc). block_at cc' h = block_at cc h \<and>
        (\<forall>b. block_at cc h = Some b \<longrightarrow> (\<forall>t \<in> set (b_txs b). \<forall>i \<in> set (tx_inputs t).
           GetTransaction (cc_env cc') (cc_chain cc') (op_txid (in_prevout i)) =
           GetTransaction (cc_env cc) (cc_chain cc) (op_txid (in_prevout i)))))"

text \<open>
  From an empty index: the chain grows, the addresses of the wallets stay, and anyone asks for the
  history of any wallet.
\<close>

inductive history_run :: "'k rpc_config \<Rightarrow> flow_order \<Rightarrow> 's rpc_state \<Rightarrow> idx_doc memory_db \<Rightarrow> bool"
  for W :: "'k rpc_config" and order :: flow_order where
  hr_start: "(\<And>k. kv_get (NewWalletTxIndex MemoryDB) s k = None) \<Longrightarrow> history_run W order S s"
| hr_grow: "history_run W order S s \<Longrightarrow> extends_chain (rs_root S) (rs_root S') \<Longrightarrow> rs_keys S' = rs_keys S \<Longrightarrow>
    history_run W order S' s"
| hr_query: "history_run W order S s \<Longrightarrow>
    handleWalletGetHistory W order (Some (NewWalletTxIndex MemoryDB)) q S s = Some (s', r) \<Longrightarrow> history_run W order S s'"

text \<open>Heights that fit in Go's \<open>int64\<close>, and blocks whose positions fit in 32 bits.\<close>

definition bounded :: "'s chain_context \<Rightarrow> bool" where
  "bounded cc \<longleftrightarrow> ch_height (cc_chain cc) < 2 ^ 63 \<and>
     (\<forall>h \<le> ch_height (cc_chain cc). \<forall>b. block_at cc h = Some b \<longrightarrow> length (b_txs b) \<le> 2 ^ 32)"

interpretation xi: tx_index "NewWalletTxIndex MemoryDB" "\<lambda>s k. DAList.lookup s (ascii ''x/'' @ k)"
  unfolding NewWalletTxIndex_def by (rule tx_index.intro, rule pfx.kv_store_axioms)

section \<open>The classification depends on the sources of the inputs only\<close>

lemma classifyTx_cong:
  assumes "\<And>i. i \<in> set (tx_inputs t) \<Longrightarrow> lookup (op_txid (in_prevout i)) = lookup' (op_txid (in_prevout i))"
  shows "classifyTx W order lookup mine n t = classifyTx W order lookup' mine n t"
proof -
  have prev: "prev_output lookup i = prev_output lookup' i" if "i \<in> set (tx_inputs t)" for i
    using assms [OF that] by (simp add: prev_output_def)
  have "fold (add_input_sums C hrp lookup mine) (tx_inputs t) st = fold (add_input_sums C hrp lookup' mine) (tx_inputs t) st" for C hrp st
    by (rule fold_cong) (auto simp: add_input_sums_def prev fun_eq_iff Let_def)
  moreover have "hasStakeInput lookup t = hasStakeInput lookup' t"
    by (auto simp: hasStakeInput_def prev split: option.splits)
  ultimately show ?thesis by (simp only: classifyTx_def collect_inputs_def)
qed

lemma map_filter_same: "(\<And>x. x \<in> set xs \<Longrightarrow> f x = g x) \<Longrightarrow> List.map_filter f xs = List.map_filter g xs"
  by (induction xs) (auto simp: List.map_filter_simps split: option.splits)

lemma history_at_extends:
  assumes "extends_chain cc cc'" and "h \<le> ch_height (cc_chain cc)"
  shows "history_at W order cc' mine h = history_at W order cc mine h"
proof (cases "block_at cc h")
  case None
  then show ?thesis using assms by (auto simp: history_at_def extends_chain_def)
next
  case (Some b)
  then have same: "block_at cc' h = Some b" "\<And>t i. t \<in> set (b_txs b) \<Longrightarrow> i \<in> set (tx_inputs t) \<Longrightarrow>
      GetTransaction (cc_env cc') (cc_chain cc') (op_txid (in_prevout i)) = GetTransaction (cc_env cc) (cc_chain cc) (op_txid (in_prevout i))"
    using assms by (auto simp: extends_chain_def)
  have "List.map_filter (\<lambda>(i, t). classifyTx W order (GetTransaction (cc_env cc') (cc_chain cc')) mine i t) (List.enumerate 0 (b_txs b)) =
      List.map_filter (\<lambda>(i, t). classifyTx W order (GetTransaction (cc_env cc) (cc_chain cc)) mine i t) (List.enumerate 0 (b_txs b))"
    using same(2) by (intro map_filter_same) (auto simp: in_set_enumerate_eq intro!: classifyTx_cong same(2) [OF nth_mem])
  then show ?thesis by (simp add: history_at_def Some same(1) block_entries_def)
qed

lemma bounded_small: "bounded (rs_root S) \<Longrightarrow> small (wallet_entries W order S ks name) {..tip_of S}"
proof -
  have "length (List.map_filter f xs) \<le> length xs" for f :: "nat \<times> transaction \<Rightarrow> history_entry option" and xs
    by (simp add: List.map_filter_def)
  then have "length (block_entries W order lookup mine h b) \<le> length (b_txs b)" for lookup mine h b
    unfolding block_entries_def length_map by (metis length_enumerate)
  then show "bounded (rs_root S) \<Longrightarrow> small (wallet_entries W order S ks name) {..tip_of S}"
    by (fastforce simp: bounded_def small_def wallet_entries_def history_at_def entries_or_none_def
        split: option.splits intro: order_trans)
qed

lemma bounded_extends: "extends_chain cc cc' \<Longrightarrow> bounded cc' \<Longrightarrow> bounded cc"
  by (auto simp: bounded_def extends_chain_def intro: le_less_trans order_trans)

section \<open>The invariant of a run\<close>

lemma ListAccounts_valid: "ListAccounts ks name = Inr accounts \<Longrightarrow> validateWalletName name = None"
  by (auto simp: ListAccounts_def read_wallet_def walletPath_def err_simps split: option.splits)

lemma history_request_Inr:
  "history_request W q S = Inr (ks, name, limit, offset, accounts) \<Longrightarrow>
   rs_keys S = Some ks \<and> validateWalletName name = None \<and> wallet_addresses ks name = account_addresses accounts \<and>
   0 < limit \<and> 0 \<le> offset"
  by (auto simp: history_request_def err_simps wallet_addresses_def dest: ListAccounts_valid split: if_splits)

lemma history_cases:
  "handleWalletGetHistory W order X q S s =
     (case history_request W q S of
        Inl e \<Rightarrow> Some (s, Inl e)
      | Inr (ks, name, limit, offset, accounts) \<Rightarrow>
          if wallet_addresses ks name = {} then Some (s, Inr (0, []))
          else case X of
            Some D \<Rightarrow> getHistoryIndexed D (tip_of S) (history_at W order (rs_root S) (wallet_addresses ks name)) name ''root'' limit offset s
          | None \<Rightarrow> Some (s, getHistoryFallback (tip_of S) (history_at W order (rs_root S) (wallet_addresses ks name)) limit offset))"
  using history_request_Inr [of W q S] by (auto simp: handleWalletGetHistory_def Let_def split: sum.splits option.splits)

lemma history_indexed:
  assumes "handleWalletGetHistory W order (Some D) q S s = Some (s', r)" and "s' \<noteq> s"
  obtains ks name limit offset where "rs_keys S = Some ks" and "validateWalletName name = None"
    and "getHistoryIndexed D (tip_of S) (history_at W order (rs_root S) (wallet_addresses ks name)) name ''root'' limit offset s = Some (s', r)"
proof (cases "history_request W q S")
  case (Inr p)
  obtain ks name limit offset accounts where p: "p = (ks, name, limit, offset, accounts)" by (cases p)
  then show thesis
    using assms history_request_Inr [OF Inr [unfolded p]] by (intro that) (auto simp: history_cases Inr split: if_splits)
qed (use assms in \<open>simp add: history_cases\<close>)

definition all_synced :: "'k rpc_config \<Rightarrow> flow_order \<Rightarrow> 's rpc_state \<Rightarrow> (bytes \<rightharpoonup> idx_doc) \<Rightarrow> bool" where
  "all_synced W order S m \<longleftrightarrow>
     (\<forall>ks name. rs_keys S = Some ks \<longrightarrow> validateWalletName name = None \<longrightarrow>
        synced name ''root'' (wallet_entries W order S ks name) (tip_of S) m)"

abbreviation index_view :: "idx_doc memory_db \<Rightarrow> bytes \<rightharpoonup> idx_doc" where
  "index_view s \<equiv> \<lambda>k. DAList.lookup s (ascii ''x/'' @ k)"

lemma synced_other:
  assumes "synced w c es tip m" and "\<And>k. own_key w c k \<Longrightarrow> m' k = m k"
  shows "synced w c es tip m'"
proof -
  have meta: "meta_in w c m' = meta_in w c m" using assms(2) by (simp add: meta_in_def own_key_def)
  have held: "holds w c es A m'" if "holds w c es A m" for A
    by (rule holds_other [OF _ that], rule assms(2)) (simp add: own_key_def)
  show ?thesis using assms(1) unfolding synced_def meta by (elim ex_forward) (blast intro: held)
qed

lemma synced_grows:
  assumes "synced w c es tip m" and "tip \<le> tip'" and "\<And>h. h \<le> tip \<Longrightarrow> es' h = es h" and "small es' {..tip'}"
  shows "synced w c es' tip' m"
proof -
  obtain A x where ax: "meta_in w c m = Some x" "holds w c es A m" "im_count x = entry_count es A"
      "im_count x \<noteq> 0 \<longrightarrow> A = {..im_last_height x} \<and> im_last_height x \<le> tip"
    using assms(1) unfolding synced_def by (elim exE conjE) (rule that, assumption+)
  show ?thesis
  proof (cases "im_count x = 0")
    case True
    have "es h = []" if "h \<in> A" for h using that True ax(3) by (simp add: sum_nonneg_eq_0_iff)
    then have "holds w c es {} m" using holds_empty_blocks [OF _ _ ax(2), of "{}"] by simp
    then have "holds w c es' {} m" by (simp add: holds_def)
    then show ?thesis using ax(1) True by (auto simp: synced_def intro!: exI [of _ "{}"])
  next
    case False
    then have A: "A = {..im_last_height x}" "im_last_height x \<le> tip" using ax(4) by auto
    then have same: "es' h = es h" if "h \<in> A" for h using assms(3) that by auto
    then have "holds w c es' A m" using ax(2) holds_cong by metis
    moreover have "entry_count es' A = entry_count es A" using same by (intro sum.cong) simp_all
    ultimately have "meta_in w c m = Some x \<and> holds w c es' A m \<and> im_count x = entry_count es' A \<and>
        (im_count x \<noteq> 0 \<longrightarrow> A = {..im_last_height x} \<and> im_last_height x \<le> tip')"
      using ax(1,3) A(1) order_trans [OF A(2) assms(2)] by simp
    then show ?thesis unfolding synced_def by (intro exI)
  qed
qed

lemma indexed_run:
  assumes "all_synced W order S (index_view s)" and "bounded (rs_root S)" and "rs_keys S = Some ks" and "validateWalletName name = None"
  shows "\<exists>s'. getHistoryIndexed (NewWalletTxIndex MemoryDB) (tip_of S)
      (history_at W order (rs_root S) (wallet_addresses ks name)) name ''root'' limit offset s =
      Some (s', page_result (map_option (\<lambda>p. (p, length (wallet_history W order S ks name)))
        (paged limit offset (wallet_history W order S ks name)))) \<and>
    all_synced W order S (index_view s')"
proof -
  have sync: "synced name ''root'' (wallet_entries W order S ks name) (tip_of S) (index_view s)"
    using assms by (simp add: all_synced_def)
  have tip: "tip_of S < max_u64" using assms(2) by (auto simp: bounded_def intro: less_trans)
  note small = bounded_small [OF assms(2), of W order ks name]
  obtain s' where s': "getHistoryIndexed (NewWalletTxIndex MemoryDB) (tip_of S)
      (history_at W order (rs_root S) (wallet_addresses ks name)) name ''root'' limit offset s =
      Some (s', page_result (Query (NewWalletTxIndex MemoryDB) name ''root'' limit offset s'))"
      "synced name ''root'' (wallet_entries W order S ks name) (tip_of S) (index_view s')"
      "holds name ''root'' (wallet_entries W order S ks name) {..tip_of S} (index_view s')"
      "\<forall>k. \<not> own_key name ''root'' k \<longrightarrow> index_view s' k = index_view s k"
    using xi.getHistoryIndexed_synced [OF sync tip small wallet_entries_def] by blast
  have "synced other ''root'' (wallet_entries W order S ks other) (tip_of S) (index_view s')" if "validateWalletName other = None" for other
  proof (cases "other = name")
    case False
    then have "\<not> own_key name ''root'' k" if "own_key other ''root'' k" for k
      using own_key_wallet [OF assms(4) \<open>validateWalletName other = None\<close> _ that] by blast
    then have other: "index_view s' k = index_view s k" if "own_key other ''root'' k" for k using s'(4) that by blast
    have "synced other ''root'' (wallet_entries W order S ks other) (tip_of S) (index_view s)"
      using assms(1,3) that by (simp add: all_synced_def)
    from this other show ?thesis by (rule synced_other)
  qed (use s'(2) in simp)
  then have "all_synced W order S (index_view s')" using assms(3) by (simp add: all_synced_def)
  then show ?thesis using s'(1) xi.Query_holds [OF s'(3) small] by (auto simp: wallet_history_def)
qed

lemma history_run_synced: "history_run W order S s \<Longrightarrow> bounded (rs_root S) \<Longrightarrow> all_synced W order S (index_view s)"
proof (induction rule: history_run.induct)
  case (hr_start s S)
  then have "index_view s = Map.empty" by (simp add: xi.get fun_eq_iff)
  then show ?case by (auto simp: all_synced_def synced_def meta_in_def holds_def fresh_meta_def intro!: exI [of _ "{}"])
next
  case (hr_grow S s S')
  have tips: "tip_of S \<le> tip_of S'" using hr_grow.hyps(2) by (simp add: extends_chain_def)
  have IH: "all_synced W order S (index_view s)" using hr_grow bounded_extends by blast
  have same: "wallet_entries W order S' ks name h = wallet_entries W order S ks name h" if "h \<le> tip_of S" for ks name h
    using history_at_extends [OF hr_grow.hyps(2) that, of W order "wallet_addresses ks name"] by (simp add: wallet_entries_def)
  show ?case
    unfolding all_synced_def
  proof (intro allI impI)
    fix ks name assume "rs_keys S' = Some ks" "validateWalletName name = None"
    then have "synced name ''root'' (wallet_entries W order S ks name) (tip_of S) (index_view s)"
      using IH hr_grow.hyps(3) by (simp add: all_synced_def)
    from synced_grows [OF this tips same bounded_small [OF hr_grow.prems]]
    show "synced name ''root'' (wallet_entries W order S' ks name) (tip_of S') (index_view s)" .
  qed
next
  case (hr_query S s q s' r)
  show ?case
  proof (cases "s' = s")
    case False
    from history_indexed [OF hr_query.hyps(2) False] obtain ks name limit offset where
      q: "rs_keys S = Some ks" "validateWalletName name = None"
      "getHistoryIndexed (NewWalletTxIndex MemoryDB) (tip_of S) (history_at W order (rs_root S) (wallet_addresses ks name))
         name ''root'' limit offset s = Some (s', r)"
      by metis
    from indexed_run [OF hr_query.IH [OF hr_query.prems] hr_query.prems q(1,2), of limit offset]
    show ?thesis unfolding q(3) by auto
  qed (use hr_query in simp)
qed

section \<open>A chain for the examples\<close>

text \<open>One block, of height one, whose coinbase pays \<open>v\<close> to the wallet.\<close>

definition hist_block :: "u64 \<Rightarrow> block" where
  "hist_block v = \<lparr>b_header = Some \<lparr>h_version = 1, h_prev = 0, h_merkle = 0, h_timestamp = 1770734110, h_height = 1,
       h_difficulty = 0, h_nonce = 0, h_sig = []\<rparr>,
     b_txs = [\<lparr>tx_version = 1, tx_inputs = [\<lparr>in_prevout = zero_outpoint, in_sig = [], in_pubkey = []\<rparr>],
                tx_outputs = [\<lparr>out_value = v, out_script = p2pkh 0, out_token = None\<rparr>], tx_locktime = 0\<rparr>,
              \<lparr>tx_version = 1, tx_inputs = [\<lparr>in_prevout = Outpoint 9 0, in_sig = [], in_pubkey = []\<rparr>],
                tx_outputs = [\<lparr>out_value = 50, out_script = p2pkh 0, out_token = None\<rparr>], tx_locktime = 0\<rparr>]\<rparr>"

definition hist_context :: "u64 \<Rightarrow> dbval memory_db chain_context" where
  "hist_context v = demo_context\<lparr>cc_chain := (cc_chain demo_context)\<lparr>ch_height := 1,
     ch_db := PutBlock MemoryDB size_crypto (hist_block v) DAList.empty\<rparr>\<rparr>"

definition hist_server :: "u64 \<Rightarrow> dbval memory_db rpc_state" where
  "hist_server v = demo_server\<lparr>rs_root := hist_context v\<rparr>"


definition hist_order :: flow_order where "hist_order = (\<lambda>fs. fs)"

lemma hist_block_at: "block_at (hist_context v) h = (if h = 1 then Some (hist_block v) else None)"
  by (simp add: hist_context_def demo_context_def env_on_def hist_block_def GetBlockByHeight_def GetBlock_def PutBlock_def
      MemoryDB_def memory_get_def memory_put_def lookup_update_fun Let_def)

lemma hist_bounded: "bounded (hist_context v)"
  by (simp add: bounded_def hist_block_at) (simp add: hist_context_def hist_block_def)

lemma demo_addresses: "wallet_addresses demo_wallet ''main'' = {0}"
  by (simp add: wallet_addresses_def account_addresses_def demo_accounts demo_parsed List.map_filter_simps)

lemma hist_request:
  "rs_keys S = Some demo_wallet \<Longrightarrow> limit > 0 \<Longrightarrow> offset \<ge> 0 \<Longrightarrow>
   history_request demo_rpc (Some (''main'', demo_password, limit, offset)) S =
   Inr (demo_wallet, ''main'', limit, offset, [\<lparr>ac_index = 0, ac_change = 0, ac_name = ''Default'',
     ac_address = ''0000000000000000000000000000000000000000''\<rparr>])"
proof -
  assume *: "rs_keys S = Some demo_wallet" "limit > 0" "offset \<ge> 0"
  obtain seed where "load_wallet demo_rpc demo_wallet ''main'' demo_password = Inr seed"
    using demo_opened by (auto simp: open_wallet_def err_simps)
  moreover have "demo_password \<noteq> []" by (simp add: demo_password_def)
  ultimately show ?thesis
    using * by (simp add: history_request_def requireWallet_def parseParams_def keys_step_def demo_accounts)
qed

lemma hist_listed:
  "v > 0 \<Longrightarrow> t \<in> set (b_txs (hist_block v)) \<Longrightarrow> classifyTx demo_rpc order lookup {0} n t \<noteq> None"
  by (auto simp: hist_block_def classifyTx_None collect_outputs_def add_output_sums_def scriptToAddress_def p2pkh_def
      take_address_def word_gt_0)

lemma block_entries_all:
  assumes "\<And>i t. t \<in> set (b_txs b) \<Longrightarrow> classifyTx W order lookup mine i t \<noteq> None"
  shows "length (block_entries W order lookup mine h b) = length (b_txs b)"
proof -
  let ?f = "\<lambda>(i, t). classifyTx W order lookup mine i t" and ?xs = "List.enumerate 0 (b_txs b)"
  have "?f x \<noteq> None" if "x \<in> set ?xs" for x
    using that assms [of "snd x" "fst x"] by (auto simp: in_set_enumerate_eq case_prod_unfold dest: nth_mem)
  then have "List.map_filter ?f ?xs = map (the \<circ> ?f) ?xs" by (rule map_filter_all)
  then show ?thesis by (simp add: block_entries_def)
qed

lemma hist_entries:
  assumes "v > 0"
  shows "length (wallet_entries demo_rpc hist_order (hist_server v) demo_wallet ''main'' h) = (if h = 1 then 2 else 0)"
proof -
  have "length (b_txs (hist_block v)) = 2" by (simp add: hist_block_def)
  then have two: "length (block_entries demo_rpc hist_order lookup {0} h (hist_block v)) = 2" for lookup h
    by (simp only: block_entries_all [OF hist_listed [OF assms]])
  have root: "rs_root (hist_server v) = hist_context v" by (simp add: hist_server_def)
  show ?thesis
    unfolding wallet_entries_def history_at_def root hist_block_at demo_addresses
    by (cases "h = 1") (simp_all add: entries_or_none_def two)
qed

lemma hist_history: "v > 0 \<Longrightarrow> length (wallet_history demo_rpc hist_order (hist_server v) demo_wallet ''main'') = 2"
proof -
  assume v: "v > 0"
  have "heights_down 1 = [1, 0]" by (simp add: heights_down_def upt_rec)
  moreover have "tip_of (hist_server v) = 1" by (simp add: hist_server_def hist_context_def)
  ultimately show ?thesis by (simp add: wallet_history_def history_down_def hist_entries [OF v])
qed

lemma hist_keys: "rs_keys (hist_server v) = Some demo_wallet" "rs_root (hist_server v) = hist_context v"
  by (simp_all add: hist_server_def demo_server_def)

lemma hist_start: "history_run demo_rpc hist_order (hist_server v) DAList.empty"
  by (rule hr_start) (simp add: xi.get)

lemma hist_tip: "tip_of (hist_server v) = 1" "ch_height (cc_chain (hist_context v)) = 1"
  by (simp_all add: hist_server_def hist_context_def)

section \<open>The index and the scan\<close>



text \<open>
  C32: After a reorganisation that does not shorten the chain, the index keeps what it holds: the
  history then lists the entries of the disconnected blocks up to the height that was indexed, and never
  those of the blocks that replaced them, whatever the chain has there now.
\<close>

theorem reorg_keeps_orphaned_entries:
  assumes "history_run W order S s" and "bounded (rs_root S)" and "rs_keys S = Some ks" and "validateWalletName name = None"
    and "wallet_history W order S ks name \<noteq> []"
    and "getHistoryIndexed (NewWalletTxIndex MemoryDB) (tip_of S) (history_at W order (rs_root S) (wallet_addresses ks name))
      name ''root'' limit offset s = Some (s1, r)"
    and "bounded (rs_root S')" and "tip_of S \<le> tip_of S'"
    and "es = (\<lambda>h. if h \<le> tip_of S then wallet_entries W order S ks name h else wallet_entries W order S' ks name h)"
  shows "\<exists>s2. getHistoryIndexed (NewWalletTxIndex MemoryDB) (tip_of S') (history_at W order (rs_root S') (wallet_addresses ks name))
    name ''root'' limit' offset' s1 =
    Some (s2, page_result (map_option (\<lambda>p. (p, length (history_down es (tip_of S')))) (paged limit' offset' (history_down es (tip_of S')))))"
proof -
  let ?w = "wallet_entries W order S ks name"
  have sync: "synced name ''root'' ?w (tip_of S) (index_view s)"
    using history_run_synced [OF assms(1,2)] assms(3,4) by (simp add: all_synced_def)
  have tips: "tip_of S < max_u64" "tip_of S' < max_u64" using assms(2,7) by (auto simp: bounded_def intro: less_trans)
  note small = bounded_small [OF assms(2), of W order ks name] bounded_small [OF assms(7), of W order ks name]
  have s1: "holds name ''root'' ?w {..tip_of S} (index_view s1)"
      "meta_in name ''root'' (index_view s1) = Some \<lparr>im_last_height = tip_of S, im_count = entry_count ?w {..tip_of S}\<rparr>"
    using xi.getHistoryIndexed_synced [OF sync tips(1) small(1) wallet_entries_def, of limit offset] assms(6) by auto
  have "entry_count ?w {..tip_of S} \<noteq> 0"
    using assms(5) by (auto simp: wallet_history_def history_down_def set_heights_down sum_nonneg_eq_0_iff)
  moreover have "entry_count es {..tip_of S} = entry_count ?w {..tip_of S}" by (rule sum.cong) (simp_all add: assms(9))
  moreover have "holds name ''root'' es {..tip_of S} (index_view s1)" using s1(1) holds_cong [of "{..tip_of S}" ?w es] by (simp add: assms(9))
  ultimately have "synced name ''root'' es (tip_of S') (index_view s1)"
    using s1(2) assms(8) unfolding synced_def by (intro exI [of _ "{..tip_of S}"]) auto
  moreover have "small es {..tip_of S'}" using small by (auto simp: small_def assms(9))
  moreover have "es h = entries_or_none (history_at W order (rs_root S') (wallet_addresses ks name) h)"
    if "meta_in name ''root'' (index_view s1) = Some x" "start_of x \<le> h" "h \<le> tip_of S'" for x h
  proof -
    have "x = \<lparr>im_last_height = tip_of S, im_count = entry_count ?w {..tip_of S}\<rparr>" using that(1) s1(2) by simp
    then have "tip_of S + 1 \<le> h" using that(2) \<open>entry_count ?w {..tip_of S} \<noteq> 0\<close> by (simp add: start_of_def)
    moreover have "unat (tip_of S + 1) = unat (tip_of S) + 1" using tips(1) by unat_arith
    ultimately have "\<not> h \<le> tip_of S" by (simp add: word_le_nat_alt)
    then show ?thesis by (simp add: assms(9) wallet_entries_def)
  qed
  ultimately obtain s2 where "getHistoryIndexed (NewWalletTxIndex MemoryDB) (tip_of S') (history_at W order (rs_root S') (wallet_addresses ks name))
      name ''root'' limit' offset' s1 = Some (s2, page_result (Query (NewWalletTxIndex MemoryDB) name ''root'' limit' offset' s2))"
      "holds name ''root'' es {..tip_of S'} (index_view s2)"
    using xi.getHistoryIndexed_synced [OF _ tips(2)] by blast
  then show ?thesis using xi.Query_holds [OF _ \<open>small es {..tip_of S'}\<close>] by auto
qed

theorem reorg_keeps_orphaned_entries_witness:
  "\<exists>s1 r s2. getHistoryIndexed (NewWalletTxIndex MemoryDB) 1 (history_at demo_rpc hist_order (hist_context 20) {0})
      ''main'' ''root'' 10 0 DAList.empty = Some (s1, r) \<and>
    getHistoryIndexed (NewWalletTxIndex MemoryDB) 1 (history_at demo_rpc hist_order (hist_context 30) {0})
      ''main'' ''root'' 10 0 s1 = Some (s2, Inr (2, wallet_history demo_rpc hist_order (hist_server 20) demo_wallet ''main''))"
proof -
  let ?H = "wallet_history demo_rpc hist_order (hist_server 20) demo_wallet ''main''"
  let ?es = "\<lambda>h. if h \<le> 1 then wallet_entries demo_rpc hist_order (hist_server 20) demo_wallet ''main'' h
    else wallet_entries demo_rpc hist_order (hist_server 30) demo_wallet ''main'' h"
  have b: "bounded (rs_root (hist_server v))" for v using hist_bounded by (simp add: hist_keys)
  have name: "validateWalletName ''main'' = None" by code_simp
  have two: "length ?H = 2" by (simp add: hist_history)
  then have "?H \<noteq> []" by auto
  note all = history_run_synced [OF hist_start b, of 20]
  obtain s1 r where s1: "getHistoryIndexed (NewWalletTxIndex MemoryDB) (tip_of (hist_server 20))
      (history_at demo_rpc hist_order (rs_root (hist_server 20)) (wallet_addresses demo_wallet ''main'')) ''main'' ''root'' 10 0 DAList.empty = Some (s1, r)"
    using indexed_run [OF all b hist_keys(1) name, of 10 0] by blast
  have "map ?es (heights_down 1) = map (wallet_entries demo_rpc hist_order (hist_server 20) demo_wallet ''main'') (heights_down 1)"
    by (intro map_cong refl) (simp add: set_heights_down)
  then have "history_down ?es 1 = ?H" unfolding history_down_def wallet_history_def hist_tip(1) by (rule arg_cong)
  moreover have "paged 10 0 ?H = Some ?H" using two by (simp add: paged_def wrap_int_def)
  ultimately show ?thesis
    using s1 reorg_keeps_orphaned_entries [OF hist_start b hist_keys(1) name \<open>?H \<noteq> []\<close> s1 b [of 30] _ refl, of 10 0] two
    by (auto simp: hist_tip hist_keys demo_addresses page_result_def)
qed

section \<open>Pages\<close>

lemma wrap_int_small: "0 \<le> z \<Longrightarrow> z < 2 ^ 63 \<Longrightarrow> wrap_int z = z"
  using signed_take_bit_int_eq_self [of 63 z] by (simp add: wrap_int_def sint_sbintrunc')

lemma wrap_int_large: "2 ^ 63 \<le> z \<Longrightarrow> z < 2 ^ 64 \<Longrightarrow> wrap_int z = z - 2 ^ 64"
proof -
  assume z: "2 ^ 63 \<le> z" "z < 2 ^ 64"
  have "take_bit 64 z = take_bit 64 (z - 2 ^ 64)" by (simp add: take_bit_eq_mod mod_diff_right_eq)
  then have "(word_of_int z :: 64 word) = word_of_int (z - 2 ^ 64)" by (simp add: word_of_int_eq_iff)
  moreover have "sint (word_of_int (z - 2 ^ 64) :: 64 word) = z - 2 ^ 64"
    unfolding sint_sbintrunc' using z signed_take_bit_int_eq_self [of 63 "z - 2 ^ 64"] by simp
  ultimately show ?thesis by (simp only: wrap_int_def)
qed

lemma paged_None:
  assumes "0 \<le> offset" and "0 < limit" and "offset < 2 ^ 63" and "limit < 2 ^ 63"
  shows "paged limit offset xs = None \<longleftrightarrow> offset < int (length xs) \<and> 2 ^ 63 \<le> offset + limit"
proof (cases "2 ^ 63 \<le> offset + limit")
  case True
  then show ?thesis using assms wrap_int_large [of "offset + limit"] by (auto simp: paged_def Let_def)
next
  case False
  then show ?thesis using assms wrap_int_small [of "offset + limit"] by (auto simp: paged_def Let_def)
qed

text \<open>
  The end of the page is computed in 64 bits without a check. A request for the history of a wallet
  crashes its handler exactly if its offset lies within the history and offset and limit together do not
  fit into an \<open>int\<close>; with the largest limit this is every offset but zero.
\<close>

theorem history_page_panics:
  assumes "history_run W order S s" and "bounded (rs_root S)"
    and "history_request W q S = Inr (ks, name, limit, offset, accounts)" and "wallet_addresses ks name \<noteq> {}"
    and "limit < 2 ^ 63" and "offset < 2 ^ 63"
  shows "(\<exists>s'. handleWalletGetHistory W order (Some (NewWalletTxIndex MemoryDB)) q S s = Some (s', Inl RequestPanic)) \<longleftrightarrow>
    offset < int (length (wallet_history W order S ks name)) \<and> 2 ^ 63 \<le> offset + limit"
proof -
  have keys: "rs_keys S = Some ks" "validateWalletName name = None" "0 < limit" "0 \<le> offset"
    using history_request_Inr [OF assms(3)] by auto
  from indexed_run [OF history_run_synced [OF assms(1,2)] assms(2) keys(1,2), of limit offset]
  have "(\<exists>s'. handleWalletGetHistory W order (Some (NewWalletTxIndex MemoryDB)) q S s = Some (s', Inl RequestPanic)) \<longleftrightarrow>
      paged limit offset (wallet_history W order S ks name) = None"
    by (auto simp: history_cases assms(3,4) page_result_def split: option.splits)
  then show ?thesis using paged_None [OF keys(4,3) assms(6,5)] by simp
qed

theorem history_page_panics_witness:
  "\<exists>s'. handleWalletGetHistory demo_rpc hist_order (Some (NewWalletTxIndex MemoryDB))
      (Some (''main'', demo_password, 2 ^ 63 - 1, 1)) (hist_server 20) DAList.empty = Some (s', Inl RequestPanic)"
  using history_page_panics [OF hist_start, of 20 "Some (''main'', demo_password, 2 ^ 63 - 1, 1)", OF _ hist_request]
    hist_bounded [of 20] hist_history [of 20] by (simp add: hist_keys demo_addresses)

end
