(* ===== verification/Rescan.thy ===== *)
theory Rescan
  imports TxIndex PaymentProps
begin

text \<open>
  The rescan of a wallet (\<open>handleWalletRescan\<close>): it ends, finds the used ones among the derived
  addresses, and sets the next indexes of the wallet from what it found, whatever they were before.
\<close>

definition highest_used :: "u32 \<Rightarrow> address set \<Rightarrow> (address \<times> u32 \<times> u32) list \<Rightarrow> u32 option \<Rightarrow> u32 option" where
  "highest_used change used derived r =
     fold (\<lambda>(a, c, i) r. if a \<in> used \<and> c = change then higher i r else r) derived r"

lemma rescan_loop_run:
  assumes "l < max_u64"
  shows "rescan_loop paid derived h l used = Some (used \<union> (\<Union>x \<in> {h..l}. paid x \<inter> derived))"
proof (induction "unat l + 1 - unat h" arbitrary: h used rule: less_induct)
  case less
  show ?case
  proof (cases "h > l")
    case True
    then show ?thesis by (subst rescan_loop.simps) simp
  next
    case False
    then have le: "h \<le> l" by simp
    then have next_h: "unat (h + 1) = unat h + 1" using assms by unat_arith
    then have "unat l + 1 - unat (h + 1) < unat l + 1 - unat h" using le by (simp add: word_le_nat_alt)
    note IH = less [OF this, of "used \<union> (paid h \<inter> derived)"]
    have "{h..l} = insert h {h + 1..l}"
      using le next_h by (auto simp: word_le_nat_alt) (metis Suc_leI le_neq_implies_less word_unat_eq_iff)
    then show ?thesis using False IH by (subst rescan_loop.simps) (simp add: Un_assoc)
  qed
qed

lemma AddAccount_reads:
  assumes "read_wallet ks name = Inr kf"
  shows "\<exists>es. read_wallet (fst (AddAccount name a ks)) name = Inr (kf\<lparr>kf_accounts := es\<rparr>)"
proof (cases "AddAccount name a ks")
  case (Pair ks1 r)
  show ?thesis
  proof (cases r)
    case None
    then show ?thesis using AddAccount_recorded Pair assms by fastforce
  next
    case (Some e)
    then have "ks1 = ks" using Pair by (auto simp: AddAccount_def split: sum.splits option.splits account_check.splits)
    then show ?thesis using Pair assms by (intro exI [of _ "kf_accounts kf"]) simp
  qed
qed

lemma SetIndex_read:
  assumes "read_wallet ks name = Inr kf"
  shows "read_wallet (fst (SetExternalIndex name i ks)) name = Inr (kf\<lparr>kf_next_external := i\<rparr>)"
    and "read_wallet (fst (SetChangeIndex name i ks)) name = Inr (kf\<lparr>kf_next_change := i\<rparr>)"
  using read_wallet_path [OF assms]
  by (auto simp: SetExternalIndex_def SetChangeIndex_def update_wallet_def read_wallet_write)

lemma register_fold:
  assumes "read_wallet (re_keys r) name = Inr (kf\<lparr>kf_accounts := es\<rparr>)"
  shows "\<exists>es'. read_wallet (re_keys (fold (register_derived W name existing used) derived r)) name = Inr (kf\<lparr>kf_accounts := es'\<rparr>)"
    and "re_external (fold (register_derived W name existing used) derived r) = highest_used ChangeExternal used derived (re_external r)"
    and "re_change (fold (register_derived W name existing used) derived r) = highest_used ChangeInternal used derived (re_change r)"
proof -
  have step: "\<exists>es'. read_wallet (re_keys (register_derived W name existing used d r)) name = Inr (kf\<lparr>kf_accounts := es'\<rparr>)"
    if "read_wallet (re_keys r) name = Inr (kf\<lparr>kf_accounts := es\<rparr>)" for d r es
  proof -
    have "\<exists>es'. read_wallet (fst (AddAccount name a (re_keys r))) name = Inr (kf\<lparr>kf_accounts := es'\<rparr>)" for a
      using AddAccount_reads [OF that, of a] by simp
    then show ?thesis using that by (auto simp: register_derived_def Let_def split: prod.splits)
  qed
  show "\<exists>es'. read_wallet (re_keys (fold (register_derived W name existing used) derived r)) name = Inr (kf\<lparr>kf_accounts := es'\<rparr>)"
    using assms
  proof (induction derived arbitrary: r es)
    case (Cons d derived)
    obtain es1 where "read_wallet (re_keys (register_derived W name existing used d r)) name = Inr (kf\<lparr>kf_accounts := es1\<rparr>)"
      using step [OF Cons.prems] by blast
    from Cons.IH [OF this] show ?case by simp
  qed auto
  show "re_external (fold (register_derived W name existing used) derived r) = highest_used ChangeExternal used derived (re_external r)"
    by (induction derived arbitrary: r) (auto simp: register_derived_def highest_used_def Let_def)
  show "re_change (fold (register_derived W name existing used) derived r) = highest_used ChangeInternal used derived (re_change r)"
    by (induction derived arbitrary: r) (auto simp: register_derived_def highest_used_def Let_def)
qed



end
