(* ===== verification/Queries.thy ===== *)
theory Queries
  imports Payments "HOL-Library.AList"
begin

text \<open>
  The other endpoints of the RPC server (\<open>internal/rpc/handlers.go\<close>) and the choice of the chain they
  are about (\<open>server.go\<close>): blocks, transactions, coins and balances, the submission of transactions,
  stakes and validators, sub-chains, tokens, and the template and submission of blocks by external
  miners. Results are the fields of the JSON documents; queries change no state.
\<close>

section \<open>The chain of a request\<close>

definition resolveChain :: "string \<Rightarrow> 's rpc_state \<Rightarrow> rpc_error + hash option \<times> 's chain_context" where
  "resolveChain chain S =
     (if chain = [] then Inr (None, rs_root S)
      else if rs_subs S = None then Inl (NotFound NoManager)
      else bindE (sub_context chain S) (\<lambda>(i, cc). Inr (Some i, cc)))"

text \<open>The optional \<open>chain_id\<close> of a request without other parameters; what does not decode counts as absent.\<close>

definition extractChainID :: "string option \<Rightarrow> string" where
  "extractChainID q = (case q of None \<Rightarrow> [] | Some chain \<Rightarrow> chain)"

definition decode_hash :: "reason \<Rightarrow> string \<Rightarrow> rpc_error + hash" where
  "decode_hash r s =
     (case hex_decode s of
        None \<Rightarrow> Inl (InvalidParams r)
      | Some bs \<Rightarrow> if length bs \<noteq> 32 then Inl (InvalidParams r) else Inr (be_word bs))"

section \<open>Blocks and transactions\<close>

definition handleChainGetInfo :: "string option \<Rightarrow> 's rpc_state \<Rightarrow> rpc_error + string \<times> string \<times> u64 \<times> string" where
  "handleChainGetInfo q S =
     bindE (resolveChain (extractChainID q) S) (\<lambda>(c, cc).
       Inr (gen_chain_id (cc_genesis cc), gen_symbol (cc_genesis cc), ch_height (cc_chain cc), hash_string (ch_tip (cc_chain cc))))"

definition handleChainGetBlockByHash :: "(string \<times> string) option \<Rightarrow> 's rpc_state \<Rightarrow> rpc_error + block" where
  "handleChainGetBlockByHash q S =
     bindE (parseParams q) (\<lambda>(chain, h).
       if h = [] then Inl (InvalidParams MissingParams)
       else bindE (resolveChain chain S) (\<lambda>(c, cc).
            bindE (decode_hash BadHash h) (\<lambda>i.
            case GetBlock (en_db (cc_env cc)) (ch_db (cc_chain cc)) i of
              None \<Rightarrow> Inl (NotFound BlockMissing) | Some b \<Rightarrow> Inr b)))"

definition handleChainGetBlockByHeight :: "(string \<times> u64) option \<Rightarrow> 's rpc_state \<Rightarrow> rpc_error + block" where
  "handleChainGetBlockByHeight q S =
     bindE (parseParams q) (\<lambda>(chain, h).
     bindE (resolveChain chain S) (\<lambda>(c, cc).
     case GetBlockByHeight (en_db (cc_env cc)) (ch_db (cc_chain cc)) h of
       None \<Rightarrow> Inl (NotFound BlockMissing) | Some b \<Rightarrow> Inr b))"

text \<open>The mempool first.\<close>

definition handleChainGetTransaction :: "(string \<times> string) option \<Rightarrow> 's rpc_state \<Rightarrow> rpc_error + transaction" where
  "handleChainGetTransaction q S =
     bindE (parseParams q) (\<lambda>(chain, h).
       if h = [] then Inl (InvalidParams MissingParams)
       else bindE (resolveChain chain S) (\<lambda>(c, cc).
            bindE (decode_hash BadHash h) (\<lambda>i.
            case Pool_Get (cc_pool cc) i of
              Some t \<Rightarrow> Inr t
            | None \<Rightarrow>
                (case GetTransaction (cc_env cc) (cc_chain cc) i of
                   None \<Rightarrow> Inl (NotFound TxMissing) | Some t \<Rightarrow> Inr t))))"

section \<open>Coins and balances\<close>

definition handleUTXOGet :: "(string \<times> string \<times> u32) option \<Rightarrow> 's rpc_state \<Rightarrow> rpc_error + utxo" where
  "handleUTXOGet q S =
     bindE (parseParams q) (\<lambda>(chain, txid, index).
       if txid = [] then Inl (InvalidParams MissingParams)
       else bindE (resolveChain chain S) (\<lambda>(c, cc).
            bindE (decode_hash BadHash txid) (\<lambda>i.
            case us_get (en_set (cc_env cc)) (ch_db (cc_chain cc)) (Outpoint i index) of
              None \<Rightarrow> Inl (NotFound UtxoMissing) | Some u \<Rightarrow> Inr u)))"

definition handleUTXOGetByAddress :: "(string \<times> string) option \<Rightarrow> 's rpc_state \<Rightarrow> rpc_error + utxo list" where
  "handleUTXOGetByAddress q S =
     bindE (parseParams q) (\<lambda>(chain, address).
       if address = [] then Inl (InvalidParams MissingParams)
       else bindE (resolveChain chain S) (\<lambda>(c, cc). bindE (decodeAddress address) (\<lambda>a. Inr (coins_of cc a))))"

record balance =
  ba_balance :: u64
  ba_spendable :: u64
  ba_immature :: u64
  ba_staked :: u64
  ba_locked :: u64

text \<open>Coins of a token are skipped; the sums wrap.\<close>

definition classify_coin :: "u64 \<Rightarrow> utxo \<Rightarrow> balance \<Rightarrow> balance" where
  "classify_coin height u b =
     (if u_token u \<noteq> None then b
      else if sc_type (u_script u) = ScriptTypeStake then b\<lparr>ba_staked := ba_staked b + u_value u\<rparr>
      else if immature height u then b\<lparr>ba_immature := ba_immature b + u_value u\<rparr>
      else if locked height u then b\<lparr>ba_locked := ba_locked b + u_value u\<rparr>
      else b\<lparr>ba_spendable := ba_spendable b + u_value u\<rparr>)"

definition classifyUTXOs :: "utxo list \<Rightarrow> u64 \<Rightarrow> balance" where
  "classifyUTXOs us height =
     (let b = fold (classify_coin height) us
                \<lparr>ba_balance = 0, ba_spendable = 0, ba_immature = 0, ba_staked = 0, ba_locked = 0\<rparr>
      in b\<lparr>ba_balance := ba_spendable b + ba_immature b + ba_staked b + ba_locked b\<rparr>)"

text \<open>The coins of an address and the stakes of its key.\<close>

definition address_balance :: "crypto \<Rightarrow> 's chain_context \<Rightarrow> address \<Rightarrow> balance" where
  "address_balance C cc a =
     classifyUTXOs (coins_of cc a @ (case stakesByAddress C cc a of None \<Rightarrow> [] | Some us \<Rightarrow> us)) (ch_height (cc_chain cc))"

definition handleUTXOGetBalance :: "crypto \<Rightarrow> (string \<times> string) option \<Rightarrow> 's rpc_state \<Rightarrow> rpc_error + balance" where
  "handleUTXOGetBalance C q S =
     bindE (parseParams q) (\<lambda>(chain, address).
       if address = [] then Inl (InvalidParams MissingParams)
       else bindE (resolveChain chain S) (\<lambda>(c, cc). bindE (decodeAddress address) (\<lambda>a. Inr (address_balance C cc a))))"

definition handleSubChainGetBalance :: "crypto \<Rightarrow> (string \<times> string) option \<Rightarrow> 's rpc_state \<Rightarrow> rpc_error + balance" where
  "handleSubChainGetBalance C q S =
     check (requireSubChainManager S) (
     bindE (parseParams q) (\<lambda>(chain, address).
       if chain = [] then Inl (InvalidParams MissingParams)
       else if address = [] then Inl (InvalidParams MissingParams)
       else bindE (sub_context chain S) (\<lambda>(i, cc). bindE (decodeAddress address) (\<lambda>a. Inr (address_balance C cc a)))))"

section \<open>Submitting and checking transactions\<close>

text \<open>Only transactions of the root chain are broadcast.\<close>

definition handleTxSubmit ::
  "'k rpc_config \<Rightarrow> (string \<times> transaction option) option \<Rightarrow> 's rpc_state \<Rightarrow> 's rpc_state \<times> (rpc_error + hash)" where
  "handleTxSubmit W q S =
     (case bindE (parseParams q) (\<lambda>(chain, tp).
           case tp of
             None \<Rightarrow> Inl (InvalidParams MissingParams)
           | Some t \<Rightarrow> bindE (resolveChain chain S) (\<lambda>(c, cc). Inr (c, cc, t))) of
        Inl e \<Rightarrow> (S, Inl e)
      | Inr (c, cc, t) \<Rightarrow>
          (case Pool_Add (rc_crypto W) (rc_order W) (pool_view_of (cc_env cc) (cc_chain cc)) t (cc_pool cc) of
             (p, Inl e) \<Rightarrow> (set_context c (cc\<lparr>cc_pool := p\<rparr>) S, Inl (InvalidParams (Rejected e)))
           | (p, Inr fee) \<Rightarrow>
               (let S1 = set_context c (cc\<lparr>cc_pool := p\<rparr>) S
                in (if c = None \<and> rc_p2p W then S1\<lparr>rs_sent := rs_sent S1 @ [(None, t)]\<rparr> else S1,
                    Inr (TxHash (rc_crypto W) t)))))"

definition handleTxValidate ::
  "crypto \<Rightarrow> (string \<times> transaction option) option \<Rightarrow> 's rpc_state \<Rightarrow> rpc_error + (tx_error + u64)" where
  "handleTxValidate C q S =
     bindE (parseParams q) (\<lambda>(chain, tp).
       case tp of
         None \<Rightarrow> Inl (InvalidParams MissingParams)
       | Some t \<Rightarrow>
           bindE (resolveChain chain S) (\<lambda>(c, cc).
             Inr (ValidateWithUTXOs C (UTXOAdapter (en_set (cc_env cc)) (ch_db (cc_chain cc))) t)))"

definition handleMempoolGetInfo :: "string option \<Rightarrow> 's rpc_state \<Rightarrow> rpc_error + nat \<times> u64" where
  "handleMempoolGetInfo q S =
     bindE (resolveChain (extractChainID q) S) (\<lambda>(c, cc). Inr (Pool_Count (cc_pool cc), MinFeeRate (cc_pool cc)))"

definition handleMempoolGetContent :: "iteration \<Rightarrow> string option \<Rightarrow> 's rpc_state \<Rightarrow> rpc_error + string list" where
  "handleMempoolGetContent order q S =
     bindE (resolveChain (extractChainID q) S) (\<lambda>(c, cc). Inr (map hash_string (Hashes order (cc_pool cc))))"

section \<open>Stakes and validators\<close>

definition decode_pubkey :: "string \<Rightarrow> rpc_error + bytes" where
  "decode_pubkey s =
     (case hex_decode s of
        None \<Rightarrow> Inl (InvalidParams BadStakeKey)
      | Some bs \<Rightarrow> if length bs \<noteq> 33 then Inl (InvalidParams BadStakeKey) else Inr bs)"

definition poa_of :: "'s chain_context \<Rightarrow> poa option" where
  "poa_of cc = (case ch_engine (cc_chain cc) of EnginePoA p \<Rightarrow> Some p | EnginePoW w \<Rightarrow> None)"

record stake_info =
  si_pubkey :: string
  si_total :: u64
  si_min :: u64
  si_sufficient :: bool
  si_genesis :: bool

text \<open>A genesis validator is recognised by the text of its key, in lower case.\<close>

definition handleStakeGetInfo :: "string option \<Rightarrow> 's rpc_state \<Rightarrow> rpc_error + stake_info" where
  "handleStakeGetInfo q S =
     bindE (parseParams q) (\<lambda>pubkey.
       if pubkey = [] then Inl (InvalidParams MissingParams)
       else bindE (decode_pubkey pubkey) (\<lambda>pk.
         let cc = rs_root S;
             minStake = cr_validator_stake (pc_consensus (gen_protocol (cc_genesis cc)));
             isGenesis = (case poa_of cc of
                 None \<Rightarrow> False
               | Some p \<Rightarrow> (case find (\<lambda>v. hex_encode v = pubkey) (poa_validators p) of
                             None \<Rightarrow> False | Some v \<Rightarrow> isGenesisValidator p v))
         in case GetStakes (en_db (cc_env cc)) pk (ch_db (cc_chain cc)) of
              None \<Rightarrow> Inl (InternalError NoStakes)
            | Some stakes \<Rightarrow>
                (let totalStake = foldl (+) 0 (map u_value stakes)
                 in Inr \<lparr>si_pubkey = pubkey, si_total = totalStake, si_min = minStake,
                       si_sufficient = (isGenesis \<or> minStake > 0 \<and> totalStake \<ge> minStake), si_genesis = isGenesis\<rparr>)))"

definition handleStakeGetValidators :: "'s rpc_state \<Rightarrow> u64 \<times> (string \<times> bool) list" where
  "handleStakeGetValidators S =
     (cr_validator_stake (pc_consensus (gen_protocol (cc_genesis (rs_root S)))),
      case poa_of (rs_root S) of
        None \<Rightarrow> [] | Some p \<Rightarrow> map (\<lambda>v. (hex_encode v, isGenesisValidator p v)) (poa_validators p))"

record validator_status =
  vst_pubkey :: string
  vst_genesis :: bool
  vst_online :: bool
  vst_suspended :: bool
  vst_heartbeat :: int
  vst_block :: int
  vst_count :: u64
  vst_missed :: u64

definition time_or_zero :: "int option \<Rightarrow> int" where
  "time_or_zero t = (case t of None \<Rightarrow> 0 | Some x \<Rightarrow> x)"

definition buildValidatorStatus :: "int \<Rightarrow> tracker \<Rightarrow> poa \<Rightarrow> bytes \<Rightarrow> validator_status" where
  "buildValidatorStatus now t p pk =
     (let base = \<lparr>vst_pubkey = hex_encode pk, vst_genesis = isGenesisValidator p pk, vst_online = IsOnline now t pk,
            vst_suspended = IsSuspended p pk, vst_heartbeat = 0, vst_block = 0, vst_count = 0, vst_missed = 0\<rparr>
      in case GetStats t pk of
           None \<Rightarrow> base
         | Some st \<Rightarrow> base\<lparr>vst_heartbeat := time_or_zero (vs_last_heartbeat st), vst_block := time_or_zero (vs_last_block st),
                          vst_count := vs_block_count st, vst_missed := vs_missed_count st\<rparr>)"

text \<open>
  The parameters (key and chain) are optional: \<open>None\<close>. The trackers are that of the root chain and,
  by the text of their ids, those of the sub-chains.
\<close>

definition handleValidatorGetStatus ::
  "int \<Rightarrow> tracker option \<Rightarrow> (string \<rightharpoonup> tracker) \<Rightarrow> (string \<times> string) option option \<Rightarrow> 's rpc_state \<Rightarrow>
   rpc_error + validator_status list" where
  "handleValidatorGetStatus now root subs q S =
     bindE (case q of None \<Rightarrow> Inr ([], []) | Some q' \<Rightarrow> parseParams q') (\<lambda>(pubkey, chain).
       let t = (if chain = [] then root else subs chain);
           p = (if chain = [] then poa_of (rs_root S)
                else case decode_chain_id chain of
                  Inl e \<Rightarrow> None | Inr i \<Rightarrow> Option.bind (context_at (Some i) S) poa_of)
       in case t of
            None \<Rightarrow> Inl (InternalError NoTracker)
          | Some tr \<Rightarrow>
              (case p of
                 None \<Rightarrow> Inr []
               | Some poa \<Rightarrow>
                   if pubkey \<noteq> [] then bindE (decode_pubkey pubkey) (\<lambda>pk. Inr [buildValidatorStatus now tr poa pk])
                   else Inr (map (buildValidatorStatus now tr poa) (poa_validators poa))))"

section \<open>Sub-chains and tokens\<close>

text \<open>The registry entry with height, tip and difficulty of the chain if it runs on this node.\<close>

definition sub_chain_info :: "'s rpc_state \<Rightarrow> sub_chain \<Rightarrow> sub_chain \<times> (u64 \<times> string \<times> u64) option" where
  "sub_chain_info S sc =
     (sc, map_option (\<lambda>cc. let ch = cc_chain cc in
            (ch_height ch, hash_string (ch_tip ch),
             case GetBlockByHeight (en_db (cc_env cc)) (ch_db ch) (ch_height ch) of
               None \<Rightarrow> 0 | Some b \<Rightarrow> h_difficulty (hdr b)))
          (context_at (Some (su_id sc)) S))"

definition handleSubChainList :: "sub_chain list \<Rightarrow> 's rpc_state \<Rightarrow> (sub_chain \<times> (u64 \<times> string \<times> u64) option) list" where
  "handleSubChainList registered S = (if rs_subs S = None then [] else map (sub_chain_info S) registered)"

definition handleSubChainGetInfo ::
  "sub_chain list \<Rightarrow> string option \<Rightarrow> 's rpc_state \<Rightarrow> rpc_error + sub_chain \<times> (u64 \<times> string \<times> u64) option" where
  "handleSubChainGetInfo registered q S =
     bindE (parseParams q) (\<lambda>chain.
       if chain = [] then Inl (InvalidParams MissingParams)
       else if rs_subs S = None then Inl (NotFound NoManager)
       else bindE (decode_chain_id chain) (\<lambda>i.
            case find (\<lambda>sc. su_id sc = i) registered of
              None \<Rightarrow> Inl (NotFound (ChainUnknown i)) | Some sc \<Rightarrow> Inr (sub_chain_info S sc)))"

abbreviation root_token :: "'s rpc_state \<Rightarrow> hash \<Rightarrow> metadata option" where
  "root_token S \<equiv> TokenStore_Get (en_db (cc_env (rs_root S))) (ch_db (cc_chain (rs_root S)))"

definition requireTokenStore :: "bool \<Rightarrow> rpc_error option" where
  "requireTokenStore tokens = (if tokens then None else Some (InternalError NoTokenStore))"

definition handleTokenGetInfo :: "bool \<Rightarrow> string option \<Rightarrow> 's rpc_state \<Rightarrow> rpc_error + metadata" where
  "handleTokenGetInfo tokens q S =
     check (requireTokenStore tokens) (
     bindE (parseParams q) (\<lambda>token.
       if token = [] then Inl (InvalidParams MissingParams)
       else bindE (decode_hash BadTokenID token) (\<lambda>i.
            case root_token S i of None \<Rightarrow> Inl (NotFound TokenMissing) | Some md \<Rightarrow> Inr md)))"

text \<open>Amounts by token, which wrap; \<open>order\<close> is the order of the iteration over the Go map.\<close>

definition add_coin_token :: "utxo \<Rightarrow> amounts \<Rightarrow> amounts" where
  "add_coin_token u m =
     (case u_token u of None \<Rightarrow> m | Some td \<Rightarrow> AList.update (td_id td) (amount_of m (td_id td) + td_amount td) m)"

definition handleTokenGetBalance ::
  "(amounts \<Rightarrow> amounts) \<Rightarrow> bool \<Rightarrow> string option \<Rightarrow> 's rpc_state \<Rightarrow>
   rpc_error + (string \<times> u64 \<times> metadata option) list" where
  "handleTokenGetBalance order tokens q S =
     bindE (parseParams q) (\<lambda>address.
       if address = [] then Inl (InvalidParams MissingParams)
       else bindE (decodeAddress address) (\<lambda>a.
            Inr (map (\<lambda>(i, amount). (hash_string i, amount, if tokens then root_token S i else None))
                   (order (fold add_coin_token (coins_of (rs_root S) a) [])))))"

definition handleTokenList :: "bool \<Rightarrow> 's rpc_state \<Rightarrow> rpc_error + (string \<times> metadata) list" where
  "handleTokenList tokens S =
     check (requireTokenStore tokens)
       (Inr (map (\<lambda>(i, md). (hash_string i, md)) (TokenStore_List (en_db (cc_env (rs_root S))) (ch_db (cc_chain (rs_root S))))))"

section \<open>External miners\<close>

definition template_reward :: "consensus_rules \<Rightarrow> u64 \<Rightarrow> u64" where
  "template_reward R supply_now =
     (let reward = cr_block_reward R; maxSupply = cr_max_supply R
      in if maxSupply > 0 then
           (if supply_now \<ge> maxSupply then 0
            else if supply_now + reward > maxSupply then maxSupply - supply_now else reward)
         else reward)"

definition mining_block :: "crypto \<Rightarrow> iteration \<Rightarrow> 's chain_context \<Rightarrow> pow \<Rightarrow> address \<Rightarrow> u64 \<Rightarrow> block" where
  "mining_block C order cc w addr now =
     (let ch = cc_chain cc; R = pc_consensus (gen_protocol (cc_genesis cc));
          selected = SelectForBlock order 499 (cc_pool cc);
          fees = sum_list (map (\<lambda>t. GetFee (cc_pool cc) (TxHash C t)) selected);
          height = ch_height ch + 1;
          txs = BuildCoinbase addr (template_reward R (ch_supply ch) + fees) height # sort_key (TxHash C) selected;
          timestamp = (if now \<le> ch_tip_time ch then ch_tip_time ch + 1 else now);
          h = \<lparr>h_version = CurrentVersion, h_prev = ch_tip ch, h_merkle = ComputeMerkleRoot C (map (TxHash C) txs),
               h_timestamp = timestamp, h_height = height, h_difficulty = 0, h_nonce = 0, h_sig = []\<rparr>
      in \<lparr>b_header = Some (PoW_Prepare w h), b_txs = txs\<rparr>)"

record mining_template =
  mt_block :: block
  mt_target :: string
  mt_difficulty :: u64
  mt_height :: u64
  mt_prev :: string

text \<open>A division by a zero difficulty panics.\<close>

definition handleMiningGetBlockTemplate ::
  "'k rpc_config \<Rightarrow> u64 \<Rightarrow> (string \<times> string) option \<Rightarrow> 's rpc_state \<Rightarrow> rpc_error + mining_template" where
  "handleMiningGetBlockTemplate W now q S =
     check (requireSubChainManager S) (
     bindE (parseParams q) (\<lambda>(chain, coinbase).
       if chain = [] \<or> coinbase = [] then Inl (InvalidParams MissingParams)
       else bindE (sub_context chain S) (\<lambda>(i, cc).
            case ch_engine (cc_chain cc) of
              EnginePoA p \<Rightarrow> Inl (InvalidParams NotPoW)
            | EnginePoW w \<Rightarrow>
                bindE (decodeAddress coinbase) (\<lambda>addr.
                let b = mining_block (rc_crypto W) (rc_order W) cc w addr now; d = h_difficulty (hdr b) in
                if d = 0 then Inl RequestPanic
                else Inr \<lparr>mt_block = b, mt_target = hash_string (word_of_nat (pow_target d)), mt_difficulty = d,
                          mt_height = ch_height (cc_chain cc) + 1, mt_prev = hash_string (ch_tip (cc_chain cc))\<rparr>))))"

text \<open>The block that is announced to the peers of the sub-chain, if any, is part of the result.\<close>

definition handleMiningSubmitBlock ::
  "'k rpc_config \<Rightarrow> u64 \<Rightarrow> (string \<times> block option) option \<Rightarrow> 's rpc_state \<Rightarrow>
   's rpc_state \<times> block option \<times> (rpc_error + hash \<times> u64)" where
  "handleMiningSubmitBlock W now q S =
     (case check (requireSubChainManager S) (
           bindE (parseParams q) (\<lambda>(chain, bp).
             case bp of
               None \<Rightarrow> Inl (InvalidParams MissingParams)
             | Some b \<Rightarrow>
                 if chain = [] then Inl (InvalidParams MissingParams)
                 else bindE (sub_context chain S) (\<lambda>(i, cc). Inr (i, cc, b)))) of
        Inl e \<Rightarrow> (S, None, Inl e)
      | Inr (i, cc, b) \<Rightarrow>
          (case ProcessBlock (cc_env cc) now b (cc_chain cc) of
             (ch, Some e) \<Rightarrow> (set_context (Some i) (cc\<lparr>cc_chain := ch\<rparr>) S, None, Inl (InvalidParams (BlockRejected e)))
           | (ch, None) \<Rightarrow>
               (set_context (Some i) (cc\<lparr>cc_chain := ch, cc_pool := RemoveConfirmed (rc_crypto W) (b_txs b) (cc_pool cc)\<rparr>) S,
                if rc_p2p W then Some b else None,
                Inr (HeaderHash (rc_crypto W) (hdr b), h_height (hdr b)))))"

end
