(* ===== verification/QueryProps.thy ===== *)
theory QueryProps
  imports Queries PaymentProps
begin

text \<open>
  What the endpoints of \<open>Queries\<close> promise: a template for external miners is the block the node's own
  miner would seal (but for a sum that wraps), and a submitted transaction is found by its
  hash until the pool lets it go.
\<close>

section \<open>Templates for external miners\<close>

lemma template_reward_capped:
  fixes R :: consensus_rules and supply_now height :: u64 and addr :: address
  defines "wraps \<equiv> supply_now < cr_max_supply R \<and> 2 ^ 64 \<le> unat supply_now + unat (cr_block_reward R)"
    and "r \<equiv> capped_reward (Miner_New addr (cr_block_reward R) (cr_max_supply R) (Some supply_now)) height"
  assumes "height > 0"
  shows "\<not> wraps \<Longrightarrow> template_reward R supply_now = r"
    and "wraps \<Longrightarrow> template_reward R supply_now = cr_block_reward R \<and> r = cr_max_supply R - supply_now \<and> r < cr_block_reward R"
proof -
  let ?r = "cr_block_reward R" and ?max = "cr_max_supply R"
  have r: "r = (if ?max > 0 then if supply_now \<ge> ?max then 0 else if ?r > ?max - supply_now then ?max - supply_now else ?r else ?r)"
    using assms(3) by (auto simp: r_def BlockSubsidy_def capped_reward_def Miner_New_def Let_def)
  have "supply_now + ?r > ?max \<longleftrightarrow> ?r > ?max - supply_now" if "\<not> wraps" "\<not> supply_now \<ge> ?max"
    using that unfolding wraps_def
    by (simp add: word_less_nat_alt word_le_nat_alt unat_add_u64 unat_sub_u64) linarith
  then show "\<not> wraps \<Longrightarrow> template_reward R supply_now = r" by (simp add: template_reward_def r Let_def)
  assume w: "wraps"
  then have lt: "unat supply_now < unat ?max" by (simp add: wraps_def word_less_nat_alt)
  have "?max - supply_now < ?r"
    using w lt unsigned_less [of ?max, where 'a = nat] by (simp add: wraps_def word_less_nat_alt word_le_nat_alt unat_sub_u64)
  moreover have "unat (supply_now + ?r) = unat supply_now + unat ?r - 2 ^ 64"
    using w unsigned_less [of supply_now, where 'a = nat] unsigned_less [of ?r, where 'a = nat]
    by (simp add: wraps_def unat_word_ariths mod_if)
  then have "\<not> supply_now + ?r > ?max"
    using lt unsigned_less [of ?r, where 'a = nat] by (simp add: word_less_nat_alt)
  moreover have "?max > 0" "\<not> supply_now \<ge> ?max" using lt by (simp_all add: word_less_nat_alt word_le_nat_alt)
  ultimately show "template_reward R supply_now = ?r \<and> r = ?max - supply_now \<and> r < ?r"
    by (simp add: template_reward_def r Let_def)
qed

text \<open>
  C33: The template that an external miner of a sub-chain asks for is exactly the block that the node's
  own miner would build at the same moment and hand to the proof-of-work search, unless the supply is below the
  maximum and its sum with the reward does not fit 64 bits. The guard of the template adds where the miner
  subtracts, and in that case the template's coinbase has the full reward, above what the miner takes, which is
  the rest of the supply. The target sent with the template is the bound that the chain checks: a nonce is proof of
  work if and only if the header hash is at most the target. (The height is below the last one.)
\<close>

theorem mining_template_is_miners:
  assumes t: "handleMiningGetBlockTemplate W now (Some (chain, coinbase)) S = Inr t"
    and cc: "sub_context chain S = Inr (i, cc)" "ch_engine ch = EnginePoW w" "ch = cc_chain cc"
    and R: "R = pc_consensus (gen_protocol (cc_genesis cc))"
    and height: "ch_height ch < max_u64"
    and pool: "pool = Some (pool_selector (rc_order W) (cc_pool cc))"
    and m: "m = (\<lambda>addr. Miner_New addr (cr_block_reward R) (cr_max_supply R) (Some (ch_supply ch)))"
  shows "\<exists>addr target. ParseAddress coinbase = Inr addr \<and> HexToHash (mt_target t) = Inr target \<and>
    (if ch_supply ch < cr_max_supply R \<and> 2 ^ 64 \<le> unat (ch_supply ch) + unat (cr_block_reward R)
     then hd (b_txs (mt_block t)) = BuildCoinbase addr
         (cr_block_reward R + total_fees (rc_crypto W) pool (selected_txs pool (m addr))) (ch_height ch + 1) \<and>
       capped_reward (m addr) (ch_height ch + 1) = cr_max_supply R - ch_supply ch \<and>
       cr_max_supply R - ch_supply ch < cr_block_reward R
     else \<forall>cancel. produceBlock (rc_crypto W) cancel (EnginePoW w) (chain_state_of ch) pool (m addr) now =
       (case SealWithCancel (rc_crypto W) cancel (mt_block t) of Inl e \<Rightarrow> Inl (PowErr e) | Inr b \<Rightarrow> Inr b)) \<and>
    (\<forall>nonce. let h = (hdr (mt_block t))\<lparr>h_nonce := nonce\<rparr> in
       PoW_VerifyHeader (rc_crypto W) h = None \<longleftrightarrow> Hash (rc_crypto W) (HeaderSigningBytes h) \<le> target)"
proof -
  let ?C = "rc_crypto W"
  obtain addr where addr: "ParseAddress coinbase = Inr addr"
    and d: "h_difficulty (hdr (mining_block ?C (rc_order W) cc w addr now)) \<noteq> 0"
    and t': "mt_block t = mining_block ?C (rc_order W) cc w addr now"
      "mt_target t = hash_string (word_of_nat (pow_target (h_difficulty (hdr (mt_block t)))))"
    using t cc by (auto simp: handleMiningGetBlockTemplate_def err_simps decodeAddress_def Let_def split: sum.splits if_splits)
  have "unat (ch_height ch + 1) = unat (ch_height ch) + 1" using height by unat_arith
  then have "ch_height ch + 1 > 0" by (simp add: word_less_nat_alt)
  note reward = template_reward_capped [OF this, of "ch_supply ch" R addr]
  have addr_m: "mi_addr (m addr) = addr" by (simp add: m Miner_New_def)
  have "mi_max_txs (m addr) - 1 = 499" by (simp add: m Miner_New_def MaxBlockTxs_def)
  then have selected: "selected_txs pool (m addr) = SelectForBlock (rc_order W) 499 (cc_pool cc)"
    by (simp add: selected_txs_def pool pool_selector_def)
  have fees: "total_fees ?C pool ts = sum_list (map (\<lambda>t. GetFee (cc_pool cc) (TxHash ?C t)) ts)" for ts
    by (simp add: total_fees_def pool pool_selector_def)
  have "hd (b_txs (mt_block t)) = BuildCoinbase addr
      (template_reward R (ch_supply ch) + total_fees ?C pool (selected_txs pool (m addr))) (ch_height ch + 1)"
    by (simp add: t'(1) mining_block_def Let_def selected fees R cc(3))
  moreover have "produceBlock ?C cancel (EnginePoW w) (chain_state_of ch) pool (m addr) now =
      (case SealWithCancel ?C cancel (mt_block t) of Inl e \<Rightarrow> Inl (PowErr e) | Inr b \<Rightarrow> Inr b)"
    if "template_reward R (ch_supply ch) = capped_reward (m addr) (ch_height ch + 1)" for cancel
  proof -
    obtain hd0 txs where tmpl: "block_template ?C (chain_state_of ch) pool (m addr) now = (hd0, txs)" by fastforce
    then have "mt_block t = \<lparr>b_header = Some (PoW_Prepare w hd0), b_txs = txs\<rparr>"
      using that unfolding t'(1) mining_block_def block_template_def Let_def
      by (auto simp: chain_state_of_def selected fees addr_m simp flip: R cc(3))
    then show ?thesis by (simp add: produceBlock_def tmpl Engine_Prepare_def)
  qed
  moreover have "HexToHash (mt_target t) = Inr (word_of_nat (pow_target (h_difficulty (hdr (mt_block t)))))"
    by (simp add: t'(2) HexToHash_def hash_string_def hex_roundtrip)
  moreover have "PoW_VerifyHeader ?C ((hdr (mt_block t))\<lparr>h_nonce := nonce\<rparr>) = None \<longleftrightarrow>
      Hash ?C (HeaderSigningBytes ((hdr (mt_block t))\<lparr>h_nonce := nonce\<rparr>)) \<le> word_of_nat (pow_target (h_difficulty (hdr (mt_block t))))" for nonce
  proof -
    have "pow_target x \<le> maxUint256" for x by (simp only: pow_target_def div_le_dividend)
    then have "pow_target x < 2 ^ 256" for x by (rule le_less_trans) (simp add: maxUint256_def)
    then show ?thesis using d
      by (simp add: PoW_VerifyHeader_def t'(1) word_le_nat_alt unat_of_nat take_bit_nat_eq_self not_less)
  qed
  ultimately show ?thesis using addr reward unfolding m by (auto simp: Let_def)
qed

definition demo_sub_server :: "dbval memory_db rpc_state" where
  "demo_sub_server = demo_server\<lparr>rs_subs := Some [5 \<mapsto> demo_context]\<rparr>"

theorem mining_template_is_miners_witness:
  "\<exists>t target. handleMiningGetBlockTemplate demo_rpc 1770734200
      (Some (hash_string 5, ''0000000000000000000000000000000000000000'')) demo_sub_server = Inr t \<and>
    HexToHash (mt_target t) = Inr target \<and>
    (\<forall>nonce. let h = (hdr (mt_block t))\<lparr>h_nonce := nonce\<rparr> in
       PoW_VerifyHeader size_crypto h = None \<longleftrightarrow> Hash size_crypto (HeaderSigningBytes h) \<le> target)"
proof -
  let ?q = "Some (hash_string 5, ''0000000000000000000000000000000000000000'')"
  let ?w = "\<lparr>pow_initial = 1, pow_adjust = 0, pow_block_time = 3, pow_difficulty_fn = None, pow_threads = 1\<rparr>"
  have sub: "sub_context (hash_string 5) demo_sub_server = Inr (5, demo_context)"
    by (simp add: sub_context_def decode_chain_id_def hash_string_def hex_roundtrip context_at_def demo_sub_server_def err_simps)
  have engine: "ch_engine (cc_chain demo_context) = EnginePoW ?w" by (simp add: demo_context_def demo_engine_def)
  have "h_difficulty (hdr (mining_block size_crypto order demo_context ?w addr now)) = 1" for order addr now
    by (simp add: mining_block_def PoW_Prepare_def Let_def)
  moreover have "hash_string 5 \<noteq> []" by code_simp
  ultimately obtain t where t: "handleMiningGetBlockTemplate demo_rpc 1770734200 ?q demo_sub_server = Inr t"
    using sub engine by (auto simp: handleMiningGetBlockTemplate_def err_simps requireSubChainManager_def demo_sub_server_def
      parseParams_def decodeAddress_def demo_parsed demo_rpc_def Let_def)
  show ?thesis
    using t mining_template_is_miners [OF t sub engine refl refl _ refl refl]
    by (simp add: demo_context_def demo_genesis_def demo_consensus_rules_def demo_rpc_def) metis
qed

section \<open>Submitting and looking up\<close>

lemma resolveChain_context: "resolveChain chain S = Inr (c, cc) \<Longrightarrow> context_at c S = Some cc"
  by (auto simp: resolveChain_def sub_context_def context_at_def err_simps split: if_splits option.splits sum.splits)

lemma resolveChain_set:
  assumes "resolveChain chain S = Inr (c, cc)"
  shows "resolveChain chain (set_context c cc' S) = Inr (c, cc')"
  using assms
  by (auto simp: resolveChain_def sub_context_def context_at_def set_context_def err_simps split: if_splits option.splits sum.splits)

lemma resolveChain_sent [simp]: "resolveChain chain (S\<lparr>rs_sent := l\<rparr>) = resolveChain chain S"
  by (simp add: resolveChain_def sub_context_def context_at_def)

lemma context_at_set_other: "c' \<noteq> c \<Longrightarrow> context_at c' (set_context c cc S) = context_at c' S"
  by (cases "rs_subs S") (auto simp: context_at_def set_context_def split: option.splits)

lemma context_at_sent [simp]: "context_at c (S\<lparr>rs_sent := l\<rparr>) = context_at c S"
  by (simp add: context_at_def split: option.split)

lemma rs_sent_set [simp]: "rs_sent (set_context c cc S) = rs_sent S"
  by (simp add: set_context_def split: option.splits)

lemma decode_hash_string: "decode_hash r (hash_string h) = Inr h"
  by (simp add: decode_hash_def hash_string_def hex_roundtrip)

lemma hash_string_ne: "hash_string h \<noteq> []"
proof -
  have "length (hash_string h) = 64" by (simp add: hash_string_def)
  then show ?thesis by auto
qed

text \<open>
  C35: What is submitted is found: when a submission is answered with a hash, the hash is that of the
  transaction, a lookup of its text on the same chain returns the very transaction, no other chain of
  the node has changed, and the transaction is broadcast exactly if the request named no chain and the
  node has peers: a transaction for a sub-chain stays in this node.
\<close>

theorem submitted_tx_found:
  assumes ok: "resolveChain chain S = Inr (c, cc)" "pool_ok (rc_crypto W) (cc_pool cc)" and fair: "fair (rc_order W)"
    and sub: "handleTxSubmit W (Some (chain, Some t)) S = (S', Inr h)"
  shows "h = TxHash (rc_crypto W) t \<and> handleChainGetTransaction (Some (chain, hash_string h)) S' = Inr t \<and>
    (\<forall>c'. c' \<noteq> c \<longrightarrow> context_at c' S' = context_at c' S) \<and>
    rs_sent S' = rs_sent S @ (if chain = [] \<and> rc_p2p W then [(None, t)] else [])"
proof -
  obtain p fee where add: "Pool_Add (rc_crypto W) (rc_order W) (pool_view_of (cc_env cc) (cc_chain cc)) t (cc_pool cc) = (p, Inr fee)"
    and h: "h = TxHash (rc_crypto W) t"
    and S': "S' = (let S1 = set_context c (cc\<lparr>cc_pool := p\<rparr>) S
                   in if c = None \<and> rc_p2p W then S1\<lparr>rs_sent := rs_sent S1 @ [(None, t)]\<rparr> else S1)"
    using sub ok(1) by (auto simp: handleTxSubmit_def parseParams_def err_simps Let_def split: prod.splits sum.splits)
  have "c = None \<longleftrightarrow> chain = []"
    using ok(1) by (auto simp: resolveChain_def err_simps split: if_splits sum.splits)
  moreover have "resolveChain chain S' = Inr (c, cc\<lparr>cc_pool := p\<rparr>)"
    using resolveChain_set [OF ok(1)] by (auto simp: S' Let_def)
  moreover obtain e where "DAList.lookup (po_txs p) h = Some e" "me_tx e = t"
    using Pool_Add_holds [OF ok(2) fair add] h by blast
  ultimately show ?thesis
    by (simp add: h S' handleChainGetTransaction_def parseParams_def err_simps hash_string_ne decode_hash_string
        Pool_Get_def Let_def context_at_set_other)
qed

theorem submitted_tx_found_witness:
  "\<exists>S' h. handleTxSubmit demo_rpc (Some (hash_string 5, Some demo_payment)) demo_sub_server = (S', Inr h) \<and>
     handleChainGetTransaction (Some (hash_string 5, hash_string h)) S' = Inr demo_payment \<and>
     context_at None S' = Some demo_context \<and> rs_sent S' = []"
proof -
  have "\<exists>p. Pool_Add size_crypto (\<lambda>bs. bs) (pool_view_of (cc_env demo_context) (cc_chain demo_context)) demo_payment
      (Pool_New 10) = (p, Inr 1220)"
    by (simp add: Pool_Add_def demo_admitted) (simp add: Pool_Count_def Pool_New_def Let_def DAList.empty.rep_eq)
  moreover have "sub_context (hash_string 5) demo_sub_server = Inr (5, demo_context)"
    by (simp add: sub_context_def decode_chain_id_def hash_string_def hex_roundtrip context_at_def demo_sub_server_def err_simps)
  then have chain: "resolveChain (hash_string 5) demo_sub_server = Inr (Some 5, demo_context)"
    by (simp add: resolveChain_def hash_string_ne err_simps) (simp add: demo_sub_server_def)
  ultimately obtain S' h where
    sent: "handleTxSubmit demo_rpc (Some (hash_string 5, Some demo_payment)) demo_sub_server = (S', Inr h)"
    by (auto simp: handleTxSubmit_def parseParams_def err_simps demo_context_simps demo_rpc_def Let_def)
  have "pool_ok (rc_crypto demo_rpc) (cc_pool demo_context)" "fair (rc_order demo_rpc)"
    using pool_run_ok [OF pool_run.new] by (simp_all add: demo_rpc_def demo_context_simps)
  note found = submitted_tx_found [OF chain this sent]
  have "context_at None demo_sub_server = Some demo_context" "rs_sent demo_sub_server = []"
    by (simp_all add: context_at_def demo_sub_server_def demo_server_def)
  then have "context_at None S' = Some demo_context" "rs_sent S' = []"
    using found by (simp_all add: hash_string_ne)
  then show ?thesis using sent found by blast
qed

end
