(* ===== verification/Spec2Isabelle.thy ===== *)
theory Spec2Isabelle
  imports ChainProps Switch Consensus SubChains Sync Stakes HistoryProps Rescan QueryProps
begin

text \<open>
  A verification development for Klingnet, a UTXO blockchain node in Go with proof-of-work and
  proof-of-authority consensus, tokens and registered sub-chains.

  \<^bold>\<open>How the program is put together.\<close>
  A transaction (\<open>pkg/tx\<close>) spends outputs named by outpoints (\<open>pkg/types\<close>) and is signed over its
  canonical bytes (\<open>pkg/crypto\<close>). Blocks (\<open>pkg/block\<close>) carry transactions under a Merkle root and
  a header that a consensus engine (\<open>internal/consensus\<close>) prepares, seals and verifies. The chain
  (\<open>internal/chain\<close>) validates a block against the UTXO set (\<open>internal/utxo\<close>), connects it, and
  disconnects blocks in a reorganisation; its documents live in a key-value store
  (\<open>internal/storage\<close>). The mempool (\<open>internal/mempool\<close>) holds pending transactions, the miner
  (\<open>internal/miner\<close>) turns them into blocks, the sub-chain manager (\<open>internal/subchain\<close>) spawns
  further chains behind key prefixes of the same store. The node (\<open>internal/node\<close>) feeds all of
  them from the peers it knows (\<open>internal/p2p\<close>).

  \<^bold>\<open>Theories and the code they model.\<close>
  \<^item> \<open>Prelude\<close>: machine words, first-error loops, byte encodings, guarded \<open>uint64\<close> sums.
  \<^item> \<open>Types\<close>, \<open>Bech32\<close> (\<open>pkg/types\<close>): hashes, addresses, outpoints, scripts; text forms.
  \<^item> \<open>Crypto\<close> (\<open>pkg/crypto\<close>): the record \<open>crypto\<close> holds BLAKE3 and Schnorr as parameters; laws that
    a theorem needs of them (a signature made with a key verifies) are named hypotheses there.
  \<^item> \<open>Config\<close> (\<open>config\<close>): protocol rules, genesis validation, the subsidy schedule.
  \<^item> \<open>Tx\<close> (\<open>pkg/tx\<close>), \<open>Block\<close> (\<open>pkg/block\<close>): data, canonical bytes, validation, builder, fees.
  \<^item> \<open>Storage\<close> (\<open>internal/storage\<close>): the DB interface as the record \<open>kvdb\<close> of operations on a state,
    \<open>MemoryDB\<close>, \<open>PrefixDB\<close> and batches. The locale \<open>kv_store\<close> states what a client relies on; it is
    interpreted for the memory database and for the key space behind a prefix.
  \<^item> \<open>Utxo\<close> (\<open>internal/utxo\<close>): the UTXO store with its address and stake indexes and the commitment.
    The locale \<open>utxo_set\<close> is the Go interface \<open>Set\<close>; \<open>doc_store\<close> is a store of documents, and a
    sublocale gives the UTXO set on it. JSON documents are the datatype \<open>dbval\<close>.
  \<^item> \<open>Token\<close> (\<open>internal/token\<close>): token ids, conservation, mint data, the metadata store.
  \<^item> \<open>PoW\<close>, \<open>PoA\<close>, \<open>Consensus\<close> (\<open>internal/consensus\<close>): mining in one and in several goroutines (the
    outcome of every interleaving), difficulty adjustment; slots, stakes, signing limit and
    suspension; the two engines behind one interface, with the locale \<open>sealing_engine\<close>.
  \<^item> \<open>ChainStore\<close>, \<open>Chain\<close>, \<open>Reorg\<close> (\<open>internal/chain\<close>): the block store with its indexes and the
    rebuild; validation against the state, rewards, application and undo; genesis, start-up and
    recovery, \<open>ProcessBlock\<close>, \<open>Reorg\<close> and its rebuild path. The chain state is the record \<open>chain\<close>
    over the database state \<open>ch_db\<close>; callbacks are the log \<open>ch_log\<close> and handlers of the record \<open>env\<close>.
  \<^item> \<open>FeeRate\<close>, \<open>Mempool\<close> (\<open>internal/mempool\<close>), \<open>Miner\<close> (\<open>internal/miner\<close>).
  \<^item> \<open>Registration\<close>, \<open>SubChains\<close> (\<open>internal/subchain\<close>): anchors, registration data, the registry
    and its persistence; spawning, the manager, restore.
  \<^item> \<open>Peers\<close> (\<open>internal/p2p\<close>): ban scores, bans and known peers with their documents, handshake and
    heartbeat checks. \<open>Node\<close> (\<open>internal/node\<close>): the handlers of gossip, requests and the decisions of
    block production over the record \<open>node\<close>. \<open>Sync\<close>: rounds of sync and fork resolution against a
    network that is an unknown world (\<open>network\<close>) and may answer anything.
  \<^item> \<open>Wallet\<close>, \<open>Keystore\<close> (\<open>internal/wallet\<close>): coin selection, hierarchical keys over BIP-32; encrypted
    wallet files with their accounts and indexes, over the parameters \<open>cipher\<close> and \<open>bip39\<close>.
  \<^item> \<open>Payments\<close>, \<open>PaymentProps\<close>, \<open>Stakes\<close> (\<open>internal/rpc/wallet_handlers.go\<close>): the wallet endpoints as
    functions on the record \<open>rpc_state\<close> (keystore, chains with their pools, broadcasts).
  \<^item> \<open>History\<close>, \<open>TxIndex\<close> (\<open>wallet_handlers.go\<close>, \<open>wallet_index.go\<close>): the classification of transactions,
    the persistent history index with its key layout, the history endpoint with and without it, the
    rescan. \<open>HistoryIndex\<close> has the locale \<open>tx_index\<close>, an extension of \<open>kv_store\<close> by the layout of keys,
    which \<open>HistoryProps\<close> interprets for the memory database; \<open>HistoryEntries\<close> and \<open>Rescan\<close> are about the
    entries and the rescan.
  \<^item> \<open>Queries\<close>, \<open>QueryProps\<close> (\<open>handlers.go\<close>): the endpoints for blocks, transactions, coins, balances,
    submission, stakes, validators, sub-chains, tokens and external miners.

  \<^bold>\<open>What the lemmas show.\<close>
  \<open>Supply\<close>, \<open>Issuance\<close>, \<open>ChainRun\<close> and \<open>Reach\<close> follow a chain from genesis through blocks and
  restarts (the inductive predicate \<open>run\<close>): the locale \<open>chain_env\<close> is a chain on its own document
  store, interpreted for the root chain and for every sub-chain, and its invariant
  \<open>run_invariant\<close> gives coins, supply, persistence and the path of blocks. \<open>ChainProps\<close> states
  them for the root chain, \<open>SubChains\<close> for spawned chains; \<open>Undo\<close> shows that disconnecting
  inverts connecting, and \<open>Switch\<close> what a whole reorganisation does: back to the fork, then the other branch.
  \<open>Peers\<close> follows the histories of a ban manager (\<open>ban_run\<close>) through restarts;
  \<open>Sync\<close> shows that a round ends against all peers, and how it can be made to panic. \<open>Mempool\<close> has the invariant of the pool (\<open>pool_run\<close>), \<open>Miner\<close> composes pool,
  miner, engine and chain. \<open>PaymentProps\<close> and \<open>Stakes\<close> show what payments spend and create and where the
  endpoints go wrong, on a wallet of their own. \<open>HistoryProps\<close> compares the history index with a scan
  of the chain, along runs on which the chain only grows (\<open>history_run\<close>), and shows what it keeps after a
  reorganisation. \<open>QueryProps\<close> compares the template for external miners with the node's own block. \<open>Demo\<close> is a concrete chain on which theorems are applied.

  \<^bold>\<open>Conventions.\<close>
  \<open>uint64\<close>, \<open>uint32\<close> and bytes are words, and sums wrap as in Go; \<open>int\<close> values that stay small are
  \<open>int\<close> or \<open>nat\<close>. Errors are values (\<open>option\<close> or a sum). Locks make each method atomic and are not
  modelled. The order in which Go iterates over a map is a parameter (\<open>fair\<close> where it must be a
  permutation). Loops are recursive functions, structural or
  with a termination proof, so no definition uses fuel. Loops that may not end are a \<open>partial_function\<close>:
  the download of blocks, whose loop depends on what peers send (\<open>sync_round_returns\<close> proves that it
  returns), the gap-limit scan (\<open>discovery_finds_used\<close>), and the loops over heights up to and with a
  bound (indexing, rescan), which do not end when the bound is the largest \<open>uint64\<close>. The clock is an argument.

  \<^bold>\<open>Hypotheses.\<close>
  Runs (\<open>run\<close>) exclude a block that starts a reorganisation (\<open>no_fork\<close>) and one at the last 64-bit
  height; a genesis block must not hash to the zero hash, which the code uses for "no tip".

  \<^bold>\<open>Not modelled.\<close>
  Failures of the database itself (the Badger wrapper), JSON texts, key generation and memory
  zeroing, libp2p, HTTP, the dispatch, the address filter and the peer listings of the RPC server and its
  client, the wiring and the goroutines of the node
  (its handlers are atomic: no block of one's own is produced within a round of sync), commands and
  user interfaces. Runs stop at a reorganisation; \<open>Switch\<close> covers a
  reorganisation by undo data from any sound state. The replay from genesis when undo data is missing is
  modelled (\<open>rebuildReorg\<close>) without theorems.
\<close>

end
